(* ===== verification/Json.thy ===== *)
theory Json
  imports Prelude
begin

text \<open>
  The JavaScript values the engine receives as request bodies and stores as event payloads:
  what \<open>JSON.parse\<close> can produce, property access, truthiness, \<open>String(x)\<close>,
  \<open>JSON.stringify\<close> and \<open>TextEncoder\<close>. An absent property (\<open>undefined\<close>) is \<open>None\<close>.

  Numbers are rationals: JSON has no \<open>NaN\<close>, and a literal that overflows to \<open>Infinity\<close> is
  outside the model. Strings are lists of 8-bit characters, so a character is one UTF-16 code
  unit below 256. The decimal text of a number that is not an integer below \<open>10^21\<close> is the
  parameter \<open>num_repr\<close>.
\<close>

datatype json =
    JNull
  | JBool bool
  | JNum rat
  | JStr string
  | JArr "json list"
  | JObj "(string \<times> json) list"

section \<open>Property access and tests\<close>

text \<open>\<open>x[k]\<close>: only a plain object has properties with the names the code reads.\<close>

fun jget :: "json \<Rightarrow> string \<Rightarrow> json option" where
  "jget (JObj kvs) k = map_of kvs k"
| "jget _ k = None"

text \<open>\<open>typeof x === "object" && x !== null\<close>, then also \<open>!Array.isArray(x)\<close>.\<close>

fun is_object :: "json option \<Rightarrow> bool" where
  "is_object (Some (JObj _)) = True"
| "is_object (Some (JArr _)) = True"
| "is_object _ = False"

fun is_plain_object :: "json option \<Rightarrow> bool" where
  "is_plain_object (Some (JObj _)) = True"
| "is_plain_object _ = False"

fun as_string :: "json option \<Rightarrow> string option" where
  "as_string (Some (JStr s)) = Some s"
| "as_string _ = None"

fun as_object :: "json option \<Rightarrow> (string \<times> json) list option" where
  "as_object (Some (JObj kvs)) = Some kvs"
| "as_object _ = None"

fun as_number :: "json option \<Rightarrow> rat option" where
  "as_number (Some (JNum q)) = Some q"
| "as_number _ = None"

text \<open>\<open>x === undefined || x === null\<close>.\<close>

definition is_nullish :: "json option \<Rightarrow> bool" where
  "is_nullish v \<longleftrightarrow> v = None \<or> v = Some JNull"

text \<open>The values for which \<open>!x\<close> holds.\<close>

fun falsy :: "json option \<Rightarrow> bool" where
  "falsy None = True"
| "falsy (Some JNull) = True"
| "falsy (Some (JBool b)) = (\<not> b)"
| "falsy (Some (JNum q)) = (q = 0)"
| "falsy (Some (JStr s)) = (s = [])"
| "falsy (Some _) = False"

section \<open>Text of values\<close>

definition rat_is_int :: "rat \<Rightarrow> bool" where
  "rat_is_int q \<longleftrightarrow> of_int \<lfloor>q\<rfloor> = q"

definition show_num :: "(rat \<Rightarrow> string) \<Rightarrow> rat \<Rightarrow> string" where
  "show_num num_repr q =
     (if rat_is_int q \<and> \<bar>q\<bar> < 10 ^ 21 then show_int \<lfloor>q\<rfloor> else num_repr q)"

fun join_with :: "string \<Rightarrow> string list \<Rightarrow> string" where
  "join_with sep [] = []"
| "join_with sep [x] = x"
| "join_with sep (x # xs) = x @ sep @ join_with sep xs"

text \<open>
  \<open>String(x)\<close>: what a regular expression's \<open>test\<close> does to an argument that is not a string.
  An array is its elements joined by commas, with \<open>null\<close> as the empty string.
\<close>

primrec to_str :: "(rat \<Rightarrow> string) \<Rightarrow> json \<Rightarrow> string" where
  "to_str nr JNull = ''null''"
| "to_str nr (JBool b) = (if b then ''true'' else ''false'')"
| "to_str nr (JNum q) = show_num nr q"
| "to_str nr (JStr s) = s"
| "to_str nr (JArr xs) =
     join_with '','' (map (\<lambda>(x, t). if x = JNull then [] else t) (zip xs (map (to_str nr) xs)))"
| "to_str nr (JObj kvs) = ''[object Object]''"

text \<open>Array-index keys of an object are enumerated first, in numeric order (ECMA-262,
  OrdinaryOwnPropertyKeys); the other keys follow in insertion order.\<close>

definition is_array_index :: "string \<Rightarrow> bool" where
  "is_array_index k \<longleftrightarrow>
     list_all is_digit k \<and> k \<noteq> [] \<and> show_nat (nat_of_digits k) = k \<and> nat_of_digits k < 2 ^ 32 - 1"

definition js_order :: "(string \<times> 'a) list \<Rightarrow> (string \<times> 'a) list" where
  "js_order kvs =
     sort_key (\<lambda>p. nat_of_digits (fst p)) (filter (\<lambda>p. is_array_index (fst p)) kvs) @
     filter (\<lambda>p. \<not> is_array_index (fst p)) kvs"

definition hex_digit :: "nat \<Rightarrow> char" where
  "hex_digit d = (if d < 10 then char_of (48 + d) else char_of (87 + d))"

text \<open>The escapes of \<open>JSON.stringify\<close> (QuoteJSONString).\<close>

definition escape_char :: "char \<Rightarrow> string" where
  "escape_char c =
     (let n = of_char c :: nat; bs = char_of (92::nat) in
      if n = 8 then [bs, CHR ''b'']
      else if n = 9 then [bs, CHR ''t'']
      else if n = 10 then [bs, CHR ''n'']
      else if n = 12 then [bs, CHR ''f'']
      else if n = 13 then [bs, CHR ''r'']
      else if n = 34 \<or> n = 92 then [bs, c]
      else if n < 32 then [bs, CHR ''u'', CHR ''0'', CHR ''0'', hex_digit (n div 16), hex_digit (n mod 16)]
      else [c])"

definition quote_str :: "string \<Rightarrow> string" where
  "quote_str s = [CHR 0x22] @ concat (map escape_char s) @ [CHR 0x22]"

primrec stringify :: "(rat \<Rightarrow> string) \<Rightarrow> json \<Rightarrow> string" where
  "stringify nr JNull = ''null''"
| "stringify nr (JBool b) = (if b then ''true'' else ''false'')"
| "stringify nr (JNum q) = show_num nr q"
| "stringify nr (JStr s) = quote_str s"
| "stringify nr (JArr xs) = ''['' @ join_with '','' (map (stringify nr) xs) @ '']''"
| "stringify nr (JObj kvs) =
     ''{'' @ join_with '',''
       (map (\<lambda>(k, t). quote_str k @ '':'' @ t) (js_order (map (map_prod id (stringify nr)) kvs))) @ ''}''"

text \<open>\<open>new TextEncoder().encode(s)\<close>: one byte below 128, two bytes below 256.\<close>

definition utf8_char :: "char \<Rightarrow> bytes" where
  "utf8_char c =
     (let n = of_char c :: nat in
      if n < 128 then [of_nat n] else [of_nat (192 + n div 64), of_nat (128 + n mod 64)])"

definition utf8 :: "string \<Rightarrow> bytes" where
  "utf8 s = concat (map utf8_char s)"

text \<open>Object spread with an override, \<open>{ ...obj, k: v }\<close>.\<close>

definition spread_set :: "(string \<times> json) list \<Rightarrow> string \<Rightarrow> json \<Rightarrow> (string \<times> json) list" where
  "spread_set kvs k v = AList.update k v kvs"

text \<open>A property that is only present when its value is not \<open>undefined\<close>.\<close>

definition opt_prop :: "string \<Rightarrow> json option \<Rightarrow> (string \<times> json) list" where
  "opt_prop k v = (case v of None \<Rightarrow> [] | Some x \<Rightarrow> [(k, x)])"

text \<open>The named properties of a value, in the given order; absent ones are left out.\<close>

definition pick :: "json \<Rightarrow> string list \<Rightarrow> (string \<times> json) list" where
  "pick v ks = concat (map (\<lambda>k. opt_prop k (jget v k)) ks)"

section \<open>Lemmas\<close>

lemma as_string_eq_Some [simp]: "as_string v = Some s \<longleftrightarrow> v = Some (JStr s)"
  by (cases v rule: as_string.cases) auto

lemma as_object_eq_Some [simp]: "as_object v = Some kvs \<longleftrightarrow> v = Some (JObj kvs)"
  by (cases v rule: as_object.cases) auto

lemma as_number_eq_Some [simp]: "as_number v = Some q \<longleftrightarrow> v = Some (JNum q)"
  by (cases v rule: as_number.cases) auto

lemma is_plain_object_iff: "is_plain_object v \<longleftrightarrow> (\<exists>kvs. v = Some (JObj kvs))"
  by (cases v rule: is_plain_object.cases) auto

lemma map_of_spread_set [simp]:
  "map_of (spread_set kvs k v) = (map_of kvs)(k \<mapsto> v)"
  by (simp add: spread_set_def update_conv')

lemma map_of_opt_prop [simp]:
  "(m ++ map_of (opt_prop k v)) j = (if j = k \<and> v \<noteq> None then v else m j)"
  "map_of (opt_prop k v) j = (if j = k then v else None)"
  by (auto simp: opt_prop_def map_add_def split: option.splits)

lemma map_of_pick [simp]: "map_of (pick v ks) k = (if k \<in> set ks then jget v k else None)"
  by (induction ks) (auto simp: pick_def map_add_def opt_prop_def split: option.splits)

lemma utf8_append [simp]: "utf8 (s @ t) = utf8 s @ utf8 t"
  by (simp add: utf8_def)

end
