(* ===== verification/JsDate.thy ===== *)
theory JsDate
  imports Prelude
begin

text \<open>
  The part of the \<open>Date\<close> object the sources use: \<open>Date.parse\<close> (equivalently
  \<open>new Date(s).getTime()\<close>) and \<open>toISOString\<close>, after ECMA-262, section 21.4. A string in the
  format \<open>toISOString\<close> prints is parsed here; ECMA-262 leaves every other string to the
  implementation, and the parameter \<open>other\<close> stands for that choice. \<open>None\<close> is \<open>NaN\<close>.
\<close>

section \<open>Days, months and years\<close>

definition day_from_year :: "int \<Rightarrow> int" where
  "day_from_year y =
     365 * (y - 1970) + (y - 1969) div 4 - (y - 1901) div 100 + (y - 1601) div 400"

definition leap_year :: "int \<Rightarrow> bool" where
  "leap_year y \<longleftrightarrow> (y mod 4 = 0 \<and> y mod 100 \<noteq> 0) \<or> y mod 400 = 0"

definition leap_day :: "int \<Rightarrow> int" where
  "leap_day y = (if leap_year y then 1 else 0)"

lemma div_step:
  fixes x n :: int
  assumes "0 < n"
  shows "(x + 1) div n = x div n + (if (x + 1) mod n = 0 then 1 else 0)"
proof (cases "x mod n + 1 < n")
  case True
  have e: "x + 1 = n * (x div n) + (x mod n + 1)" by simp
  have r: "0 \<le> x mod n + 1" "x mod n + 1 \<noteq> 0" using pos_mod_sign [OF assms, of x] by simp_all
  have "(x + 1) div n = x div n" using e r(1) True by (rule int_div_pos_eq)
  moreover have "(x + 1) mod n = x mod n + 1" using e r(1) True by (rule int_mod_pos_eq)
  ultimately show ?thesis using r(2) by simp
next
  case False
  with pos_mod_bound [OF assms, of x] have r: "x mod n = n - 1" by simp
  have "x + 1 = n * (x div n + 1)"
    using mult_div_mod_eq [of n x] r by (simp add: distrib_left)
  then show ?thesis using assms by simp
qed

lemma day_from_year_Suc: "day_from_year (y + 1) = day_from_year y + 365 + leap_day y"
proof -
  have a: "(y - 1968) div 4 = (y - 1969) div 4 + (if y mod 4 = 0 then 1 else 0)"
    using div_step [of 4 "y - 1969"] by (simp add: mod_diff_eq [of y 4 1968, symmetric])
  have b: "(y - 1900) div 100 = (y - 1901) div 100 + (if y mod 100 = 0 then 1 else 0)"
    using div_step [of 100 "y - 1901"] by (simp add: mod_diff_eq [of y 100 1900, symmetric])
  have c: "(y - 1600) div 400 = (y - 1601) div 400 + (if y mod 400 = 0 then 1 else 0)"
    using div_step [of 400 "y - 1601"] by (simp add: mod_diff_eq [of y 400 1600, symmetric])
  have d: "y mod 100 = 0 \<Longrightarrow> y mod 4 = 0" "y mod 400 = 0 \<Longrightarrow> y mod 100 = 0"
    using mod_mod_cancel [of 4 100 y] mod_mod_cancel [of 100 400 y] by simp_all
  have "(if y mod 4 = 0 then 1 else 0) - (if y mod 100 = 0 then 1 else 0)
      + (if y mod 400 = 0 then 1 else 0) = leap_day y"
    using d by (simp add: leap_day_def leap_year_def)
  then show ?thesis by (simp add: day_from_year_def a b c)
qed

lemma day_from_year_less: "day_from_year y < day_from_year (y + 1)"
  by (simp add: day_from_year_Suc leap_day_def)

text \<open>YearFromTime: the last year that starts on or before day \<open>d\<close>.\<close>

function year_search :: "int \<Rightarrow> int \<Rightarrow> int" where
  "year_search d y = (if day_from_year (y + 1) \<le> d then year_search d (y + 1) else y)"
  by pat_completeness auto
termination
proof (relation "measure (\<lambda>(d, y). nat (d - day_from_year y))")
  show "wf (measure (\<lambda>(d, y). nat (d - day_from_year y)))" by simp
  show "((d, y + 1), (d, y)) \<in> measure (\<lambda>(d, y). nat (d - day_from_year y))"
    if "day_from_year (y + 1) \<le> d" for d y
    using that day_from_year_less [of y] by simp
qed

declare year_search.simps [simp del]

definition year_from_day :: "int \<Rightarrow> int" where
  "year_from_day d = year_search d (1970 + (if 0 \<le> d then d div 366 else d div 365))"

definition month_start :: "int \<Rightarrow> nat \<Rightarrow> int" where
  "month_start l m =
     [0, 31, 59 + l, 90 + l, 120 + l, 151 + l, 181 + l, 212 + l, 243 + l, 273 + l, 304 + l, 334 + l,
      365 + l] ! (m - 1)"

definition month_of :: "int \<Rightarrow> int \<Rightarrow> nat" where
  "month_of l doy =
     (if doy < 31 then 1 else if doy < 59 + l then 2 else if doy < 90 + l then 3
      else if doy < 120 + l then 4 else if doy < 151 + l then 5 else if doy < 181 + l then 6
      else if doy < 212 + l then 7 else if doy < 243 + l then 8 else if doy < 273 + l then 9
      else if doy < 304 + l then 10 else if doy < 334 + l then 11 else 12)"

section \<open>toISOString and Date.parse\<close>

abbreviation ms_per_day :: int where
  "ms_per_day \<equiv> 86400000"

definition dg :: "nat \<Rightarrow> nat \<Rightarrow> char" where
  "dg k n = digit_char (n div 10 ^ k mod 10)"

definition pad2 :: "nat \<Rightarrow> string" where "pad2 n = [dg 1 n, dg 0 n]"
definition pad3 :: "nat \<Rightarrow> string" where "pad3 n = [dg 2 n, dg 1 n, dg 0 n]"
definition pad4 :: "nat \<Rightarrow> string" where "pad4 n = [dg 3 n, dg 2 n, dg 1 n, dg 0 n]"

definition iso_year :: "int \<Rightarrow> string" where
  "iso_year y =
     (if 0 \<le> y \<and> y \<le> 9999 then pad4 (nat y)
      else (if y < 0 then CHR ''-'' else CHR ''+'') # pad_start 6 (CHR ''0'') (show_nat (nat \<bar>y\<bar>)))"

definition to_iso :: "millis \<Rightarrow> string" where
  "to_iso t =
     (let d = t div ms_per_day; r = nat (t mod ms_per_day); y = year_from_day d;
          l = leap_day y; doy = d - day_from_year y; m = month_of l doy
      in iso_year y @ ''-'' @ pad2 m @ ''-'' @ pad2 (nat (doy - month_start l m + 1)) @ ''T'' @
         pad2 (r div 3600000) @ '':'' @ pad2 (r div 60000 mod 60) @ '':'' @
         pad2 (r div 1000 mod 60) @ ''.'' @ pad3 (r mod 1000) @ ''Z'')"

text \<open>\<open>new Date(t).toISOString()\<close> throws a RangeError outside the time range.\<close>

definition to_iso_string :: "millis option \<Rightarrow> string res" where
  "to_iso_string t =
     (case t of None \<Rightarrow> Inl RangeError
      | Some m \<Rightarrow> if \<bar>m\<bar> \<le> 8640000000000000 then Inr (to_iso m) else Inl RangeError)"

definition iso_fields :: "nat \<Rightarrow> nat \<Rightarrow> nat \<Rightarrow> nat \<Rightarrow> nat \<Rightarrow> nat \<Rightarrow> nat \<Rightarrow> millis option" where
  "iso_fields y mo d h mi s ms =
     (let l = leap_day (int y) in
      if 1 \<le> mo \<and> mo \<le> 12 \<and> 1 \<le> d \<and> int d \<le> month_start l (mo + 1) - month_start l mo
         \<and> h < 24 \<and> mi < 60 \<and> s < 60
      then Some ((day_from_year (int y) + month_start l mo + int d - 1) * ms_per_day
                 + int (h * 3600000 + mi * 60000 + s * 1000 + ms))
      else None)"

definition iso_parse :: "string \<Rightarrow> millis option" where
  "iso_parse str =
     (case str of
        [y3, y2, y1, y0, c4, m1, m0, c7, d1, d0, ct, h1, h0, c13, i1, i0, c16, s1, s0, c19, f2, f1, f0, cz] \<Rightarrow>
          if [c4, c7, ct, c13, c16, c19, cz] = ''--T::.Z''
             \<and> list_all is_digit [y3, y2, y1, y0, m1, m0, d1, d0, h1, h0, i1, i0, s1, s0, f2, f1, f0]
          then iso_fields (nat_of_digits [y3, y2, y1, y0]) (nat_of_digits [m1, m0])
                 (nat_of_digits [d1, d0]) (nat_of_digits [h1, h0]) (nat_of_digits [i1, i0])
                 (nat_of_digits [s1, s0]) (nat_of_digits [f2, f1, f0])
          else None
      | _ \<Rightarrow> None)"

definition date_parse :: "(string \<Rightarrow> millis option) \<Rightarrow> string \<Rightarrow> millis option" where
  "date_parse other s = (case iso_parse s of Some t \<Rightarrow> Some t | None \<Rightarrow> other s)"

section \<open>The round trip\<close>

lemma year_search_bounds:
  "day_from_year y \<le> d \<Longrightarrow>
   day_from_year (year_search d y) \<le> d \<and> d < day_from_year (year_search d y + 1)"
proof (induction d y rule: year_search.induct)
  case (1 d y)
  then show ?case by (subst (1 2) year_search.simps) auto
qed

lemma leap_count_bound:
  fixes k :: int
  shows "0 \<le> k \<Longrightarrow> (k + 1) div 4 - (k + 69) div 100 + (k + 369) div 400 \<le> k" (is "_ \<Longrightarrow> ?n \<le> k")
    and "k < 0 \<Longrightarrow> (k + 1) div 4 - (k + 69) div 100 + (k + 369) div 400 \<le> 0"
proof -
  define a b c where "a = (k + 1) div 4" and "b = (k + 69) div 100" and "c = (k + 369) div 400"
  have "400 * a \<le> 100 * k + 100" by (simp add: a_def)
  moreover have "4 * k < 400 * b + 124"
    using pos_mod_bound [of 100 "k + 69"] mult_div_mod_eq [of 100 "k + 69"] by (simp add: b_def)
  moreover have "400 * c \<le> k + 369" by (simp add: c_def)
  ultimately have "400 * (a - b + c) \<le> 97 * k + 593" by simp
  then have bound: "400 * ?n \<le> 97 * k + 593" by (simp only: a_def b_def c_def)
  show "?n \<le> k" if "0 \<le> k"
  proof -
    consider "k = 0" | "k = 1" | "2 \<le> k" using \<open>0 \<le> k\<close> by linarith
    then show ?thesis using bound by cases auto
  qed
  show "?n \<le> 0" if "k < 0"
  proof -
    consider "k = -1" | "k = -2" | "k = -3" | "k = -4" | "k = -5" | "k = -6" | "k \<le> -7"
      using \<open>k < 0\<close> by linarith
    then show ?thesis using bound by cases auto
  qed
qed

lemma year_start_below: "day_from_year (1970 + (if 0 \<le> d then d div 366 else d div 365)) \<le> d"
proof (cases "0 \<le> d")
  case True
  define k where "k = d div 366"
  have "0 \<le> k" and "366 * k \<le> d" using True by (auto simp: k_def)
  with leap_count_bound(1) [of k] True show ?thesis
    by (simp add: day_from_year_def k_def [symmetric] algebra_simps)
next
  case False
  define k where "k = d div 365"
  have "k < 0" and "365 * k \<le> d" using False by (auto simp: k_def div_neg_pos_less0)
  with leap_count_bound(2) [of k] False show ?thesis
    by (simp add: day_from_year_def k_def [symmetric] algebra_simps)
qed

lemma year_from_day_bounds:
  "day_from_year (year_from_day d) \<le> d"
  "d < day_from_year (year_from_day d) + 365 + leap_day (year_from_day d)"
  using year_search_bounds [OF year_start_below, of d]
  by (auto simp: year_from_day_def day_from_year_Suc)

lemma month_of_bounds:
  assumes "0 \<le> doy" and "doy < 365 + l" and "l = 0 \<or> l = 1"
  shows "1 \<le> month_of l doy" "month_of l doy \<le> 12"
    "month_start l (month_of l doy) \<le> doy" "doy < month_start l (month_of l doy + 1)"
  using assms by (auto simp: month_of_def month_start_def)

lemma month_length: "l = 0 \<or> l = 1 \<Longrightarrow> 1 \<le> m \<Longrightarrow> m \<le> 12 \<Longrightarrow> month_start l (m + 1) - month_start l m \<le> 31"
  by (auto simp: month_start_def numeral_eq_Suc le_Suc_eq)

lemma is_digit_dg [simp]: "is_digit (dg k n)"
  by (simp add: dg_def)

lemma nat_of_digits_dg: "n < 10 ^ Suc k \<Longrightarrow> nat_of_digits (map (\<lambda>i. dg i n) (rev [0..<Suc k])) = n"
proof (induction k arbitrary: n)
  case 0
  then show ?case by (simp add: nat_of_digits_def dg_def)
next
  case (Suc k)
  have "map (\<lambda>i. dg i n) (rev [0..<Suc (Suc k)]) =
        map (\<lambda>i. dg i (n div 10)) (rev [0..<Suc k]) @ [dg 0 n]"
    by (simp add: upt_conv_Cons map_Suc_upt [symmetric] rev_map o_def dg_def div_mult2_eq [symmetric]
        del: upt_Suc)
  moreover have "n div 10 < 10 ^ Suc k" using Suc.prems by (simp add: div_less_iff_less_mult)
  ultimately show ?case using Suc.IH [of "n div 10"] by (simp add: dg_def del: upt_Suc)
qed

lemma nat_of_digits_pad [simp]:
  "n < 100 \<Longrightarrow> nat_of_digits [dg (Suc 0) n, dg 0 n] = n"
  "n < 1000 \<Longrightarrow> nat_of_digits [dg 2 n, dg (Suc 0) n, dg 0 n] = n"
  "n < 10000 \<Longrightarrow> nat_of_digits [dg 3 n, dg 2 n, dg (Suc 0) n, dg 0 n] = n"
  using nat_of_digits_dg [of n 1] nat_of_digits_dg [of n 2] nat_of_digits_dg [of n 3]
  by (simp_all add: upt_rec numeral_2_eq_2 numeral_3_eq_3)

lemma iso_parse_pads:
  assumes "y < 10000" "mo < 100" "d < 100" "h < 100" "mi < 100" "s < 100" "ms < 1000"
  shows "iso_parse (pad4 y @ ''-'' @ pad2 mo @ ''-'' @ pad2 d @ ''T'' @ pad2 h @ '':'' @ pad2 mi @
           '':'' @ pad2 s @ ''.'' @ pad3 ms @ ''Z'') = iso_fields y mo d h mi s ms"
  using assms by (simp add: iso_parse_def pad4_def pad3_def pad2_def)

lemma time_fields: "r div 3600000 * 3600000 + r div 60000 mod 60 * 60000 + r div 1000 mod 60 * 1000 + r mod 1000 = (r :: nat)"
proof -
  have "r = r div 1000 * 1000 + r mod 1000" by simp
  moreover have "r div 1000 = r div 60000 * 60 + r div 1000 mod 60"
    using div_mult_mod_eq [of "r div 1000" 60] by (simp add: div_mult2_eq [symmetric])
  moreover have "r div 60000 = r div 3600000 * 60 + r div 60000 mod 60"
    using div_mult_mod_eq [of "r div 60000" 60] by (simp add: div_mult2_eq [symmetric])
  ultimately show ?thesis by linarith
qed

text \<open>
  The years 0 to 9999 are printed with four digits; there a printed time is read back exactly,
  whatever the implementation does with other strings.
\<close>

lemma date_parse_to_iso:
  assumes "0 \<le> year_from_day (t div ms_per_day)" and "year_from_day (t div ms_per_day) \<le> 9999"
  shows "date_parse other (to_iso t) = Some t"
proof -
  define d r y l doy m where "d = t div ms_per_day" and "r = nat (t mod ms_per_day)"
    and "y = year_from_day d" and "l = leap_day y" and "doy = d - day_from_year y"
    and "m = month_of l doy"
  note defs = this
  have l: "l = 0 \<or> l = 1" by (simp add: defs leap_day_def)
  have doy: "0 \<le> doy" "doy < 365 + l" using year_from_day_bounds [of d] by (auto simp: defs)
  note m = month_of_bounds [OF doy l, folded m_def]
  have len: "month_start l (m + 1) - month_start l m \<le> 31" using month_length [OF l m(1,2)] .
  have y: "int (nat y) = y" "nat y < 10000" using assms by (auto simp: defs)
  have r: "r < 86400000" by (simp add: r_def nat_less_iff)
  define dd where "dd = nat (doy - month_start l m + 1)"
  have dd: "int dd = doy - month_start l m + 1" "1 \<le> dd" "dd \<le> 31"
    using m(3,4) len by (auto simp: dd_def)
  have iso: "to_iso t = pad4 (nat y) @ ''-'' @ pad2 m @ ''-'' @ pad2 dd @ ''T'' @ pad2 (r div 3600000) @ '':'' @
      pad2 (r div 60000 mod 60) @ '':'' @ pad2 (r div 1000 mod 60) @ ''.'' @ pad3 (r mod 1000) @ ''Z''"
    unfolding to_iso_def Let_def dd_def m_def doy_def l_def y_def r_def d_def iso_year_def
    using assms by simp
  have "r div 3600000 < 24" using r by (simp add: div_less_iff_less_mult)
  have "iso_parse (to_iso t) = iso_fields (nat y) m dd (r div 3600000) (r div 60000 mod 60)
      (r div 1000 mod 60) (r mod 1000)"
    unfolding iso
  proof (rule iso_parse_pads)
    show "r div 60000 mod 60 < 100" by (rule less_trans [OF mod_less_divisor]) simp_all
    show "r div 1000 mod 60 < 100" by (rule less_trans [OF mod_less_divisor]) simp_all
  qed (use y(2) m(2) dd(3) \<open>r div 3600000 < 24\<close> in simp_all)
  also have "\<dots> = Some ((day_from_year y + doy) * ms_per_day + int r)"
    using y(1) m(1,2,4) dd \<open>r div 3600000 < 24\<close>
    by (simp add: iso_fields_def Let_def l_def [symmetric] time_fields)
  also have "\<dots> = Some t" by (simp add: doy_def d_def r_def)
  finally show ?thesis by (simp add: date_parse_def)
qed

end
