(* ===== verification/Platform.thy ===== *)
theory Platform
  imports Json JsDate
begin

text \<open>
  What the sources call but do not contain: decimal.js, bs58, @noble/ed25519, @noble/hashes,
  the base64 codec of Node's \<open>Buffer\<close>, the \<open>PublicKey\<close> constructor of @solana/web3.js, and the
  implementation-defined corners of \<open>Date.parse\<close> and \<open>Number.prototype.toString\<close>. They are
  fields of one record that every definition using them takes as its first argument.
\<close>

record platform =
  date_other :: "string \<Rightarrow> millis option"
  num_repr :: "rat \<Rightarrow> string"
  dec_pos :: "json \<Rightarrow> bool"
  b64_decode :: "string \<Rightarrow> bytes"
  b64_encode :: "bytes \<Rightarrow> string"
  bs58_decode :: "string \<Rightarrow> bytes option"
  bs58_encode :: "bytes \<Rightarrow> string"
  mk_pubkey :: "bytes \<Rightarrow> pubkey option"
  ed_verify :: "bytes \<Rightarrow> bytes \<Rightarrow> pubkey \<Rightarrow> bool"
  ed_sign :: "bytes \<Rightarrow> bytes \<Rightarrow> bytes"
  sha256 :: "bytes \<Rightarrow> bytes"

text \<open>
  \<open>dec_pos P x\<close>: \<open>new Decimal(x)\<close> does not throw and is finite and greater than 0.
  \<open>bs58_decode\<close> and \<open>mk_pubkey\<close> are \<open>None\<close> where the library throws. \<open>ed_verify P sig msg pk\<close> is
  \<open>False\<close> where the library rejects or throws. \<open>ed_sign P msg secret\<close> is \<open>signAsync\<close>.
\<close>

definition parse_date :: "platform \<Rightarrow> string \<Rightarrow> millis option" where
  "parse_date P s = date_parse (date_other P) s"

text \<open>\<open>String(x)\<close> of a value that may be \<open>undefined\<close>.\<close>

definition string_of :: "platform \<Rightarrow> json option \<Rightarrow> string" where
  "string_of P v = (case v of None \<Rightarrow> ''undefined'' | Some x \<Rightarrow> to_str (num_repr P) x)"

text \<open>\<open>Buffer.from(b).toString("hex")\<close>.\<close>

definition hex_byte :: "byte \<Rightarrow> string" where
  "hex_byte b = [hex_digit (unat b div 16), hex_digit (unat b mod 16)]"

definition to_hex :: "bytes \<Rightarrow> string" where
  "to_hex bs = concat (map hex_byte bs)"

text \<open>
  A platform to evaluate on: codecs that read characters as bytes, every string with a non-zero
  decimal digit positive, a signature valid when it starts with the signer's key.
\<close>

definition latin1 :: "string \<Rightarrow> bytes" where
  "latin1 s = map (\<lambda>c. of_nat (of_char c)) s"

definition demo_platform :: platform where
  "demo_platform =
     \<lparr>date_other = (\<lambda>_. None), num_repr = (\<lambda>_. ''?''),
      dec_pos = (\<lambda>x. case x of JStr s \<Rightarrow> list_ex (\<lambda>c. c \<noteq> CHR ''0'' \<and> is_digit c) s | _ \<Rightarrow> False),
      b64_decode = latin1, b64_encode = map (\<lambda>b. char_of (unat b)),
      bs58_decode = (\<lambda>s. Some ([0xed, 0x01] @ latin1 s)), bs58_encode = (\<lambda>bs. map (\<lambda>b. char_of (unat b)) (drop 2 bs)),
      mk_pubkey = (\<lambda>b. Some b), ed_verify = (\<lambda>sig msg pk. take (length pk) sig = pk),
      ed_sign = (\<lambda>msg sk. sk @ replicate (64 - length sk) 0), sha256 = (\<lambda>b. take 32 b)\<rparr>"

definition demo_did :: "char \<Rightarrow> did" where
  "demo_did c = ''did:key:z6Mk'' @ [c]"

definition demo_sig :: "char \<Rightarrow> string" where
  "demo_sig c = ''ed25519:6Mk'' @ [c] @ replicate 60 (CHR ''A'')"

lemma parse_date_to_iso:
  "0 \<le> year_from_day (t div ms_per_day) \<Longrightarrow> year_from_day (t div ms_per_day) \<le> 9999 \<Longrightarrow>
   parse_date P (to_iso t) = Some t"
  unfolding parse_date_def by (rule date_parse_to_iso)

lemma length_to_hex [simp]: "length (to_hex bs) = 2 * length bs"
  by (induction bs) (simp_all add: to_hex_def hex_byte_def)

lemma hex_digit_lower: "d < 16 \<Longrightarrow> is_hex_lower (hex_digit d)"
  by (auto simp: hex_digit_def is_hex_lower_def is_digit_def)

lemma to_hex_lower: "list_all is_hex_lower (to_hex bs)"
proof (induction bs)
  case Nil
  show ?case by (simp add: to_hex_def)
next
  case (Cons b bs)
  have "unat b < 16 * 16" using unsigned_less [of b, where 'a = nat] by simp
  then have "unat b div 16 < 16" by (simp add: div_less_iff_less_mult)
  with Cons show ?case by (simp add: to_hex_def hex_byte_def hex_digit_lower)
qed

end
