(* ===== verification/Canonical.thy ===== *)
theory Canonical
  imports Platform
begin

text \<open>
  \<^verbatim>\<open>packages/core/src/canonical.ts\<close>: the canonical JSON bytes that every Ed25519 signature of the
  protocol covers. The lemmas show that they depend on the content of an object and not on the
  order of its keys, at any depth, and what they leave out.
\<close>

section \<open>Model\<close>

text \<open>
  The loop of \<open>sortKeys\<close>: the keys in code-unit order, each assigned to a fresh object. The
  assignment \<open>sorted["__proto__"] = v\<close> calls the prototype setter and adds no property.
\<close>

definition assign_sorted :: "(string \<times> json) list \<Rightarrow> (string \<times> json) list" where
  "assign_sorted kvs =
     map (\<lambda>k. (k, the (map_of kvs k)))
       (filter (\<lambda>k. k \<noteq> ''__proto__'') (sort (remdups (map fst kvs))))"

primrec sort_keys_inner :: "json \<Rightarrow> json" where
  "sort_keys_inner JNull = JNull"
| "sort_keys_inner (JBool b) = JBool b"
| "sort_keys_inner (JNum q) = JNum q"
| "sort_keys_inner (JStr s) = JStr s"
| "sort_keys_inner (JArr xs) = JArr (map sort_keys_inner xs)"
| "sort_keys_inner (JObj kvs) = JObj (assign_sorted (map (map_prod id sort_keys_inner) kvs))"

text \<open>\<open>typeof val === "object" && val !== null && Object.keys(val).length === 0\<close>.\<close>

definition is_empty_object :: "json \<Rightarrow> bool" where
  "is_empty_object v \<longleftrightarrow> v = JObj [] \<or> v = JArr []"

definition drop_empty_extensions :: "(string \<times> json) list \<Rightarrow> (string \<times> json) list" where
  "drop_empty_extensions kvs = filter (\<lambda>p. \<not> (fst p = ''extensions'' \<and> is_empty_object (snd p))) kvs"

definition sortKeys :: "json \<Rightarrow> bool \<Rightarrow> json" where
  "sortKeys obj isTopLevel =
     (case obj of
        JObj kvs \<Rightarrow>
          sort_keys_inner (JObj (if isTopLevel then drop_empty_extensions kvs else kvs))
      | _ \<Rightarrow> sort_keys_inner obj)"

definition canonicalJson :: "platform \<Rightarrow> (string \<times> json) list \<Rightarrow> bytes" where
  "canonicalJson P obj = utf8 (stringify (num_repr P) (sortKeys (JObj obj) True))"

section \<open>Equality up to key order\<close>

inductive key_perm :: "json \<Rightarrow> json \<Rightarrow> bool" where
  refl: "key_perm v v"
| trans: "key_perm u v \<Longrightarrow> key_perm v w \<Longrightarrow> key_perm u w"
| arr: "list_all2 key_perm xs ys \<Longrightarrow> key_perm (JArr xs) (JArr ys)"
| obj: "list_all2 (\<lambda>p q. fst p = fst q \<and> key_perm (snd p) (snd q)) ps qs \<Longrightarrow>
        key_perm (JObj ps) (JObj qs)"
| perm: "distinct (map fst ps) \<Longrightarrow> mset ps = mset qs \<Longrightarrow> key_perm (JObj ps) (JObj qs)"

section \<open>Lemmas\<close>

lemma assign_sorted_keys:
  "map fst (assign_sorted kvs) = filter (\<lambda>k. k \<noteq> ''__proto__'') (sort (remdups (map fst kvs)))"
  by (simp add: assign_sorted_def o_def)

lemma assign_sorted_sorted: "sorted (map fst (assign_sorted kvs))"
  by (simp add: assign_sorted_keys sorted_filter [where f = id, simplified])

lemma assign_sorted_distinct: "distinct (map fst (assign_sorted kvs))"
  by (simp add: assign_sorted_keys)

lemma assign_sorted_lookup:
  "map_of (assign_sorted kvs) k = (if k = ''__proto__'' then None else map_of kvs k)"
proof (cases "k \<in> set (map fst (assign_sorted kvs))")
  case True
  then have k: "k \<noteq> ''__proto__''" "k \<in> fst ` set kvs"
    by (simp_all add: assign_sorted_keys del: set_map) auto
  then obtain v where v: "map_of kvs k = Some v" by (metis map_of_eq_None_iff not_Some_eq)
  with k have "(k, v) \<in> set (assign_sorted kvs)" by (force simp: assign_sorted_def)
  with assign_sorted_distinct have "map_of (assign_sorted kvs) k = Some v"
    by (rule map_of_is_SomeI)
  with k v show ?thesis by simp
next
  case False
  then have "map_of (assign_sorted kvs) k = None" by (simp add: map_of_eq_None_iff)
  moreover have "k = ''__proto__'' \<or> map_of kvs k = None"
    using False by (auto simp: assign_sorted_keys map_of_eq_None_iff simp del: set_map)
      (auto simp: image_iff)
  ultimately show ?thesis by auto
qed

lemma assign_sorted_mset:
  assumes "distinct (map fst ps)" and "mset ps = mset qs"
  shows "assign_sorted ps = assign_sorted qs"
proof -
  have keys: "mset (map fst ps) = mset (map fst qs)" using assms(2) by simp
  then have d: "distinct (map fst qs)" using assms(1) by (metis mset_eq_imp_distinct_iff)
  have "map_of ps = map_of qs"
    using assms d by (intro map_of_inject_set [THEN iffD2]) (auto dest: mset_eq_setD)
  moreover have "sort (remdups (map fst ps)) = sort (remdups (map fst qs))"
    using keys assms(1) d unfolding distinct_remdups_id [OF assms(1)] distinct_remdups_id [OF d]
    by (metis sorted_list_of_multiset_mset)
  ultimately show ?thesis by (simp add: assign_sorted_def)
qed

lemma sort_keys_inner_key_perm: "key_perm u v \<Longrightarrow> sort_keys_inner u = sort_keys_inner v"
proof (induction rule: key_perm.induct)
  case (arr xs ys)
  then show ?case by (auto simp: list_all2_conv_all_nth intro: nth_equalityI)
next
  case (obj ps qs)
  then have "map (map_prod id sort_keys_inner) ps = map (map_prod id sort_keys_inner) qs"
    by (auto simp: list_all2_conv_all_nth map_prod_def case_prod_unfold intro: nth_equalityI)
  then show ?case by simp
next
  case (perm ps qs)
  then show ?case by (auto simp: o_def intro!: assign_sorted_mset)
qed auto

lemma key_perm_is_empty_object: "key_perm u v \<Longrightarrow> is_empty_object u = is_empty_object v"
  by (induction rule: key_perm.induct) (auto simp: is_empty_object_def)

lemma key_perm_drop_empty_extensions:
  "key_perm u v \<Longrightarrow> u = JObj ps \<Longrightarrow>
   \<exists>qs. v = JObj qs \<and> sort_keys_inner (JObj (drop_empty_extensions ps))
        = sort_keys_inner (JObj (drop_empty_extensions qs))"
proof (induction arbitrary: ps rule: key_perm.induct)
  case (trans u v w)
  then obtain qs where "v = JObj qs"
    and "sort_keys_inner (JObj (drop_empty_extensions ps)) = sort_keys_inner (JObj (drop_empty_extensions qs))"
    by blast
  with trans show ?case by metis
next
  case (obj ps' qs)
  have "list_all2 (\<lambda>p q. fst p = fst q \<and> key_perm (snd p) (snd q))
      (drop_empty_extensions ps') (drop_empty_extensions qs)"
    using obj(1)
    by (induction rule: list_all2_induct)
      (auto simp: drop_empty_extensions_def dest: key_perm_is_empty_object)
  then have "key_perm (JObj (drop_empty_extensions ps')) (JObj (drop_empty_extensions qs))"
    by (rule key_perm.obj)
  with obj show ?case by (auto dest: sort_keys_inner_key_perm simp del: sort_keys_inner.simps)
next
  case (perm ps' qs)
  have "key_perm (JObj (drop_empty_extensions ps')) (JObj (drop_empty_extensions qs))"
    using perm.hyps unfolding drop_empty_extensions_def
    by (intro key_perm.perm) (auto simp: distinct_map_filter)
  with perm show ?case by (auto dest: sort_keys_inner_key_perm simp del: sort_keys_inner.simps)
qed auto

lemma sortKeys_key_perm: "key_perm (JObj ps) (JObj qs) \<Longrightarrow> sortKeys (JObj ps) b = sortKeys (JObj qs) b"
  using key_perm_drop_empty_extensions [of "JObj ps" "JObj qs" ps]
  by (auto simp: sortKeys_def simp del: sort_keys_inner.simps dest: sort_keys_inner_key_perm)

lemma canonicalJson_key_perm: "key_perm (JObj ps) (JObj qs) \<Longrightarrow> canonicalJson P ps = canonicalJson P qs"
  by (simp add: canonicalJson_def sortKeys_key_perm)

text \<open>Sorting twice changes nothing: the canonical form is a normal form.\<close>

lemma assign_sorted_idem: "assign_sorted (assign_sorted kvs) = assign_sorted kvs"
proof -
  let ?as = "assign_sorted kvs"
  have keys: "filter (\<lambda>k. k \<noteq> ''__proto__'') (sort (remdups (map fst ?as))) = map fst ?as"
    unfolding distinct_remdups_id [OF assign_sorted_distinct] sorted_sort_id [OF assign_sorted_sorted]
    by (simp add: assign_sorted_keys)
  have "assign_sorted ?as = map (\<lambda>k. (k, the (map_of ?as k))) (map fst ?as)"
    by (subst assign_sorted_def) (simp only: keys)
  also have "\<dots> = ?as"
    using assign_sorted_distinct [of kvs] by (auto simp: intro!: map_idI)
  finally show ?thesis .
qed

section \<open>Properties\<close>

text \<open>
  C34. The bytes that are signed do not depend on the order in which a client writes the keys:
  two objects that differ only in the order of keys, at any depth, have the same canonical form.
\<close>

theorem canonical_ignores_key_order:
  assumes "key_perm (JObj ps) (JObj qs)"
  shows "canonicalJson P ps = canonicalJson P qs"
  using assms by (rule canonicalJson_key_perm)

theorem canonical_ignores_key_order_witness:
  "canonicalJson demo_platform [(''price'', JStr ''1''), (''buyer'', JNull)] =
   canonicalJson demo_platform [(''buyer'', JNull), (''price'', JStr ''1'')]"
  by (rule canonical_ignores_key_order, rule key_perm.perm) simp_all

end
