(* ===== verification/Amounts.thy ===== *)
theory Amounts
  imports Canonical
begin

text \<open>
  \<^verbatim>\<open>packages/core/src/amounts.ts\<close>, \<^verbatim>\<open>packages/zk/src/scale.ts\<close> and
  \<^verbatim>\<open>packages/engine/src/util/currency.ts\<close>: decimal strings to integer micro-units and back, the
  mint table, the spec hash. The lemmas show that normalisation truncates the exact decimal
  value, is monotone in it, and inverts \<open>unscalePrice\<close>.
\<close>

section \<open>Model\<close>

type_synonym mint_table = "(string \<times> nat) list"

definition MINT_DECIMALS :: mint_table where
  "MINT_DECIMALS =
     [(''EPjFWdd5AufqSSqeM2qN1xzybapC8G4wEGGkZwyTDt1v'', 6),
      (''4zMMC9srt5Ri5X14GAgXhaHii3GnPAEERYPJgZJDncDU'', 6)]"

definition registerMint :: "string \<Rightarrow> nat \<Rightarrow> mint_table \<Rightarrow> mint_table" where
  "registerMint mintAddress decimals mints = AList.update mintAddress decimals mints"

text \<open>The parts \<open>decimalStr.split(".")\<close> yields for a string with at most one point.\<close>

definition int_part :: "string \<Rightarrow> string" where
  "int_part s = takeWhile (\<lambda>c. c \<noteq> CHR ''.'') s"

definition frac_part :: "string \<Rightarrow> string" where
  "frac_part s = tl (dropWhile (\<lambda>c. c \<noteq> CHR ''.'') s)"

text \<open>The regular expression \<^verbatim>\<open>/^\d+(\.\d+)?$/\<close>.\<close>

definition is_decimal_string :: "string \<Rightarrow> bool" where
  "is_decimal_string s \<longleftrightarrow>
     int_part s \<noteq> [] \<and> list_all is_digit (int_part s) \<and>
     (CHR ''.'' \<in> set s \<longrightarrow> frac_part s \<noteq> [] \<and> list_all is_digit (frac_part s))"

definition normalizeWithDecimals :: "string \<Rightarrow> nat \<Rightarrow> nat res" where
  "normalizeWithDecimals decimalStr decimals =
     (if \<not> is_decimal_string decimalStr then Inl (JsError ''Invalid decimal string'')
      else
        let intPart = int_part decimalStr; frac = frac_part decimalStr;
            fracPart = (if length frac < decimals then pad_end decimals (CHR ''0'') frac
                        else take decimals frac)
        in Inr (nat_of_digits (intPart @ fracPart)))"

definition normalizeAmount :: "mint_table \<Rightarrow> string \<Rightarrow> string \<Rightarrow> nat res" where
  "normalizeAmount mints decimalStr mintAddress =
     (case map_of mints mintAddress of
        None \<Rightarrow> Inl (JsError ''Unknown mint address'')
      | Some decimals \<Rightarrow> normalizeWithDecimals decimalStr decimals)"

text \<open>
  The same call on a request field that was only cast to a string: the regular expression
  tests its text, and \<open>split\<close> is missing on everything but a string.
\<close>

definition normalizeField :: "platform \<Rightarrow> mint_table \<Rightarrow> json option \<Rightarrow> string \<Rightarrow> nat res" where
  "normalizeField P mints v mintAddress =
     (case v of
        Some (JStr s) \<Rightarrow> normalizeAmount mints s mintAddress
      | _ \<Rightarrow>
          if map_of mints mintAddress = None then Inl (JsError ''Unknown mint address'')
          else if is_decimal_string (string_of P v) then Inl TypeError
          else Inl (JsError ''Invalid decimal string''))"

definition computeSpecHash :: "platform \<Rightarrow> (string \<times> json) list \<Rightarrow> string" where
  "computeSpecHash P spec = ''sha256:'' @ to_hex (sha256 P (canonicalJson P spec))"

definition CURRENCY_TO_MINT :: "(string \<times> string) list" where
  "CURRENCY_TO_MINT = [(''USDC'', ''4zMMC9srt5Ri5X14GAgXhaHii3GnPAEERYPJgZJDncDU'')]"

definition mintFor :: "string \<Rightarrow> string res" where
  "mintFor currency =
     (case map_of CURRENCY_TO_MINT currency of
        None \<Rightarrow> Inl (EngineError 422 ''unsupported_currency'')
      | Some mint \<Rightarrow> Inr mint)"

definition USDC_DECIMALS :: nat where "USDC_DECIMALS = 6"
definition MIN_DECIMAL_PLACES :: nat where "MIN_DECIMAL_PLACES = 2"

definition DEFAULT_USDC_MINT :: string where
  "DEFAULT_USDC_MINT = ''4zMMC9srt5Ri5X14GAgXhaHii3GnPAEERYPJgZJDncDU''"

definition scalePrice :: "mint_table \<Rightarrow> string \<Rightarrow> string option \<Rightarrow> nat res" where
  "scalePrice mints decimalStr mint =
     normalizeAmount mints decimalStr (case mint of None \<Rightarrow> DEFAULT_USDC_MINT | Some m \<Rightarrow> m)"

text \<open>\<^verbatim>\<open>replace(/0+$/, "")\<close>.\<close>

definition strip_zeros :: "string \<Rightarrow> string" where
  "strip_zeros s = rev (dropWhile (\<lambda>c. c = CHR ''0'') (rev s))"

definition unscalePrice :: "nat \<Rightarrow> string" where
  "unscalePrice scaled =
     (let str = pad_start (USDC_DECIMALS + 1) (CHR ''0'') (show_nat scaled);
          intPart = take (length str - USDC_DECIMALS) str;
          fracRaw = drop (length str - USDC_DECIMALS) str;
          trimmed = take MIN_DECIMAL_PLACES fracRaw @ strip_zeros (drop MIN_DECIMAL_PLACES fracRaw)
      in (if intPart = [] then ''0'' else intPart) @ ''.'' @ trimmed)"

section \<open>Specification\<close>

text \<open>The exact value of a decimal string.\<close>

definition decimal_value :: "string \<Rightarrow> rat" where
  "decimal_value s =
     of_nat (nat_of_digits (int_part s @ frac_part s)) / 10 ^ length (frac_part s)"

section \<open>Lemmas\<close>

lemma take_digits_div:
  "nat_of_digits (take d f) = nat_of_digits f div 10 ^ (length f - d)" if "list_all is_digit f"
proof (cases "d \<le> length f")
  case True
  have "nat_of_digits f = nat_of_digits (take d f) * 10 ^ (length f - d) + nat_of_digits (drop d f)"
    using nat_of_digits_append [of "take d f" "drop d f"] by simp
  moreover have "list_all is_digit (drop d f)"
    using that by (metis append_take_drop_id list_all_append)
  then have "nat_of_digits (drop d f) < 10 ^ (length f - d)"
    using nat_of_digits_less [of "drop d f"] by simp
  ultimately show ?thesis by simp
qed simp

lemma frac_digits:
  assumes "is_decimal_string s"
  shows "list_all is_digit (frac_part s)"
proof (cases "CHR ''.'' \<in> set s")
  case False
  then have "\<forall>c \<in> set s. c \<noteq> CHR ''.''" by auto
  then have "dropWhile (\<lambda>c. c \<noteq> CHR ''.'') s = []" by (simp only: dropWhile_eq_Nil_conv)
  then show ?thesis by (simp only: frac_part_def list.sel list.pred_inject)
qed (use assms in \<open>simp add: is_decimal_string_def\<close>)

lemma normalizeWithDecimals_exact:
  assumes "is_decimal_string s"
  shows "normalizeWithDecimals s d =
           Inr (nat_of_digits (int_part s @ frac_part s) * 10 ^ d div 10 ^ length (frac_part s))"
proof -
  let ?i = "int_part s" and ?f = "frac_part s"
  have f: "list_all is_digit ?f" using assms by (rule frac_digits)
  show ?thesis
  proof (cases "length ?f < d")
    case True
    then have "nat_of_digits (?i @ pad_end d (CHR ''0'') ?f)
        = nat_of_digits (?i @ ?f) * 10 ^ (d - length ?f)"
      by (simp add: pad_end_def nat_of_digits_append [of "?i @ ?f", simplified])
    also have "\<dots> = nat_of_digits (?i @ ?f) * 10 ^ d div 10 ^ length ?f"
      using True by (simp add: power_diff div_mult_swap le_imp_power_dvd)
    finally show ?thesis using assms True by (simp add: normalizeWithDecimals_def)
  next
    case False
    have "nat_of_digits (?i @ take d ?f)
        = nat_of_digits ?i * 10 ^ d + nat_of_digits ?f div 10 ^ (length ?f - d)"
      using False by (simp add: nat_of_digits_append take_digits_div [OF f])
    also have "\<dots> = (nat_of_digits ?i * 10 ^ length ?f + nat_of_digits ?f) div 10 ^ (length ?f - d)"
    proof -
      have "(10::nat) ^ length ?f = 10 ^ d * 10 ^ (length ?f - d)"
        using False by (simp flip: power_add)
      then have e: "nat_of_digits ?i * 10 ^ length ?f + nat_of_digits ?f
          = nat_of_digits ?f + (nat_of_digits ?i * 10 ^ d) * 10 ^ (length ?f - d)"
        by (simp only: mult.assoc add.commute)
      show ?thesis unfolding e by simp
    qed
    also have "\<dots> = nat_of_digits (?i @ ?f) * 10 ^ d div 10 ^ length ?f"
    proof -
      have "(10::nat) ^ length ?f = 10 ^ (length ?f - d) * 10 ^ d"
        using False by (simp flip: power_add)
      then show ?thesis by (simp add: nat_of_digits_append)
    qed
    finally show ?thesis using assms False by (simp add: normalizeWithDecimals_def)
  qed
qed

lemma normalizeWithDecimals_floor:
  assumes "is_decimal_string s"
  shows "normalizeWithDecimals s d = Inr (nat \<lfloor>decimal_value s * 10 ^ d\<rfloor>)"
proof -
  let ?n = "nat_of_digits (int_part s @ frac_part s)" and ?k = "length (frac_part s)"
  have "decimal_value s * 10 ^ d = (of_nat (?n * 10 ^ d) :: rat) / of_nat (10 ^ ?k)"
    by (simp add: decimal_value_def)
  then have "\<lfloor>decimal_value s * 10 ^ d\<rfloor> = int (?n * 10 ^ d div 10 ^ ?k)"
    by (simp only: floor_divide_of_nat_eq)
  then show ?thesis using normalizeWithDecimals_exact [OF assms, of d] by simp
qed

lemma normalizeWithDecimals_mono:
  assumes "decimal_value a \<le> decimal_value b"
    and "normalizeWithDecimals a d = Inr m" and "normalizeWithDecimals b d = Inr n"
  shows "m \<le> n"
proof -
  have "is_decimal_string a" "is_decimal_string b"
    using assms(2,3) by (auto simp: normalizeWithDecimals_def split: if_splits)
  then have "m = nat \<lfloor>decimal_value a * 10 ^ d\<rfloor>" "n = nat \<lfloor>decimal_value b * 10 ^ d\<rfloor>"
    using assms(2,3) by (simp_all add: normalizeWithDecimals_floor)
  moreover have "\<lfloor>decimal_value a * 10 ^ d\<rfloor> \<le> \<lfloor>decimal_value b * 10 ^ d\<rfloor>"
    using assms(1) by (intro floor_mono mult_right_mono) simp_all
  ultimately show ?thesis by simp
qed

lemma pad_end_strip_zeros: "pad_end (length s) (CHR ''0'') (strip_zeros s) = s"
proof -
  let ?z = "takeWhile (\<lambda>c. c = CHR ''0'') (rev s)"
  have "?z = replicate (length ?z) (CHR ''0'')"
    by (rule replicate_eqI) (auto dest: set_takeWhileD)
  then have z: "rev ?z = replicate (length ?z) (CHR ''0'')" by (metis rev_replicate)
  have s: "s = strip_zeros s @ rev ?z"
    unfolding strip_zeros_def rev_append [symmetric] takeWhile_dropWhile_id by simp
  then have "length s = length (strip_zeros s) + length ?z" by (metis length_append length_rev)
  then show ?thesis using s z by (simp add: pad_end_def)
qed

lemma strip_zeros_subset: "set (strip_zeros s) \<subseteq> set s"
  by (auto simp: strip_zeros_def dest: set_dropWhileD)

lemma length_strip_zeros: "length (strip_zeros s) \<le> length s"
  by (simp add: strip_zeros_def length_dropWhile_le [of _ "rev s", simplified])

lemma digits_no_point: "list_all is_digit s \<Longrightarrow> CHR ''.'' \<notin> set s"
  by (auto simp: list_all_iff is_digit_def)

lemma parts_of_point:
  assumes "list_all is_digit i"
  shows "int_part (i @ ''.'' @ f) = i" and "frac_part (i @ ''.'' @ f) = f"
proof -
  have "\<forall>c \<in> set i. c \<noteq> CHR ''.''" using digits_no_point [OF assms] by blast
  then show "int_part (i @ ''.'' @ f) = i" "frac_part (i @ ''.'' @ f) = f"
    by (simp_all add: int_part_def frac_part_def takeWhile_append2 dropWhile_append2)
qed

lemma unscalePrice_round_trip: "normalizeWithDecimals (unscalePrice n) USDC_DECIMALS = Inr n"
proof -
  define str where "str = pad_start (USDC_DECIMALS + 1) (CHR ''0'') (show_nat n)"
  define i where "i = take (length str - USDC_DECIMALS) str"
  define f where "f = drop (length str - USDC_DECIMALS) str"
  define t where "t = take MIN_DECIMAL_PLACES f @ strip_zeros (drop MIN_DECIMAL_PLACES f)"
  have digits: "list_all is_digit str"
    using show_nat_digits [of n] by (auto simp: str_def pad_start_def list_all_iff is_digit_def)
  have len: "USDC_DECIMALS + 1 \<le> length str" by (simp add: str_def pad_start_def)
  then have lf: "length f = USDC_DECIMALS" and i: "i \<noteq> []" by (auto simp: f_def i_def)
  have di: "list_all is_digit i" and df: "list_all is_digit f"
    using digits by (auto simp: i_def f_def list_all_iff dest: in_set_takeD in_set_dropD)
  have dt: "list_all is_digit t"
    using df strip_zeros_subset [of "drop MIN_DECIMAL_PLACES f"]
    by (fastforce simp: t_def list_all_iff dest: in_set_takeD in_set_dropD)
  have t: "t \<noteq> []" using lf by (auto simp: t_def USDC_DECIMALS_def MIN_DECIMAL_PLACES_def)
  have pad: "pad_end USDC_DECIMALS (CHR ''0'') t = f"
  proof -
    let ?g = "drop MIN_DECIMAL_PLACES f"
    have "pad_end USDC_DECIMALS (CHR ''0'') t
        = take MIN_DECIMAL_PLACES f @ pad_end (length ?g) (CHR ''0'') (strip_zeros ?g)"
      using lf by (simp add: pad_end_def t_def USDC_DECIMALS_def MIN_DECIMAL_PLACES_def)
    then show ?thesis by (simp only: pad_end_strip_zeros append_take_drop_id)
  qed
  have lt: "length t \<le> USDC_DECIMALS"
    using length_strip_zeros [of "drop MIN_DECIMAL_PLACES f"] lf
    by (simp add: t_def USDC_DECIMALS_def MIN_DECIMAL_PLACES_def)
  have u: "unscalePrice n = i @ ''.'' @ t"
    unfolding unscalePrice_def Let_def str_def [symmetric] i_def [symmetric] f_def [symmetric]
      t_def [symmetric]
    using i by simp
  have parts: "int_part (unscalePrice n) = i" "frac_part (unscalePrice n) = t"
    unfolding u using parts_of_point [OF di] by simp_all
  have "is_decimal_string (unscalePrice n)"
    using i di dt t by (simp add: is_decimal_string_def parts)
  moreover have "(if length t < USDC_DECIMALS then pad_end USDC_DECIMALS (CHR ''0'') t
      else take USDC_DECIMALS t) = f"
    using pad lt by (auto simp: pad_end_def)
  moreover have "nat_of_digits (i @ f) = n"
  proof -
    have "i @ f = str" by (simp add: i_def f_def)
    then show ?thesis by (simp add: str_def pad_start_def nat_of_digits_append)
  qed
  ultimately show ?thesis by (simp add: normalizeWithDecimals_def parts)
qed

section \<open>Properties\<close>

text \<open>
  C35. Normalising an amount is exact up to the token's resolution: the base units are the value
  of the decimal string times \<open>10 ^ decimals\<close>, rounded down, so no payment rounds up and digits
  beyond the mint's decimals never add a unit.
\<close>

theorem amount_rounds_down:
  assumes "is_decimal_string s"
  shows "normalizeWithDecimals s d = Inr (nat \<lfloor>decimal_value s * 10 ^ d\<rfloor>)"
  using assms by (rule normalizeWithDecimals_floor)

theorem amount_rounds_down_witness: "normalizeWithDecimals ''0.0199'' 2 = Inr (nat \<lfloor>decimal_value ''0.0199'' * 10 ^ 2\<rfloor>)"
proof -
  have "is_decimal_string ''0.0199''" by code_simp
  then show ?thesis by (rule amount_rounds_down)
qed

text \<open>
  Prices survive the scaling for the proof circuit: formatting a scaled price and scaling it
  again gives the same integer, for every integer.
\<close>

theorem scale_round_trip: "scalePrice MINT_DECIMALS (unscalePrice n) None = Inr n"
  using unscalePrice_round_trip[of n]
  by (simp add: scalePrice_def normalizeAmount_def MINT_DECIMALS_def DEFAULT_USDC_MINT_def USDC_DECIMALS_def)

end
