(* ===== verification/Signing.thy ===== *)
theory Signing
  imports Amounts
begin

text \<open>
  \<^verbatim>\<open>packages/core/src/signing.ts\<close>, \<^verbatim>\<open>packages/core/src/quote.ts\<close> and
  \<^verbatim>\<open>packages/engine/src/middleware/validate-signature.ts\<close>: signing payloads, Ed25519 signatures as
  strings, \<open>did:key\<close> identities, quotes. A quote is the JSON object the code passes around.
\<close>

section \<open>Signatures and identities\<close>

definition objectSigningPayload :: "platform \<Rightarrow> (string \<times> json) list \<Rightarrow> bytes" where
  "objectSigningPayload P obj = canonicalJson P (spread_set obj ''signature'' (JStr []))"

definition signEd25519 :: "platform \<Rightarrow> bytes \<Rightarrow> bytes \<Rightarrow> string" where
  "signEd25519 P payload secretKey =
     ''ed25519:'' @ b64_encode P (ed_sign P payload (take 32 secretKey))"

text \<open>\<open>sig.startsWith\<close> throws on anything but a string, before the \<open>try\<close>.\<close>

definition verifyEd25519 :: "platform \<Rightarrow> bytes \<Rightarrow> json option \<Rightarrow> pubkey \<Rightarrow> bool res" where
  "verifyEd25519 P payload sig pubkey =
     (case sig of
        Some (JStr s) \<Rightarrow>
          if \<not> starts_with ''ed25519:'' s then Inr False
          else Inr (ed_verify P (b64_decode P (drop 8 s)) payload pubkey)
      | _ \<Rightarrow> Inl TypeError)"

definition DID_KEY_PREFIX :: string where "DID_KEY_PREFIX = ''did:key:z''"

definition buildDid :: "platform \<Rightarrow> pubkey \<Rightarrow> did" where
  "buildDid P pubkey = ''did:key:z'' @ bs58_encode P ([0xed, 0x01] @ pubkey)"

definition didToPublicKey :: "platform \<Rightarrow> string \<Rightarrow> pubkey option" where
  "didToPublicKey P did =
     (if \<not> starts_with DID_KEY_PREFIX did then None
      else case bs58_decode P (drop (length DID_KEY_PREFIX) did) of
        None \<Rightarrow> None
      | Some decoded \<Rightarrow> if take 2 decoded \<noteq> [0xed, 0x01] then None else mk_pubkey P (drop 2 decoded))"

text \<open>The same call on an unchecked field: a TypeError inside the \<open>try\<close> gives \<open>null\<close>.\<close>

definition didFieldToPublicKey :: "platform \<Rightarrow> json option \<Rightarrow> pubkey option" where
  "didFieldToPublicKey P v = (case as_string v of None \<Rightarrow> None | Some d \<Rightarrow> didToPublicKey P d)"

section \<open>The engine's signature checks\<close>

definition engineDidToPublicKey :: "platform \<Rightarrow> string \<Rightarrow> pubkey res" where
  "engineDidToPublicKey P did =
     (case didToPublicKey P did of
        None \<Rightarrow> Inl (EngineError 400 ''malformed_payload'')
      | Some pk \<Rightarrow> Inr pk)"

definition is_base64_char :: "char \<Rightarrow> bool" where
  "is_base64_char c \<longleftrightarrow>
     (let n = of_char c :: nat in
      65 \<le> n \<and> n \<le> 90 \<or> 97 \<le> n \<and> n \<le> 122 \<or> is_digit c \<or> n = 43 \<or> n = 47)"

text \<open>\<^verbatim>\<open>/^[A-Za-z0-9+/]*={0,2}$/\<close>.\<close>

definition base64_re :: "string \<Rightarrow> bool" where
  "base64_re s \<longleftrightarrow> dropWhile is_base64_char s \<in> {[], ''='', ''==''}"

definition preCheckSignatureFormat :: "platform \<Rightarrow> json option \<Rightarrow> json option \<Rightarrow> unit res" where
  "preCheckSignatureFormat P signature signerDid =
     (case as_string signature of
        None \<Rightarrow> Inl (EngineError 400 ''malformed_payload'')
      | Some sig \<Rightarrow>
          (case as_string signerDid of
             None \<Rightarrow> Inl (EngineError 400 ''malformed_payload'')
           | Some did \<Rightarrow>
               if \<not> starts_with ''ed25519:'' sig then Inl (EngineError 400 ''malformed_payload'')
               else if \<not> base64_re (drop 8 sig) then Inl (EngineError 400 ''malformed_payload'')
               else if length (b64_decode P (drop 8 sig)) \<noteq> 64
                 then Inl (EngineError 400 ''malformed_payload'')
               else rbind (engineDidToPublicKey P did) (\<lambda>_. Inr ())))"

definition verifySignature ::
  "platform \<Rightarrow> (string \<times> json) list \<Rightarrow> string \<Rightarrow> string \<Rightarrow> string \<Rightarrow> unit res" where
  "verifySignature P obj signature signerDid errorCode =
     rbind (engineDidToPublicKey P signerDid) (\<lambda>pubkey.
     rbind (verifyEd25519 P (objectSigningPayload P obj) (Some (JStr signature)) pubkey) (\<lambda>valid.
       if \<not> valid then Inl (EngineError 401 errorCode) else Inr ()))"

text \<open>Core and engine build the same payload: both signature fields present and empty.\<close>

definition quoteSigningPayload :: "platform \<Rightarrow> (string \<times> json) list \<Rightarrow> bytes" where
  "quoteSigningPayload P quote =
     canonicalJson P (spread_set (spread_set quote ''buyer_signature'' (JStr [])) ''seller_signature'' (JStr []))"

definition verifyQuoteSignature ::
  "platform \<Rightarrow> (string \<times> json) list \<Rightarrow> string \<Rightarrow> string \<Rightarrow> string \<Rightarrow> unit res" where
  "verifyQuoteSignature P quote signature expectedSignerDid errorCode =
     rbind (engineDidToPublicKey P expectedSignerDid) (\<lambda>pubkey.
     rbind (verifyEd25519 P (quoteSigningPayload P quote) (Some (JStr signature)) pubkey) (\<lambda>valid.
       if \<not> valid then Inl (EngineError 401 errorCode) else Inr ()))"

section \<open>Quotes\<close>

text \<open>
  The random parts of a quote are arguments: \<open>quote_id\<close> is \<open>uuidv4()\<close>, \<open>random32\<close> the 32 random
  bytes of the nonce.
\<close>

definition make_nonce :: "bytes \<Rightarrow> string" where
  "make_nonce random32 = ''0x'' @ to_hex random32"

record build_quote_input =
  bq_rfq_id :: string
  bq_buyer :: string
  bq_seller :: string
  bq_service_type :: string
  bq_final_price :: string
  bq_currency :: string
  bq_payment_endpoint :: string
  bq_expires_seconds :: int
  bq_memo_policy :: "string option"
  bq_spec :: "(string \<times> json) list option"
  bq_spec_hash :: "string option"

definition buildUnsignedQuote ::
  "platform \<Rightarrow> millis \<Rightarrow> string \<Rightarrow> bytes \<Rightarrow> build_quote_input \<Rightarrow> (string \<times> json) list res" where
  "buildUnsignedQuote P now quote_id random32 inp =
     rbind (to_iso_string (Some (now + bq_expires_seconds inp * 1000))) (\<lambda>expiresAt.
     Inr ([(''quote_id'', JStr quote_id),
           (''rfq_id'', JStr (bq_rfq_id inp)),
           (''buyer'', JStr (bq_buyer inp)),
           (''seller'', JStr (bq_seller inp)),
           (''service_type'', JStr (bq_service_type inp)),
           (''final_price'', JStr (bq_final_price inp)),
           (''currency'', JStr (bq_currency inp)),
           (''payment_endpoint'', JStr (bq_payment_endpoint inp)),
           (''expires_at'', JStr expiresAt),
           (''nonce'', JStr (make_nonce random32)),
           (''memo_policy'', JStr (case bq_memo_policy inp of None \<Rightarrow> ''quote_id_required'' | Some m \<Rightarrow> m)),
           (''buyer_signature'', JStr []),
           (''seller_signature'', JStr [])]
          @ opt_prop ''spec_hash''
              (case bq_spec_hash inp of
                 Some h \<Rightarrow> Some (JStr h)
               | None \<Rightarrow> map_option (\<lambda>sp. JStr (computeSpecHash P sp)) (bq_spec inp))))"

definition signQuoteAsBuyer :: "platform \<Rightarrow> (string \<times> json) list \<Rightarrow> bytes \<Rightarrow> (string \<times> json) list" where
  "signQuoteAsBuyer P quote secretKey =
     spread_set quote ''buyer_signature'' (JStr (signEd25519 P (quoteSigningPayload P quote) secretKey))"

definition signQuoteAsSeller :: "platform \<Rightarrow> (string \<times> json) list \<Rightarrow> bytes \<Rightarrow> (string \<times> json) list" where
  "signQuoteAsSeller P quote secretKey =
     spread_set quote ''seller_signature'' (JStr (signEd25519 P (quoteSigningPayload P quote) secretKey))"

section \<open>Lemmas\<close>

lemma spread_set_commute_mset:
  "distinct (map fst kvs) \<Longrightarrow> distinct (map fst (spread_set kvs k v))"
  by (simp add: spread_set_def distinct_update)

lemma spread_set_overwrite [simp]: "spread_set (spread_set kvs k v) k w = spread_set kvs k w"
  by (simp add: spread_set_def)

lemma engineDidToPublicKey_eq_Inr [simp]:
  "engineDidToPublicKey P did = Inr pk \<longleftrightarrow> didToPublicKey P did = Some pk"
  by (auto simp: engineDidToPublicKey_def split: option.splits)

lemma verifyEd25519_string_True [simp]:
  "verifyEd25519 P payload (Some (JStr s)) pk = Inr True \<longleftrightarrow>
     starts_with ''ed25519:'' s \<and> ed_verify P (b64_decode P (drop 8 s)) payload pk"
  by (auto simp: verifyEd25519_def)

text \<open>What a successful check establishes: the signer's key verifies the payload.\<close>

definition signed_by :: "platform \<Rightarrow> bytes \<Rightarrow> string \<Rightarrow> did \<Rightarrow> bool" where
  "signed_by P payload sig did \<longleftrightarrow>
     (\<exists>pk. didToPublicKey P did = Some pk \<and> verifyEd25519 P payload (Some (JStr sig)) pk = Inr True)"

lemma verifySignature_ok:
  "verifySignature P obj sig did code = Inr () \<longleftrightarrow> signed_by P (objectSigningPayload P obj) sig did"
  by (auto simp: verifySignature_def signed_by_def simp del: verifyEd25519_string_True split: if_splits)

lemma verifyQuoteSignature_ok:
  "verifyQuoteSignature P q sig did code = Inr () \<longleftrightarrow> signed_by P (quoteSigningPayload P q) sig did"
  by (auto simp: verifyQuoteSignature_def signed_by_def simp del: verifyEd25519_string_True split: if_splits)

lemma verifySignature_error:
  "verifySignature P obj sig did code = Inl e \<Longrightarrow>
   e = EngineError 401 code \<or> e = EngineError 400 ''malformed_payload''"
  by (auto simp: verifySignature_def engineDidToPublicKey_def verifyEd25519_def split: option.splits if_splits)

text \<open>On the demonstration platform, \<open>demo_sig c\<close> is \<open>demo_did c\<close>'s signature of anything.\<close>

lemma demo_key [simp]: "didToPublicKey demo_platform (demo_did c) = Some (latin1 (''6Mk'' @ [c]))"
  by (simp add: didToPublicKey_def demo_did_def DID_KEY_PREFIX_def starts_with_def demo_platform_def)

lemma demo_signed [simp]: "signed_by demo_platform m (demo_sig c) (demo_did c)"
  by (simp add: signed_by_def demo_sig_def starts_with_def demo_platform_def latin1_def
      didToPublicKey_def demo_did_def DID_KEY_PREFIX_def)

lemma demo_precheck [simp]:
  assumes "is_base64_char c"
  shows "preCheckSignatureFormat demo_platform (Some (JStr (demo_sig c))) (Some (JStr (demo_did c))) = Inr ()"
proof -
  have "base64_re (''6Mk'' @ c # replicate n (CHR ''A''))" for n
    using assms by (simp add: base64_re_def is_base64_char_def is_digit_def Let_def)
  from this[of 60] show ?thesis
    by (simp add: preCheckSignatureFormat_def demo_sig_def starts_with_def demo_platform_def latin1_def
        engineDidToPublicKey_def demo_did_def didToPublicKey_def DID_KEY_PREFIX_def)
qed

lemma demo_base64: "is_base64_char (CHR ''B'')" "is_base64_char (CHR ''S'')"
  by (simp_all add: is_base64_char_def)

end
