(* ===== verification/Schemas.thy ===== *)
theory Schemas
  imports Signing
begin

text \<open>
  \<^verbatim>\<open>packages/core/src/schemas.ts\<close> and \<open>verifyQuote\<close> of \<^verbatim>\<open>packages/core/src/quote.ts\<close>: the
  validators of RFQs, offers, counters and quotes over unchecked JSON. The lemmas say what a
  payload that passes is known to contain.
\<close>

section \<open>Model\<close>

datatype validation = VOk | VBad string

text \<open>The RFQ fields a session keeps (\<open>DerivedSession.rfq\<close>), which the validators read.\<close>

record session_rfq =
  buyer :: did
  rfq_id :: string
  anchor_price :: string
  currency :: string
  deadline :: string
  service_type :: string
  budget_commitment :: "string option"
  spec :: "json option"

definition isValidDecimalPositive :: "platform \<Rightarrow> json option \<Rightarrow> bool" where
  "isValidDecimalPositive P v = (case v of None \<Rightarrow> False | Some x \<Rightarrow> dec_pos P x)"

definition uuid_char :: "nat \<Rightarrow> char \<Rightarrow> bool" where
  "uuid_char i c \<longleftrightarrow>
     (if i \<in> {8, 13, 18, 23} then c = CHR ''-''
      else if i = 14 then c = CHR ''4''
      else if i = 19 then c \<in> {CHR ''8'', CHR ''9'', CHR ''a'', CHR ''b''}
      else is_hex_lower c)"

definition uuid_v4_re :: "string \<Rightarrow> bool" where
  "uuid_v4_re s \<longleftrightarrow> length s = 36 \<and> list_all (\<lambda>(i, c). uuid_char i c) (zip [0..<36] s)"

definition isUuidV4 :: "platform \<Rightarrow> json option \<Rightarrow> bool" where
  "isUuidV4 P v = uuid_v4_re (string_of P v)"

definition isFutureISO :: "platform \<Rightarrow> millis \<Rightarrow> json option \<Rightarrow> bool" where
  "isFutureISO P now v = (case parse_date P (string_of P v) of None \<Rightarrow> False | Some t \<Rightarrow> now < t)"

definition isDid :: "json option \<Rightarrow> bool" where
  "isDid v = (case as_string v of None \<Rightarrow> False | Some s \<Rightarrow> starts_with ''did:key:z6Mk'' s)"

definition isSignatureFormat :: "json option \<Rightarrow> bool" where
  "isSignatureFormat v = (case as_string v of None \<Rightarrow> False | Some s \<Rightarrow> starts_with ''ed25519:'' s)"

definition isPositiveInteger :: "json option \<Rightarrow> bool" where
  "isPositiveInteger v = (case as_number v of None \<Rightarrow> False | Some q \<Rightarrow> rat_is_int q \<and> 0 < q)"

definition hex64 :: "string \<Rightarrow> bool" where
  "hex64 s \<longleftrightarrow> length s = 64 \<and> list_all is_hex_lower s"

definition budget_commitment_re :: "string \<Rightarrow> bool" where
  "budget_commitment_re s \<longleftrightarrow> starts_with ''poseidon:'' s \<and> hex64 (drop 9 s)"

definition nonce_re :: "string \<Rightarrow> bool" where
  "nonce_re s \<longleftrightarrow> starts_with ''0x'' s \<and> hex64 (drop 2 s)"

definition PROTOCOL_VERSION :: string where "PROTOCOL_VERSION = ''ghost-bazaar-v4''"
definition SUPPORTED_CURRENCIES :: "string list" where "SUPPORTED_CURRENCIES = [''USDC'']"

definition currency_supported :: "json option \<Rightarrow> bool" where
  "currency_supported v = (case as_string v of None \<Rightarrow> False | Some s \<Rightarrow> s \<in> set SUPPORTED_CURRENCIES)"

definition missing_field :: "json \<Rightarrow> string list \<Rightarrow> bool" where
  "missing_field obj required \<longleftrightarrow> list_ex (\<lambda>f. is_nullish (jget obj f)) required"

definition rfq_required :: "string list" where
  "rfq_required = [''rfq_id'', ''protocol'', ''buyer'', ''service_type'', ''spec'', ''anchor_price'',
     ''currency'', ''deadline'', ''signature'']"

definition validateRfq :: "platform \<Rightarrow> millis \<Rightarrow> json \<Rightarrow> validation" where
  "validateRfq P now rfq =
     (if \<not> is_object (Some rfq) then VBad ''malformed_payload''
      else if missing_field rfq rfq_required then VBad ''malformed_payload''
      else if \<not> isUuidV4 P (jget rfq ''rfq_id'') then VBad ''malformed_payload''
      else if jget rfq ''protocol'' \<noteq> Some (JStr PROTOCOL_VERSION) then VBad ''malformed_payload''
      else if \<not> isDid (jget rfq ''buyer'') then VBad ''malformed_payload''
      else if \<not> isValidDecimalPositive P (jget rfq ''anchor_price'') then VBad ''invalid_amount''
      else if \<not> isFutureISO P now (jget rfq ''deadline'') then VBad ''invalid_deadline''
      else if \<not> currency_supported (jget rfq ''currency'') then VBad ''unsupported_currency''
      else if \<not> isSignatureFormat (jget rfq ''signature'') then VBad ''malformed_payload''
      else if jget rfq ''budget_commitment'' \<noteq> None
           \<and> \<not> budget_commitment_re (string_of P (jget rfq ''budget_commitment''))
        then VBad ''invalid_budget_commitment_format''
      else VOk)"

definition offer_required :: "string list" where
  "offer_required = [''offer_id'', ''rfq_id'', ''seller'', ''listing_id'', ''price'', ''currency'',
     ''valid_until'', ''signature'']"

text \<open>The white space \<open>trim\<close> removes, below code unit 256.\<close>

definition is_white_space :: "char \<Rightarrow> bool" where
  "is_white_space c \<longleftrightarrow> (let n = of_char c :: nat in 9 \<le> n \<and> n \<le> 13 \<or> n = 32 \<or> n = 160)"

definition is_blank :: "string \<Rightarrow> bool" where
  "is_blank s \<longleftrightarrow> list_all is_white_space s"

definition validateOffer :: "platform \<Rightarrow> millis \<Rightarrow> json \<Rightarrow> session_rfq \<Rightarrow> validation" where
  "validateOffer P now offer rfq =
     (if \<not> is_object (Some offer) then VBad ''malformed_payload''
      else if missing_field offer offer_required then VBad ''malformed_payload''
      else if \<not> isUuidV4 P (jget offer ''offer_id'') then VBad ''malformed_payload''
      else if jget offer ''rfq_id'' \<noteq> Some (JStr (rfq_id rfq)) then VBad ''rfq_id_mismatch''
      else if \<not> isDid (jget offer ''seller'') then VBad ''malformed_payload''
      else if (case as_string (jget offer ''listing_id'') of None \<Rightarrow> True | Some s \<Rightarrow> is_blank s)
        then VBad ''malformed_payload''
      else if \<not> isValidDecimalPositive P (jget offer ''price'') then VBad ''invalid_amount''
      else if jget offer ''currency'' \<noteq> Some (JStr (currency rfq)) then VBad ''currency_mismatch''
      else if \<not> isFutureISO P now (jget offer ''valid_until'') then VBad ''invalid_expiry''
      else if \<not> isSignatureFormat (jget offer ''signature'') then VBad ''malformed_payload''
      else VOk)"

definition counter_required :: "string list" where
  "counter_required = [''counter_id'', ''rfq_id'', ''round'', ''from'', ''to'', ''price'', ''currency'',
     ''valid_until'', ''signature'']"

definition has_commitment :: "session_rfq \<Rightarrow> bool" where
  "has_commitment rfq \<longleftrightarrow> budget_commitment rfq \<noteq> None \<and> budget_commitment rfq \<noteq> Some []"

definition proof_prop :: "json \<Rightarrow> string \<Rightarrow> json option" where
  "proof_prop counter k = (case jget counter ''budget_proof'' of None \<Rightarrow> None | Some pr \<Rightarrow> jget pr k)"

definition validateCounter :: "platform \<Rightarrow> millis \<Rightarrow> json \<Rightarrow> session_rfq \<Rightarrow> validation" where
  "validateCounter P now counter rfq =
     (if \<not> is_object (Some counter) then VBad ''malformed_payload''
      else if missing_field counter counter_required then VBad ''malformed_payload''
      else if \<not> isUuidV4 P (jget counter ''counter_id'') then VBad ''malformed_payload''
      else if jget counter ''rfq_id'' \<noteq> Some (JStr (rfq_id rfq)) then VBad ''rfq_id_mismatch''
      else if \<not> isPositiveInteger (jget counter ''round'') then VBad ''invalid_round''
      else if \<not> isDid (jget counter ''from'') then VBad ''malformed_payload''
      else if \<not> isDid (jget counter ''to'') then VBad ''malformed_payload''
      else if \<not> isValidDecimalPositive P (jget counter ''price'') then VBad ''invalid_amount''
      else if jget counter ''currency'' \<noteq> Some (JStr (currency rfq)) then VBad ''currency_mismatch''
      else if \<not> isFutureISO P now (jget counter ''valid_until'') then VBad ''invalid_expiry''
      else if \<not> isSignatureFormat (jget counter ''signature'') then VBad ''malformed_payload''
      else if has_commitment rfq then
        (if falsy (jget counter ''budget_proof'') then VBad ''missing_budget_proof''
         else if proof_prop counter ''protocol'' \<noteq> Some (JStr ''groth16'') then VBad ''invalid_budget_proof''
         else if proof_prop counter ''curve'' \<noteq> Some (JStr ''bn128'') then VBad ''invalid_budget_proof''
         else VOk)
      else if \<not> falsy (jget counter ''budget_proof'') then VBad ''unexpected_budget_proof''
      else VOk)"

definition VALID_MEMO_POLICIES :: "string list" where
  "VALID_MEMO_POLICIES = [''optional'', ''quote_id_required'', ''hash_required'']"

definition memo_policy_known :: "json option \<Rightarrow> bool" where
  "memo_policy_known v = (case as_string v of None \<Rightarrow> False | Some s \<Rightarrow> s \<in> set VALID_MEMO_POLICIES)"

definition verifyQuote :: "platform \<Rightarrow> millis \<Rightarrow> json \<Rightarrow> validation res" where
  "verifyQuote P now quote =
     (let kvs = (case quote of JObj kvs \<Rightarrow> kvs | _ \<Rightarrow> []) in
      if \<not> isValidDecimalPositive P (jget quote ''final_price'') then Inr (VBad ''invalid_amount'')
      else if \<not> currency_supported (jget quote ''currency'') then Inr (VBad ''unsupported_currency'')
      else if \<not> memo_policy_known (jget quote ''memo_policy'') then Inr (VBad ''malformed_quote'')
      else if \<not> isFutureISO P now (jget quote ''expires_at'') then Inr (VBad ''expired_quote'')
      else if \<not> nonce_re (string_of P (jget quote ''nonce'')) then Inr (VBad ''invalid_nonce_format'')
      else case (didFieldToPublicKey P (jget quote ''buyer''), didFieldToPublicKey P (jget quote ''seller'')) of
        (Some buyerPubkey, Some sellerPubkey) \<Rightarrow>
          rbind (verifyEd25519 P (quoteSigningPayload P kvs) (jget quote ''buyer_signature'') buyerPubkey) (\<lambda>buyerOk.
            if \<not> buyerOk then Inr (VBad ''invalid_buyer_signature'')
            else rbind (verifyEd25519 P (quoteSigningPayload P kvs) (jget quote ''seller_signature'') sellerPubkey) (\<lambda>sellerOk.
              if \<not> sellerOk then Inr (VBad ''invalid_seller_signature'') else Inr VOk))
      | _ \<Rightarrow> Inr (VBad ''malformed_quote''))"

section \<open>Lemmas\<close>

lemma isDid_string: "isDid v \<Longrightarrow> \<exists>s. v = Some (JStr s) \<and> starts_with ''did:key:z6Mk'' s"
  by (auto simp: isDid_def split: option.splits)

lemma isSignatureFormat_string: "isSignatureFormat v \<Longrightarrow> \<exists>s. v = Some (JStr s) \<and> starts_with ''ed25519:'' s"
  by (auto simp: isSignatureFormat_def split: option.splits)

lemma isPositiveInteger_number: "isPositiveInteger v \<Longrightarrow> \<exists>q. v = Some (JNum q) \<and> rat_is_int q \<and> 0 < q"
  by (auto simp: isPositiveInteger_def split: option.splits)

lemma is_object_jget: "is_object (Some v) \<Longrightarrow> jget v k = Some x \<Longrightarrow> \<exists>kvs. v = JObj kvs"
  by (cases v) auto

lemma validateRfq_ok:
  assumes "validateRfq P now rfq = VOk"
  shows "\<exists>b c sg. jget rfq ''buyer'' = Some (JStr b) \<and> starts_with ''did:key:z6Mk'' b
           \<and> jget rfq ''currency'' = Some (JStr c) \<and> c \<in> set SUPPORTED_CURRENCIES
           \<and> jget rfq ''signature'' = Some (JStr sg) \<and> starts_with ''ed25519:'' sg"
  using assms
  by (auto simp: validateRfq_def currency_supported_def split: if_splits option.splits
      dest!: isDid_string isSignatureFormat_string)

lemma validateOffer_ok:
  assumes "validateOffer P now offer rfq = VOk"
  shows "\<exists>kvs s l sg. offer = JObj kvs \<and> jget offer ''rfq_id'' = Some (JStr (rfq_id rfq))
           \<and> jget offer ''seller'' = Some (JStr s) \<and> starts_with ''did:key:z6Mk'' s
           \<and> jget offer ''listing_id'' = Some (JStr l)
           \<and> jget offer ''currency'' = Some (JStr (currency rfq))
           \<and> jget offer ''signature'' = Some (JStr sg)"
proof -
  have *: "is_object (Some offer)" "isDid (jget offer ''seller'')" "isSignatureFormat (jget offer ''signature'')"
    "jget offer ''rfq_id'' = Some (JStr (rfq_id rfq))" "jget offer ''currency'' = Some (JStr (currency rfq))"
    "\<exists>l. jget offer ''listing_id'' = Some (JStr l)"
    using assms by (auto simp: validateOffer_def split: if_splits option.splits)
  then show ?thesis
    using is_object_jget [OF *(1,4)] by (auto dest!: isDid_string isSignatureFormat_string)
qed

lemma validateCounter_ok:
  assumes "validateCounter P now counter rfq = VOk"
  shows "\<exists>kvs q f t sg. counter = JObj kvs \<and> jget counter ''rfq_id'' = Some (JStr (rfq_id rfq))
           \<and> jget counter ''round'' = Some (JNum q) \<and> rat_is_int q \<and> 0 < q
           \<and> jget counter ''from'' = Some (JStr f) \<and> jget counter ''to'' = Some (JStr t)
           \<and> jget counter ''currency'' = Some (JStr (currency rfq))
           \<and> jget counter ''signature'' = Some (JStr sg)"
proof -
  have *: "is_object (Some counter)" "isDid (jget counter ''from'')" "isDid (jget counter ''to'')"
    "isPositiveInteger (jget counter ''round'')" "isSignatureFormat (jget counter ''signature'')"
    "jget counter ''rfq_id'' = Some (JStr (rfq_id rfq))" "jget counter ''currency'' = Some (JStr (currency rfq))"
    using assms by (auto simp: validateCounter_def split: if_splits option.splits)
  then show ?thesis
    using is_object_jget [OF *(1,6)]
    by (auto dest!: isDid_string isSignatureFormat_string isPositiveInteger_number)
qed

end
