(* ===== verification/StateMachine.thy ===== *)
theory StateMachine
  imports Schemas
begin

text \<open>
  \<^verbatim>\<open>packages/engine/src/types.ts\<close> and \<^verbatim>\<open>packages/engine/src/state/state-machine.ts\<close>: session
  states, event types, the log entry, and the transition table. The two enumerations are
  instances of the library's class \<open>enum\<close>, so a statement about all of them is decided by
  evaluation.
\<close>

section \<open>Model\<close>

datatype session_state = OPEN | NEGOTIATING | COMMIT_PENDING | COMMITTED | EXPIRED | CANCELLED

datatype event_type =
    RFQ_CREATED
  | OFFER_SUBMITTED
  | COUNTER_SENT
  | WINNER_SELECTED
  | COMMIT_PENDING_EVENT
  | QUOTE_SIGNED
  | QUOTE_COMMITTED
  | COSIGN_DECLINED
  | COSIGN_TIMEOUT
  | NEGOTIATION_EXPIRED
  | NEGOTIATION_CANCELLED
  | SETTLEMENT_CONFIRMED

instantiation session_state :: enum
begin

definition enum_session_state :: "session_state list" where
  "enum_session_state = [OPEN, NEGOTIATING, COMMIT_PENDING, COMMITTED, EXPIRED, CANCELLED]"

definition enum_all_session_state :: "(session_state \<Rightarrow> bool) \<Rightarrow> bool" where
  "enum_all_session_state p \<longleftrightarrow> list_all p enum_class.enum"

definition enum_ex_session_state :: "(session_state \<Rightarrow> bool) \<Rightarrow> bool" where
  "enum_ex_session_state p \<longleftrightarrow> list_ex p enum_class.enum"

instance
proof
  show univ: "(UNIV :: session_state set) = set enum_class.enum"
    by (auto simp: enum_session_state_def intro: session_state.exhaust)
  show "distinct (enum_class.enum :: session_state list)" by (simp add: enum_session_state_def)
  show "enum_class.enum_all p = Ball UNIV p" for p :: "session_state \<Rightarrow> bool"
    by (simp add: enum_all_session_state_def univ list_all_iff)
  show "enum_class.enum_ex p = Bex UNIV p" for p :: "session_state \<Rightarrow> bool"
    by (simp add: enum_ex_session_state_def univ list_ex_iff)
qed

end

instantiation event_type :: enum
begin

definition enum_event_type :: "event_type list" where
  "enum_event_type =
     [RFQ_CREATED, OFFER_SUBMITTED, COUNTER_SENT, WINNER_SELECTED, COMMIT_PENDING_EVENT, QUOTE_SIGNED,
      QUOTE_COMMITTED, COSIGN_DECLINED, COSIGN_TIMEOUT, NEGOTIATION_EXPIRED, NEGOTIATION_CANCELLED,
      SETTLEMENT_CONFIRMED]"

definition enum_all_event_type :: "(event_type \<Rightarrow> bool) \<Rightarrow> bool" where
  "enum_all_event_type p \<longleftrightarrow> list_all p enum_class.enum"

definition enum_ex_event_type :: "(event_type \<Rightarrow> bool) \<Rightarrow> bool" where
  "enum_ex_event_type p \<longleftrightarrow> list_ex p enum_class.enum"

instance
proof
  show univ: "(UNIV :: event_type set) = set enum_class.enum"
    by (auto simp: enum_event_type_def intro: event_type.exhaust)
  show "distinct (enum_class.enum :: event_type list)" by (simp add: enum_event_type_def)
  show "enum_class.enum_all p = Ball UNIV p" for p :: "event_type \<Rightarrow> bool"
    by (simp add: enum_all_event_type_def univ list_all_iff)
  show "enum_class.enum_ex p = Bex UNIV p" for p :: "event_type \<Rightarrow> bool"
    by (simp add: enum_ex_event_type_def univ list_ex_iff)
qed

end

type_synonym payload = "(string \<times> json) list"

record negotiation_event =
  ev_id :: event_id
  ev_rfq :: string
  ev_type :: event_type
  ev_time :: string
  ev_actor :: did
  ev_payload :: payload

fun TRANSITION_RULES :: "session_state \<Rightarrow> event_type \<Rightarrow> session_state option" where
  "TRANSITION_RULES OPEN OFFER_SUBMITTED = Some NEGOTIATING"
| "TRANSITION_RULES OPEN NEGOTIATION_EXPIRED = Some EXPIRED"
| "TRANSITION_RULES OPEN NEGOTIATION_CANCELLED = Some CANCELLED"
| "TRANSITION_RULES NEGOTIATING OFFER_SUBMITTED = Some NEGOTIATING"
| "TRANSITION_RULES NEGOTIATING COUNTER_SENT = Some NEGOTIATING"
| "TRANSITION_RULES NEGOTIATING WINNER_SELECTED = Some COMMIT_PENDING"
| "TRANSITION_RULES NEGOTIATING NEGOTIATION_EXPIRED = Some EXPIRED"
| "TRANSITION_RULES NEGOTIATING NEGOTIATION_CANCELLED = Some CANCELLED"
| "TRANSITION_RULES COMMIT_PENDING COMMIT_PENDING_EVENT = Some COMMIT_PENDING"
| "TRANSITION_RULES COMMIT_PENDING QUOTE_SIGNED = Some COMMIT_PENDING"
| "TRANSITION_RULES COMMIT_PENDING QUOTE_COMMITTED = Some COMMITTED"
| "TRANSITION_RULES COMMIT_PENDING COSIGN_DECLINED = Some NEGOTIATING"
| "TRANSITION_RULES COMMIT_PENDING COSIGN_TIMEOUT = Some NEGOTIATING"
| "TRANSITION_RULES COMMIT_PENDING NEGOTIATION_EXPIRED = Some EXPIRED"
| "TRANSITION_RULES COMMITTED SETTLEMENT_CONFIRMED = Some COMMITTED"
| "TRANSITION_RULES _ _ = None"

text \<open>\<open>None\<close> is \<open>{ valid: false }\<close>.\<close>

definition isValidTransition :: "session_state \<Rightarrow> event_type \<Rightarrow> session_state option" where
  "isValidTransition currentState eventType = TRANSITION_RULES currentState eventType"

text \<open>The terminal states, spelled out in \<^verbatim>\<open>deadline-enforcer.ts\<close>, \<^verbatim>\<open>routes/events.ts\<close> and
  \<^verbatim>\<open>routes/rfqs.ts\<close>.\<close>

definition TERMINAL_STATES :: "session_state list" where
  "TERMINAL_STATES = [COMMITTED, EXPIRED, CANCELLED]"

section \<open>Lemmas\<close>

lemmas transition_simps [simp] = isValidTransition_def

lemma transition_cases:
  assumes "isValidTransition s e = Some s'"
  shows "(s, e, s') \<in> {(OPEN, OFFER_SUBMITTED, NEGOTIATING), (OPEN, NEGOTIATION_EXPIRED, EXPIRED),
     (OPEN, NEGOTIATION_CANCELLED, CANCELLED), (NEGOTIATING, OFFER_SUBMITTED, NEGOTIATING),
     (NEGOTIATING, COUNTER_SENT, NEGOTIATING), (NEGOTIATING, WINNER_SELECTED, COMMIT_PENDING),
     (NEGOTIATING, NEGOTIATION_EXPIRED, EXPIRED), (NEGOTIATING, NEGOTIATION_CANCELLED, CANCELLED),
     (COMMIT_PENDING, COMMIT_PENDING_EVENT, COMMIT_PENDING), (COMMIT_PENDING, QUOTE_SIGNED, COMMIT_PENDING),
     (COMMIT_PENDING, QUOTE_COMMITTED, COMMITTED), (COMMIT_PENDING, COSIGN_DECLINED, NEGOTIATING),
     (COMMIT_PENDING, COSIGN_TIMEOUT, NEGOTIATING), (COMMIT_PENDING, NEGOTIATION_EXPIRED, EXPIRED),
     (COMMITTED, SETTLEMENT_CONFIRMED, COMMITTED)}"
  using assms by (cases s; cases e) simp_all

end
