(* ===== verification/Session.thy ===== *)
theory Session
  imports StateMachine
begin

text \<open>
  \<^verbatim>\<open>packages/engine/src/state/session.ts\<close>: the session derived from its event log by the pure
  reducer \<open>deriveState\<close>. The reducer is a fold that may throw; the locale \<open>replay_invariant\<close>
  lifts a fact kept by one event to every derived session, and is interpreted for the
  invariants of the session below.
\<close>

section \<open>Model\<close>

record recorded_offer =
  o_offer_id :: string
  o_seller :: did
  o_price :: string
  o_currency :: string
  o_valid_until :: string
  o_listing_id :: string
  o_payment_endpoint :: string
  o_extensions :: "json option"

record recorded_counter =
  c_counter_id :: string
  c_round :: rat
  c_from :: did
  c_to :: did
  c_price :: string

record derived_session =
  state :: session_state
  rfq :: session_rfq
  offers :: "recorded_offer list"
  counters :: "recorded_counter list"
  selectedSeller :: "did option"
  selectedOfferId :: "string option"
  quoteRevision :: nat
  totalOfferCount :: nat
  offerCountBySeller :: "(did \<times> nat) list"
  totalAcceptAttempts :: nat
  acceptAttemptsBySeller :: "(did \<times> nat) list"
  lastEventId :: event_id
  unsignedQuote :: "json option"
  buyerSignature :: "string option"
  sellerSignature :: "string option"
  commitPendingAt :: "string option"

text \<open>\<open>m.get(k) ?? 0\<close> and \<open>m.set(k, (m.get(k) ?? 0) + 1)\<close>.\<close>

definition count_get :: "(string \<times> nat) list \<Rightarrow> string \<Rightarrow> nat" where
  "count_get m k = (case map_of m k of None \<Rightarrow> 0 | Some n \<Rightarrow> n)"

definition count_inc :: "(string \<times> nat) list \<Rightarrow> string \<Rightarrow> (string \<times> nat) list" where
  "count_inc m k = AList.update k (count_get m k + 1) m"

definition str :: "payload \<Rightarrow> string \<Rightarrow> string res" where
  "str p key = (case as_string (map_of p key) of
      None \<Rightarrow> Inl (JsError ''deriveState: missing or invalid string field'') | Some s \<Rightarrow> Inr s)"

definition num :: "payload \<Rightarrow> string \<Rightarrow> rat res" where
  "num p key = (case as_number (map_of p key) of
      None \<Rightarrow> Inl (JsError ''deriveState: missing or invalid number field'') | Some q \<Rightarrow> Inr q)"

definition optStr :: "payload \<Rightarrow> string \<Rightarrow> string option" where
  "optStr p key = as_string (map_of p key)"

text \<open>\<open>v !== undefined && v !== null && typeof v === "object" ? v : (absent)\<close>.\<close>

definition obj_or_none :: "json option \<Rightarrow> json option" where
  "obj_or_none v = (if is_object v then v else None)"

definition require :: "bool \<Rightarrow> string \<Rightarrow> unit res" where
  "require b msg = (if b then Inr () else Inl (JsError msg))"

definition apply_offer :: "derived_session \<Rightarrow> negotiation_event \<Rightarrow> derived_session res" where
  "apply_offer s e =
     (let ep = ev_payload e in
      rbind (str ep ''offer_id'') (\<lambda>offer_id.
      rbind (str ep ''seller'') (\<lambda>seller.
      rbind (str ep ''price'') (\<lambda>price.
      rbind (str ep ''currency'') (\<lambda>cur.
      rbind (str ep ''valid_until'') (\<lambda>valid_until.
      rbind (str ep ''listing_id'') (\<lambda>listing_id.
      rbind (str ep ''payment_endpoint'') (\<lambda>payment_endpoint.
      rbind (require (ev_actor e = seller) ''deriveState: OFFER_SUBMITTED actor'') (\<lambda>_.
      let offer = \<lparr>o_offer_id = offer_id, o_seller = seller, o_price = price, o_currency = cur,
                   o_valid_until = valid_until, o_listing_id = listing_id,
                   o_payment_endpoint = payment_endpoint,
                   o_extensions = obj_or_none (map_of ep ''extensions'')\<rparr>
      in Inr (s\<lparr>offers := offers s @ [offer], totalOfferCount := totalOfferCount s + 1,
                offerCountBySeller := count_inc (offerCountBySeller s) seller\<rparr>))))))))))"

definition apply_counter :: "derived_session \<Rightarrow> negotiation_event \<Rightarrow> derived_session res" where
  "apply_counter s e =
     (let ep = ev_payload e in
      rbind (str ep ''counter_id'') (\<lambda>counter_id.
      rbind (num ep ''round'') (\<lambda>round.
      rbind (str ep ''from'') (\<lambda>from.
      rbind (str ep ''to'') (\<lambda>to.
      rbind (str ep ''price'') (\<lambda>price.
      rbind (require (ev_actor e = from) ''deriveState: COUNTER_SENT actor'') (\<lambda>_.
      rbind (require (from = buyer (rfq s)) ''deriveState: COUNTER_SENT from'') (\<lambda>_.
      rbind (require (list_ex (\<lambda>o'. o_seller o' = to) (offers s)) ''deriveState: COUNTER_SENT to'') (\<lambda>_.
      Inr (s\<lparr>counters := counters s @ [\<lparr>c_counter_id = counter_id, c_round = round, c_from = from,
                                         c_to = to, c_price = price\<rparr>]\<rparr>))))))))))"

definition apply_winner :: "derived_session \<Rightarrow> negotiation_event \<Rightarrow> derived_session res" where
  "apply_winner s e =
     (let ep = ev_payload e in
      rbind (str ep ''seller'') (\<lambda>seller.
      rbind (str ep ''offer_id'') (\<lambda>offerId.
      rbind (require (ev_actor e = buyer (rfq s)) ''deriveState: WINNER_SELECTED actor'') (\<lambda>_.
      case find (\<lambda>o'. o_offer_id o' = offerId) (offers s) of
        None \<Rightarrow> Inl (JsError ''deriveState: WINNER_SELECTED offer_id'')
      | Some matchingOffer \<Rightarrow>
          rbind (require (o_seller matchingOffer = seller) ''deriveState: WINNER_SELECTED seller'') (\<lambda>_.
          Inr (s\<lparr>selectedSeller := Some seller, selectedOfferId := Some offerId,
                 quoteRevision := quoteRevision s + 1,
                 totalAcceptAttempts := totalAcceptAttempts s + 1,
                 acceptAttemptsBySeller := count_inc (acceptAttemptsBySeller s) seller,
                 unsignedQuote := (if is_object (map_of ep ''quote'') then map_of ep ''quote''
                                   else unsignedQuote s),
                 commitPendingAt := Some (ev_time e),
                 buyerSignature := None, sellerSignature := None\<rparr>))))))"

definition apply_rollback :: "derived_session \<Rightarrow> negotiation_event \<Rightarrow> derived_session res" where
  "apply_rollback s e =
     (let ep = ev_payload e in
      rbind (str ep ''seller'') (\<lambda>seller.
      rbind (require (selectedSeller s = Some seller) ''deriveState: rollback seller'') (\<lambda>_.
      rbind (require (ev_type e = COSIGN_DECLINED \<longrightarrow> selectedSeller s = Some (ev_actor e))
               ''deriveState: COSIGN_DECLINED actor'') (\<lambda>_.
      Inr (s\<lparr>selectedSeller := None, selectedOfferId := None, unsignedQuote := None,
             buyerSignature := None, sellerSignature := None, commitPendingAt := None\<rparr>)))))"

definition apply_signed :: "derived_session \<Rightarrow> negotiation_event \<Rightarrow> derived_session res" where
  "apply_signed s e =
     (let ep = ev_payload e in
      rbind (str ep ''seller'') (\<lambda>seller.
      rbind (require (selectedSeller s = Some seller) ''deriveState: QUOTE_SIGNED seller'') (\<lambda>_.
      rbind (require (ev_actor e = buyer (rfq s)) ''deriveState: QUOTE_SIGNED actor'') (\<lambda>_.
      rbind (str ep ''buyer_signature'') (\<lambda>sig.
      Inr (s\<lparr>buyerSignature := Some sig\<rparr>))))))"

definition apply_committed :: "derived_session \<Rightarrow> negotiation_event \<Rightarrow> derived_session res" where
  "apply_committed s e =
     (let ep = ev_payload e in
      rbind (str ep ''seller'') (\<lambda>seller.
      rbind (require (selectedSeller s = Some seller) ''deriveState: QUOTE_COMMITTED seller'') (\<lambda>_.
      rbind (require (selectedSeller s = Some (ev_actor e)) ''deriveState: QUOTE_COMMITTED actor'') (\<lambda>_.
      rbind (str ep ''seller_signature'') (\<lambda>sig.
      Inr (s\<lparr>sellerSignature := Some sig\<rparr>))))))"

text \<open>One iteration of the loop of \<open>deriveState\<close>.\<close>

definition apply_event :: "derived_session \<Rightarrow> negotiation_event \<Rightarrow> derived_session res" where
  "apply_event s e =
     (case isValidTransition (state s) (ev_type e) of
        None \<Rightarrow> Inl (JsError ''deriveState: invalid transition'')
      | Some nextState \<Rightarrow>
          let s1 = s\<lparr>lastEventId := ev_id e, state := nextState\<rparr> in
          (case ev_type e of
             OFFER_SUBMITTED \<Rightarrow> apply_offer s1 e
           | COUNTER_SENT \<Rightarrow> apply_counter s1 e
           | WINNER_SELECTED \<Rightarrow> apply_winner s1 e
           | COSIGN_DECLINED \<Rightarrow> apply_rollback s1 e
           | COSIGN_TIMEOUT \<Rightarrow> apply_rollback s1 e
           | QUOTE_SIGNED \<Rightarrow> apply_signed s1 e
           | QUOTE_COMMITTED \<Rightarrow> apply_committed s1 e
           | _ \<Rightarrow> Inr s1))"

definition init_session :: "negotiation_event \<Rightarrow> derived_session res" where
  "init_session first =
     (if ev_type first \<noteq> RFQ_CREATED then Inl (JsError ''deriveState: first event must be RFQ_CREATED'')
      else
        let p = ev_payload first in
        rbind (str p ''buyer'') (\<lambda>b.
        rbind (str p ''rfq_id'') (\<lambda>rid.
        rbind (str p ''anchor_price'') (\<lambda>ap.
        rbind (str p ''currency'') (\<lambda>cur.
        rbind (str p ''deadline'') (\<lambda>dl.
        rbind (str p ''service_type'') (\<lambda>st.
        Inr \<lparr>state = OPEN,
             rfq = \<lparr>buyer = b, rfq_id = rid, anchor_price = ap, currency = cur, deadline = dl,
                    service_type = st, budget_commitment = optStr p ''budget_commitment'',
                    spec = obj_or_none (map_of p ''spec'')\<rparr>,
             offers = [], counters = [], selectedSeller = None, selectedOfferId = None,
             quoteRevision = 0, totalOfferCount = 0, offerCountBySeller = [],
             totalAcceptAttempts = 0, acceptAttemptsBySeller = [], lastEventId = ev_id first,
             unsignedQuote = None, buyerSignature = None, sellerSignature = None,
             commitPendingAt = None\<rparr>)))))))"

fun replay :: "('s \<Rightarrow> 'e \<Rightarrow> 's res) \<Rightarrow> 's \<Rightarrow> 'e list \<Rightarrow> 's res" where
  "replay step s [] = Inr s"
| "replay step s (e # es) = rbind (step s e) (\<lambda>s'. replay step s' es)"

definition deriveState :: "negotiation_event list \<Rightarrow> derived_session option res" where
  "deriveState events =
     (case events of
        [] \<Rightarrow> Inr None
      | first # rest \<Rightarrow>
          rbind (init_session first) (\<lambda>s0. rbind (replay apply_event s0 rest) (\<lambda>s. Inr (Some s))))"

section \<open>Replay\<close>

lemma replay_append: "replay step s (es @ fs) = rbind (replay step s es) (\<lambda>s'. replay step s' fs)"
  by (induction es arbitrary: s) (auto simp: rbind_assoc)

lemma deriveState_snoc:
  assumes "es \<noteq> []"
  shows "deriveState (es @ [e]) =
           rbind (deriveState es) (\<lambda>so. rbind (apply_event (the so) e) (\<lambda>s. Inr (Some s)))"
proof -
  obtain first rest where es: "es = first # rest" using assms by (cases es) auto
  show ?thesis
    by (cases "init_session first") (auto simp: es deriveState_def replay_append rbind_assoc)
qed

lemma deriveState_Some:
  "deriveState es = Inr (Some s) \<longleftrightarrow>
     (\<exists>first rest s0. es = first # rest \<and> init_session first = Inr s0 \<and> replay apply_event s0 rest = Inr s)"
  by (cases es) (auto simp: deriveState_def)

lemma deriveState_None: "deriveState es = Inr None \<longleftrightarrow> es = []"
  by (cases es) (auto simp: deriveState_def)

lemma deriveState_snocD:
  assumes "deriveState es = Inr (Some s)" and "deriveState (es @ [e]) = Inr (Some s')"
  shows "apply_event s e = Inr s'"
proof -
  have "es \<noteq> []" using assms(1) by (auto simp: deriveState_def)
  then show ?thesis using assms by (auto simp: deriveState_snoc)
qed

locale replay_invariant =
  fixes inv :: "negotiation_event list \<Rightarrow> derived_session \<Rightarrow> bool"
  assumes inv_init: "init_session e = Inr s \<Longrightarrow> inv [e] s"
    and inv_step: "inv es s \<Longrightarrow> es \<noteq> [] \<Longrightarrow> apply_event s e = Inr s' \<Longrightarrow> inv (es @ [e]) s'"
begin

lemma replay_keeps: "inv es s \<Longrightarrow> es \<noteq> [] \<Longrightarrow> replay apply_event s fs = Inr s' \<Longrightarrow> inv (es @ fs) s'"
proof (induction fs arbitrary: es s)
  case Nil
  then show ?case by simp
next
  case (Cons f fs)
  then obtain t where "apply_event s f = Inr t" "replay apply_event t fs = Inr s'" by auto
  with Cons.prems(1,2) show ?case using Cons.IH [of "es @ [f]" t] inv_step by simp
qed

lemma derived: "deriveState es = Inr (Some s) \<Longrightarrow> inv es s"
  using replay_keeps inv_init by (fastforce simp: deriveState_Some)

end

section \<open>One event\<close>

named_theorems session_simps \<open>when an event is accepted and what it does\<close>

lemma str_Inr [simp]: "str p k = Inr s \<longleftrightarrow> map_of p k = Some (JStr s)"
  by (auto simp: str_def split: option.splits)

lemma num_Inr [simp]: "num p k = Inr q \<longleftrightarrow> map_of p k = Some (JNum q)"
  by (auto simp: num_def split: option.splits)

lemma require_Inr [simp]: "require b msg = Inr u \<longleftrightarrow> b"
  by (simp add: require_def)

lemma count_get_inc [simp]: "count_get (count_inc m k) d = count_get m d + (if d = k then 1 else 0)"
  by (simp add: count_get_def count_inc_def update_conv')

lemma count_get_Nil [simp]: "count_get [] d = 0"
  by (simp add: count_get_def)

lemma apply_offer_Inr [session_simps]:
  "apply_offer s e = Inr s' \<longleftrightarrow>
     (\<exists>oi p c vu li pe. map_of (ev_payload e) ''offer_id'' = Some (JStr oi)
        \<and> map_of (ev_payload e) ''seller'' = Some (JStr (ev_actor e))
        \<and> map_of (ev_payload e) ''price'' = Some (JStr p)
        \<and> map_of (ev_payload e) ''currency'' = Some (JStr c)
        \<and> map_of (ev_payload e) ''valid_until'' = Some (JStr vu)
        \<and> map_of (ev_payload e) ''listing_id'' = Some (JStr li)
        \<and> map_of (ev_payload e) ''payment_endpoint'' = Some (JStr pe)
        \<and> s' = s\<lparr>offers := offers s @ [\<lparr>o_offer_id = oi, o_seller = ev_actor e, o_price = p,
                    o_currency = c, o_valid_until = vu, o_listing_id = li, o_payment_endpoint = pe,
                    o_extensions = obj_or_none (map_of (ev_payload e) ''extensions'')\<rparr>],
                  totalOfferCount := totalOfferCount s + 1,
                  offerCountBySeller := count_inc (offerCountBySeller s) (ev_actor e)\<rparr>)"
  by (auto simp: apply_offer_def Let_def)

lemma apply_counter_Inr [session_simps]:
  "apply_counter s e = Inr s' \<longleftrightarrow>
     (\<exists>ci r t p. map_of (ev_payload e) ''counter_id'' = Some (JStr ci)
        \<and> map_of (ev_payload e) ''round'' = Some (JNum r)
        \<and> map_of (ev_payload e) ''from'' = Some (JStr (buyer (rfq s))) \<and> ev_actor e = buyer (rfq s)
        \<and> map_of (ev_payload e) ''to'' = Some (JStr t)
        \<and> map_of (ev_payload e) ''price'' = Some (JStr p)
        \<and> (\<exists>o' \<in> set (offers s). o_seller o' = t)
        \<and> s' = s\<lparr>counters := counters s @ [\<lparr>c_counter_id = ci, c_round = r, c_from = buyer (rfq s),
                                              c_to = t, c_price = p\<rparr>]\<rparr>)"
  by (auto simp: apply_counter_def Let_def list_ex_iff)

lemma apply_winner_Inr [session_simps]:
  "apply_winner s e = Inr s' \<longleftrightarrow>
     (\<exists>oi mo. map_of (ev_payload e) ''seller'' = Some (JStr (o_seller mo))
        \<and> map_of (ev_payload e) ''offer_id'' = Some (JStr oi)
        \<and> ev_actor e = buyer (rfq s) \<and> find (\<lambda>o'. o_offer_id o' = oi) (offers s) = Some mo
        \<and> s' = s\<lparr>selectedSeller := Some (o_seller mo), selectedOfferId := Some oi,
                  quoteRevision := quoteRevision s + 1, totalAcceptAttempts := totalAcceptAttempts s + 1,
                  acceptAttemptsBySeller := count_inc (acceptAttemptsBySeller s) (o_seller mo),
                  unsignedQuote := (if is_object (map_of (ev_payload e) ''quote'')
                     then map_of (ev_payload e) ''quote'' else unsignedQuote s),
                  commitPendingAt := Some (ev_time e), buyerSignature := None, sellerSignature := None\<rparr>)"
  by (auto simp: apply_winner_def Let_def)

lemma apply_rollback_Inr [session_simps]:
  "apply_rollback s e = Inr s' \<longleftrightarrow>
     (\<exists>d. map_of (ev_payload e) ''seller'' = Some (JStr d) \<and> selectedSeller s = Some d
        \<and> (ev_type e = COSIGN_DECLINED \<longrightarrow> ev_actor e = d)
        \<and> s' = s\<lparr>selectedSeller := None, selectedOfferId := None, unsignedQuote := None,
                  buyerSignature := None, sellerSignature := None, commitPendingAt := None\<rparr>)"
  by (auto simp: apply_rollback_def Let_def)

lemma apply_signed_Inr [session_simps]:
  "apply_signed s e = Inr s' \<longleftrightarrow>
     (\<exists>d sig. map_of (ev_payload e) ''seller'' = Some (JStr d) \<and> selectedSeller s = Some d
        \<and> ev_actor e = buyer (rfq s) \<and> map_of (ev_payload e) ''buyer_signature'' = Some (JStr sig)
        \<and> s' = s\<lparr>buyerSignature := Some sig\<rparr>)"
  by (auto simp: apply_signed_def Let_def)

lemma apply_committed_Inr [session_simps]:
  "apply_committed s e = Inr s' \<longleftrightarrow>
     (\<exists>sig. map_of (ev_payload e) ''seller'' = Some (JStr (ev_actor e)) \<and> selectedSeller s = Some (ev_actor e)
        \<and> map_of (ev_payload e) ''seller_signature'' = Some (JStr sig)
        \<and> s' = s\<lparr>sellerSignature := Some sig\<rparr>)"
  by (auto simp: apply_committed_def Let_def)

abbreviation entered :: "derived_session \<Rightarrow> negotiation_event \<Rightarrow> session_state \<Rightarrow> derived_session" where
  "entered s e n \<equiv> s\<lparr>lastEventId := ev_id e, state := n\<rparr>"

lemma apply_event_cases [consumes 1, case_names offer counter winner rollback signed committed other]:
  assumes ok: "apply_event s e = Inr s'"
  obtains
    (offer) "ev_type e = OFFER_SUBMITTED" "state s = OPEN \<or> state s = NEGOTIATING"
      "apply_offer (entered s e NEGOTIATING) e = Inr s'"
  | (counter) "ev_type e = COUNTER_SENT" "state s = NEGOTIATING"
      "apply_counter (entered s e NEGOTIATING) e = Inr s'"
  | (winner) "ev_type e = WINNER_SELECTED" "state s = NEGOTIATING"
      "apply_winner (entered s e COMMIT_PENDING) e = Inr s'"
  | (rollback) "ev_type e = COSIGN_DECLINED \<or> ev_type e = COSIGN_TIMEOUT" "state s = COMMIT_PENDING"
      "apply_rollback (entered s e NEGOTIATING) e = Inr s'"
  | (signed) "ev_type e = QUOTE_SIGNED" "state s = COMMIT_PENDING"
      "apply_signed (entered s e COMMIT_PENDING) e = Inr s'"
  | (committed) "ev_type e = QUOTE_COMMITTED" "state s = COMMIT_PENDING"
      "apply_committed (entered s e COMMITTED) e = Inr s'"
  | (other) n where "s' = entered s e n"
      "(ev_type e, state s, n) \<in> {(COMMIT_PENDING_EVENT, COMMIT_PENDING, COMMIT_PENDING),
         (SETTLEMENT_CONFIRMED, COMMITTED, COMMITTED), (NEGOTIATION_EXPIRED, OPEN, EXPIRED),
         (NEGOTIATION_EXPIRED, NEGOTIATING, EXPIRED), (NEGOTIATION_EXPIRED, COMMIT_PENDING, EXPIRED),
         (NEGOTIATION_CANCELLED, OPEN, CANCELLED), (NEGOTIATION_CANCELLED, NEGOTIATING, CANCELLED)}"
proof -
  obtain n where n: "isValidTransition (state s) (ev_type e) = Some n"
    using ok by (auto simp: apply_event_def)
  note tc = transition_cases [OF n]
  have ok': "(case ev_type e of
             OFFER_SUBMITTED \<Rightarrow> apply_offer (entered s e n) e
           | COUNTER_SENT \<Rightarrow> apply_counter (entered s e n) e
           | WINNER_SELECTED \<Rightarrow> apply_winner (entered s e n) e
           | COSIGN_DECLINED \<Rightarrow> apply_rollback (entered s e n) e
           | COSIGN_TIMEOUT \<Rightarrow> apply_rollback (entered s e n) e
           | QUOTE_SIGNED \<Rightarrow> apply_signed (entered s e n) e
           | QUOTE_COMMITTED \<Rightarrow> apply_committed (entered s e n) e
           | _ \<Rightarrow> Inr (entered s e n)) = Inr s'"
    using ok n by (simp add: apply_event_def Let_def)
  show thesis
  proof (cases "ev_type e")
    case OFFER_SUBMITTED
    with tc ok' show thesis by (intro offer) auto
  next
    case COUNTER_SENT
    with tc ok' show thesis by (intro counter) auto
  next
    case WINNER_SELECTED
    with tc ok' show thesis by (intro winner) auto
  next
    case COSIGN_DECLINED
    with tc ok' show thesis by (intro rollback) auto
  next
    case COSIGN_TIMEOUT
    with tc ok' show thesis by (intro rollback) auto
  next
    case QUOTE_SIGNED
    with tc ok' show thesis by (intro signed) auto
  next
    case QUOTE_COMMITTED
    with tc ok' show thesis by (intro committed) auto
  qed (use tc ok' in \<open>intro other [of n]; simp\<close>)+
qed

lemma apply_event_rfq: "apply_event s e = Inr s' \<Longrightarrow> rfq s' = rfq s"
  by (erule apply_event_cases) (auto simp: session_simps)

lemma apply_event_transition:
  "apply_event s e = Inr s' \<Longrightarrow> isValidTransition (state s) (ev_type e) = Some (state s')"
  by (erule apply_event_cases) (auto simp: session_simps)

lemma apply_event_last: "apply_event s e = Inr s' \<Longrightarrow> lastEventId s' = ev_id e"
  by (erule apply_event_cases) (auto simp: session_simps)

text \<open>The recorded offers and counters only grow.\<close>

lemma apply_event_offers:
  "apply_event s e = Inr s' \<Longrightarrow> ev_type e \<noteq> OFFER_SUBMITTED \<Longrightarrow> offers s' = offers s"
  by (erule apply_event_cases) (auto simp: session_simps)

lemma apply_event_counters:
  "apply_event s e = Inr s' \<Longrightarrow> ev_type e \<noteq> COUNTER_SENT \<Longrightarrow> counters s' = counters s"
  by (erule apply_event_cases) (auto simp: session_simps)

section \<open>Invariants of derived sessions\<close>

definition events_of :: "event_type \<Rightarrow> negotiation_event list \<Rightarrow> negotiation_event list" where
  "events_of t es = filter (\<lambda>e. ev_type e = t) es"

definition bookkeeping :: "negotiation_event list \<Rightarrow> derived_session \<Rightarrow> bool" where
  "bookkeeping es s \<longleftrightarrow>
     totalOfferCount s = length (offers s) \<and>
     (\<forall>d. count_get (offerCountBySeller s) d = length (filter (\<lambda>o'. o_seller o' = d) (offers s))) \<and>
     length (offers s) = length (events_of OFFER_SUBMITTED es) \<and>
     length (counters s) = length (events_of COUNTER_SENT es) \<and>
     totalAcceptAttempts s = length (events_of WINNER_SELECTED es) \<and>
     quoteRevision s = totalAcceptAttempts s \<and>
     lastEventId s = ev_id (last es)"

definition commitment_inv :: "derived_session \<Rightarrow> bool" where
  "commitment_inv s \<longleftrightarrow>
     (state s = OPEN \<longrightarrow> offers s = []) \<and>
     (state s \<in> {NEGOTIATING, COMMIT_PENDING, COMMITTED} \<longrightarrow> offers s \<noteq> []) \<and>
     (state s \<in> {OPEN, NEGOTIATING} \<longrightarrow>
        selectedSeller s = None \<and> selectedOfferId s = None \<and> unsignedQuote s = None \<and>
        buyerSignature s = None \<and> sellerSignature s = None \<and> commitPendingAt s = None) \<and>
     (state s \<in> {COMMIT_PENDING, COMMITTED} \<longrightarrow>
        (\<exists>o' oi. selectedOfferId s = Some oi \<and> find (\<lambda>x. o_offer_id x = oi) (offers s) = Some o' \<and>
              selectedSeller s = Some (o_seller o') \<and> commitPendingAt s \<noteq> None)) \<and>
     (state s = COMMIT_PENDING \<longrightarrow> sellerSignature s = None) \<and>
     (state s = COMMITTED \<longrightarrow> sellerSignature s \<noteq> None)"

definition counters_inv :: "derived_session \<Rightarrow> bool" where
  "counters_inv s \<longleftrightarrow>
     (\<forall>c \<in> set (counters s). c_from c = buyer (rfq s) \<and> (\<exists>o' \<in> set (offers s). o_seller o' = c_to c))"

lemma bookkeeping_init: "init_session e = Inr s \<Longrightarrow> bookkeeping [e] s"
  by (auto simp: init_session_def Let_def bookkeeping_def events_of_def split: if_splits)

lemma bookkeeping_step:
  assumes "bookkeeping es s" and "apply_event s e = Inr s'"
  shows "bookkeeping (es @ [e]) s'"
  using assms(2)
proof (cases rule: apply_event_cases)
  case offer
  with assms(1) show ?thesis by (clarsimp simp: session_simps bookkeeping_def events_of_def)
next
  case counter
  with assms(1) show ?thesis by (clarsimp simp: session_simps bookkeeping_def events_of_def)
next
  case winner
  with assms(1) show ?thesis by (clarsimp simp: session_simps bookkeeping_def events_of_def)
next
  case rollback
  with assms(1) show ?thesis by (elim disjE; clarsimp simp: session_simps bookkeeping_def events_of_def)
next
  case signed
  with assms(1) show ?thesis by (clarsimp simp: session_simps bookkeeping_def events_of_def)
next
  case committed
  with assms(1) show ?thesis by (clarsimp simp: session_simps bookkeeping_def events_of_def)
next
  case other
  with assms(1) show ?thesis by (auto simp: bookkeeping_def events_of_def)
qed

lemma commitment_init: "init_session e = Inr s \<Longrightarrow> commitment_inv s"
  by (auto simp: init_session_def Let_def commitment_inv_def split: if_splits)

lemma commitment_step:
  assumes "commitment_inv s" and "apply_event s e = Inr s'"
  shows "commitment_inv s'"
  using assms(2)
proof (cases rule: apply_event_cases)
  case offer
  with assms(1) show ?thesis by (elim disjE; clarsimp simp: session_simps commitment_inv_def)
next
  case counter
  with assms(1) show ?thesis by (clarsimp simp: session_simps commitment_inv_def)
next
  case winner
  with assms(1) show ?thesis by (clarsimp simp: session_simps commitment_inv_def)
next
  case rollback
  with assms(1) show ?thesis by (clarsimp simp: session_simps commitment_inv_def)
next
  case signed
  with assms(1) show ?thesis by (clarsimp simp: session_simps commitment_inv_def)
next
  case committed
  with assms(1) show ?thesis by (clarsimp simp: session_simps commitment_inv_def)
next
  case other
  with assms(1) show ?thesis by (elim insertE; clarsimp simp: commitment_inv_def)
qed

lemma counters_step:
  assumes "counters_inv s" and "apply_event s e = Inr s'"
  shows "counters_inv s'"
proof -
  have "rfq s' = rfq s" using assms(2) by (rule apply_event_rfq)
  moreover have "set (offers s) \<subseteq> set (offers s')"
    using assms(2) by (cases rule: apply_event_cases) (auto simp: session_simps)
  moreover have "\<forall>c \<in> set (counters s'). c \<in> set (counters s) \<or>
      c_from c = buyer (rfq s) \<and> (\<exists>o' \<in> set (offers s). o_seller o' = c_to c)"
    using assms(2) by (cases rule: apply_event_cases) (fastforce simp: session_simps)+
  ultimately show ?thesis using assms(1) unfolding counters_inv_def by (metis subsetD)
qed

lemma counters_init: "init_session e = Inr s \<Longrightarrow> counters_inv s"
  by (auto simp: init_session_def Let_def counters_inv_def split: if_splits)

interpretation book: replay_invariant bookkeeping
  using bookkeeping_init bookkeeping_step by unfold_locales

interpretation commitment: replay_invariant "\<lambda>_. commitment_inv"
  using commitment_init commitment_step by unfold_locales

interpretation counters: replay_invariant "\<lambda>_. counters_inv"
  using counters_init counters_step by unfold_locales

text \<open>Every recorded offer is the content of an event its seller submitted.\<close>

definition offer_event :: "recorded_offer \<Rightarrow> negotiation_event \<Rightarrow> bool" where
  "offer_event o' e \<longleftrightarrow>
     ev_type e = OFFER_SUBMITTED \<and> ev_actor e = o_seller o' \<and>
     map_of (ev_payload e) ''offer_id'' = Some (JStr (o_offer_id o')) \<and>
     map_of (ev_payload e) ''price'' = Some (JStr (o_price o')) \<and>
     map_of (ev_payload e) ''currency'' = Some (JStr (o_currency o')) \<and>
     map_of (ev_payload e) ''listing_id'' = Some (JStr (o_listing_id o')) \<and>
     map_of (ev_payload e) ''payment_endpoint'' = Some (JStr (o_payment_endpoint o'))"

definition offers_logged :: "negotiation_event list \<Rightarrow> derived_session \<Rightarrow> bool" where
  "offers_logged es s \<longleftrightarrow> list_all2 offer_event (offers s) (events_of OFFER_SUBMITTED es)"

lemma offers_logged_step:
  assumes "offers_logged es s" "apply_event s e = Inr s'"
  shows "offers_logged (es @ [e]) s'"
proof (cases "ev_type e = OFFER_SUBMITTED")
  case True
  with assms(2) have "apply_offer (entered s e NEGOTIATING) e = Inr s'"
    by (cases rule: apply_event_cases) auto
  then have "\<exists>o'. offers s' = offers s @ [o'] \<and> offer_event o' e"
    using True by (auto simp: session_simps offer_event_def)
  then show ?thesis using assms(1) True
    by (auto simp: offers_logged_def events_of_def intro: list_all2_appendI)
next
  case False
  then show ?thesis using assms apply_event_offers[OF assms(2) False]
    by (simp add: offers_logged_def events_of_def)
qed

lemma offers_logged_init: "init_session e = Inr s \<Longrightarrow> offers_logged [e] s"
  by (auto simp: init_session_def Let_def offers_logged_def events_of_def split: if_splits)

interpretation logged: replay_invariant offers_logged
  using offers_logged_init offers_logged_step by unfold_locales

text \<open>The abstract machine: the transition table run over the types of the events.\<close>

fun fsm_run :: "session_state \<Rightarrow> event_type list \<Rightarrow> session_state option" where
  "fsm_run s [] = Some s"
| "fsm_run s (t # ts) = (case TRANSITION_RULES s t of None \<Rightarrow> None | Some s' \<Rightarrow> fsm_run s' ts)"

definition fsm_follows :: "negotiation_event list \<Rightarrow> derived_session \<Rightarrow> bool" where
  "fsm_follows es s \<longleftrightarrow> ev_type (hd es) = RFQ_CREATED \<and> fsm_run OPEN (map ev_type (tl es)) = Some (state s)"

lemma fsm_run_append:
  "fsm_run s (ts @ us) = (case fsm_run s ts of None \<Rightarrow> None | Some s' \<Rightarrow> fsm_run s' us)"
  by (induction ts arbitrary: s) (auto split: option.splits)

lemma fsm_follows_step:
  assumes "fsm_follows es s" "es \<noteq> []" "apply_event s e = Inr s'"
  shows "fsm_follows (es @ [e]) s'"
  using assms apply_event_transition[OF assms(3)] by (simp add: fsm_follows_def fsm_run_append)

lemma fsm_follows_init: "init_session e = Inr s \<Longrightarrow> fsm_follows [e] s"
  by (auto simp: init_session_def Let_def fsm_follows_def split: if_splits)

interpretation fsm: replay_invariant fsm_follows
  using fsm_follows_init fsm_follows_step by unfold_locales

section \<open>A sample log\<close>

definition sample_event :: "string \<Rightarrow> event_type \<Rightarrow> did \<Rightarrow> payload \<Rightarrow> negotiation_event" where
  "sample_event i t a p = \<lparr>ev_id = i, ev_rfq = ''r'', ev_type = t, ev_time = ''2030-01-01T00:00:00.000Z'',
     ev_actor = a, ev_payload = p\<rparr>"

definition sample_rfq_event :: negotiation_event where
  "sample_rfq_event = sample_event ''e0'' RFQ_CREATED ''B''
     [(''buyer'', JStr ''B''), (''rfq_id'', JStr ''r''), (''anchor_price'', JStr ''10''),
      (''currency'', JStr ''USDC''), (''deadline'', JStr ''2030-01-02T00:00:00.000Z''),
      (''service_type'', JStr ''x'')]"

definition sample_offer_event :: negotiation_event where
  "sample_offer_event = sample_event ''e1'' OFFER_SUBMITTED ''S''
     [(''offer_id'', JStr ''o1''), (''seller'', JStr ''S''), (''price'', JStr ''9''),
      (''currency'', JStr ''USDC''), (''valid_until'', JStr ''2030-01-01T12:00:00.000Z''),
      (''listing_id'', JStr ''l1''), (''payment_endpoint'', JStr ''pe'')]"

definition sample_winner_event :: negotiation_event where
  "sample_winner_event = sample_event ''e2'' WINNER_SELECTED ''B''
     [(''seller'', JStr ''S''), (''offer_id'', JStr ''o1'')]"

definition sample_log :: "negotiation_event list" where
  "sample_log = [sample_rfq_event, sample_offer_event, sample_winner_event]"

lemmas sample_defs = sample_log_def sample_rfq_event_def sample_offer_event_def sample_winner_event_def
  sample_event_def

lemma sample_log_derives:
  "\<exists>s. deriveState sample_log = Inr (Some s) \<and> state s = COMMIT_PENDING \<and> selectedSeller s = Some ''S''"
  by (simp add: sample_defs deriveState_def init_session_def apply_event_def apply_offer_def
      apply_winner_def str_def num_def require_def)

section \<open>Properties\<close>

text \<open>
  C16. A session in \<open>COMMIT_PENDING\<close> or \<open>COMMITTED\<close> has a selected offer; it is one of the
  recorded offers, the selected seller is its seller, and the log holds the \<open>OFFER_SUBMITTED\<close>
  event by that seller with the same price, listing and payment endpoint. A session that is
  open or negotiating has no selection and no signatures left over from an earlier attempt.
\<close>

theorem derive_selection:
  assumes "deriveState es = Inr (Some s)"
  shows "(state s \<in> {COMMIT_PENDING, COMMITTED} \<longrightarrow>
            (\<exists>o' \<in> set (offers s). \<exists>e \<in> set es. selectedOfferId s = Some (o_offer_id o') \<and>
               selectedSeller s = Some (o_seller o') \<and> offer_event o' e)) \<and>
         (state s \<in> {OPEN, NEGOTIATING} \<longrightarrow>
            selectedSeller s = None \<and> selectedOfferId s = None \<and> unsignedQuote s = None \<and>
            buyerSignature s = None \<and> sellerSignature s = None)"
proof -
  have inv: "commitment_inv s" and log: "offers_logged es s"
    using commitment.derived logged.derived assms by blast+
  have "\<exists>e \<in> set es. offer_event o' e" if "o' \<in> set (offers s)" for o'
    using log that unfolding offers_logged_def events_of_def
    by (metis filter_is_subset in_set_conv_nth list_all2_conv_all_nth subsetD)
  then show ?thesis using inv unfolding commitment_inv_def by (fastforce simp: find_Some_iff)
qed

theorem derive_selection_witness:
  "\<exists>s. deriveState sample_log = Inr (Some s) \<and>
     (\<exists>o' \<in> set (offers s). \<exists>e \<in> set sample_log. selectedOfferId s = Some (o_offer_id o') \<and>
        selectedSeller s = Some (o_seller o') \<and> offer_event o' e)"
proof -
  obtain s where s: "deriveState sample_log = Inr (Some s)" "state s = COMMIT_PENDING"
    using sample_log_derives by blast
  show ?thesis using derive_selection[OF s(1)] s by blast
qed

text \<open>
  C17. Refinement: replaying a log implements the transition table. A log that derives a
  session starts with \<open>RFQ_CREATED\<close>, its remaining event types are a run of the table from
  \<open>OPEN\<close>, and the run ends in the session's state.
\<close>

theorem derive_refines_table:
  assumes "deriveState es = Inr (Some s)"
  shows "ev_type (hd es) = RFQ_CREATED \<and> fsm_run OPEN (map ev_type (tl es)) = Some (state s)"
  using fsm.derived[OF assms] by (simp add: fsm_follows_def)

theorem derive_refines_table_witness:
  "\<exists>s. deriveState sample_log = Inr (Some s) \<and>
       fsm_run OPEN [OFFER_SUBMITTED, WINNER_SELECTED] = Some (state s)"
proof -
  obtain s where s: "deriveState sample_log = Inr (Some s)" using sample_log_derives by blast
  show ?thesis using derive_refines_table[OF s] s by (simp add: sample_defs)
qed

end
