(* ===== verification/EventStore.thy ===== *)
theory EventStore
  imports Session
begin

text \<open>
  \<^verbatim>\<open>packages/engine/src/state/visibility.ts\<close> and \<^verbatim>\<open>packages/engine/src/state/event-store.ts\<close>: who may
  see an event, and the in-memory event store with its subscribers.

  A subscriber is an object of its own, held by a JavaScript \<open>Set\<close> that the unsubscribe closure
  captures; the map \<open>subscribers\<close> names the current \<open>Set\<close> of a session. The model keeps both
  levels: \<open>es_subs\<close> maps a session to the address of its \<open>Set\<close>, \<open>es_sets\<close> is the store of
  \<open>Set\<close> objects. What a subscriber's listener has been called with is its field \<open>sub_delivered\<close>.
  Events are immutable values, so the clone and freeze of \<open>append\<close> are the identity.
\<close>

section \<open>Visibility\<close>

definition TERMINAL_EVENT_TYPES :: "event_type list" where
  "TERMINAL_EVENT_TYPES = [QUOTE_COMMITTED, NEGOTIATION_EXPIRED, NEGOTIATION_CANCELLED]"

definition isEventVisibleTo :: "negotiation_event \<Rightarrow> did \<Rightarrow> did \<Rightarrow> bool" where
  "isEventVisibleTo event callerDid buyerDid =
     (if callerDid = buyerDid then True
      else case ev_type event of
        RFQ_CREATED \<Rightarrow> True
      | NEGOTIATION_EXPIRED \<Rightarrow> True
      | NEGOTIATION_CANCELLED \<Rightarrow> True
      | OFFER_SUBMITTED \<Rightarrow> ev_actor event = callerDid
      | COUNTER_SENT \<Rightarrow> as_string (map_of (ev_payload event) ''to'') = Some callerDid
      | WINNER_SELECTED \<Rightarrow> as_string (map_of (ev_payload event) ''seller'') = Some callerDid
      | COMMIT_PENDING_EVENT \<Rightarrow> as_string (map_of (ev_payload event) ''seller'') = Some callerDid
      | QUOTE_SIGNED \<Rightarrow> as_string (map_of (ev_payload event) ''seller'') = Some callerDid
      | QUOTE_COMMITTED \<Rightarrow> as_string (map_of (ev_payload event) ''seller'') = Some callerDid
      | COSIGN_DECLINED \<Rightarrow> as_string (map_of (ev_payload event) ''seller'') = Some callerDid
      | COSIGN_TIMEOUT \<Rightarrow> as_string (map_of (ev_payload event) ''seller'') = Some callerDid
      | SETTLEMENT_CONFIRMED \<Rightarrow> as_string (map_of (ev_payload event) ''seller'') = Some callerDid)"

section \<open>The store\<close>

datatype sub_mode = Direct | Buffering | Live | Stopped

record subscriber =
  sub_id :: nat
  sub_caller :: did
  sub_buyer :: did
  sub_mode :: sub_mode
  sub_buffer :: "negotiation_event list"
  sub_delivered :: "negotiation_event list"

record event_store =
  es_events :: "(string \<times> negotiation_event list) list"
  es_seen :: "event_id list"
  es_subs :: "(string \<times> nat) list"
  es_sets :: "nat \<Rightarrow> subscriber list"
  es_term :: "(string \<times> nat) list"
  es_tsets :: "nat \<Rightarrow> nat list"
  es_fired :: "(nat \<times> session_state) list"
  es_next :: nat

text \<open>What an unsubscribe closure captures: the session, the address of the \<open>Set\<close>, the element.\<close>

record sub_handle =
  h_rfq :: string
  h_set :: nat
  h_sub :: nat

definition empty_store :: event_store where
  "empty_store = \<lparr>es_events = [], es_seen = [], es_subs = [], es_sets = (\<lambda>_. []), es_term = [],
     es_tsets = (\<lambda>_. []), es_fired = [], es_next = 0\<rparr>"

definition getAllEvents :: "event_store \<Rightarrow> string \<Rightarrow> negotiation_event list" where
  "getAllEvents st rfqId = (case map_of (es_events st) rfqId of None \<Rightarrow> [] | Some evs \<Rightarrow> evs)"

definition store_size :: "event_store \<Rightarrow> string \<Rightarrow> nat" where
  "store_size st rfqId = (case map_of (es_events st) rfqId of None \<Rightarrow> 0 | Some evs \<Rightarrow> length evs)"

definition listSessionIds :: "event_store \<Rightarrow> string list" where
  "listSessionIds st = map fst (es_events st)"

definition hasCursor :: "event_store \<Rightarrow> string \<Rightarrow> event_id \<Rightarrow> bool" where
  "hasCursor st rfqId eventId =
     (case map_of (es_events st) rfqId of None \<Rightarrow> False | Some evs \<Rightarrow> list_ex (\<lambda>e. ev_id e = eventId) evs)"

text \<open>
  The listener a subscriber registered, called for one visible event. A listener that throws
  is caught and changes nothing here.
\<close>

definition deliver :: "negotiation_event \<Rightarrow> subscriber \<Rightarrow> subscriber" where
  "deliver event sub =
     (if isEventVisibleTo event (sub_caller sub) (sub_buyer sub) then
        (case sub_mode sub of
           Stopped \<Rightarrow> sub
         | Buffering \<Rightarrow> sub\<lparr>sub_buffer := sub_buffer sub @ [event]\<rparr>
         | _ \<Rightarrow> sub\<lparr>sub_delivered := sub_delivered sub @ [event]\<rparr>)
      else sub)"

definition terminal_state_of :: "event_type \<Rightarrow> session_state" where
  "terminal_state_of t =
     (if t = QUOTE_COMMITTED then COMMITTED else if t = NEGOTIATION_EXPIRED then EXPIRED else CANCELLED)"

definition append_log :: "string \<Rightarrow> negotiation_event \<Rightarrow> event_store \<Rightarrow> event_store" where
  "append_log rfqId event st =
     st\<lparr>es_seen := es_seen st @ [ev_id event],
        es_events := AList.update rfqId (getAllEvents st rfqId @ [event]) (es_events st)\<rparr>"

definition notify_subscribers :: "string \<Rightarrow> negotiation_event \<Rightarrow> event_store \<Rightarrow> event_store" where
  "notify_subscribers rfqId event st =
     (case map_of (es_subs st) rfqId of
        None \<Rightarrow> st
      | Some a \<Rightarrow> st\<lparr>es_sets := (es_sets st)(a := map (deliver event) (es_sets st a))\<rparr>)"

definition notify_terminal :: "string \<Rightarrow> negotiation_event \<Rightarrow> event_store \<Rightarrow> event_store" where
  "notify_terminal rfqId event st =
     (if ev_type event \<in> set TERMINAL_EVENT_TYPES then
        (case map_of (es_term st) rfqId of
           None \<Rightarrow> st
         | Some a \<Rightarrow>
             st\<lparr>es_fired := es_fired st @ map (\<lambda>l. (l, terminal_state_of (ev_type event))) (es_tsets st a),
                es_term := AList.delete rfqId (es_term st)\<rparr>)
      else st)"

definition store_append :: "string \<Rightarrow> negotiation_event \<Rightarrow> event_store \<Rightarrow> event_store res" where
  "store_append rfqId event st =
     (if rfqId \<noteq> ev_rfq event then Inl (JsError ''EventStore.append: rfqId mismatch'')
      else if ev_id event \<in> set (es_seen st) then Inl (JsError ''EventStore.append: duplicate event_id'')
      else Inr (notify_terminal rfqId event (notify_subscribers rfqId event (append_log rfqId event st))))"

text \<open>The events after a cursor; an unknown cursor yields none.\<close>

definition after_cursor :: "event_id option \<Rightarrow> negotiation_event list \<Rightarrow> negotiation_event list" where
  "after_cursor afterId evs =
     (case afterId of None \<Rightarrow> evs | Some a \<Rightarrow> tl (dropWhile (\<lambda>e. ev_id e \<noteq> a) evs))"

definition getEvents ::
  "event_store \<Rightarrow> string \<Rightarrow> did \<Rightarrow> did \<Rightarrow> event_id option \<Rightarrow> negotiation_event list" where
  "getEvents st rfqId callerDid buyerDid afterId =
     filter (\<lambda>e. isEventVisibleTo e callerDid buyerDid) (after_cursor afterId (getAllEvents st rfqId))"

text \<open>The body of \<open>subscribe\<close>; \<open>md\<close> says which of the two listeners the code registers.\<close>

definition add_subscriber ::
  "sub_mode \<Rightarrow> string \<Rightarrow> did \<Rightarrow> did \<Rightarrow> event_store \<Rightarrow> sub_handle \<times> event_store" where
  "add_subscriber md rfqId callerDid buyerDid st =
     (let (a, st1) =
            (case map_of (es_subs st) rfqId of
               Some a \<Rightarrow> (a, st)
             | None \<Rightarrow> (es_next st,
                 st\<lparr>es_next := es_next st + 1, es_sets := (es_sets st)(es_next st := []),
                    es_subs := AList.update rfqId (es_next st) (es_subs st)\<rparr>));
          i = es_next st1;
          sub = \<lparr>sub_id = i, sub_caller = callerDid, sub_buyer = buyerDid, sub_mode = md,
                 sub_buffer = [], sub_delivered = []\<rparr>
      in (\<lparr>h_rfq = rfqId, h_set = a, h_sub = i\<rparr>,
          st1\<lparr>es_next := i + 1, es_sets := (es_sets st1)(a := es_sets st1 a @ [sub])\<rparr>))"

definition store_subscribe ::
  "string \<Rightarrow> did \<Rightarrow> did \<Rightarrow> event_store \<Rightarrow> sub_handle \<times> event_store" where
  "store_subscribe = add_subscriber Direct"

text \<open>The closure \<open>subscribe\<close> returns.\<close>

definition unsubscribe_role :: "sub_handle \<Rightarrow> event_store \<Rightarrow> event_store" where
  "unsubscribe_role h st =
     (let rest = filter (\<lambda>s. sub_id s \<noteq> h_sub h) (es_sets st (h_set h)) in
      st\<lparr>es_sets := (es_sets st)(h_set h := rest),
         es_subs := (if rest = [] then AList.delete (h_rfq h) (es_subs st) else es_subs st)\<rparr>)"

definition update_sub :: "sub_handle \<Rightarrow> (subscriber \<Rightarrow> subscriber) \<Rightarrow> event_store \<Rightarrow> event_store" where
  "update_sub h f st =
     st\<lparr>es_sets := (es_sets st)(h_set h :=
          map (\<lambda>s. if sub_id s = h_sub h then f s else s) (es_sets st (h_set h)))\<rparr>"

definition find_sub :: "sub_handle \<Rightarrow> event_store \<Rightarrow> subscriber option" where
  "find_sub h st = find (\<lambda>s. sub_id s = h_sub h) (es_sets st (h_set h))"

definition buffer_of :: "sub_handle \<Rightarrow> event_store \<Rightarrow> negotiation_event list" where
  "buffer_of h st = (case find_sub h st of None \<Rightarrow> [] | Some s \<Rightarrow> sub_buffer s)"

record subscription =
  sn_replay :: "negotiation_event list"
  sn_buffered :: "negotiation_event list"
  sn_handle :: sub_handle

definition subscribeFrom ::
  "string \<Rightarrow> did \<Rightarrow> did \<Rightarrow> event_id option \<Rightarrow> event_store \<Rightarrow> subscription \<times> event_store" where
  "subscribeFrom rfqId callerDid buyerDid afterId st =
     (let (h, st1) = add_subscriber Buffering rfqId callerDid buyerDid st;
          replay = getEvents st1 rfqId callerDid buyerDid afterId;
          replayIds = map ev_id replay;
          dedupedBuffer = filter (\<lambda>e. ev_id e \<notin> set replayIds) (buffer_of h st1)
      in (\<lparr>sn_replay = replay, sn_buffered = dedupedBuffer, sn_handle = h\<rparr>,
          update_sub h (\<lambda>s. s\<lparr>sub_buffer := []\<rparr>) st1))"

text \<open>The closure \<open>activate\<close>: flush once, then deliver directly.\<close>

definition flush_sub :: "subscriber \<Rightarrow> subscriber" where
  "flush_sub s =
     (if sub_mode s = Buffering
      then s\<lparr>sub_buffer := [], sub_mode := Live, sub_delivered := sub_delivered s @ sub_buffer s\<rparr>
      else s)"

definition activate :: "sub_handle \<Rightarrow> event_store \<Rightarrow> event_store" where
  "activate h st = update_sub h flush_sub st"

text \<open>The closure \<open>unsubscribe\<close> of \<open>subscribeFrom\<close>.\<close>

definition unsubscribe :: "sub_handle \<Rightarrow> event_store \<Rightarrow> event_store" where
  "unsubscribe h st =
     unsubscribe_role h (update_sub h (\<lambda>s. s\<lparr>sub_mode := Stopped, sub_buffer := []\<rparr>) st)"

definition subscribeTerminal :: "string \<Rightarrow> event_store \<Rightarrow> sub_handle \<times> event_store" where
  "subscribeTerminal rfqId st =
     (let (a, st1) =
            (case map_of (es_term st) rfqId of
               Some a \<Rightarrow> (a, st)
             | None \<Rightarrow> (es_next st,
                 st\<lparr>es_next := es_next st + 1, es_tsets := (es_tsets st)(es_next st := []),
                    es_term := AList.update rfqId (es_next st) (es_term st)\<rparr>));
          l = es_next st1
      in (\<lparr>h_rfq = rfqId, h_set = a, h_sub = l\<rparr>,
          st1\<lparr>es_next := l + 1, es_tsets := (es_tsets st1)(a := es_tsets st1 a @ [l])\<rparr>))"

definition unsubscribe_terminal :: "sub_handle \<Rightarrow> event_store \<Rightarrow> event_store" where
  "unsubscribe_terminal h st =
     (let rest = filter (\<lambda>l. l \<noteq> h_sub h) (es_tsets st (h_set h)) in
      st\<lparr>es_tsets := (es_tsets st)(h_set h := rest),
         es_term := (if rest = [] then AList.delete (h_rfq h) (es_term st) else es_term st)\<rparr>)"

section \<open>The contract other components rely on\<close>

text \<open>\<open>InternalEventStore\<close>: the laws a session manager uses.\<close>

locale event_log =
  fixes append_event :: "string \<Rightarrow> negotiation_event \<Rightarrow> 's \<Rightarrow> 's res"
    and all_events :: "'s \<Rightarrow> string \<Rightarrow> negotiation_event list"
    and log_size :: "'s \<Rightarrow> string \<Rightarrow> nat"
  assumes size_eq: "log_size st r = length (all_events st r)"
    and append_own: "append_event r e st = Inr st' \<Longrightarrow> all_events st' r = all_events st r @ [e]"
    and append_other: "append_event r e st = Inr st' \<Longrightarrow> r' \<noteq> r \<Longrightarrow> all_events st' r' = all_events st r'"
    and append_rfq: "append_event r e st = Inr st' \<Longrightarrow> ev_rfq e = r"
begin

lemma size_append: "append_event r e st = Inr st' \<Longrightarrow> log_size st' r = log_size st r + 1"
  by (simp add: size_eq append_own)

lemma append_all:
  "append_event r e st = Inr st' \<Longrightarrow>
   all_events st' r' = (if r' = r then all_events st r @ [e] else all_events st r')"
  by (simp add: append_own append_other)

text \<open>Logs are append-only: whatever was in a log stays there, in place.\<close>

lemma append_only:
  "append_event r e st = Inr st' \<Longrightarrow> \<exists>ext. all_events st' r' = all_events st r' @ ext"
  by (simp add: append_all)

end

section \<open>Lemmas\<close>

lemma notify_subscribers_events [simp]:
  "es_events (notify_subscribers r e st) = es_events st" "es_seen (notify_subscribers r e st) = es_seen st"
  by (auto simp: notify_subscribers_def split: option.splits)

lemma notify_terminal_events [simp]:
  "es_events (notify_terminal r e st) = es_events st" "es_seen (notify_terminal r e st) = es_seen st"
  "es_sets (notify_terminal r e st) = es_sets st" "es_subs (notify_terminal r e st) = es_subs st"
  "es_next (notify_terminal r e st) = es_next st"
  by (auto simp: notify_terminal_def split: option.splits)

lemma getAllEvents_append_log:
  "getAllEvents (append_log r e st) r' = (if r' = r then getAllEvents st r @ [e] else getAllEvents st r')"
  by (simp add: getAllEvents_def append_log_def update_conv')

lemma getAllEvents_cong: "es_events st = es_events st' \<Longrightarrow> getAllEvents st = getAllEvents st'"
  by (auto simp: getAllEvents_def fun_eq_iff)

lemma store_append_Inr:
  "store_append r e st = Inr st' \<longleftrightarrow>
     ev_rfq e = r \<and> ev_id e \<notin> set (es_seen st) \<and>
     st' = notify_terminal r e (notify_subscribers r e (append_log r e st))"
  by (auto simp: store_append_def)

lemma store_append_getAll:
  assumes "store_append r e st = Inr st'"
  shows "getAllEvents st' r' = (if r' = r then getAllEvents st r @ [e] else getAllEvents st r')"
proof -
  have "es_events st' = es_events (append_log r e st)" using assms by (auto simp: store_append_Inr)
  then show ?thesis using getAllEvents_cong getAllEvents_append_log by metis
qed

lemma store_size_eq: "store_size st r = length (getAllEvents st r)"
  by (simp add: store_size_def getAllEvents_def split: option.splits)

interpretation mem: event_log store_append getAllEvents store_size
  by unfold_locales (simp_all add: store_size_eq store_append_getAll, simp add: store_append_Inr)

lemma hasCursor_iff: "hasCursor st r i \<longleftrightarrow> (\<exists>e \<in> set (getAllEvents st r). ev_id e = i)"
  by (auto simp: hasCursor_def getAllEvents_def list_ex_iff split: option.splits)

lemma after_cursor_append:
  assumes "case c of None \<Rightarrow> True | Some i \<Rightarrow> \<exists>e \<in> set evs. ev_id e = i"
  shows "after_cursor c (evs @ ext) = after_cursor c evs @ ext"
proof (cases c)
  case (Some i)
  then have ex: "\<exists>e \<in> set evs. \<not> ev_id e \<noteq> i" using assms by auto
  then have "dropWhile (\<lambda>e. ev_id e \<noteq> i) evs \<noteq> []" by (auto simp: dropWhile_eq_Nil_conv)
  moreover have "dropWhile (\<lambda>e. ev_id e \<noteq> i) (evs @ ext) = dropWhile (\<lambda>e. ev_id e \<noteq> i) evs @ ext"
    using ex by (auto intro: dropWhile_append1)
  ultimately show ?thesis using Some by (simp add: after_cursor_def)
qed (simp add: after_cursor_def)

subsection \<open>Runs of the store\<close>

text \<open>
  A subscription is live while its session's current \<open>Set\<close> is the one it was added to and
  still holds it. The steps of the store: every operation of the class, with the unsubscribe
  closures called on live subscriptions.
\<close>

definition live :: "sub_handle \<Rightarrow> event_store \<Rightarrow> bool" where
  "live h st \<longleftrightarrow> map_of (es_subs st) (h_rfq h) = Some (h_set h) \<and> find_sub h st \<noteq> None"

datatype store_op =
    OpAppend string negotiation_event
  | OpSubscribe string did did
  | OpSubscribeFrom string did did "event_id option"
  | OpActivate sub_handle
  | OpUnsubscribe sub_handle
  | OpSubscribeTerminal string
  | OpUnsubscribeTerminal sub_handle

inductive store_step :: "event_store \<Rightarrow> store_op \<Rightarrow> event_store \<Rightarrow> bool" where
  append: "store_append r e st = Inr st' \<Longrightarrow> store_step st (OpAppend r e) st'"
| subscribe: "store_subscribe r c b st = (h, st') \<Longrightarrow> store_step st (OpSubscribe r c b) st'"
| subscribe_from: "subscribeFrom r c b cur st = (sn, st') \<Longrightarrow> store_step st (OpSubscribeFrom r c b cur) st'"
| activate: "store_step st (OpActivate h) (activate h st)"
| unsubscribe: "live h st \<Longrightarrow> store_step st (OpUnsubscribe h) (unsubscribe h st)"
| subscribe_terminal: "subscribeTerminal r st = (h, st') \<Longrightarrow> store_step st (OpSubscribeTerminal r) st'"
| unsubscribe_terminal: "store_step st (OpUnsubscribeTerminal h) (unsubscribe_terminal h st)"

inductive_cases store_step_cases: "store_step st oper st'"

inductive store_run :: "event_store \<Rightarrow> store_op list \<Rightarrow> event_store \<Rightarrow> bool" where
  refl: "store_run st [] st"
| step: "store_run st ops st' \<Longrightarrow> store_step st' oper st'' \<Longrightarrow> store_run st (ops @ [oper]) st''"

text \<open>The shape of the subscriber tables.\<close>

definition subs_ok :: "event_store \<Rightarrow> bool" where
  "subs_ok st \<longleftrightarrow>
     (\<forall>r a. map_of (es_subs st) r = Some a \<longrightarrow>
        a < es_next st \<and> distinct (map sub_id (es_sets st a)) \<and>
        (\<forall>s \<in> set (es_sets st a). sub_id s < es_next st)) \<and>
     (\<forall>r r' a. map_of (es_subs st) r = Some a \<longrightarrow> map_of (es_subs st) r' = Some a \<longrightarrow> r = r')"

lemma find_map_sub:
  assumes "\<And>s. sub_id (g s) = sub_id s"
  shows "find (\<lambda>s. sub_id s = i) (map g xs) = map_option g (find (\<lambda>s. sub_id s = i) xs)"
  by (induction xs) (simp_all add: assms)

lemma find_filter_sub:
  "i \<noteq> j \<Longrightarrow> find (\<lambda>s. sub_id s = i) (filter (\<lambda>s. sub_id s \<noteq> j) xs) = find (\<lambda>s. sub_id s = i) xs"
  by (induction xs) auto

lemma find_append_sub: "find P xs = Some s \<Longrightarrow> find P (xs @ ys) = Some s"
  by (induction xs) (auto split: if_splits)

lemma deliver_sub_id [simp]: "sub_id (deliver e s) = sub_id s"
  by (simp add: deliver_def split: sub_mode.splits)

lemma flush_sub_id [simp]: "sub_id (flush_sub s) = sub_id s"
  by (simp add: flush_sub_def)

lemma update_sub_fields [simp]:
  "es_subs (update_sub h f st) = es_subs st" "es_next (update_sub h f st) = es_next st"
  "es_events (update_sub h f st) = es_events st" "es_seen (update_sub h f st) = es_seen st"
  by (simp_all add: update_sub_def)

lemma unsubscribe_role_fields [simp]:
  "es_events (unsubscribe_role h st) = es_events st" "es_seen (unsubscribe_role h st) = es_seen st"
  "es_next (unsubscribe_role h st) = es_next st"
  by (simp_all add: unsubscribe_role_def Let_def)

lemma unsubscribe_terminal_fields [simp]:
  "es_events (unsubscribe_terminal h st) = es_events st" "es_seen (unsubscribe_terminal h st) = es_seen st"
  "es_next (unsubscribe_terminal h st) = es_next st" "es_subs (unsubscribe_terminal h st) = es_subs st"
  "es_sets (unsubscribe_terminal h st) = es_sets st"
  by (simp_all add: unsubscribe_terminal_def Let_def)

lemma subscribeTerminal_fields:
  "subscribeTerminal r st = (h, st') \<Longrightarrow>
     es_events st' = es_events st \<and> es_seen st' = es_seen st \<and> es_subs st' = es_subs st \<and>
     es_sets st' = es_sets st \<and> es_next st \<le> es_next st'"
  by (auto simp: subscribeTerminal_def Let_def split: option.splits)

lemma append_log_fields [simp]:
  "es_subs (append_log r e st) = es_subs st" "es_sets (append_log r e st) = es_sets st"
  "es_next (append_log r e st) = es_next st"
  by (simp_all add: append_log_def)

lemma notify_subscribers_fields [simp]:
  "es_subs (notify_subscribers r e st) = es_subs st" "es_next (notify_subscribers r e st) = es_next st"
  by (auto simp: notify_subscribers_def split: option.splits)

lemma notify_subscribers_sets:
  "es_sets (notify_subscribers r e st) a =
     (if map_of (es_subs st) r = Some a then map (deliver e) (es_sets st a) else es_sets st a)"
  by (auto simp: notify_subscribers_def split: option.splits)

lemma update_sub_sets:
  "es_sets (update_sub h f st) a =
     (if a = h_set h then map (\<lambda>s. if sub_id s = h_sub h then f s else s) (es_sets st a) else es_sets st a)"
  by (simp add: update_sub_def)

text \<open>What adding a subscriber does, whether or not the session had a \<open>Set\<close>.\<close>

lemma add_subscriber_effect:
  assumes "add_subscriber md r c b st = (h, st')" and ok: "subs_ok st"
  shows "h_rfq h = r" and "map_of (es_subs st') = (map_of (es_subs st))(r \<mapsto> h_set h)"
    and "es_events st' = es_events st" and "es_seen st' = es_seen st"
    and "es_next st \<le> h_sub h" and "es_next st' = h_sub h + 1" and "h_set h < es_next st'"
    and "es_sets st' (h_set h) =
           (if map_of (es_subs st) r = Some (h_set h) then es_sets st (h_set h) else []) @
           [\<lparr>sub_id = h_sub h, sub_caller = c, sub_buyer = b, sub_mode = md, sub_buffer = [], sub_delivered = []\<rparr>]"
    and "a \<noteq> h_set h \<Longrightarrow> es_sets st' a = es_sets st a"
    and "map_of (es_subs st) r = Some (h_set h) \<or> map_of (es_subs st) r = None \<and> h_set h = es_next st"
proof -
  have "map_of (es_subs st) r = Some a \<Longrightarrow> a < Suc (es_next st)" for a
    using ok unfolding subs_ok_def by (meson less_SucI)
  then show "h_set h < es_next st'"
    using assms(1) by (auto simp: add_subscriber_def Let_def split: option.splits)
qed (use assms in \<open>auto simp: add_subscriber_def Let_def update_conv' map_upd_triv fun_eq_iff
      split: option.splits\<close>)

text \<open>Only \<open>append\<close> touches the logs.\<close>

lemma add_subscriber_events: "add_subscriber md r c b st = (h, st') \<Longrightarrow> es_events st' = es_events st \<and> es_seen st' = es_seen st"
  by (auto simp: add_subscriber_def Let_def split: option.splits)

lemma store_step_events:
  assumes "store_step st act st'" "\<forall>r e. act \<noteq> OpAppend r e"
  shows "es_events st' = es_events st \<and> es_seen st' = es_seen st"
  using assms
  by (cases rule: store_step.cases)
    (auto simp: store_subscribe_def activate_def unsubscribe_def subscribeFrom_def Let_def
      dest: add_subscriber_events subscribeTerminal_fields split: prod.splits)

lemma subs_ok_cong:
  assumes "subs_ok st" "es_subs st' = es_subs st" "es_next st \<le> es_next st'"
    "\<And>a. map sub_id (es_sets st' a) = map sub_id (es_sets st a)"
  shows "subs_ok st'"
proof -
  have "sub_id ` set (es_sets st' a) = sub_id ` set (es_sets st a)" for a
    using assms(4)[of a] by (metis set_map)
  then have "(\<forall>s \<in> set (es_sets st' a). sub_id s < n) = (\<forall>s \<in> set (es_sets st a). sub_id s < n)" for a n
    by (metis (no_types, lifting) imageE imageI)
  then show ?thesis using assms unfolding subs_ok_def by (metis order_less_le_trans)
qed

lemma subs_ok_add:
  assumes "add_subscriber md r c b st = (h, st')" and ok: "subs_ok st"
  shows "subs_ok st'"
proof -
  note eff = add_subscriber_effect[OF assms]
  have new: "a < es_next st' \<and> distinct (map sub_id (es_sets st' a)) \<and> (\<forall>s \<in> set (es_sets st' a). sub_id s < es_next st')"
    if "map_of (es_subs st') r' = Some a" for r' a
  proof (cases "a = h_set h")
    case True
    then show ?thesis using eff(5-8) ok unfolding subs_ok_def
      by (fastforce split: if_splits)
  next
    case False
    then have "map_of (es_subs st) r' = Some a" using that eff(2) by (auto split: if_splits)
    then show ?thesis using eff(5,6) eff(9)[OF False] ok unfolding subs_ok_def by fastforce
  qed
  have "r1 = r2" if "map_of (es_subs st') r1 = Some a" "map_of (es_subs st') r2 = Some a" for r1 r2 a
    using that eff(2,10) ok unfolding subs_ok_def by (fastforce split: if_splits)
  with new show ?thesis unfolding subs_ok_def by blast
qed

lemma subs_ok_unsubscribe_role:
  assumes "subs_ok st" shows "subs_ok (unsubscribe_role h st)"
proof -
  have "map_of (es_subs (unsubscribe_role h st)) r = Some a \<Longrightarrow> map_of (es_subs st) r = Some a" for r a
    by (auto simp: unsubscribe_role_def Let_def delete_conv' split: if_splits)
  moreover have "\<exists>P. es_sets (unsubscribe_role h st) a = filter P (es_sets st a)" for a
    by (cases "a = h_set h") (auto simp: unsubscribe_role_def Let_def intro: exI[of _ "\<lambda>_. True"])
  ultimately show ?thesis using assms unfolding subs_ok_def
    by (smt (verit, best) distinct_map_filter filter_is_subset subsetD unsubscribe_role_fields(3))
qed

lemma subs_ok_step:
  assumes "store_step st oper st'" "subs_ok st" shows "subs_ok st'"
  using assms
proof (cases rule: store_step.cases)
  case (append r e)
  then show ?thesis
    by (intro subs_ok_cong[OF assms(2)]) (auto simp: store_append_Inr notify_subscribers_sets)
next
  case (subscribe r c b h)
  then show ?thesis using subs_ok_add assms(2) by (simp add: store_subscribe_def)
next
  case (subscribe_from r c b cur sn)
  obtain h st1 where a: "add_subscriber Buffering r c b st = (h, st1)" by fastforce
  have "subs_ok st1" by (rule subs_ok_add[OF a assms(2)])
  moreover have "st' = update_sub h (\<lambda>s. s\<lparr>sub_buffer := []\<rparr>) st1"
    using subscribe_from a by (simp add: subscribeFrom_def Let_def)
  ultimately show ?thesis by (auto intro!: subs_ok_cong[of st1] simp: update_sub_sets)
next
  case (activate h)
  then show ?thesis
    by (intro subs_ok_cong[OF assms(2)]) (auto simp: activate_def update_sub_sets)
next
  case (unsubscribe h)
  then show ?thesis unfolding unsubscribe_def
    by (auto intro!: subs_ok_unsubscribe_role subs_ok_cong[OF assms(2)] simp: update_sub_sets)
next
  case (subscribe_terminal r h)
  then show ?thesis using subscribeTerminal_fields by (intro subs_ok_cong[OF assms(2)]) fastforce+
next
  case (unsubscribe_terminal h)
  then show ?thesis by (intro subs_ok_cong[OF assms(2)]) auto
qed

subsection \<open>Completeness of a stream\<close>

text \<open>
  What a client of \<open>subscribeFrom\<close> has received when \<open>pre\<close> is what the call returned: the
  replay, the buffered snapshot, what its listener was called with; what still sits in the
  buffer is to be flushed by \<open>activate\<close>.
\<close>

definition stream_ok ::
  "sub_handle \<Rightarrow> did \<Rightarrow> did \<Rightarrow> event_id option \<Rightarrow> negotiation_event list \<Rightarrow> event_store \<Rightarrow> bool" where
  "stream_ok h c b cur pre st \<longleftrightarrow>
     map_of (es_subs st) (h_rfq h) = Some (h_set h) \<and>
     (case cur of None \<Rightarrow> True | Some i \<Rightarrow> hasCursor st (h_rfq h) i) \<and>
     (\<exists>s. find_sub h st = Some s \<and> sub_caller s = c \<and> sub_buyer s = b \<and>
        (sub_mode s = Buffering \<or> sub_mode s = Live \<and> sub_buffer s = []) \<and>
        pre @ sub_delivered s @ sub_buffer s = getEvents st (h_rfq h) c b cur)"

lemma stream_ok_cong:
  assumes "stream_ok h c b cur pre st" "map_of (es_subs st') (h_rfq h) = Some (h_set h)"
    "es_events st' = es_events st" "find_sub h st' = find_sub h st"
  shows "stream_ok h c b cur pre st'"
  using assms by (auto simp: stream_ok_def getEvents_def hasCursor_def getAllEvents_def split: option.splits)

lemma stream_ok_same_sets:
  assumes "stream_ok h c b cur pre st" "es_subs st' = es_subs st" "es_sets st' = es_sets st"
    "es_events st' = es_events st"
  shows "stream_ok h c b cur pre st'"
  using assms(2-4) by (intro stream_ok_cong[OF assms(1)]) (use assms(1) in \<open>auto simp: stream_ok_def find_sub_def\<close>)

lemma getEvents_append:
  assumes "store_append r e st = Inr st'"
    "case cur of None \<Rightarrow> True | Some i \<Rightarrow> hasCursor st r' i"
  shows "getEvents st' r' c b cur =
     getEvents st r' c b cur @ (if r' = r \<and> isEventVisibleTo e c b then [e] else [])"
proof -
  have "after_cursor cur (getAllEvents st r' @ ext) = after_cursor cur (getAllEvents st r') @ ext" for ext
    using assms(2) by (intro after_cursor_append) (auto simp: hasCursor_iff split: option.splits)
  then show ?thesis
    by (cases "r' = r") (simp_all add: getEvents_def store_append_getAll[OF assms(1)])
qed

lemma stream_ok_append:
  assumes ok: "stream_ok h c b cur pre st" and subs: "subs_ok st" and ap: "store_append r e st = Inr st'"
  shows "stream_ok h c b cur pre st'"
proof -
  obtain s where s: "find_sub h st = Some s" "sub_caller s = c" "sub_buyer s = b"
    "sub_mode s = Buffering \<or> sub_mode s = Live \<and> sub_buffer s = []"
    "pre @ sub_delivered s @ sub_buffer s = getEvents st (h_rfq h) c b cur"
    and reg: "map_of (es_subs st) (h_rfq h) = Some (h_set h)"
    and cur: "case cur of None \<Rightarrow> True | Some i \<Rightarrow> hasCursor st (h_rfq h) i"
    using ok by (auto simp: stream_ok_def)
  have "map_of (es_subs st) r = Some (h_set h) \<longleftrightarrow> h_rfq h = r"
    using reg subs unfolding subs_ok_def by blast
  then have "find_sub h st' = Some (if h_rfq h = r then deliver e s else s)"
    using ap s(1) by (auto simp: store_append_Inr find_sub_def notify_subscribers_sets find_map_sub)
  moreover have "case cur of None \<Rightarrow> True | Some i \<Rightarrow> hasCursor st' (h_rfq h) i"
    using cur ap by (auto simp: hasCursor_iff store_append_getAll split: option.splits)
  moreover have "map_of (es_subs st') (h_rfq h) = Some (h_set h)"
    using reg ap by (auto simp: store_append_Inr)
  ultimately show ?thesis using s getEvents_append[OF ap cur, of c b]
    by (auto simp: stream_ok_def deliver_def)
qed

lemma stream_ok_unsubscribe:
  assumes ok: "stream_ok h c b cur pre st" and subs: "subs_ok st" and lv: "live h' st"
    and neq: "h_sub h' \<noteq> h_sub h"
  shows "stream_ok h c b cur pre (unsubscribe h' st)"
proof -
  let ?f = "\<lambda>s. s\<lparr>sub_mode := Stopped, sub_buffer := []\<rparr>"
  have reg: "map_of (es_subs st) (h_rfq h) = Some (h_set h)" and some: "find_sub h st \<noteq> None"
    using ok by (auto simp: stream_ok_def)
  have fu: "find_sub h (update_sub h' ?f st) = find_sub h st"
    using neq some by (auto simp: find_sub_def update_sub_sets find_map_sub find_Some_iff intro!: option.map_ident_strong)
  then have find: "find_sub h (unsubscribe h' st) = find_sub h st"
    using neq by (auto simp: unsubscribe_def unsubscribe_role_def Let_def find_sub_def find_filter_sub)
  have "map_of (es_subs (unsubscribe h' st)) (h_rfq h) = Some (h_set h)"
  proof (cases "h_rfq h' = h_rfq h")
    case True
    then have "h_set h' = h_set h" using lv reg by (simp add: live_def)
    then have "filter (\<lambda>s. sub_id s \<noteq> h_sub h') (es_sets (update_sub h' ?f st) (h_set h')) \<noteq> []"
      using find some by (auto simp: find_sub_def unsubscribe_def unsubscribe_role_def Let_def)
    then show ?thesis using reg by (simp add: unsubscribe_def unsubscribe_role_def Let_def)
  next
    case False
    then show ?thesis using reg by (simp add: unsubscribe_def unsubscribe_role_def Let_def delete_conv')
  qed
  then show ?thesis using find by (intro stream_ok_cong[OF ok]) (simp_all add: unsubscribe_def)
qed

lemma stream_ok_add:
  assumes ok: "stream_ok h c b cur pre st" and subs: "subs_ok st"
    and add: "add_subscriber md r c' b' st = (h', st')"
  shows "stream_ok h c b cur pre st' \<and> h_sub h \<noteq> h_sub h'"
proof -
  note eff = add_subscriber_effect[OF add subs]
  have reg: "map_of (es_subs st) (h_rfq h) = Some (h_set h)" and "find_sub h st \<noteq> None"
    using ok by (auto simp: stream_ok_def)
  then obtain s where s: "find_sub h st = Some s" by blast
  have "s \<in> set (es_sets st (h_set h))" "sub_id s = h_sub h" using s by (auto simp: find_sub_def find_Some_iff)
  then have "h_sub h < es_next st" using subs reg unfolding subs_ok_def by force
  then have neq: "h_sub h \<noteq> h_sub h'" using eff(5) by simp
  have "map_of (es_subs st') (h_rfq h) = Some (h_set h)" using reg eff(2,10) by auto
  moreover have "find_sub h st' = find_sub h st"
  proof (cases "h_set h = h_set h'")
    case True
    have "h_set h' < es_next st" using True reg subs unfolding subs_ok_def by metis
    then have "map_of (es_subs st) r = Some (h_set h')" using eff(10) by auto
    then have "es_sets st' (h_set h) = es_sets st (h_set h) @
        [\<lparr>sub_id = h_sub h', sub_caller = c', sub_buyer = b', sub_mode = md, sub_buffer = [], sub_delivered = []\<rparr>]"
      using eff(8) True by simp
    then show ?thesis using s by (simp add: find_sub_def find_append_sub)
  next
    case False
    then show ?thesis using eff(9) by (simp add: find_sub_def)
  qed
  ultimately show ?thesis using eff(3) neq stream_ok_cong[OF ok] by blast
qed

lemma stream_ok_update:
  assumes ok: "stream_ok h c b cur pre st" and f: "\<And>s. sub_id (f s) = sub_id s"
    and keep: "h_sub h' = h_sub h \<Longrightarrow> f = flush_sub"
  shows "stream_ok h c b cur pre (update_sub h' f st)"
proof -
  obtain s where s: "find_sub h st = Some s" "sub_caller s = c" "sub_buyer s = b"
    "sub_mode s = Buffering \<or> sub_mode s = Live \<and> sub_buffer s = []"
    "pre @ sub_delivered s @ sub_buffer s = getEvents st (h_rfq h) c b cur"
    using ok by (auto simp: stream_ok_def)
  have "sub_id s = h_sub h" using s(1) by (auto simp: find_sub_def find_Some_iff)
  then have "find_sub h (update_sub h' f st) = Some s \<or> find_sub h (update_sub h' f st) = Some (flush_sub s)"
    using s(1) keep by (cases "h_set h = h_set h'"; cases "h_sub h' = h_sub h")
      (simp_all add: find_sub_def update_sub_sets find_map_sub f)
  then show ?thesis using ok s
    by (auto simp: stream_ok_def getEvents_def hasCursor_def getAllEvents_def flush_sub_def
      split: option.splits)
qed

lemma stream_ok_step:
  assumes "store_step st oper st'" "subs_ok st" "stream_ok h c b cur pre st"
    and "\<And>h'. oper = OpUnsubscribe h' \<Longrightarrow> h_sub h' \<noteq> h_sub h"
  shows "stream_ok h c b cur pre st'"
  using assms(1)
proof (cases rule: store_step.cases)
  case (append r e)
  then show ?thesis using stream_ok_append assms(2,3) by blast
next
  case (subscribe r c' b' h')
  then show ?thesis using stream_ok_add assms(2,3) unfolding store_subscribe_def by blast
next
  case (subscribe_from r c' b' cur' sn)
  obtain h' st1 where a: "add_subscriber Buffering r c' b' st = (h', st1)" by fastforce
  have "st' = update_sub h' (\<lambda>s. s\<lparr>sub_buffer := []\<rparr>) st1"
    using subscribe_from a by (simp add: subscribeFrom_def Let_def)
  then show ?thesis using stream_ok_add[OF assms(3,2) a] by (auto intro!: stream_ok_update)
next
  case (activate h')
  then show ?thesis unfolding activate_def by (auto intro!: stream_ok_update assms(3))
next
  case (unsubscribe h')
  then show ?thesis using stream_ok_unsubscribe assms(2-4) by blast
next
  case (subscribe_terminal r h')
  then show ?thesis using subscribeTerminal_fields[of r st h' st'] by (auto intro: stream_ok_same_sets[OF assms(3)])
next
  case (unsubscribe_terminal h')
  then show ?thesis by (auto intro: stream_ok_same_sets[OF assms(3)])
qed

lemma stream_ok_start:
  assumes "subscribeFrom r c b cur st = (sn, st')" "subs_ok st"
    and "case cur of None \<Rightarrow> True | Some i \<Rightarrow> hasCursor st r i"
  shows "stream_ok (sn_handle sn) c b cur (sn_replay sn @ sn_buffered sn) st'"
proof -
  obtain h st1 where a: "add_subscriber Buffering r c b st = (h, st1)" by fastforce
  note eff = add_subscriber_effect[OF a assms(2)]
  let ?s = "\<lparr>sub_id = h_sub h, sub_caller = c, sub_buyer = b, sub_mode = Buffering,
      sub_buffer = [], sub_delivered = []\<rparr>"
  have "s \<in> set (es_sets st (h_set h)) \<Longrightarrow> map_of (es_subs st) r = Some (h_set h) \<Longrightarrow> sub_id s \<noteq> h_sub h" for s
    using assms(2) eff(5) unfolding subs_ok_def by fastforce
  then have old: "find (\<lambda>s. sub_id s = h_sub h)
      (if map_of (es_subs st) r = Some (h_set h) then es_sets st (h_set h) else []) = None"
    by (auto simp: find_None_iff)
  have app: "find P xs = None \<Longrightarrow> find P (xs @ ys) = find P ys" for P :: "subscriber \<Rightarrow> bool" and xs ys
    by (induction xs) (auto split: if_splits)
  have f1: "find_sub h st1 = Some ?s" using app[OF old] by (simp add: find_sub_def eff(8))
  have sn: "sn_handle sn = h" "sn_replay sn = getEvents st1 r c b cur" "sn_buffered sn = []"
    "st' = update_sub h (\<lambda>s. s\<lparr>sub_buffer := []\<rparr>) st1"
    using assms(1) a f1 by (auto simp: subscribeFrom_def Let_def buffer_of_def)
  have "find_sub h st' = Some ?s" using f1 by (auto simp: sn find_sub_def update_sub_sets find_map_sub)
  then show ?thesis using eff(1-3) assms(3) sn
    by (auto simp: stream_ok_def getEvents_def getAllEvents_def hasCursor_def split: option.splits)
qed

lemma subs_ok_run: "store_run st ops st' \<Longrightarrow> subs_ok st \<Longrightarrow> subs_ok st'"
  by (induction rule: store_run.induct) (auto intro: subs_ok_step)

lemma subs_ok_empty: "subs_ok empty_store"
  by (simp add: subs_ok_def empty_store_def)

lemma stream_ok_run:
  assumes "store_run st ops st'" "subs_ok st" "stream_ok h c b cur pre st"
    "\<forall>h'. OpUnsubscribe h' \<in> set ops \<longrightarrow> h_sub h' \<noteq> h_sub h"
  shows "stream_ok h c b cur pre st'"
  using assms
proof (induction rule: store_run.induct)
  case (step st ops st' oper st'')
  then show ?case using stream_ok_step subs_ok_run by (metis Un_iff list.set_intros(1) set_append)
qed

subsection \<open>Identifiers and logs\<close>

text \<open>Every stored event sits in its own session's log, and no two stored events share an id.\<close>

definition store_ids_ok :: "event_store \<Rightarrow> bool" where
  "store_ids_ok st \<longleftrightarrow>
     (\<forall>r. \<forall>e \<in> set (getAllEvents st r). ev_rfq e = r \<and> ev_id e \<in> set (es_seen st)) \<and>
     (\<forall>r. distinct (map ev_id (getAllEvents st r))) \<and>
     (\<forall>r r' e e'. e \<in> set (getAllEvents st r) \<longrightarrow> e' \<in> set (getAllEvents st r') \<longrightarrow>
        ev_id e = ev_id e' \<longrightarrow> r = r')"

lemma store_ids_ok_append:
  assumes "store_append r e st = Inr st'" "store_ids_ok st" shows "store_ids_ok st'"
proof -
  have g: "\<And>r'. getAllEvents st' r' = (if r' = r then getAllEvents st r @ [e] else getAllEvents st r')"
    by (rule store_append_getAll[OF assms(1)])
  have "set (es_seen st') = insert (ev_id e) (set (es_seen st))" "ev_rfq e = r" "ev_id e \<notin> set (es_seen st)"
    using assms(1) by (auto simp: store_append_Inr append_log_def)
  then show ?thesis using assms(2) unfolding store_ids_ok_def g by (auto split: if_splits) metis
qed

section \<open>Properties\<close>

text \<open>
  C21. A stream loses, repeats and reorders nothing: whatever is appended, subscribed, activated
  and unsubscribed after \<open>subscribeFrom\<close>, the replay it returned, followed by what its listener
  was called with and what waits in its buffer, is exactly the list of events after the cursor
  that the caller may see, in log order. The subscription itself is not cancelled, and the
  cursor is one the store knows. A run calls the function that cancels a subscription only while that
  subscription is live, as the guard of \<open>store_step\<close> says.
\<close>

theorem stream_complete:
  assumes "store_run empty_store before st0" "subscribeFrom r c b cur st0 = (sn, st1)"
    "case cur of None \<Rightarrow> True | Some i \<Rightarrow> hasCursor st0 r i"
    "store_run st1 ops st2" "\<forall>h. OpUnsubscribe h \<in> set ops \<longrightarrow> h_sub h \<noteq> h_sub (sn_handle sn)"
  shows "\<exists>s. find_sub (sn_handle sn) st2 = Some s \<and>
     sn_replay sn @ sn_buffered sn @ sub_delivered s @ sub_buffer s = getEvents st2 r c b cur"
proof -
  have ok0: "subs_ok st0" using subs_ok_run[OF assms(1) subs_ok_empty] .
  have "store_step st0 (OpSubscribeFrom r c b cur) st1" using assms(2) by (rule store_step.subscribe_from)
  then have ok1: "subs_ok st1" using subs_ok_step ok0 by blast
  have r: "h_rfq (sn_handle sn) = r"
    using assms(2) add_subscriber_effect(1)[OF _ ok0] by (auto simp: subscribeFrom_def Let_def split: prod.splits)
  have "stream_ok (sn_handle sn) c b cur (sn_replay sn @ sn_buffered sn) st2"
    using stream_ok_run[OF assms(4) ok1 stream_ok_start[OF assms(2) ok0 assms(3)]] assms(5) by blast
  then show ?thesis using r by (auto simp: stream_ok_def)
qed

theorem stream_complete_witness:
  "\<exists>sn st1 st2 s ev. subscribeFrom ''r'' ''b'' ''b'' None empty_store = (sn, st1) \<and> store_append ''r'' ev st1 = Inr st2 \<and>
     find_sub (sn_handle sn) st2 = Some s \<and> sn_replay sn @ sn_buffered sn @ sub_delivered s @ sub_buffer s = [ev]"
proof -
  let ?ev = "\<lparr>ev_id = ''e'', ev_rfq = ''r'', ev_type = RFQ_CREATED, ev_time = [], ev_actor = ''b'', ev_payload = []\<rparr>"
  obtain sn st1 where s: "subscribeFrom ''r'' ''b'' ''b'' None empty_store = (sn, st1)" by fastforce
  have e1: "es_events st1 = []" "es_seen st1 = []"
    using store_step_events[OF store_step.subscribe_from[OF s]] by (simp_all add: empty_store_def)
  then obtain st2 where a: "store_append ''r'' ?ev st1 = Inr st2" by (simp add: store_append_def)
  have "getEvents st1 ''r'' ''b'' ''b'' None = []" using e1 by (simp add: getEvents_def getAllEvents_def after_cursor_def)
  then have g: "getEvents st2 ''r'' ''b'' ''b'' None = [?ev]"
    using getEvents_append[OF a, where cur = None] by (simp add: isEventVisibleTo_def)
  have "store_run st1 ([] @ [OpAppend ''r'' ?ev]) st2" using store_run.step[OF store_run.refl store_step.append[OF a]] .
  from stream_complete[OF store_run.refl s _ this] show ?thesis using s a g by auto
qed

end
