(* ===== verification/SessionLock.thy ===== *)
theory SessionLock
  imports Prelude "HOL-Library.Sublist"
begin

text \<open>
  The FIFO mutex \<open>SessionLock\<close> of \<^verbatim>\<open>packages/engine/src/state/session-manager.ts\<close> and the way
  \<open>SessionManager\<close> keeps one per session (\<open>getOrCreateLock\<close>, \<open>activeLocks\<close>, \<open>removeLock\<close>),
  as a step relation over the tasks that call \<open>withLock\<close> on one session.

  Each step is a stretch of code JavaScript runs without interruption: the call up to its first
  \<open>await\<close>, a timer, the resumption of a waiter, the end of the callback, the \<open>finally\<close> that
  releases, a call of \<open>removeLock\<close>. A lock object that was removed from the map lives on in the
  closures that hold it, so locks have addresses. \<open>removeLock\<close> is not called between the
  resolution of a waiter's promise and the microtask that resumes it.
\<close>

section \<open>Model\<close>

record session_lock =
  lk_running :: bool
  lk_waiters :: "nat list"
  lk_settled :: "nat list"

definition new_lock :: session_lock where
  "new_lock = \<lparr>lk_running = False, lk_waiters = [], lk_settled = []\<rparr>"

definition DEFAULT_MAX_QUEUE_SIZE :: nat where "DEFAULT_MAX_QUEUE_SIZE = 10"

definition pending :: "session_lock \<Rightarrow> nat" where "pending lk = length (lk_waiters lk)"

datatype run_outcome = Busy | Entered | Queued

text \<open>\<open>run\<close> up to its first \<open>await\<close>; \<open>t\<close> is the calling task and its waiter object.\<close>

definition lock_run :: "nat \<Rightarrow> nat \<Rightarrow> session_lock \<Rightarrow> run_outcome \<times> session_lock" where
  "lock_run maxQueueSize t lk =
     (if pending lk \<ge> maxQueueSize then (Busy, lk)
      else if \<not> lk_running lk then (Entered, lk\<lparr>lk_running := True\<rparr>)
      else (Queued, lk\<lparr>lk_waiters := lk_waiters lk @ [t]\<rparr>))"

text \<open>The timer of \<open>waitForTurn\<close>: whether the waiter gives up, and the lock afterwards.\<close>

definition lock_timeout :: "nat \<Rightarrow> session_lock \<Rightarrow> bool \<times> session_lock" where
  "lock_timeout t lk =
     (if t \<in> set (lk_settled lk) then (False, lk)
      else (True, lk\<lparr>lk_settled := t # lk_settled lk, lk_waiters := remove1 t (lk_waiters lk)\<rparr>))"

text \<open>\<open>release\<close>: the waiter whose promise is resolved, if any.\<close>

definition lock_release :: "session_lock \<Rightarrow> nat option \<times> session_lock" where
  "lock_release lk =
     (case lk_waiters lk of
        [] \<Rightarrow> (None, lk\<lparr>lk_running := False\<rparr>)
      | w # ws \<Rightarrow>
          if w \<in> set (lk_settled lk) then (None, lk\<lparr>lk_waiters := ws\<rparr>)
          else (Some w, lk\<lparr>lk_waiters := ws, lk_settled := w # lk_settled lk\<rparr>))"

record lock_sys =
  ls_cur :: "nat option"
  ls_heap :: "nat \<Rightarrow> session_lock"
  ls_next :: nat
  ls_active :: bool
  ls_inside :: "(nat \<times> nat) list"
  ls_leaving :: "(nat \<times> nat) list"
  ls_handed :: "(nat \<times> nat) list"
  ls_arrived :: "nat list"
  ls_entered :: "nat list"
  ls_refused :: "nat list"

definition lock_init :: lock_sys where
  "lock_init = \<lparr>ls_cur = None, ls_heap = (\<lambda>_. new_lock), ls_next = 0, ls_active = False, ls_inside = [],
     ls_leaving = [], ls_handed = [], ls_arrived = [], ls_entered = [], ls_refused = []\<rparr>"

definition getOrCreateLock :: "lock_sys \<Rightarrow> nat \<times> lock_sys" where
  "getOrCreateLock ls =
     (case ls_cur ls of
        Some a \<Rightarrow> (a, ls)
      | None \<Rightarrow> (ls_next ls, ls\<lparr>ls_cur := Some (ls_next ls), ls_next := ls_next ls + 1,
                               ls_heap := (ls_heap ls)(ls_next ls := new_lock)\<rparr>))"

definition enter :: "nat \<Rightarrow> nat \<Rightarrow> lock_sys \<Rightarrow> lock_sys" where
  "enter t a ls = ls\<lparr>ls_active := True, ls_inside := (t, a) # ls_inside ls, ls_entered := ls_entered ls @ [t]\<rparr>"

definition withLock_call :: "nat \<Rightarrow> nat \<Rightarrow> lock_sys \<Rightarrow> lock_sys" where
  "withLock_call maxQ t ls =
     (let (a, ls1) = getOrCreateLock ls;
          (out, lk) = lock_run maxQ t (ls_heap ls1 a);
          ls2 = ls1\<lparr>ls_heap := (ls_heap ls1)(a := lk)\<rparr>
      in case out of
           Busy \<Rightarrow> ls2\<lparr>ls_refused := t # ls_refused ls2\<rparr>
         | Entered \<Rightarrow> enter t a (ls2\<lparr>ls_arrived := ls_arrived ls2 @ [t]\<rparr>)
         | Queued \<Rightarrow> ls2\<lparr>ls_arrived := ls_arrived ls2 @ [t]\<rparr>)"

definition timer_fires :: "nat \<Rightarrow> nat \<Rightarrow> lock_sys \<Rightarrow> lock_sys" where
  "timer_fires t a ls =
     (let (gave_up, lk) = lock_timeout t (ls_heap ls a);
          ls1 = ls\<lparr>ls_heap := (ls_heap ls)(a := lk)\<rparr>
      in if gave_up then ls1\<lparr>ls_refused := t # ls_refused ls1\<rparr> else ls1)"

definition release_lock :: "nat \<Rightarrow> nat \<Rightarrow> lock_sys \<Rightarrow> lock_sys" where
  "release_lock t a ls =
     (let (woken, lk) = lock_release (ls_heap ls a)
      in ls\<lparr>ls_heap := (ls_heap ls)(a := lk), ls_leaving := remove1 (t, a) (ls_leaving ls),
            ls_handed := (case woken of None \<Rightarrow> ls_handed ls | Some w \<Rightarrow> (w, a) # ls_handed ls)\<rparr>)"

definition removeLock :: "lock_sys \<Rightarrow> bool \<times> lock_sys" where
  "removeLock ls =
     (if ls_active ls then (False, ls)
      else case ls_cur ls of
        None \<Rightarrow> (True, ls)
      | Some a \<Rightarrow> if pending (ls_heap ls a) > 0 then (False, ls) else (True, ls\<lparr>ls_cur := None\<rparr>))"

inductive lock_step :: "nat \<Rightarrow> lock_sys \<Rightarrow> lock_sys \<Rightarrow> bool" for maxQ where
  call: "t \<notin> set (ls_arrived ls) \<Longrightarrow> t \<notin> set (ls_refused ls) \<Longrightarrow> lock_step maxQ ls (withLock_call maxQ t ls)"
| timer: "t \<in> set (lk_waiters (ls_heap ls a)) \<Longrightarrow> lock_step maxQ ls (timer_fires t a ls)"
| resume: "(t, a) \<in> set (ls_handed ls) \<Longrightarrow>
    lock_step maxQ ls (enter t a (ls\<lparr>ls_handed := remove1 (t, a) (ls_handed ls)\<rparr>))"
| leave: "(t, a) \<in> set (ls_inside ls) \<Longrightarrow>
    lock_step maxQ ls (ls\<lparr>ls_active := False, ls_inside := remove1 (t, a) (ls_inside ls),
                          ls_leaving := (t, a) # ls_leaving ls\<rparr>)"
| release: "(t, a) \<in> set (ls_leaving ls) \<Longrightarrow> lock_step maxQ ls (release_lock t a ls)"
| remove: "ls_handed ls = [] \<Longrightarrow> removeLock ls = (b, ls') \<Longrightarrow> lock_step maxQ ls ls'"

inductive lock_reach :: "nat \<Rightarrow> lock_sys \<Rightarrow> bool" for maxQ where
  init: "lock_reach maxQ lock_init"
| step: "lock_reach maxQ ls \<Longrightarrow> lock_step maxQ ls ls' \<Longrightarrow> lock_reach maxQ ls'"

section \<open>Invariant\<close>

abbreviation owners :: "lock_sys \<Rightarrow> (nat \<times> nat) list" where
  "owners ls \<equiv> ls_inside ls @ ls_handed ls @ ls_leaving ls"

abbreviation queue :: "lock_sys \<Rightarrow> nat list" where
  "queue ls \<equiv> (case ls_cur ls of None \<Rightarrow> [] | Some a \<Rightarrow> lk_waiters (ls_heap ls a))"

text \<open>Each lock object: owned by at most one task, running exactly while owned.\<close>

definition lock_ok :: "nat \<Rightarrow> lock_sys \<Rightarrow> nat \<Rightarrow> bool" where
  "lock_ok maxQ ls a \<longleftrightarrow>
     (let lk = ls_heap ls a in
      lk_running lk = (a \<in> snd ` set (owners ls)) \<and>
      (lk_waiters lk \<noteq> [] \<longrightarrow> lk_running lk \<and> ls_cur ls = Some a) \<and>
      length (lk_waiters lk) \<le> maxQ \<and> distinct (lk_waiters lk) \<and>
      set (lk_waiters lk) \<inter> set (lk_settled lk) = {} \<and>
      set (lk_waiters lk) \<union> set (lk_settled lk) \<subseteq> set (ls_arrived ls) \<and>
      (a \<ge> ls_next ls \<longrightarrow> lk = new_lock))"

definition lock_inv :: "nat \<Rightarrow> lock_sys \<Rightarrow> bool" where
  "lock_inv maxQ ls \<longleftrightarrow>
     distinct (map snd (owners ls)) \<and>
     (\<forall>(t, a) \<in> set (ls_inside ls @ ls_handed ls). ls_cur ls = Some a) \<and>
     (\<forall>a. ls_cur ls = Some a \<longrightarrow> a < ls_next ls) \<and>
     (\<forall>a. lock_ok maxQ ls a) \<and>
     ls_active ls = (ls_inside ls \<noteq> []) \<and>
     subseq (ls_entered ls @ map fst (ls_handed ls) @ queue ls) (ls_arrived ls)"

lemma remove1_snd:
  assumes "distinct (map snd xs)" "(t, a) \<in> set xs"
  shows "snd ` set (remove1 (t, a) xs) = snd ` set xs - {a}" "distinct (map snd (remove1 (t, a) xs))"
proof -
  have d: "distinct xs" using assms(1) distinct_map by blast
  have inj: "inj_on snd (set xs)" using assms(1) by (simp add: distinct_map)
  have "snd ` (set xs - {(t, a)}) = snd ` set xs - {a}"
    using inj assms(2) by (subst inj_on_image_set_diff[of snd "set xs"]) auto
  then show "snd ` set (remove1 (t, a) xs) = snd ` set xs - {a}" by (simp add: set_remove1_eq[OF d])
  show "distinct (map snd (remove1 (t, a) xs))"
    using inj d by (simp add: distinct_map set_remove1_eq[OF d] inj_on_diff)
qed

lemma subseq_remove1: "subseq (remove1 x xs) xs"
  by (induction xs) auto

lemma lock_invI:
  assumes "distinct (map snd (owners ls))" "\<And>t a. (t, a) \<in> set (ls_inside ls @ ls_handed ls) \<Longrightarrow> ls_cur ls = Some a"
    "\<And>a. ls_cur ls = Some a \<Longrightarrow> a < ls_next ls" "\<And>a. lock_ok maxQ ls a" "ls_active ls = (ls_inside ls \<noteq> [])"
    "subseq (ls_entered ls @ map fst (ls_handed ls) @ queue ls) (ls_arrived ls)"
  shows "lock_inv maxQ ls"
  using assms by (auto simp: lock_inv_def)

lemma owners_same:
  assumes "\<forall>(t, a) \<in> set xs. c = Some a" "distinct (map snd xs)"
  shows "length xs \<le> 1"
proof (rule ccontr)
  assume "\<not> length xs \<le> 1"
  then obtain x y zs where "xs = x # y # zs" by (cases xs; cases "tl xs") auto
  then show False using assms by (auto split: prod.splits)
qed

lemma inv_parts:
  assumes "lock_inv maxQ ls"
  shows "distinct (map snd (owners ls))" and "(t, a) \<in> set (ls_inside ls @ ls_handed ls) \<Longrightarrow> ls_cur ls = Some a"
    and "ls_cur ls = Some a \<Longrightarrow> a < ls_next ls" and "lock_ok maxQ ls a"
    and "ls_active ls = (ls_inside ls \<noteq> [])"
    and "subseq (ls_entered ls @ map fst (ls_handed ls) @ queue ls) (ls_arrived ls)"
    and "length (ls_inside ls @ ls_handed ls) \<le> 1"
    and "(t, a) \<in> set (owners ls) \<Longrightarrow> a < ls_next ls"
proof -
  show d: "distinct (map snd (owners ls))" using assms by (simp add: lock_inv_def)
  show "length (ls_inside ls @ ls_handed ls) \<le> 1"
    by (rule owners_same[of _ "ls_cur ls"]) (use assms d in \<open>auto simp: lock_inv_def\<close>)
  show "(t, a) \<in> set (owners ls) \<Longrightarrow> a < ls_next ls"
  proof (rule ccontr)
    assume "(t, a) \<in> set (owners ls)" "\<not> a < ls_next ls"
    moreover have "lock_ok maxQ ls a" using assms by (simp add: lock_inv_def)
    ultimately show False by (force simp: lock_ok_def Let_def new_lock_def)
  qed
qed (use assms in \<open>auto simp: lock_inv_def\<close>)

lemma idle:
  assumes "lock_inv maxQ ls" "ls_cur ls = Some a" "a \<notin> snd ` set (ls_inside ls @ ls_handed ls)"
  shows "ls_inside ls = []" "ls_handed ls = []"
proof -
  have "x \<notin> set (ls_inside ls @ ls_handed ls)" for x
    using inv_parts(2)[OF assms(1), of "fst x" "snd x"] assms(2,3) by auto
  then have "set (ls_inside ls @ ls_handed ls) = {}" by (auto simp only: set_eq_iff empty_iff)
  then show "ls_inside ls = []" "ls_handed ls = []" by auto
qed

lemma lock_inv_init: "lock_inv maxQ lock_init"
  by (simp add: lock_inv_def lock_init_def lock_ok_def new_lock_def Let_def)

lemma inv_getOrCreate:
  assumes "lock_inv maxQ ls" "getOrCreateLock ls = (a, ls1)"
  shows "lock_inv maxQ ls1 \<and> ls_cur ls1 = Some a \<and> ls_arrived ls1 = ls_arrived ls"
proof (cases "ls_cur ls")
  case None
  note I = inv_parts[OF assms(1)]
  have e: "a = ls_next ls" "ls1 = ls\<lparr>ls_cur := Some (ls_next ls), ls_next := ls_next ls + 1,
      ls_heap := (ls_heap ls)(ls_next ls := new_lock)\<rparr>"
    using assms(2) None by (auto simp: getOrCreateLock_def)
  have emp: "ls_inside ls = []" "ls_handed ls = []" using I(2) None
    by (cases "ls_inside ls"; cases "ls_handed ls"; auto)+
  have fr: "ls_heap ls (ls_next ls) = new_lock" using I(4)[of "ls_next ls"] by (simp add: lock_ok_def Let_def)
  have nw: "lk_waiters (ls_heap ls b) = []" for b using I(4)[of b] None by (auto simp: lock_ok_def Let_def)
  have "lock_ok maxQ ls1 b" for b
    using I(4)[of b] fr nw[of b] unfolding e lock_ok_def by (simp add: Let_def fun_upd_idem)
  then show ?thesis using I None emp by (auto simp: lock_inv_def e new_lock_def)
next
  case (Some c)
  then show ?thesis using assms by (auto simp: getOrCreateLock_def)
qed

lemma inv_call:
  assumes inv: "lock_inv maxQ ls" and fresh: "t \<notin> set (ls_arrived ls)"
  shows "lock_inv maxQ (withLock_call maxQ t ls)"
proof -
  obtain a ls1 where g: "getOrCreateLock ls = (a, ls1)" by fastforce
  have inv1: "lock_inv maxQ ls1" and cur: "ls_cur ls1 = Some a" and arr: "t \<notin> set (ls_arrived ls1)"
    using inv_getOrCreate[OF inv g] fresh by auto
  note I = inv_parts[OF inv1]
  let ?lk = "ls_heap ls1 a"
  consider (busy) "pending ?lk \<ge> maxQ" | (free) "pending ?lk < maxQ" "\<not> lk_running ?lk"
    | (queue) "pending ?lk < maxQ" "lk_running ?lk" by linarith
  then show ?thesis
  proof cases
    case busy
    then have "withLock_call maxQ t ls = ls1\<lparr>ls_refused := t # ls_refused ls1\<rparr>"
      by (simp add: withLock_call_def g lock_run_def)
    then show ?thesis using inv1 cur by (simp add: lock_inv_def lock_ok_def)
  next
    case free
    have none: "a \<notin> snd ` set (owners ls1)" "lk_waiters ?lk = []"
      using I(4)[of a] free by (auto simp: lock_ok_def Let_def)
    have emp: "ls_inside ls1 = []" "ls_handed ls1 = []"
      using idle[OF inv1 cur] none(1) by auto
    have call: "withLock_call maxQ t ls =
        enter t a (ls1\<lparr>ls_heap := (ls_heap ls1)(a := ?lk\<lparr>lk_running := True\<rparr>), ls_arrived := ls_arrived ls1 @ [t]\<rparr>)"
      using free by (simp add: withLock_call_def g lock_run_def)
    have "lock_ok maxQ (withLock_call maxQ t ls) b" for b
      using I(4)[of b] I(3)[OF cur] emp unfolding call lock_ok_def enter_def by (auto simp: Let_def)
    moreover have "subseq (ls_entered ls1 @ [t]) (ls_arrived ls1 @ [t])"
      using I(6) cur none emp by (simp add: list_emb_append_mono)
    ultimately show ?thesis using I(1) I(3)[OF cur] none cur emp
      by (intro lock_invI) (simp_all add: call enter_def)
  next
    case queue
    have call: "withLock_call maxQ t ls =
        ls1\<lparr>ls_heap := (ls_heap ls1)(a := ?lk\<lparr>lk_waiters := lk_waiters ?lk @ [t]\<rparr>), ls_arrived := ls_arrived ls1 @ [t]\<rparr>"
      using queue by (simp add: withLock_call_def g lock_run_def)
    have "lock_ok maxQ (withLock_call maxQ t ls) b" for b
    proof (cases "b = a")
      case True
      then show ?thesis using I(4)[of a] I(3)[OF cur] arr cur queue unfolding call lock_ok_def
        by (simp add: Let_def pending_def subset_iff disjoint_iff) blast
    next
      case False
      then show ?thesis using I(4)[of b] unfolding call lock_ok_def by (auto simp: Let_def)
    qed
    moreover have "subseq ((ls_entered ls1 @ map fst (ls_handed ls1) @ lk_waiters ?lk) @ [t]) (ls_arrived ls1 @ [t])"
      using I(6) cur by (intro list_emb_append_mono) simp_all
    ultimately show ?thesis using I(1-3,5) cur by (intro lock_invI) (simp_all add: call)
  qed
qed

lemma inv_timer:
  assumes inv: "lock_inv maxQ ls" and w: "t \<in> set (lk_waiters (ls_heap ls a))"
  shows "lock_inv maxQ (timer_fires t a ls)"
proof -
  note I = inv_parts[OF inv]
  let ?lk = "ls_heap ls a"
  have la: "t \<notin> set (lk_settled ?lk)" "ls_cur ls = Some a" using I(4)[of a] w by (auto simp: lock_ok_def Let_def)
  have tf: "timer_fires t a ls = ls\<lparr>ls_heap := (ls_heap ls)(a :=
      ?lk\<lparr>lk_settled := t # lk_settled ?lk, lk_waiters := remove1 t (lk_waiters ?lk)\<rparr>), ls_refused := t # ls_refused ls\<rparr>"
    using la by (simp add: timer_fires_def lock_timeout_def)
  have "lock_ok maxQ (timer_fires t a ls) b" for b
    using I(4)[of b] I(3)[OF la(2)] w unfolding tf lock_ok_def
    by (auto simp: Let_def length_remove1 dest: in_set_remove1 notin_set_remove1 split: if_splits)
  moreover have "subseq (ls_entered ls @ map fst (ls_handed ls) @ remove1 t (lk_waiters ?lk)) (ls_arrived ls)"
    using I(6) la(2) subseq_remove1[of t "lk_waiters ?lk"]
    by (metis (no_types, lifting) option.simps(5) subseq_append' subseq_order.order_trans)
  ultimately show ?thesis using I(1-3,5) la(2) by (auto simp: lock_inv_def tf)
qed

lemma inv_resume:
  assumes inv: "lock_inv maxQ ls" and h: "(t, a) \<in> set (ls_handed ls)"
  shows "lock_inv maxQ (enter t a (ls\<lparr>ls_handed := remove1 (t, a) (ls_handed ls)\<rparr>))"
proof -
  note I = inv_parts[OF inv]
  have one: "ls_handed ls = [(t, a)]" "ls_inside ls = []" "ls_cur ls = Some a"
    using I(2,7) h by (cases "ls_handed ls"; cases "ls_inside ls"; force)+
  have "lock_ok maxQ (enter t a (ls\<lparr>ls_handed := remove1 (t, a) (ls_handed ls)\<rparr>)) b" for b
    using I(4)[of b] one unfolding lock_ok_def enter_def by (auto simp: Let_def)
  then show ?thesis using I(1,3,5,6) one by (auto simp: lock_inv_def enter_def)
qed

lemma inv_leave:
  assumes inv: "lock_inv maxQ ls" and h: "(t, a) \<in> set (ls_inside ls)"
  shows "lock_inv maxQ (ls\<lparr>ls_active := False, ls_inside := remove1 (t, a) (ls_inside ls),
           ls_leaving := (t, a) # ls_leaving ls\<rparr>)" (is "lock_inv _ ?ls")
proof -
  note I = inv_parts[OF inv]
  have one: "ls_inside ls = [(t, a)]" "ls_handed ls = []" "ls_cur ls = Some a"
    using I(2,7) h by (cases "ls_inside ls"; cases "ls_handed ls"; force)+
  have "lock_ok maxQ ?ls b" for b
    using I(4)[of b] one unfolding lock_ok_def by (auto simp: Let_def)
  then show ?thesis using I(1,3,5,6) one by (auto simp: lock_inv_def)
qed

lemma release_lock_next [simp]: "ls_next (release_lock t a ls) = ls_next ls"
  by (simp add: release_lock_def split: prod.splits)

lemma inv_release:
  assumes inv: "lock_inv maxQ ls" and h: "(t, a) \<in> set (ls_leaving ls)"
  shows "lock_inv maxQ (release_lock t a ls)"
proof -
  note I = inv_parts[OF inv]
  let ?lk = "ls_heap ls a"
  have d: "distinct (map snd (ls_leaving ls))" using I(1) by simp
  note rm = remove1_snd[OF d h]
  have notin: "a \<notin> snd ` set (ls_inside ls)" "a \<notin> snd ` set (ls_handed ls)"
    using I(1) h by (force)+
  show ?thesis
  proof (cases "lk_waiters ?lk")
    case Nil
    then have r: "release_lock t a ls = ls\<lparr>ls_heap := (ls_heap ls)(a := ?lk\<lparr>lk_running := False\<rparr>),
        ls_leaving := remove1 (t, a) (ls_leaving ls)\<rparr>"
      by (simp add: release_lock_def lock_release_def)
    have "lock_ok maxQ (release_lock t a ls) b" for b
      using I(4)[of b] Nil notin rm(1) inv_parts(8)[OF inv, of t a] h unfolding r lock_ok_def
      by (auto simp: Let_def image_Un)
    moreover have "queue (release_lock t a ls) = queue ls"
      using Nil by (auto simp: r split: option.splits)
    moreover have "distinct (map snd (owners (release_lock t a ls)))"
      using I(1) rm by (auto simp: r)
    ultimately show ?thesis using I(2,3,5,6) by (intro lock_invI) (simp_all add: r)
  next
    case (Cons w ws)
    have w: "w \<notin> set (lk_settled ?lk)" and cur: "ls_cur ls = Some a"
      using I(4)[of a] Cons by (auto simp: lock_ok_def Let_def)
    have emp: "ls_inside ls = []" "ls_handed ls = []"
      using idle[OF inv cur] notin by auto
    have r: "release_lock t a ls = ls\<lparr>ls_heap := (ls_heap ls)(a := ?lk\<lparr>lk_waiters := ws, lk_settled := w # lk_settled ?lk\<rparr>),
        ls_leaving := remove1 (t, a) (ls_leaving ls), ls_handed := [(w, a)]\<rparr>"
      using w emp by (simp add: release_lock_def lock_release_def Cons)
    have "lock_ok maxQ (release_lock t a ls) b" for b
      using I(4)[of b] Cons emp rm(1) I(3)[OF cur] unfolding r lock_ok_def by (auto simp: Let_def image_Un)
    then show ?thesis using I(5,6) I(3)[OF cur] Cons rm cur emp by (intro lock_invI) (simp_all add: r)
  qed
qed

lemma inv_remove:
  assumes inv: "lock_inv maxQ ls" and "ls_handed ls = []" "removeLock ls = (b, ls')"
  shows "lock_inv maxQ ls'"
proof -
  note I = inv_parts[OF inv]
  consider "ls' = ls" | a where "ls' = ls\<lparr>ls_cur := None\<rparr>" "ls_inside ls = []" "ls_cur ls = Some a"
      "lk_waiters (ls_heap ls a) = []"
    using assms(3) I(5) by (auto simp: removeLock_def pending_def split: if_splits option.splits)
  then show ?thesis
  proof cases
    case (2 a)
    have "lock_ok maxQ ls' b" for b
      using I(4)[of b] 2 unfolding lock_ok_def by (auto simp: Let_def)
    then show ?thesis using I(1,5,6) 2 assms(2) by (auto simp: lock_inv_def)
  qed (use inv in simp)
qed

lemma lock_inv_step: "lock_step maxQ ls ls' \<Longrightarrow> lock_inv maxQ ls \<Longrightarrow> lock_inv maxQ ls'"
  by (cases rule: lock_step.cases)
    (auto intro: inv_call inv_timer inv_resume inv_leave inv_release inv_remove)

lemma lock_inv_reach: "lock_reach maxQ ls \<Longrightarrow> lock_inv maxQ ls"
  by (induction rule: lock_reach.induct) (auto intro: lock_inv_init lock_inv_step)

subsection \<open>Draining\<close>

text \<open>The steps in which tasks that already called take their turn, without new calls and timeouts.\<close>

inductive serve_step :: "lock_sys \<Rightarrow> lock_sys \<Rightarrow> bool" where
  resume: "(t, a) \<in> set (ls_handed ls) \<Longrightarrow>
    serve_step ls (enter t a (ls\<lparr>ls_handed := remove1 (t, a) (ls_handed ls)\<rparr>))"
| leave: "(t, a) \<in> set (ls_inside ls) \<Longrightarrow>
    serve_step ls (ls\<lparr>ls_active := False, ls_inside := remove1 (t, a) (ls_inside ls), ls_leaving := (t, a) # ls_leaving ls\<rparr>)"
| release: "(t, a) \<in> set (ls_leaving ls) \<Longrightarrow> serve_step ls (release_lock t a ls)"

lemma serve_step_lock_step: "serve_step ls ls' \<Longrightarrow> lock_step maxQ ls ls'"
  by (induction rule: serve_step.induct) (auto intro: lock_step.intros)

definition lock_work :: "lock_sys \<Rightarrow> nat" where
  "lock_work ls = 4 * length (queue ls) + 3 * length (ls_handed ls) + 2 * length (ls_inside ls) + length (ls_leaving ls)"

abbreviation served :: "lock_sys \<Rightarrow> nat list" where
  "served ls \<equiv> ls_entered ls @ map fst (ls_handed ls) @ queue ls"

lemma remove1_length: "x \<in> set xs \<Longrightarrow> Suc (length (remove1 x xs)) = length xs"
  using length_remove1[of x xs] by (cases xs) auto

lemma release_effect:
  assumes inv: "lock_inv maxQ ls" and l: "(t, a) \<in> set (ls_leaving ls)"
  shows "served (release_lock t a ls) = served ls \<and> lock_work (release_lock t a ls) < lock_work ls"
proof -
  note I = inv_parts[OF inv]
  have len: "Suc (length (remove1 (t, a) (ls_leaving ls))) = length (ls_leaving ls)" by (rule remove1_length[OF l])
  show ?thesis
  proof (cases "lk_waiters (ls_heap ls a)")
    case Nil
    then show ?thesis using len
      by (auto simp: release_lock_def lock_release_def Let_def lock_work_def split: option.splits)
  next
    case (Cons w ws)
    then have cur: "ls_cur ls = Some a" and w: "w \<notin> set (lk_settled (ls_heap ls a))"
      using I(4)[of a] by (auto simp: lock_ok_def Let_def)
    have h: "ls_handed ls = []"
    proof (rule ccontr)
      assume "ls_handed ls \<noteq> []"
      then obtain t' b where b: "(t', b) \<in> set (ls_handed ls)" by (cases "ls_handed ls") auto
      then have "b = a" using I(2)[of t' b] cur by simp
      then have "a \<in> set (map snd (ls_handed ls))" "a \<in> set (map snd (ls_leaving ls))" using b l by force+
      then show False using I(1) by auto
    qed
    show ?thesis using Cons cur w h len by (simp add: release_lock_def lock_release_def lock_work_def)
  qed
qed

lemma serve_step_effect:
  assumes "serve_step ls ls'" "lock_inv maxQ ls"
  shows "served ls' = served ls \<and> lock_work ls' < lock_work ls"
  using assms(1)
proof (cases rule: serve_step.cases)
  case (resume t a)
  then have h: "ls_handed ls = [(t, a)]" using inv_parts(7)[OF assms(2)] by (cases "ls_handed ls") auto
  then show ?thesis using resume by (simp add: enter_def lock_work_def split: option.splits)
next
  case (leave t a)
  then show ?thesis using remove1_length[OF leave(2)] by (simp add: lock_work_def split: option.splits)
next
  case (release t a)
  show ?thesis unfolding release(1) by (rule release_effect[OF assms(2) release(2)])
qed

lemma serve_steps_effect:
  assumes "serve_step\<^sup>*\<^sup>* ls ls'" "lock_inv maxQ ls"
  shows "lock_inv maxQ ls' \<and> served ls' = served ls"
  using assms
proof (induction rule: rtranclp_induct)
  case (step ls1 ls2)
  then have inv: "lock_inv maxQ ls1" "served ls1 = served ls" by auto
  then show ?case
    using serve_step_effect[OF step(2) inv(1)] lock_inv_step[OF serve_step_lock_step[OF step(2)] inv(1)] by simp
qed simp

lemma stuck_is_drained:
  assumes inv: "lock_inv maxQ ls" and stuck: "\<nexists>ls'. serve_step ls ls'"
  shows "owners ls = [] \<and> queue ls = []"
proof -
  have o: "owners ls = []"
  proof (rule ccontr)
    assume "owners ls \<noteq> []"
    then obtain t a where "(t, a) \<in> set (owners ls)" by (cases "owners ls") auto
    then show False using stuck serve_step.intros by (metis Un_iff set_append)
  qed
  then have "lk_waiters (ls_heap ls a) = []" for a using inv_parts(4)[OF inv, of a] by (auto simp: lock_ok_def Let_def)
  then show ?thesis using o by (auto split: option.splits)
qed

section \<open>Properties\<close>

text \<open>
  C19. Mutual exclusion of \<open>withLock\<close>: in every reachable state at most one task is inside a
  callback of the session or about to be resumed into one, however calls, timeouts, releases and
  lock removals interleave; and at most \<open>maxQueueSize\<close> tasks wait.
\<close>

theorem withLock_exclusive:
  assumes "lock_reach maxQ ls"
  shows "length (ls_inside ls @ ls_handed ls) \<le> 1 \<and> length (queue ls) \<le> maxQ"
  using inv_parts(4,7)[OF lock_inv_reach[OF assms]]
  by (auto simp: lock_ok_def Let_def split: option.splits)

definition sample_locks :: lock_sys where
  "sample_locks = withLock_call DEFAULT_MAX_QUEUE_SIZE 2 (withLock_call DEFAULT_MAX_QUEUE_SIZE 1 lock_init)"

lemma sample_locks_reach: "lock_reach DEFAULT_MAX_QUEUE_SIZE sample_locks"
  unfolding sample_locks_def
  by (intro lock_reach.step[OF lock_reach.step[OF lock_reach.init lock_step.call] lock_step.call])
    (simp_all add: lock_init_def withLock_call_def getOrCreateLock_def lock_run_def new_lock_def
      pending_def DEFAULT_MAX_QUEUE_SIZE_def enter_def)

theorem withLock_exclusive_witness:
  "ls_inside sample_locks = [(1, 0)] \<and> queue sample_locks = [2] \<and>
   length (ls_inside sample_locks @ ls_handed sample_locks) \<le> 1"
  using withLock_exclusive[OF sample_locks_reach]
  by (simp add: sample_locks_def lock_init_def withLock_call_def getOrCreateLock_def lock_run_def new_lock_def
      pending_def DEFAULT_MAX_QUEUE_SIZE_def enter_def)

text \<open>
  The lock is FIFO and loses no waiter: tasks enter their callbacks in the order in which
  their calls were accepted (those that time out drop out), and as long as tasks wait, some task
  owns the lock and will hand it over when it releases.
\<close>

theorem withLock_fifo:
  assumes "lock_reach maxQ ls"
  shows "subseq (ls_entered ls @ map fst (ls_handed ls) @ queue ls) (ls_arrived ls) \<and>
         (queue ls \<noteq> [] \<longrightarrow> (\<exists>t a. (t, a) \<in> set (owners ls) \<and> ls_cur ls = Some a))"
proof -
  note I = inv_parts[OF lock_inv_reach[OF assms]]
  have "\<exists>t a. (t, a) \<in> set (owners ls) \<and> ls_cur ls = Some a" if ne: "queue ls \<noteq> []"
  proof -
    obtain a where "ls_cur ls = Some a" "lk_waiters (ls_heap ls a) \<noteq> []"
      using ne by (cases "ls_cur ls") auto
    then show ?thesis using I(4)[of a] by (auto simp: lock_ok_def Let_def)
  qed
  then show ?thesis using I(6) by blast
qed

theorem withLock_fifo_witness:
  "queue sample_locks = [2] \<and> (\<exists>t a. (t, a) \<in> set (owners sample_locks) \<and> ls_cur sample_locks = Some a)"
  using withLock_fifo[OF sample_locks_reach]
  by (simp add: sample_locks_def lock_init_def withLock_call_def getOrCreateLock_def lock_run_def new_lock_def
      pending_def DEFAULT_MAX_QUEUE_SIZE_def enter_def)

text \<open>
  C20. The queue of a session drains: if no task arrives and no timer fires, then as long as
  anything waits or runs some task can take its turn, every such run ends after finitely many
  steps, and when it ends all waiting tasks have entered their callbacks, in their order, and
  the lock is idle.
\<close>

theorem lock_drains:
  assumes "lock_reach maxQ ls"
  shows "wfP (\<lambda>y x. serve_step\<^sup>*\<^sup>* ls x \<and> serve_step x y) \<and>
     (\<forall>ls'. serve_step\<^sup>*\<^sup>* ls ls' \<longrightarrow> (\<nexists>ls''. serve_step ls' ls'') \<longrightarrow>
        ls_entered ls' = ls_entered ls @ map fst (ls_handed ls) @ queue ls \<and> owners ls' = [] \<and> queue ls' = [])"
proof -
  have inv: "lock_inv maxQ ls" using lock_inv_reach[OF assms] .
  have "{(y, x). serve_step\<^sup>*\<^sup>* ls x \<and> serve_step x y} \<subseteq> measure lock_work"
    using serve_steps_effect[OF _ inv] serve_step_effect by fastforce
  then have "wfP (\<lambda>y x. serve_step\<^sup>*\<^sup>* ls x \<and> serve_step x y)" unfolding wfp_def by (rule wf_subset[OF wf_measure])
  moreover have "ls_entered ls' = served ls \<and> owners ls' = [] \<and> queue ls' = []"
    if "serve_step\<^sup>*\<^sup>* ls ls'" "\<nexists>ls''. serve_step ls' ls''" for ls'
  proof -
    have "lock_inv maxQ ls'" "served ls' = served ls" using serve_steps_effect[OF that(1) inv] by auto
    then show ?thesis using stuck_is_drained[OF _ that(2)] by auto
  qed
  ultimately show ?thesis by blast
qed

theorem lock_drains_witness:
  "ls_entered sample_locks @ map fst (ls_handed sample_locks) @ queue sample_locks = [1, 2] \<and>
   wfP (\<lambda>y x. serve_step\<^sup>*\<^sup>* sample_locks x \<and> serve_step x y)"
  using lock_drains[OF sample_locks_reach]
  by (simp add: sample_locks_def lock_init_def withLock_call_def getOrCreateLock_def lock_run_def new_lock_def
      pending_def DEFAULT_MAX_QUEUE_SIZE_def enter_def)

end
