(* ===== verification/SessionManager.thy ===== *)
theory SessionManager
  imports EventStore SessionLock
begin

text \<open>
  \<open>SessionManager\<close> of \<^verbatim>\<open>packages/engine/src/state/session-manager.ts\<close>: the session cache, the
  dry run of \<open>appendEvent\<close>, \<open>withLock\<close> and the observers. The lock itself is the theory
  \<open>SessionLock\<close>. Here \<open>withLock\<close> is what a call does once the lock has answered: refused, by a
  full queue or a timeout, it is the \<open>SessionBusyError\<close>, and granted, the callback runs, as one
  step with respect to the other callbacks of its session by the lock's mutual exclusion. The wait
  for the answer is a state of the caller (theory \<open>Engine\<close>). An
  operation returns a result and the manager afterwards: what was stored before a throw stays.

  The locale \<open>session_service\<close> is what the routes rely on; it is interpreted on the manager.
\<close>

section \<open>Model\<close>

record cache_entry =
  ce_count :: nat
  ce_session :: derived_session
  ce_at :: millis

record manager =
  sm_store :: event_store
  sm_cache :: "(string \<times> cache_entry) list"
  sm_active :: "string list"
  sm_observers :: "(nat \<times> (negotiation_event \<times> derived_session) list) list"
  sm_fresh :: nat

definition new_manager :: manager where
  "new_manager = \<lparr>sm_store = empty_store, sm_cache = [], sm_active = [], sm_observers = [], sm_fresh = 0\<rparr>"

text \<open>An observer is registered under a number and keeps what it was called with.\<close>

definition onAppend :: "manager \<Rightarrow> nat \<times> manager" where
  "onAppend m = (sm_fresh m, m\<lparr>sm_observers := sm_observers m @ [(sm_fresh m, [])], sm_fresh := sm_fresh m + 1\<rparr>)"

definition offAppend :: "nat \<Rightarrow> manager \<Rightarrow> manager" where
  "offAppend i m = m\<lparr>sm_observers := filter (\<lambda>ob. fst ob \<noteq> i) (sm_observers m)\<rparr>"

definition events_in :: "manager \<Rightarrow> string \<Rightarrow> negotiation_event list" where
  "events_in m rfqId = getAllEvents (sm_store m) rfqId"

definition getSession :: "millis \<Rightarrow> string \<Rightarrow> manager \<Rightarrow> derived_session option res \<times> manager" where
  "getSession now rfqId m =
     (let eventCount = store_size (sm_store m) rfqId;
          replay_log =
            (case deriveState (events_in m rfqId) of
               Inl e \<Rightarrow> (Inl e, m)
             | Inr None \<Rightarrow> (Inr None, m)
             | Inr (Some s) \<Rightarrow>
                 (Inr (Some s), m\<lparr>sm_cache := AList.update rfqId
                    \<lparr>ce_count = eventCount, ce_session = s, ce_at = now\<rparr> (sm_cache m)\<rparr>))
      in if eventCount = 0 then (Inr None, m)
         else case map_of (sm_cache m) rfqId of
           Some cached \<Rightarrow>
             if ce_count cached = eventCount
             then (Inr (Some (ce_session cached)),
                   m\<lparr>sm_cache := AList.update rfqId (cached\<lparr>ce_at := now\<rparr>) (sm_cache m)\<rparr>)
             else replay_log
         | None \<Rightarrow> replay_log)"

definition withLock ::
  "bool \<Rightarrow> millis \<Rightarrow> string \<Rightarrow> (derived_session option \<Rightarrow> manager \<Rightarrow> 'a res \<times> manager) \<Rightarrow> manager \<Rightarrow> 'a res \<times> manager" where
  "withLock granted now rfqId fn m =
     (if \<not> granted then (Inl SessionBusyError, m)
      else let m1 = m\<lparr>sm_active := List.insert rfqId (sm_active m)\<rparr>;
          (r, m3) = (case getSession now rfqId m1 of
                       (Inl e, m2) \<Rightarrow> (Inl e, m2)
                     | (Inr session, m2) \<Rightarrow> fn session m2)
      in (r, m3\<lparr>sm_active := removeAll rfqId (sm_active m3)\<rparr>))"

definition appendEvent :: "millis \<Rightarrow> string \<Rightarrow> negotiation_event \<Rightarrow> manager \<Rightarrow> derived_session res \<times> manager" where
  "appendEvent now rfqId event m =
     (if rfqId \<notin> set (sm_active m) then (Inl (JsError ''SessionManager.appendEvent: must be called within withLock''), m)
      else case deriveState (events_in m rfqId @ [event]) of
        Inl e \<Rightarrow> (Inl e, m)
      | Inr None \<Rightarrow> (Inl (JsError ''SessionManager: deriveState returned null after append''), m)
      | Inr (Some candidateState) \<Rightarrow>
          (case store_append rfqId event (sm_store m) of
             Inl e \<Rightarrow> (Inl e, m)
           | Inr st \<Rightarrow>
               (Inr candidateState,
                m\<lparr>sm_store := st,
                  sm_cache := AList.update rfqId \<lparr>ce_count = store_size st rfqId,
                    ce_session = candidateState, ce_at = now\<rparr> (sm_cache m),
                  sm_observers := map (\<lambda>(i, seen). (i, seen @ [(event, candidateState)])) (sm_observers m)\<rparr>)))"

definition getActiveSessionIds :: "manager \<Rightarrow> string list" where
  "getActiveSessionIds m = listSessionIds (sm_store m)"

definition hasSession :: "string \<Rightarrow> manager \<Rightarrow> bool" where
  "hasSession rfqId m = (store_size (sm_store m) rfqId > 0)"

text \<open>
  \<open>removeLock\<close>, as far as it concerns the cache. The lock table decides: the lock is held or
  awaited and stays, there is no lock, or the lock is removed. It answers false only to the first.
\<close>

datatype lock_removal = LockKept | NoLock | LockRemoved

definition drop_cache :: "lock_removal \<Rightarrow> string \<Rightarrow> manager \<Rightarrow> manager" where
  "drop_cache removal rfqId m = (if removal = LockRemoved then m\<lparr>sm_cache := AList.delete rfqId (sm_cache m)\<rparr> else m)"

definition evictStaleCache :: "millis \<Rightarrow> int \<Rightarrow> manager \<Rightarrow> manager" where
  "evictStaleCache now maxAgeMs m =
     m\<lparr>sm_cache := filter (\<lambda>(r, entry). \<not> ce_at entry < now - maxAgeMs) (sm_cache m)\<rparr>"

section \<open>The contract of the routes\<close>

locale session_service =
  fixes ok :: "'m \<Rightarrow> bool"
    and log_of :: "'m \<Rightarrow> string \<Rightarrow> negotiation_event list"
    and holds :: "'m \<Rightarrow> string \<Rightarrow> bool"
    and get :: "millis \<Rightarrow> string \<Rightarrow> 'm \<Rightarrow> derived_session option res \<times> 'm"
    and app :: "millis \<Rightarrow> string \<Rightarrow> negotiation_event \<Rightarrow> 'm \<Rightarrow> derived_session res \<times> 'm"
  assumes ok_log: "ok m \<Longrightarrow> log_of m r \<noteq> [] \<Longrightarrow> \<exists>s. deriveState (log_of m r) = Inr (Some s)"
    and get_value: "ok m \<Longrightarrow> fst (get now r m) = deriveState (log_of m r)"
    and get_state: "get now r m = (v, m') \<Longrightarrow> log_of m' = log_of m \<and> holds m' = holds m \<and> (ok m \<longrightarrow> ok m')"
    and app_Inr: "app now r e m = (Inr s, m') \<Longrightarrow>
          holds m r \<and> deriveState (log_of m r @ [e]) = Inr (Some s) \<and>
          log_of m' = (log_of m)(r := log_of m r @ [e]) \<and> holds m' = holds m"
    and app_Inl: "app now r e m = (Inl x, m') \<Longrightarrow> m' = m"
    and app_ok: "ok m \<Longrightarrow> app now r e m = (w, m') \<Longrightarrow> ok m'"
begin

lemma get_total: "ok m \<Longrightarrow> \<exists>so. fst (get now r m) = Inr so"
  using ok_log[of m r] get_value[of m now r] by (cases "log_of m r") (auto simp: deriveState_def)

lemma app_logs:
  assumes "app now r e m = (v, m')"
  shows "log_of m' r' = log_of m r' \<or> r' = r \<and> log_of m' r' = log_of m r' @ [e]"
proof (cases v)
  case (Inl x)
  then show ?thesis using assms app_Inl by blast
next
  case (Inr s)
  then show ?thesis using app_Inr[of now r e m s m'] assms by auto
qed

lemma app_legal:
  assumes "ok m" "deriveState (log_of m r) = Inr (Some s)" "app now r e m = (Inr s', m')"
  shows "apply_event s e = Inr s'"
  using app_Inr[OF assms(3)] assms(2) deriveState_snocD by blast

end

section \<open>Lemmas\<close>

text \<open>A cache entry is the session of some prefix of the log.\<close>

definition cache_ok :: "manager \<Rightarrow> bool" where
  "cache_ok m \<longleftrightarrow> distinct (map fst (sm_cache m)) \<and>
     (\<forall>r ce. map_of (sm_cache m) r = Some ce \<longrightarrow>
        ce_count ce \<le> length (events_in m r) \<and>
        deriveState (take (ce_count ce) (events_in m r)) = Inr (Some (ce_session ce)))"

definition logs_ok :: "manager \<Rightarrow> bool" where
  "logs_ok m \<longleftrightarrow> (\<forall>r. events_in m r \<noteq> [] \<longrightarrow> (\<exists>s. deriveState (events_in m r) = Inr (Some s)))"

definition manager_ok :: "manager \<Rightarrow> bool" where
  "manager_ok m \<longleftrightarrow> cache_ok m \<and> logs_ok m \<and> store_ids_ok (sm_store m)"

abbreviation in_lock :: "manager \<Rightarrow> string \<Rightarrow> bool" where
  "in_lock m r \<equiv> r \<in> set (sm_active m)"

lemma events_in_cong: "sm_store m' = sm_store m \<Longrightarrow> events_in m' = events_in m"
  by (simp add: events_in_def fun_eq_iff)

lemma events_in_update [simp]:
  "events_in (m\<lparr>sm_cache := c\<rparr>) = events_in m" "events_in (m\<lparr>sm_active := a\<rparr>) = events_in m"
  "events_in (m\<lparr>sm_observers := obs\<rparr>) = events_in m"
  by (simp_all add: events_in_def fun_eq_iff)

lemma deriveState_Nil [simp]: "deriveState [] = Inr None"
  by (simp add: deriveState_def)

lemma cache_okD:
  "cache_ok m \<Longrightarrow> map_of (sm_cache m) r = Some ce \<Longrightarrow> ce_count ce = length (events_in m r) \<Longrightarrow>
   deriveState (events_in m r) = Inr (Some (ce_session ce))"
  unfolding cache_ok_def by (metis order_refl take_all)

lemma getSession_value: "cache_ok m \<Longrightarrow> fst (getSession now r m) = deriveState (events_in m r)"
  by (auto simp: getSession_def Let_def store_size_eq events_in_def[symmetric] cache_okD deriveState_None
      split: option.splits sum.splits)

lemma getSession_fields:
  assumes "getSession now r m = (v, m')"
  shows "sm_store m' = sm_store m" "sm_active m' = sm_active m" "sm_observers m' = sm_observers m"
  using assms by (auto simp: getSession_def Let_def split: option.splits sum.splits if_splits)

lemma cache_ok_update:
  assumes "cache_ok m" "sm_store m' = sm_store m" "sm_cache m' = AList.update r ce (sm_cache m)"
    "ce_count ce = length (events_in m r)" "deriveState (events_in m r) = Inr (Some (ce_session ce))"
  shows "cache_ok m'"
  using assms by (simp add: cache_ok_def update_conv' distinct_update events_in_cong[OF assms(2)])

lemma getSession_cache_ok:
  assumes "getSession now r m = (v, m')" "cache_ok m"
  shows "cache_ok m'"
proof -
  have "m' = m \<or> (\<exists>ce. m' = m\<lparr>sm_cache := AList.update r ce (sm_cache m)\<rparr> \<and>
      ce_count ce = length (events_in m r) \<and> deriveState (events_in m r) = Inr (Some (ce_session ce)))"
    using assms by (auto simp: getSession_def Let_def store_size_eq events_in_def[symmetric] cache_okD
        split: option.splits sum.splits if_splits)
  then show ?thesis using assms(2) cache_ok_update by fastforce
qed

lemma appendEvent_Inr:
  "appendEvent now r e m = (Inr s, m') \<longleftrightarrow>
     in_lock m r \<and> deriveState (events_in m r @ [e]) = Inr (Some s) \<and>
     (\<exists>st. store_append r e (sm_store m) = Inr st \<and>
        m' = m\<lparr>sm_store := st,
               sm_cache := AList.update r \<lparr>ce_count = store_size st r, ce_session = s, ce_at = now\<rparr> (sm_cache m),
               sm_observers := map (\<lambda>(i, seen). (i, seen @ [(e, s)])) (sm_observers m)\<rparr>)"
  by (auto simp: appendEvent_def split: option.splits sum.splits)

lemma appendEvent_Inl: "appendEvent now r e m = (Inl x, m') \<Longrightarrow> m' = m"
  by (auto simp: appendEvent_def split: option.splits sum.splits if_splits)

lemma appendEvent_log:
  "appendEvent now r e m = (Inr s, m') \<Longrightarrow> events_in m' = (events_in m)(r := events_in m r @ [e])"
  by (auto simp: appendEvent_Inr events_in_def fun_eq_iff store_append_getAll)

lemma appendEvent_manager_ok:
  assumes "manager_ok m" "appendEvent now r e m = (v, m')"
  shows "manager_ok m'"
proof (cases v)
  case (Inl x)
  then show ?thesis using assms appendEvent_Inl by blast
next
  case (Inr s)
  note ap = assms(2)[unfolded Inr]
  have ev: "events_in m' = (events_in m)(r := events_in m r @ [e])" by (rule appendEvent_log[OF ap])
  obtain st where st: "store_append r e (sm_store m) = Inr st" "sm_store m' = st"
    "sm_cache m' = AList.update r \<lparr>ce_count = store_size st r, ce_session = s, ce_at = now\<rparr> (sm_cache m)"
    and d: "deriveState (events_in m r @ [e]) = Inr (Some s)"
    using ap by (auto simp: appendEvent_Inr)
  have "store_size st r = length (events_in m' r)" using st(2) by (simp add: store_size_eq events_in_def)
  then have "cache_ok m'" using assms(1) d by (auto simp: manager_ok_def cache_ok_def st(3) ev update_conv' distinct_update split: if_splits)
  moreover have "logs_ok m'" using assms(1) d by (auto simp: manager_ok_def logs_ok_def ev split: if_splits)
  moreover have "store_ids_ok (sm_store m')"
    using store_ids_ok_append[OF st(1)] assms(1) by (simp add: manager_ok_def st(2))
  ultimately show ?thesis by (simp add: manager_ok_def)
qed

text \<open>Dropping cache entries, for one session or by age, keeps the rest of the cache.\<close>

lemma cache_ok_filter:
  assumes "cache_ok m" "sm_store m' = sm_store m" "sm_cache m' = filter Q (sm_cache m)"
  shows "cache_ok m'"
proof -
  have d: "distinct (map fst (sm_cache m))" using assms(1) by (simp add: cache_ok_def)
  have "map_of (sm_cache m) r = Some ce" if "map_of (filter Q (sm_cache m)) r = Some ce" for r ce
    using map_of_SomeD[OF that] d by (auto intro: map_of_is_SomeI)
  then show ?thesis using assms d by (auto simp: cache_ok_def events_in_cong[OF assms(2)] distinct_map_filter)
qed

lemma evict_manager_ok:
  assumes "manager_ok m"
  shows "manager_ok (evictStaleCache now age m)" "events_in (evictStaleCache now age m) = events_in m"
    "sm_active (evictStaleCache now age m) = sm_active m"
proof -
  have ev: "events_in (evictStaleCache now age m) = events_in m" by (simp add: evictStaleCache_def)
  have "cache_ok (evictStaleCache now age m)"
    by (rule cache_ok_filter[of m _ "\<lambda>(r, entry). \<not> ce_at entry < now - age"])
      (use assms in \<open>simp_all add: manager_ok_def evictStaleCache_def\<close>)
  then show "manager_ok (evictStaleCache now age m)" "events_in (evictStaleCache now age m) = events_in m"
    using assms ev by (simp_all add: manager_ok_def logs_ok_def evictStaleCache_def)
  show "sm_active (evictStaleCache now age m) = sm_active m" by (simp add: evictStaleCache_def)
qed

lemma drop_cache_manager_ok:
  assumes "manager_ok m"
  shows "manager_ok (drop_cache b r m)" "events_in (drop_cache b r m) = events_in m"
    "sm_active (drop_cache b r m) = sm_active m"
proof -
  have ev: "events_in (drop_cache b r m) = events_in m" by (simp add: drop_cache_def)
  have "cache_ok (m\<lparr>sm_cache := AList.delete r (sm_cache m)\<rparr>)"
    by (rule cache_ok_filter[of m _ "\<lambda>(k, _). r \<noteq> k"]) (use assms in \<open>simp_all add: manager_ok_def AList.delete_eq\<close>)
  then show "manager_ok (drop_cache b r m)" "events_in (drop_cache b r m) = events_in m"
    using assms ev by (simp_all add: manager_ok_def logs_ok_def drop_cache_def)
  show "sm_active (drop_cache b r m) = sm_active m" by (simp add: drop_cache_def)
qed

lemma manager_ok_start: "manager_ok new_manager"
  by (simp add: manager_ok_def cache_ok_def logs_ok_def store_ids_ok_def new_manager_def events_in_def
      getAllEvents_def empty_store_def)

interpretation sessions: session_service manager_ok events_in in_lock getSession appendEvent
proof
  fix m m' now r e v s x w
  show "manager_ok m \<Longrightarrow> events_in m r \<noteq> [] \<Longrightarrow> \<exists>s. deriveState (events_in m r) = Inr (Some s)"
    by (simp add: manager_ok_def logs_ok_def)
  show "manager_ok m \<Longrightarrow> fst (getSession now r m) = deriveState (events_in m r)"
    by (simp add: manager_ok_def getSession_value)
  show "getSession now r m = (v, m') \<Longrightarrow> events_in m' = events_in m \<and> in_lock m' = in_lock m \<and> (manager_ok m \<longrightarrow> manager_ok m')"
    using getSession_fields[of now r m v m'] getSession_cache_ok[of now r m v m'] events_in_cong[of m' m]
    by (simp add: manager_ok_def logs_ok_def)
  show "appendEvent now r e m = (Inr s, m') \<Longrightarrow>
      in_lock m r \<and> deriveState (events_in m r @ [e]) = Inr (Some s) \<and>
      events_in m' = (events_in m)(r := events_in m r @ [e]) \<and> in_lock m' = in_lock m"
    using appendEvent_log[of now r e m s m'] by (auto simp: appendEvent_Inr)
  show "appendEvent now r e m = (Inl x, m') \<Longrightarrow> m' = m" by (rule appendEvent_Inl)
  show "manager_ok m \<Longrightarrow> appendEvent now r e m = (w, m') \<Longrightarrow> manager_ok m'" by (rule appendEvent_manager_ok)
qed

end
