(* ===== verification/Listings.thy ===== *)
theory Listings
  imports Schemas
begin

text \<open>
  Seller listings: \<^verbatim>\<open>packages/engine/src/registry/listing-store.ts\<close>, \<^verbatim>\<open>registry-binding.ts\<close>,
  \<^verbatim>\<open>listing-bootstrap.ts\<close>, \<^verbatim>\<open>listing-enricher.ts\<close> and \<^verbatim>\<open>routes/listings.ts\<close>. A listing is the
  JSON object the route builds. The registry lookup \<open>discover\<close> is a parameter: \<open>None\<close> when it is
  not configured; the function may throw or find nothing.
\<close>

section \<open>Store\<close>

type_synonym listing = "(string \<times> json) list"
type_synonym listing_store = "(string \<times> listing) list"

definition MAX_LISTINGS :: nat where "MAX_LISTINGS = 10000"

definition is_line_end :: "char \<Rightarrow> bool" where
  "is_line_end c \<longleftrightarrow> c = CHR 0x0A \<or> c = CHR 0x0D"

text \<open>\<^verbatim>\<open>/^https:\/\/.+/\<close>: something that is no line end follows the scheme.\<close>

definition https_url_re :: "string \<Rightarrow> bool" where
  "https_url_re s \<longleftrightarrow> starts_with ''https://'' s \<and> (case drop 8 s of [] \<Rightarrow> False | c # _ \<Rightarrow> \<not> is_line_end c)"

text \<open>The checks both normalisers of a registry agent id share; \<open>err\<close> builds the exception.\<close>

definition agent_id_text :: "(string \<Rightarrow> js_error) \<Rightarrow> json option \<Rightarrow> string res" where
  "agent_id_text err v =
     (case as_string v of
        None \<Rightarrow> Inl (err ''registry_agent_id must be a non-empty decimal string'')
      | Some s \<Rightarrow>
          if is_blank s then Inl (err ''registry_agent_id must be a non-empty decimal string'')
          else if \<not> list_all is_digit s then Inl (err ''registry_agent_id must be a decimal string'')
          else if nat_of_digits s = 0 then Inl (err ''registry_agent_id must be positive'')
          else Inr (show_nat (nat_of_digits s)))"

definition normalizeRegistryAgentIdForStorage :: "json option \<Rightarrow> string res" where
  "normalizeRegistryAgentIdForStorage v = agent_id_text (\<lambda>m. JsError (''ListingStore: '' @ m)) v"

definition normalizeRegistryAgentId :: "json option \<Rightarrow> string res" where
  "normalizeRegistryAgentId v = agent_id_text (\<lambda>_. EngineError 422 ''invalid_registry_agent_id'') v"

definition isDuplicateListingError :: "string \<Rightarrow> bool" where
  "isDuplicateListingError message = str_includes message ''duplicate listing_id''"

definition normalizeListingForStorage :: "platform \<Rightarrow> listing \<Rightarrow> listing res" where
  "normalizeListingForStorage P li =
     (if falsy (map_of li ''listing_id'') \<or> as_string (map_of li ''listing_id'') = None
        then Inl (JsError ''ListingStore: listing_id is required'')
      else if didFieldToPublicKey P (map_of li ''seller'') = None
        then Inl (JsError (''ListingStore: seller must be a valid did:key DID, got '' @ quote_str (string_of P (map_of li ''seller''))))
      else if \<not> https_url_re (string_of P (map_of li ''negotiation_endpoint''))
        then Inl (JsError ''ListingStore: negotiation_endpoint must be an HTTPS URL'')
      else if \<not> https_url_re (string_of P (map_of li ''payment_endpoint''))
        then Inl (JsError ''ListingStore: payment_endpoint must be an HTTPS URL'')
      else if falsy (map_of li ''service_type'') \<or> as_string (map_of li ''service_type'') = None
        then Inl (JsError ''ListingStore: service_type is required'')
      else case map_of li ''registry_agent_id'' of
        None \<Rightarrow> Inr li
      | v \<Rightarrow> rbind (normalizeRegistryAgentIdForStorage v) (\<lambda>aid.
               Inr (spread_set li ''registry_agent_id'' (JStr aid))))"

definition listing_id_of :: "listing \<Rightarrow> string" where
  "listing_id_of li = (case as_string (map_of li ''listing_id'') of None \<Rightarrow> [] | Some s \<Rightarrow> s)"

definition store_add :: "platform \<Rightarrow> listing \<Rightarrow> listing_store \<Rightarrow> listing_store res" where
  "store_add P li store =
     (if length store \<ge> MAX_LISTINGS then Inl (JsError ''ListingStore: capacity limit reached'')
      else rbind (normalizeListingForStorage P li) (\<lambda>normalized.
        if map_of store (listing_id_of normalized) \<noteq> None
        then Inl (JsError (''ListingStore: duplicate listing_id '' @ quote_str (listing_id_of normalized)))
        else Inr (AList.update (listing_id_of normalized) normalized store)))"

definition getById :: "string \<Rightarrow> listing_store \<Rightarrow> listing option" where
  "getById listingId store = map_of store listingId"

definition getAll :: "listing_store \<Rightarrow> listing list" where
  "getAll store = map snd store"

definition filterByServiceType :: "string \<Rightarrow> listing_store \<Rightarrow> listing list" where
  "filterByServiceType serviceType store =
     filter (\<lambda>l. map_of l ''service_type'' = Some (JStr serviceType)) (getAll store)"

definition findAllBySeller :: "did \<Rightarrow> listing_store \<Rightarrow> listing list" where
  "findAllBySeller sellerDid store = filter (\<lambda>l. map_of l ''seller'' = Some (JStr sellerDid)) (getAll store)"

definition findBySellerAndId :: "did \<Rightarrow> string \<Rightarrow> listing_store \<Rightarrow> listing option" where
  "findBySellerAndId sellerDid listingId store =
     (case map_of store listingId of
        Some l \<Rightarrow> if map_of l ''seller'' = Some (JStr sellerDid) then Some l else None
      | None \<Rightarrow> None)"

fun seedListingsIfMissing :: "platform \<Rightarrow> listing list \<Rightarrow> listing_store \<Rightarrow> nat res \<times> listing_store" where
  "seedListingsIfMissing P [] store = (Inr 0, store)"
| "seedListingsIfMissing P (li # lis) store =
     (if (case as_string (map_of li ''listing_id'') of None \<Rightarrow> None | Some i \<Rightarrow> getById i store) = None then
        (case store_add P li store of
           Inr store' \<Rightarrow>
             (case seedListingsIfMissing P lis store' of
                (Inr n, st) \<Rightarrow> (Inr (n + 1), st) | (Inl e, st) \<Rightarrow> (Inl e, st))
         | Inl (JsError m) \<Rightarrow>
             if isDuplicateListingError m then seedListingsIfMissing P lis store else (Inl (JsError m), store)
         | Inl e \<Rightarrow> (Inl e, store))
      else seedListingsIfMissing P lis store)"

section \<open>Registry binding and enrichment\<close>

record discovered_agent =
  da_agentId :: nat
  da_did :: "string option"
  da_name :: string
  da_reputationScore :: "rat option"
  da_totalFeedbacks :: rat

type_synonym discover_fn = "string \<Rightarrow> discovered_agent option res"

definition verifyRegistryAgentBinding :: "json option \<Rightarrow> did \<Rightarrow> discover_fn option \<Rightarrow> string option res" where
  "verifyRegistryAgentBinding registryAgentId sellerDid discover =
     (if registryAgentId = None then Inr None
      else case discover of
        None \<Rightarrow> Inl (EngineError 503 ''registry_unavailable'')
      | Some disc \<Rightarrow>
          rbind (normalizeRegistryAgentId registryAgentId) (\<lambda>aid.
          case disc aid of
            Inl _ \<Rightarrow> Inl (EngineError 503 ''registry_unavailable'')
          | Inr None \<Rightarrow> Inl (EngineError 422 ''invalid_registry_agent_id'')
          | Inr (Some d) \<Rightarrow>
              if show_nat (da_agentId d) \<noteq> aid then Inl (EngineError 422 ''invalid_registry_agent_id'')
              else if da_did d \<noteq> Some sellerDid then Inl (EngineError 422 ''registry_did_mismatch'')
              else Inr (Some aid)))"

definition MAX_NAME_LENGTH :: nat where "MAX_NAME_LENGTH = 200"

text \<open>\<^verbatim>\<open>replace(/<[^>]*>?/g, "")\<close>.\<close>

function strip_tags :: "string \<Rightarrow> string" where
  "strip_tags [] = []"
| "strip_tags (c # s) =
     (if c = CHR ''<'' then strip_tags (drop 1 (dropWhile (\<lambda>x. x \<noteq> CHR ''>'') s)) else c # strip_tags s)"
  by pat_completeness auto
termination
proof (relation "measure length")
  show "(drop 1 (dropWhile (\<lambda>x. x \<noteq> CHR ''>'') s), c # s) \<in> measure length" for c s
    using length_dropWhile_le[of "\<lambda>x. x \<noteq> CHR ''>''" s] by simp
qed auto

definition is_entity_char :: "char \<Rightarrow> bool" where
  "is_entity_char c \<longleftrightarrow>
     (let n = of_char c :: nat in 65 \<le> n \<and> n \<le> 90 \<or> 97 \<le> n \<and> n \<le> 122 \<or> is_digit c \<or> n = 35)"

text \<open>\<^verbatim>\<open>replace(/&[a-zA-Z0-9#]+;/g, "")\<close>.\<close>

definition entity_tail :: "string \<Rightarrow> string option" where
  "entity_tail s =
     (if takeWhile is_entity_char s = [] then None
      else case dropWhile is_entity_char s of
        [] \<Rightarrow> None
      | d # r \<Rightarrow> if d = CHR '';'' then Some r else None)"

lemma entity_tail_shorter: "entity_tail s = Some r \<Longrightarrow> length r < length s"
proof -
  assume "entity_tail s = Some r"
  then have "\<exists>d. dropWhile is_entity_char s = d # r"
    by (auto simp: entity_tail_def split: if_splits list.splits)
  then show ?thesis using length_dropWhile_le[of is_entity_char s] by auto
qed

function strip_entities :: "string \<Rightarrow> string" where
  "strip_entities [] = []"
| "strip_entities (c # s) =
     (if c = CHR ''&'' then
        (case entity_tail s of Some r \<Rightarrow> strip_entities r | None \<Rightarrow> c # strip_entities s)
      else c # strip_entities s)"
  by pat_completeness auto
termination
  by (relation "measure length") (auto dest: entity_tail_shorter)

text \<open>Printable characters, below code unit 256.\<close>

definition is_printable :: "char \<Rightarrow> bool" where
  "is_printable c \<longleftrightarrow> (let n = of_char c :: nat in 0x20 \<le> n \<and> n \<le> 0x7E \<or> 0xA0 \<le> n)"

definition trim :: "string \<Rightarrow> string" where
  "trim s = rev (dropWhile is_white_space (rev (dropWhile is_white_space s)))"

definition sanitizeString :: "string \<Rightarrow> string" where
  "sanitizeString s = take MAX_NAME_LENGTH (trim (filter is_printable (strip_entities (strip_tags s))))"

definition clamp :: "'a::linorder \<Rightarrow> 'a \<Rightarrow> 'a \<Rightarrow> 'a" where
  "clamp value lo hi = max lo (min hi value)"

definition enrichListing :: "listing \<Rightarrow> discover_fn \<Rightarrow> listing" where
  "enrichListing li disc =
     (if falsy (map_of li ''registry_agent_id'') then li
      else case normalizeRegistryAgentId (map_of li ''registry_agent_id'') of
        Inl _ \<Rightarrow> li
      | Inr agentId \<Rightarrow>
          (case disc agentId of
             Inl _ \<Rightarrow> li
           | Inr None \<Rightarrow> li
           | Inr (Some agent) \<Rightarrow>
               if show_nat (da_agentId agent) \<noteq> agentId then li
               else if map_option JStr (da_did agent) \<noteq> map_of li ''seller'' then li
               else spread_set li ''registry''
                 (JObj [(''agentId'', JStr (show_nat (da_agentId agent))),
                        (''name'', JStr (sanitizeString (da_name agent))),
                        (''reputationScore'',
                           (case da_reputationScore agent of None \<Rightarrow> JNull | Some q \<Rightarrow> JNum (clamp q 0 100))),
                        (''totalFeedbacks'', JNum (max 0 (da_totalFeedbacks agent)))])))"

definition enrichListings :: "listing list \<Rightarrow> discover_fn \<Rightarrow> listing list" where
  "enrichListings lis disc = map (\<lambda>l. enrichListing l disc) lis"

section \<open>Routes\<close>

definition ALLOWED_LISTING_REGISTRATION_FIELDS :: "string list" where
  "ALLOWED_LISTING_REGISTRATION_FIELDS = [''listing_id'', ''seller'', ''title'', ''category'', ''service_type'',
     ''negotiation_endpoint'', ''payment_endpoint'', ''base_terms'', ''negotiation_profile'',
     ''registry_agent_id'', ''signature'']"

abbreviation invalid_listing :: "'a res" where
  "invalid_listing \<equiv> Inl (EngineError 422 ''invalid_listing'')"

definition listing_required :: "string list" where
  "listing_required = [''listing_id'', ''seller'', ''title'', ''category'', ''service_type'',
     ''negotiation_endpoint'', ''payment_endpoint'']"

definition bad_profile :: "(string \<times> json) list \<Rightarrow> bool" where
  "bad_profile profile \<longleftrightarrow>
     (case as_string (map_of profile ''style'') of
        None \<Rightarrow> True | Some s \<Rightarrow> s \<notin> {''firm'', ''flexible'', ''competitive'', ''deadline-sensitive''}) \<or>
     (map_of profile ''max_rounds'' \<noteq> None \<and> \<not> isPositiveInteger (map_of profile ''max_rounds'')) \<or>
     (case map_of profile ''accepts_counter'' of None \<Rightarrow> False | Some (JBool _) \<Rightarrow> False | Some _ \<Rightarrow> True)"

definition validateListingRegistrationShape :: "(string \<times> json) list \<Rightarrow> unit res" where
  "validateListingRegistrationShape body =
     (if \<not> list_all (\<lambda>(k, _). k \<in> set ALLOWED_LISTING_REGISTRATION_FIELDS) body then invalid_listing
      else if list_ex (\<lambda>f. case as_string (map_of body f) of None \<Rightarrow> True | Some s \<Rightarrow> is_blank s) listing_required
        then invalid_listing
      else if \<not> is_plain_object (map_of body ''base_terms'') then invalid_listing
      else if map_of body ''registry_agent_id'' \<noteq> None \<and> as_string (map_of body ''registry_agent_id'') = None
        then invalid_listing
      else case map_of body ''negotiation_profile'' of
        None \<Rightarrow> Inr ()
      | Some (JObj profile) \<Rightarrow> if bad_profile profile then invalid_listing else Inr ()
      | Some _ \<Rightarrow> invalid_listing)"


definition buildListingForStorage :: "(string \<times> json) list \<Rightarrow> string option \<Rightarrow> listing" where
  "buildListingForStorage body verifiedRegistryAgentId =
     pick (JObj body) [''listing_id'', ''seller'', ''title'', ''category'', ''service_type'', ''negotiation_endpoint'',
       ''payment_endpoint'', ''base_terms'', ''negotiation_profile''] @
     opt_prop ''registry_agent_id'' (map_option JStr verifiedRegistryAgentId)"

definition mapListingStoreError :: "js_error \<Rightarrow> js_error" where
  "mapListingStoreError e =
     (case e of
        JsError m \<Rightarrow>
          if str_includes m ''duplicate listing_id'' then EngineError 409 ''duplicate_listing''
          else if str_includes m ''capacity limit reached'' then EngineError 503 ''capacity_exceeded''
          else if starts_with ''ListingStore:'' m then EngineError 422 ''invalid_listing''
          else e
      | _ \<Rightarrow> e)"

definition postListings :: "platform \<Rightarrow> discover_fn option \<Rightarrow> json \<Rightarrow> listing_store \<Rightarrow> listing res \<times> listing_store" where
  "postListings P discover body store =
     (case body of
        JObj kvs \<Rightarrow>
          (case as_string (map_of kvs ''signature'') of
             None \<Rightarrow> (Inl (EngineError 400 ''malformed_payload''), store)
           | Some sig \<Rightarrow>
          (case
             rbind (validateListingRegistrationShape kvs) (\<lambda>_.
             rbind (preCheckSignatureFormat P (Some (JStr sig)) (map_of kvs ''seller'')) (\<lambda>_.
             rbind (verifySignature P kvs sig (string_of P (map_of kvs ''seller'')) ''invalid_seller_signature'') (\<lambda>_.
             rbind (verifyRegistryAgentBinding (map_of kvs ''registry_agent_id'')
                      (string_of P (map_of kvs ''seller'')) discover) (\<lambda>aid.
             Inr (buildListingForStorage kvs aid)))))
           of
             Inl e \<Rightarrow> (Inl e, store)
           | Inr li \<Rightarrow>
               (case store_add P li store of
                  Inl e \<Rightarrow> (Inl (mapListingStoreError e), store)
                | Inr store' \<Rightarrow> (Inr li, store'))))
      | _ \<Rightarrow> (Inl (EngineError 400 ''malformed_payload''), store))"

definition getListings :: "string option \<Rightarrow> discover_fn option \<Rightarrow> listing_store \<Rightarrow> listing list" where
  "getListings serviceType discover store =
     (let lis = (case serviceType of
                   None \<Rightarrow> getAll store
                 | Some t \<Rightarrow> if t = [] then getAll store else filterByServiceType t store)
      in case discover of None \<Rightarrow> lis | Some disc \<Rightarrow> enrichListings lis disc)"

definition getListing :: "string \<Rightarrow> discover_fn option \<Rightarrow> listing_store \<Rightarrow> listing res" where
  "getListing listingId discover store =
     (case getById listingId store of
        None \<Rightarrow> Inl (EngineError 404 ''listing_not_found'')
      | Some li \<Rightarrow> Inr (case discover of None \<Rightarrow> li | Some disc \<Rightarrow> enrichListing li disc))"

section \<open>Lemmas\<close>

text \<open>What a stored listing is known to satisfy.\<close>

definition listing_ok :: "platform \<Rightarrow> string \<Rightarrow> listing \<Rightarrow> bool" where
  "listing_ok P i li \<longleftrightarrow>
     map_of li ''listing_id'' = Some (JStr i) \<and> i \<noteq> [] \<and>
     didFieldToPublicKey P (map_of li ''seller'') \<noteq> None \<and>
     https_url_re (string_of P (map_of li ''negotiation_endpoint'')) \<and>
     https_url_re (string_of P (map_of li ''payment_endpoint'')) \<and>
     (\<forall>v. map_of li ''registry_agent_id'' = Some v \<longrightarrow> (\<exists>n. v = JStr (show_nat n) \<and> n > 0))"

definition listings_ok :: "platform \<Rightarrow> listing_store \<Rightarrow> bool" where
  "listings_ok P store \<longleftrightarrow>
     distinct (map fst store) \<and> length store \<le> MAX_LISTINGS \<and>
     (\<forall>i li. map_of store i = Some li \<longrightarrow> listing_ok P i li)"

lemma agent_id_text_Inr:
  "agent_id_text err v = Inr a \<Longrightarrow> \<exists>s. v = Some (JStr s) \<and> a = show_nat (nat_of_digits s) \<and> nat_of_digits s > 0"
  by (auto simp: agent_id_text_def split: if_splits)

lemma normalizeListing_ok:
  assumes "normalizeListingForStorage P li = Inr n"
  shows "listing_ok P (listing_id_of n) n \<and> (\<forall>k. k \<noteq> ''registry_agent_id'' \<longrightarrow> map_of n k = map_of li k)"
proof -
  obtain i where i: "map_of li ''listing_id'' = Some (JStr i)" "i \<noteq> []"
    using assms by (auto simp: normalizeListingForStorage_def split: if_splits)
  have d: "didFieldToPublicKey P (map_of li ''seller'') \<noteq> None"
    and u: "https_url_re (string_of P (map_of li ''negotiation_endpoint''))"
      "https_url_re (string_of P (map_of li ''payment_endpoint''))"
    using assms by (auto simp: normalizeListingForStorage_def split: if_splits)
  show ?thesis
  proof (cases "map_of li ''registry_agent_id''")
    case None
    then have "n = li" using assms by (auto simp: normalizeListingForStorage_def split: if_splits)
    then show ?thesis using i d u None by (auto simp: listing_ok_def listing_id_of_def)
  next
    case (Some v)
    then obtain a where a: "normalizeRegistryAgentIdForStorage (Some v) = Inr a"
      "n = spread_set li ''registry_agent_id'' (JStr a)"
      using assms by (auto simp: normalizeListingForStorage_def split: if_splits)
    then show ?thesis using i d u agent_id_text_Inr
      by (fastforce simp: listing_ok_def listing_id_of_def normalizeRegistryAgentIdForStorage_def)
  qed
qed

lemma store_add_Inr:
  "store_add P li store = Inr store' \<longleftrightarrow>
     length store < MAX_LISTINGS \<and>
     (\<exists>n. normalizeListingForStorage P li = Inr n \<and> map_of store (listing_id_of n) = None \<and>
        store' = AList.update (listing_id_of n) n store)"
  by (auto simp: store_add_def split: if_splits)

lemma length_update_fresh: "map_of xs k = None \<Longrightarrow> length (AList.update k v xs) = Suc (length xs)"
  by (induction xs) (auto split: if_splits)

lemma store_add_ok:
  assumes "listings_ok P store" "store_add P li store = Inr store'" shows "listings_ok P store'"
  using assms normalizeListing_ok
  by (fastforce simp: listings_ok_def store_add_Inr distinct_update length_update_fresh update_conv'
      split: if_splits)

lemma store_add_mono: "store_add P li store = Inr store' \<Longrightarrow> map_of store \<subseteq>\<^sub>m map_of store'"
  by (auto simp: store_add_Inr update_conv' map_le_def)

lemma postListings_store:
  "postListings P discover body store = (res, store') \<Longrightarrow> store' = store \<or> (\<exists>li. store_add P li store = Inr store')"
  by (auto simp: postListings_def split: json.splits option.splits sum.splits)

lemma seed_store:
  "seedListingsIfMissing P lis store = (n, store') \<Longrightarrow> listings_ok P store \<Longrightarrow>
   listings_ok P store' \<and> map_of store \<subseteq>\<^sub>m map_of store'"
proof (induction lis arbitrary: store n)
  case (Cons li lis)
  show ?case
  proof (cases "store_add P li store")
    case (Inl x)
    then show ?thesis using Cons by (auto split: if_splits js_error.splits)
  next
    case (Inr store1)
    have "listings_ok P store1" "map_of store \<subseteq>\<^sub>m map_of store1"
      using store_add_ok[OF Cons.prems(2) Inr] store_add_mono[OF Inr] by auto
    then show ?thesis using Cons Inr map_le_trans
      by (fastforce split: if_splits prod.splits sum.splits)
  qed
qed simp

lemma buildListing_lookup:
  "k \<in> set listing_required \<Longrightarrow> map_of (buildListingForStorage kvs aid) k = map_of kvs k"
proof -
  assume k: "k \<in> set listing_required"
  define ks where "ks = [''listing_id'', ''seller'', ''title'', ''category'', ''service_type'', ''negotiation_endpoint'',
       ''payment_endpoint'', ''base_terms'', ''negotiation_profile'']"
  have "set listing_required \<subseteq> set ks" by (simp add: listing_required_def ks_def)
  then have "k \<in> set ks" using k by blast
  moreover have "k \<noteq> ''registry_agent_id''" using k by (auto simp: listing_required_def)
  ultimately show ?thesis unfolding buildListingForStorage_def ks_def[symmetric]
    by (simp add: map_add_def split: option.splits)
qed

text \<open>
  What a registration may say of the registry: an entry without an agent id stays without one; an
  id that was asked for is a number the registry answered with an agent of that number whose DID is
  the seller, and it is stored in canonical form.
\<close>

definition registry_binding :: "discover_fn option \<Rightarrow> json option \<Rightarrow> did \<Rightarrow> json option \<Rightarrow> bool" where
  "registry_binding discover asked d stored \<longleftrightarrow>
     (case asked of
        None \<Rightarrow> stored = None
      | Some v \<Rightarrow> (\<exists>disc s agent. v = JStr s \<and> discover = Some disc \<and>
          disc (show_nat (nat_of_digits s)) = Inr (Some agent) \<and> da_agentId agent = nat_of_digits s \<and>
          da_did agent = Some d \<and> stored = Some (JStr (show_nat (da_agentId agent)))))"

lemma verified_binding:
  assumes "verifyRegistryAgentBinding v d discover = Inr aid"
  shows "registry_binding discover v d (map_option JStr aid)"
proof (cases v)
  case None
  then show ?thesis using assms by (simp add: verifyRegistryAgentBinding_def registry_binding_def)
next
  case (Some x)
  obtain disc a where a: "discover = Some disc" "normalizeRegistryAgentId v = Inr a"
    using assms Some by (auto simp: verifyRegistryAgentBinding_def split: option.splits)
  then obtain agent where f: "disc a = Inr (Some agent)" "show_nat (da_agentId agent) = a" "da_did agent = Some d" "aid = Some a"
    using assms Some
    by (cases "disc a") (auto simp: verifyRegistryAgentBinding_def split: if_splits option.splits)
  obtain s where s: "v = Some (JStr s)" "a = show_nat (nat_of_digits s)"
    using agent_id_text_Inr a(2) unfolding normalizeRegistryAgentId_def by blast
  have "da_agentId agent = nat_of_digits s" using f(2) s(2) nat_of_digits_show_nat by metis
  then show ?thesis using a f s by (auto simp: registry_binding_def)
qed

lemma buildListing_registry: "map_of (buildListingForStorage kvs aid) ''registry_agent_id'' = map_option JStr aid"
  by (cases aid) (simp_all add: buildListingForStorage_def map_add_def)

lemma normalizeListing_registry:
  assumes "normalizeListingForStorage P li = Inr n"
  shows "map_of n ''registry_agent_id'' =
     (case map_of li ''registry_agent_id'' of
        None \<Rightarrow> None
      | Some v \<Rightarrow> (case normalizeRegistryAgentIdForStorage (Some v) of Inl _ \<Rightarrow> None | Inr a \<Rightarrow> Some (JStr a)))"
  using assms by (auto simp: normalizeListingForStorage_def split: if_splits option.splits)

lemma stored_binding:
  assumes "normalizeListingForStorage P (buildListingForStorage kvs aid) = Inr n"
    "registry_binding discover v d (map_option JStr aid)"
  shows "map_of n ''registry_agent_id'' = map_option JStr aid"
proof (cases aid)
  case None
  then show ?thesis using normalizeListing_registry[OF assms(1)] by (simp add: buildListing_registry)
next
  case (Some a)
  have "show_nat (nat_of_digits a) = a"
    using assms(2) Some by (auto simp: registry_binding_def split: option.splits)
  then have same: "normalizeRegistryAgentIdForStorage (Some (JStr a)) = Inr b \<Longrightarrow> b = a" for b
    using agent_id_text_Inr by (fastforce simp: normalizeRegistryAgentIdForStorage_def)
  have "\<exists>b. normalizeRegistryAgentIdForStorage (Some (JStr a)) = Inr b"
    using assms(1) Some buildListing_registry[of kvs aid]
    by (auto simp: normalizeListingForStorage_def split: if_splits)
  then show ?thesis using normalizeListing_registry[OF assms(1)] same Some by (auto simp: buildListing_registry)
qed

lemma strip_tags_no_lt: "CHR ''<'' \<notin> set (strip_tags s)"
  by (induction s rule: strip_tags.induct) auto

lemma strip_entities_subset: "set (strip_entities s) \<subseteq> set s"
proof (induction s rule: strip_entities.induct)
  case (2 c s)
  have "set r \<subseteq> set s" if r: "entity_tail s = Some r" for r
  proof -
    obtain d where "dropWhile is_entity_char s = d # r"
      using r by (auto simp: entity_tail_def split: if_splits list.splits)
    then have "set (d # r) \<subseteq> set s" using set_dropWhileD[of _ is_entity_char s] by auto
    then show ?thesis by simp
  qed
  then have tail: "set (strip_entities r) \<subseteq> set s" if "c = CHR ''&''" "entity_tail s = Some r" for r
    using 2(2)[OF that] that(2) by blast
  show ?case
  proof (cases "c = CHR ''&'' \<and> entity_tail s \<noteq> None")
    case True
    then obtain r where "c = CHR ''&''" "entity_tail s = Some r" by blast
    then show ?thesis using tail[of r] by auto
  next
    case False
    then have "set (strip_entities s) \<subseteq> set s" using 2(1,3) by blast
    then show ?thesis using False by (cases "entity_tail s") auto
  qed
qed simp

lemma trim_subset: "set (trim s) \<subseteq> set s"
  unfolding trim_def by (metis set_dropWhileD set_rev subsetI)

section \<open>Properties\<close>

text \<open>
  C33. Registration keeps the listing table well formed, and what it admits is authenticated: a
  \<open>POST /listings\<close> that succeeds was signed by the listing's seller with the signature of its body,
  its listing is found under its own id, which was free, with the signed endpoints and texts, it is bound
  to a registry agent exactly if the body names one, and then the registry answered with that agent
  and the seller's DID; no other entry of the table changes. A failing request changes nothing.
\<close>

theorem postListings_spec:
  assumes "listings_ok P store" "postListings P discover body store = (r, store')"
  shows "listings_ok P store' \<and> (\<forall>e. r = Inl e \<longrightarrow> store' = store) \<and>
     (\<forall>li. r = Inr li \<longrightarrow>
        (\<exists>kvs sig d i l. body = JObj kvs \<and> map_of kvs ''seller'' = Some (JStr d) \<and>
           map_of kvs ''signature'' = Some (JStr sig) \<and> signed_by P (objectSigningPayload P kvs) sig d \<and>
           map_of kvs ''listing_id'' = Some (JStr i) \<and> map_of store i = None \<and>
           findBySellerAndId d i store' = Some l \<and>
           (\<forall>k \<in> {''negotiation_endpoint'', ''payment_endpoint'', ''title'', ''category'', ''service_type''}.
              map_of l k = map_of kvs k) \<and>
           registry_binding discover (map_of kvs ''registry_agent_id'') d (map_of l ''registry_agent_id'') \<and>
           (\<forall>j. j \<noteq> i \<longrightarrow> map_of store' j = map_of store j)))"
proof (cases r)
  case (Inl e)
  then have "store' = store" using assms(2)
    by (auto simp: postListings_def split: json.splits option.splits sum.splits)
  then show ?thesis using assms(1) Inl by simp
next
  case (Inr li)
  obtain kvs sig aid where b: "body = JObj kvs" "as_string (map_of kvs ''signature'') = Some sig"
    and sh: "validateListingRegistrationShape kvs = Inr ()"
    and ver: "verifySignature P kvs sig (string_of P (map_of kvs ''seller'')) ''invalid_seller_signature'' = Inr ()"
    and bind: "verifyRegistryAgentBinding (map_of kvs ''registry_agent_id'') (string_of P (map_of kvs ''seller'')) discover = Inr aid"
    and li: "li = buildListingForStorage kvs aid" and add: "store_add P li store = Inr store'"
    using assms(2) Inr by (auto simp: postListings_def split: json.splits option.splits sum.splits)
  have req: "\<exists>s. map_of kvs f = Some (JStr s) \<and> \<not> is_blank s" if "f \<in> set listing_required" for f
    using sh that by (fastforce simp: validateListingRegistrationShape_def list_ex_iff split: if_splits option.splits)
  obtain d where d: "map_of kvs ''seller'' = Some (JStr d)" using req[of "''seller''"] by (auto simp: listing_required_def)
  obtain i where i: "map_of kvs ''listing_id'' = Some (JStr i)"
    using req[of "''listing_id''"] by (auto simp: listing_required_def)
  obtain n where n: "normalizeListingForStorage P li = Inr n" "map_of store (listing_id_of n) = None"
    "store' = AList.update (listing_id_of n) n store" using add by (auto simp: store_add_Inr)
  have same: "map_of n k = map_of kvs k" if "k \<in> set listing_required" for k
  proof -
    have "k \<noteq> ''registry_agent_id''" using that by (auto simp: listing_required_def)
    then show ?thesis using normalizeListing_ok[OF n(1)] buildListing_lookup[OF that] by (simp add: li)
  qed
  have idn: "listing_id_of n = i" using same[of "''listing_id''"] i by (simp add: listing_id_of_def listing_required_def)
  have "signed_by P (objectSigningPayload P kvs) sig d"
    using ver d by (simp add: verifySignature_ok string_of_def)
  moreover have "findBySellerAndId d i store' = Some n" using n(3) idn same[of "''seller''"] d
    by (simp add: findBySellerAndId_def update_conv' listing_required_def)
  moreover have rb: "registry_binding discover (map_of kvs ''registry_agent_id'') d (map_option JStr aid)"
    using verified_binding[OF bind] d by (simp add: string_of_def)
  moreover have "map_of n ''registry_agent_id'' = map_option JStr aid"
    using stored_binding[OF n(1)[unfolded li] rb] .
  moreover have "map_of kvs ''signature'' = Some (JStr sig)" using b(2) by simp
  ultimately show ?thesis
    using store_add_ok[OF assms(1) add] Inr b(1) d i n(2,3) same idn by (auto simp: update_conv' listing_required_def)
qed

definition sample_registration :: "(string \<times> json) list" where
  "sample_registration = [(''listing_id'', JStr ''l1''), (''seller'', JStr (demo_did (CHR ''S''))), (''title'', JStr ''t''),
     (''category'', JStr ''c''), (''service_type'', JStr ''audit''), (''negotiation_endpoint'', JStr ''https://n''),
     (''payment_endpoint'', JStr ''https://p''), (''base_terms'', JObj []), (''registry_agent_id'', JStr ''07''),
     (''signature'', JStr (demo_sig (CHR ''S'')))]"

definition sample_registry :: discover_fn where
  "sample_registry aid = Inr (if aid = ''7'' then Some \<lparr>da_agentId = 7, da_did = Some (demo_did (CHR ''S'')),
     da_name = ''n'', da_reputationScore = None, da_totalFeedbacks = 0\<rparr> else None)"

theorem postListings_spec_witness:
  "\<exists>li store' l. postListings demo_platform (Some sample_registry) (JObj sample_registration) [] = (Inr li, store') \<and>
     findBySellerAndId (demo_did (CHR ''S'')) ''l1'' store' = Some l \<and>
     map_of l ''negotiation_endpoint'' = Some (JStr ''https://n'') \<and> map_of l ''payment_endpoint'' = Some (JStr ''https://p'') \<and>
     map_of l ''registry_agent_id'' = Some (JStr ''7'')"
proof -
  have shape: "validateListingRegistrationShape sample_registration = Inr ()"
    by (simp add: validateListingRegistrationShape_def sample_registration_def ALLOWED_LISTING_REGISTRATION_FIELDS_def
        listing_required_def demo_did_def is_blank_def is_white_space_def)
  have url: "https_url_re ''https://n''" "https_url_re ''https://p''" by code_simp+
  have seven: "normalizeRegistryAgentId (Some (JStr ''07'')) = Inr ''7''"
    "normalizeRegistryAgentIdForStorage (Some (JStr ''7'')) = Inr ''7''" "show_nat 7 = ''7''" "nat_of_digits ''07'' = 7" by code_simp+
  have add: "\<exists>store'. store_add demo_platform (buildListingForStorage sample_registration (Some ''7'')) [] = Inr store'"
    using url seven by (simp add: store_add_def normalizeListingForStorage_def buildListingForStorage_def sample_registration_def pick_def
        opt_prop_def string_of_def didFieldToPublicKey_def MAX_LISTINGS_def)
  have sig: "verifySignature demo_platform kvs (demo_sig (CHR ''S'')) (demo_did (CHR ''S'')) code = Inr ()"
    "preCheckSignatureFormat demo_platform (Some (JStr (demo_sig (CHR ''S'')))) (Some (JStr (demo_did (CHR ''S'')))) = Inr ()" for kvs code
    by (simp_all add: verifySignature_ok is_base64_char_def)
  have f: "map_of sample_registration ''seller'' = Some (JStr (demo_did (CHR ''S'')))"
    "map_of sample_registration ''signature'' = Some (JStr (demo_sig (CHR ''S'')))"
    "map_of sample_registration ''registry_agent_id'' = Some (JStr ''07'')"
    "string_of demo_platform (Some (JStr (demo_did (CHR ''S'')))) = demo_did (CHR ''S'')"
    by (simp_all add: sample_registration_def string_of_def)
  have "verifyRegistryAgentBinding (Some (JStr ''07'')) (demo_did (CHR ''S'')) (Some sample_registry) = Inr (Some ''7'')"
    by (simp add: verifyRegistryAgentBinding_def sample_registry_def seven)
  then have "\<exists>li store'. postListings demo_platform (Some sample_registry) (JObj sample_registration) [] = (Inr li, store')"
    using shape add sig f by (auto simp: postListings_def)
  then obtain li store' where p: "postListings demo_platform (Some sample_registry) (JObj sample_registration) [] = (Inr li, store')"
    by blast
  have "listings_ok demo_platform []" by (simp add: listings_ok_def)
  from postListings_spec[OF this p] show ?thesis
    using p seven(3,4) by (auto simp: sample_registration_def registry_binding_def)
qed

text \<open>
  Registry names are safe to show: whatever the registry returns, the sanitised name has no
  \<^verbatim>\<open><\<close>, only printable characters, and at most 200 of them.
\<close>

theorem sanitizeString_safe:
  "CHR ''<'' \<notin> set (sanitizeString s) \<and> list_all is_printable (sanitizeString s) \<and>
   length (sanitizeString s) \<le> MAX_NAME_LENGTH"
proof -
  let ?f = "filter is_printable (strip_entities (strip_tags s))"
  have "set (sanitizeString s) \<subseteq> set ?f"
    unfolding sanitizeString_def by (meson order_trans set_take_subset trim_subset)
  then show ?thesis using strip_tags_no_lt strip_entities_subset
    by (fastforce simp: list_all_iff sanitizeString_def)
qed

text \<open>
  Entities are removed in one pass only, so a name built from nested entities keeps one:
  the sanitiser turns \<^verbatim>\<open>&a&x;mp;\<close> into \<^verbatim>\<open>&amp;\<close>.
\<close>

theorem sanitizeString_leaves_entity:
  "sanitizeString ''&a&x;mp;'' = ''&amp;''"
  by code_simp

end
