(* ===== verification/Negotiation.thy ===== *)
theory Negotiation
  imports SessionManager Listings
begin

text \<open>
  The routes that build up a negotiation: \<^verbatim>\<open>routes/rfqs.ts\<close>, \<^verbatim>\<open>routes/offers.ts\<close> and
  \<^verbatim>\<open>routes/counters.ts\<close>, with \<open>assertState\<close> of \<^verbatim>\<open>middleware/require-state.ts\<close>.

  Each handler has two parts: what it does before it takes the session's lock, and the callback
  it runs under the lock; other requests may run in between. A part returns its result, or
  what it throws, and the manager afterwards. The clock is read once per part; the random
  event id is an argument. A body that is not JSON is answered before any of this.
\<close>

section \<open>Shared pieces\<close>

definition assertState :: "session_state \<Rightarrow> session_state list \<Rightarrow> unit res" where
  "assertState currentState allowedStates =
     (if currentState \<in> set allowedStates then Inr () else Inl (EngineError 409 ''invalid_state_transition''))"

text \<open>\<open>Date.now() >= new Date(s).getTime()\<close>: false when \<open>s\<close> is no date.\<close>

definition time_passed :: "platform \<Rightarrow> millis \<Rightarrow> string \<Rightarrow> bool" where
  "time_passed P now s = (case parse_date P s of None \<Rightarrow> False | Some t \<Rightarrow> t \<le> now)"

definition mk_event :: "millis \<Rightarrow> event_id \<Rightarrow> string \<Rightarrow> event_type \<Rightarrow> did \<Rightarrow> payload \<Rightarrow> negotiation_event" where
  "mk_event now uuid rfqId t actor pl =
     \<lparr>ev_id = uuid, ev_rfq = rfqId, ev_type = t, ev_time = to_iso now, ev_actor = actor, ev_payload = pl\<rparr>"

definition state_text :: "session_state \<Rightarrow> string" where
  "state_text s = (case s of OPEN \<Rightarrow> ''OPEN'' | NEGOTIATING \<Rightarrow> ''NEGOTIATING'' | COMMIT_PENDING \<Rightarrow> ''COMMIT_PENDING''
     | COMMITTED \<Rightarrow> ''COMMITTED'' | EXPIRED \<Rightarrow> ''EXPIRED'' | CANCELLED \<Rightarrow> ''CANCELLED'')"

definition MAX_EXTENSIONS_SIZE :: nat where "MAX_EXTENSIONS_SIZE = 4096"
definition MAX_SPEC_SIZE :: nat where "MAX_SPEC_SIZE = 8192"

definition check_extensions :: "platform \<Rightarrow> json \<Rightarrow> unit res" where
  "check_extensions P body =
     (case jget body ''extensions'' of
        None \<Rightarrow> Inr ()
      | Some (JObj kvs) \<Rightarrow>
          if length (stringify (num_repr P) (JObj kvs)) > MAX_EXTENSIONS_SIZE
          then Inl (EngineError 400 ''malformed_payload'') else Inr ()
      | Some _ \<Rightarrow> Inl (EngineError 400 ''malformed_payload''))"

text \<open>A positive amount in the session's currency.\<close>

definition check_amount :: "platform \<Rightarrow> mint_table \<Rightarrow> string \<Rightarrow> json option \<Rightarrow> nat res" where
  "check_amount P mints cur v =
     rbind (mintFor cur) (\<lambda>mint.
     rbind (normalizeField P mints v mint) (\<lambda>n.
     if n = 0 then Inl (EngineError 422 ''invalid_amount'') else Inr n))"

definition verify_field ::
  "platform \<Rightarrow> (string \<times> json) list \<Rightarrow> json \<Rightarrow> string \<Rightarrow> string \<Rightarrow> unit res" where
  "verify_field P obj body signer code =
     verifySignature P obj (string_of P (jget body ''signature'')) (string_of P (jget body signer)) code"

section \<open>POST /rfqs\<close>

definition validateSpecAndExtensions :: "platform \<Rightarrow> json \<Rightarrow> unit res" where
  "validateSpecAndExtensions P body =
     (case as_object (jget body ''spec'') of
        None \<Rightarrow> Inl (EngineError 400 ''malformed_payload'')
      | Some sp \<Rightarrow>
          if length (stringify (num_repr P) (JObj sp)) > MAX_SPEC_SIZE
          then Inl (EngineError 400 ''malformed_payload'')
          else check_extensions P body)"

definition rfq_fields :: "string list" where
  "rfq_fields = [''rfq_id'', ''protocol'', ''buyer'', ''service_type'', ''spec'', ''anchor_price'', ''currency'',
     ''deadline'', ''signature'', ''budget_commitment'', ''extensions'']"

definition extractRfqFields :: "json \<Rightarrow> (string \<times> json) list" where
  "extractRfqFields body = pick body rfq_fields"

definition rfq_status :: "string \<Rightarrow> nat" where
  "rfq_status code = (if code \<in> {''invalid_amount'', ''invalid_deadline'', ''currency_mismatch'',
     ''unsupported_currency'', ''invalid_budget_commitment_format''} then 422 else 400)"

definition rfq_pre :: "platform \<Rightarrow> mint_table \<Rightarrow> millis \<Rightarrow> json \<Rightarrow> manager \<Rightarrow> unit res" where
  "rfq_pre P mints now body m =
     (case validateRfq P now body of
        VBad code \<Rightarrow> Inl (EngineError (rfq_status code) code)
      | VOk \<Rightarrow>
          rbind (validateSpecAndExtensions P body) (\<lambda>_.
          rbind (check_amount P mints (string_of P (jget body ''currency'')) (jget body ''anchor_price'')) (\<lambda>_.
          rbind (preCheckSignatureFormat P (jget body ''signature'') (jget body ''buyer'')) (\<lambda>_.
          rbind (verify_field P (extractRfqFields body) body ''buyer'' ''invalid_buyer_signature'') (\<lambda>_.
          case as_string (jget body ''rfq_id'') of
            None \<Rightarrow> Inr ()
          | Some rfqId \<Rightarrow> if hasSession rfqId m then Inl (EngineError 409 ''duplicate_object_id'') else Inr ())))))"

text \<open>
  The callback. An \<open>rfq_id\<close> that is not a string (its text passed the UUID test) names no stored
  session and the reducer refuses the event.
\<close>

definition rfq_locked :: "platform \<Rightarrow> millis \<Rightarrow> event_id \<Rightarrow> json \<Rightarrow> string \<Rightarrow> derived_session option \<Rightarrow> manager \<Rightarrow>
    derived_session res \<times> manager" where
  "rfq_locked P now uuid body rfqId _ m =
     (if hasSession rfqId m then (Inl (EngineError 409 ''duplicate_object_id''), m)
      else appendEvent now rfqId
             (mk_event now uuid rfqId RFQ_CREATED (string_of P (jget body ''buyer'')) (pick body rfq_fields)) m)"

definition rfq_response :: "derived_session \<Rightarrow> json" where
  "rfq_response s = JObj [(''rfq_id'', JStr (rfq_id (rfq s))), (''state'', JStr (state_text (state s))),
     (''buyer'', JStr (buyer (rfq s))), (''service_type'', JStr (service_type (rfq s))),
     (''anchor_price'', JStr (anchor_price (rfq s))), (''currency'', JStr (currency (rfq s))),
     (''deadline'', JStr (deadline (rfq s)))]"

definition postRfqs :: "platform \<Rightarrow> bool \<Rightarrow> millis \<Rightarrow> event_id \<Rightarrow> json \<Rightarrow> manager \<Rightarrow> json res \<times> manager" where
  "postRfqs P granted now uuid body m =
     (case as_string (jget body ''rfq_id'') of
        None \<Rightarrow> (Inl (JsError ''deriveState: missing or invalid string field''), m)
      | Some rfqId \<Rightarrow>
          (case withLock granted now rfqId (rfq_locked P now uuid body rfqId) m of
             (Inl e, m') \<Rightarrow> (Inl e, m')
           | (Inr s, m') \<Rightarrow> (Inr (rfq_response s), m')))"

section \<open>POST /rfqs/:id/offers\<close>

definition MAX_OFFERS_PER_SESSION :: nat where "MAX_OFFERS_PER_SESSION = 50"
definition MAX_OFFERS_PER_SELLER :: nat where "MAX_OFFERS_PER_SELLER = 5"

definition offer_fields :: "string list" where
  "offer_fields = [''offer_id'', ''rfq_id'', ''seller'', ''listing_id'', ''price'', ''currency'', ''valid_until'',
     ''signature'', ''extensions'']"

definition extractOfferFields :: "json \<Rightarrow> (string \<times> json) list" where
  "extractOfferFields body = pick body offer_fields"

definition offer_status :: "string \<Rightarrow> nat" where
  "offer_status code = (if code \<in> {''invalid_amount'', ''currency_mismatch'', ''invalid_expiry''} then 422 else 400)"

definition check_offer :: "platform \<Rightarrow> mint_table \<Rightarrow> millis \<Rightarrow> string \<Rightarrow> json \<Rightarrow> derived_session \<Rightarrow> unit res" where
  "check_offer P mints now rfqId body s =
     (case validateOffer P now body (rfq s) of
        VBad code \<Rightarrow> Inl (EngineError (offer_status code) code)
      | VOk \<Rightarrow>
          rbind (check_amount P mints (currency (rfq s)) (jget body ''price'')) (\<lambda>_.
          rbind (check_extensions P body) (\<lambda>_.
          if jget body ''rfq_id'' \<noteq> Some (JStr rfqId) then Inl (EngineError 400 ''rfq_id_mismatch'')
          else
          rbind (preCheckSignatureFormat P (jget body ''signature'') (jget body ''seller'')) (\<lambda>_.
          verify_field P (extractOfferFields body) body ''seller'' ''invalid_seller_signature''))))"

definition offer_pre ::
  "platform \<Rightarrow> mint_table \<Rightarrow> millis \<Rightarrow> string \<Rightarrow> json \<Rightarrow> manager \<Rightarrow> unit res \<times> manager" where
  "offer_pre P mints now rfqId body m =
     (case getSession now rfqId m of
        (Inl e, m') \<Rightarrow> (Inl e, m')
      | (Inr None, m') \<Rightarrow> (Inl (EngineError 404 ''session_not_found''), m')
      | (Inr (Some s), m') \<Rightarrow> (check_offer P mints now rfqId body s, m'))"

definition offer_payload :: "string \<Rightarrow> json \<Rightarrow> json \<Rightarrow> payload" where
  "offer_payload rfqId body endpoint =
     [(''rfq_id'', JStr rfqId)] @
     pick body [''offer_id'', ''seller'', ''price'', ''currency'', ''valid_until'', ''signature'', ''listing_id''] @
     [(''payment_endpoint'', endpoint)] @ pick body [''extensions'']"

definition offer_guard ::
  "platform \<Rightarrow> millis \<Rightarrow> listing_store \<Rightarrow> json \<Rightarrow> derived_session \<Rightarrow> (did \<times> json) res" where
  "offer_guard P now store body s =
     (let sellerDid = string_of P (jget body ''seller'') in
      if time_passed P now (deadline (rfq s)) then Inl (EngineError 409 ''session_expired'')
      else rbind (assertState (state s) [OPEN, NEGOTIATING]) (\<lambda>_.
      if list_ex (\<lambda>o'. Some (JStr (o_offer_id o')) = jget body ''offer_id'') (offers s)
        then Inl (EngineError 409 ''duplicate_object_id'')
      else if totalOfferCount s \<ge> MAX_OFFERS_PER_SESSION then Inl (EngineError 422 ''session_offer_limit'')
      else if count_get (offerCountBySeller s) sellerDid \<ge> MAX_OFFERS_PER_SELLER
        then Inl (EngineError 422 ''seller_offer_limit'')
      else case findBySellerAndId sellerDid (string_of P (jget body ''listing_id'')) store of
        None \<Rightarrow> Inl (EngineError 422 ''missing_listing'')
      | Some li \<Rightarrow>
          (case map_of li ''payment_endpoint'' of
             None \<Rightarrow> Inl (EngineError 422 ''missing_payment_endpoint'')
           | Some pe \<Rightarrow>
               if falsy (Some pe) then Inl (EngineError 422 ''missing_payment_endpoint'')
               else Inr (sellerDid, pe))))"

definition offer_locked ::
  "platform \<Rightarrow> millis \<Rightarrow> event_id \<Rightarrow> listing_store \<Rightarrow> string \<Rightarrow> json \<Rightarrow> derived_session option \<Rightarrow> manager \<Rightarrow>
   derived_session res \<times> manager" where
  "offer_locked P now uuid store rfqId body so m =
     (case so of
        None \<Rightarrow> (Inl (EngineError 404 ''session_not_found''), m)
      | Some s \<Rightarrow>
          (case offer_guard P now store body s of
             Inl e \<Rightarrow> (Inl e, m)
           | Inr (sellerDid, endpoint) \<Rightarrow>
               appendEvent now rfqId
                 (mk_event now uuid rfqId OFFER_SUBMITTED sellerDid (offer_payload rfqId body endpoint)) m))"

definition postOffers ::
  "platform \<Rightarrow> bool \<Rightarrow> millis \<Rightarrow> event_id \<Rightarrow> listing_store \<Rightarrow> string \<Rightarrow> json \<Rightarrow> manager \<Rightarrow> json res \<times> manager" where
  "postOffers P granted now uuid store rfqId body m =
     (case withLock granted now rfqId (offer_locked P now uuid store rfqId body) m of
        (Inl e, m') \<Rightarrow> (Inl e, m')
      | (Inr s, m') \<Rightarrow>
          (Inr (JObj (pick body [''offer_id''] @ [(''rfq_id'', JStr rfqId), (''state'', JStr (state_text (state s)))] @
                 pick body [''seller'', ''price''])), m'))"

section \<open>POST /rfqs/:id/counter\<close>

text \<open>The proof verifier of the configuration: \<open>False\<close> where it rejects or throws.\<close>

type_synonym zk_verifier = "json \<Rightarrow> nat \<Rightarrow> string \<Rightarrow> bool"

definition counter_fields :: "string list" where
  "counter_fields = [''counter_id'', ''rfq_id'', ''round'', ''from'', ''to'', ''price'', ''currency'', ''valid_until'',
     ''signature'', ''budget_proof'', ''extensions'']"

definition extractCounterFields :: "json \<Rightarrow> (string \<times> json) list" where
  "extractCounterFields body = pick body counter_fields"

definition counter_status :: "string \<Rightarrow> nat" where
  "counter_status code = (if code \<in> {''invalid_amount'', ''currency_mismatch'', ''invalid_expiry'', ''invalid_round'',
     ''missing_budget_proof'', ''invalid_budget_proof'', ''unexpected_budget_proof'', ''unauthorized_counter''}
     then 422 else 400)"

definition has_offer_from :: "json option \<Rightarrow> derived_session \<Rightarrow> bool" where
  "has_offer_from v s \<longleftrightarrow> list_ex (\<lambda>o'. Some (JStr (o_seller o')) = v) (offers s)"

definition check_proof :: "zk_verifier \<Rightarrow> json \<Rightarrow> nat \<Rightarrow> session_rfq \<Rightarrow> unit res" where
  "check_proof zk body scaled r =
     (if has_commitment r then
        (case jget body ''budget_proof'' of
           None \<Rightarrow> Inl (EngineError 422 ''missing_budget_proof'')
         | Some pr \<Rightarrow>
             if falsy (Some pr) then Inl (EngineError 422 ''missing_budget_proof'')
             else if jget pr ''counter_price_scaled'' \<noteq> Some (JStr (show_nat scaled))
               then Inl (EngineError 422 ''proof_price_mismatch'')
             else if \<not> zk pr scaled (the (budget_commitment r)) then Inl (EngineError 422 ''invalid_budget_proof'')
             else Inr ())
      else if jget body ''budget_proof'' \<noteq> None then Inl (EngineError 422 ''unexpected_budget_proof'')
      else Inr ())"

definition check_counter ::
  "platform \<Rightarrow> mint_table \<Rightarrow> zk_verifier \<Rightarrow> millis \<Rightarrow> string \<Rightarrow> json \<Rightarrow> derived_session \<Rightarrow> unit res" where
  "check_counter P mints zk now rfqId body s =
     (case validateCounter P now body (rfq s) of
        VBad code \<Rightarrow> Inl (EngineError (counter_status code) code)
      | VOk \<Rightarrow>
          rbind (check_amount P mints (currency (rfq s)) (jget body ''price'')) (\<lambda>scaled.
          rbind (check_extensions P body) (\<lambda>_.
          if jget body ''rfq_id'' \<noteq> Some (JStr rfqId) then Inl (EngineError 400 ''rfq_id_mismatch'')
          else if jget body ''from'' \<noteq> Some (JStr (buyer (rfq s))) then Inl (EngineError 422 ''unauthorized_counter'')
          else if \<not> has_offer_from (jget body ''to'') s then Inl (EngineError 422 ''unauthorized_counter'')
          else
          rbind (check_proof zk body scaled (rfq s)) (\<lambda>_.
          verify_field P (extractCounterFields body) body ''from'' ''invalid_buyer_signature''))))"

definition counter_pre ::
  "platform \<Rightarrow> mint_table \<Rightarrow> zk_verifier \<Rightarrow> millis \<Rightarrow> string \<Rightarrow> json \<Rightarrow> manager \<Rightarrow> unit res \<times> manager" where
  "counter_pre P mints zk now rfqId body m =
     (if body = JNull then (Inl TypeError, m)
      else case preCheckSignatureFormat P (jget body ''signature'') (jget body ''from'') of
        Inl e \<Rightarrow> (Inl e, m)
      | Inr _ \<Rightarrow>
          (case getSession now rfqId m of
             (Inl e, m') \<Rightarrow> (Inl e, m')
           | (Inr None, m') \<Rightarrow> (Inl (EngineError 404 ''session_not_found''), m')
           | (Inr (Some s), m') \<Rightarrow> (check_counter P mints zk now rfqId body s, m')))"

text \<open>\<open>reduce((max, ct) => Math.max(max, ct.round), 0)\<close>.\<close>

definition max_round :: "recorded_counter list \<Rightarrow> rat" where
  "max_round cs = foldl (\<lambda>m ct. max m (c_round ct)) 0 cs"

definition counter_guard :: "platform \<Rightarrow> millis \<Rightarrow> json \<Rightarrow> derived_session \<Rightarrow> unit res" where
  "counter_guard P now body s =
     (if time_passed P now (deadline (rfq s)) then Inl (EngineError 409 ''session_expired'')
      else rbind (assertState (state s) [NEGOTIATING]) (\<lambda>_.
      if \<not> has_offer_from (jget body ''to'') s then Inl (EngineError 422 ''unauthorized_counter'')
      else if list_ex (\<lambda>ct. Some (JStr (c_counter_id ct)) = jget body ''counter_id'') (counters s)
        then Inl (EngineError 409 ''duplicate_object_id'')
      else case as_number (jget body ''round'') of
        None \<Rightarrow> Inr ()
      | Some r \<Rightarrow> if r \<le> max_round (counters s) then Inl (EngineError 422 ''invalid_round'') else Inr ()))"

definition counter_payload :: "string \<Rightarrow> json \<Rightarrow> payload" where
  "counter_payload rfqId body =
     [(''rfq_id'', JStr rfqId)] @
     pick body [''counter_id'', ''round'', ''from'', ''to'', ''price'', ''currency'', ''valid_until'', ''signature'',
       ''budget_proof'', ''extensions'']"

definition counter_locked ::
  "platform \<Rightarrow> millis \<Rightarrow> event_id \<Rightarrow> string \<Rightarrow> json \<Rightarrow> derived_session option \<Rightarrow> manager \<Rightarrow>
   derived_session res \<times> manager" where
  "counter_locked P now uuid rfqId body so m =
     (case so of
        None \<Rightarrow> (Inl (EngineError 404 ''session_not_found''), m)
      | Some s \<Rightarrow>
          (case counter_guard P now body s of
             Inl e \<Rightarrow> (Inl e, m)
           | Inr _ \<Rightarrow>
               appendEvent now rfqId
                 (mk_event now uuid rfqId COUNTER_SENT (string_of P (jget body ''from'')) (counter_payload rfqId body)) m))"

definition postCounter ::
  "platform \<Rightarrow> bool \<Rightarrow> millis \<Rightarrow> event_id \<Rightarrow> string \<Rightarrow> json \<Rightarrow> manager \<Rightarrow> json res \<times> manager" where
  "postCounter P granted now uuid rfqId body m =
     (case withLock granted now rfqId (counter_locked P now uuid rfqId body) m of
        (Inl e, m') \<Rightarrow> (Inl e, m')
      | (Inr s, m') \<Rightarrow>
          (Inr (JObj (pick body [''counter_id''] @ [(''rfq_id'', JStr rfqId), (''state'', JStr (state_text (state s)))] @
                 pick body [''round'', ''from'', ''to'', ''price''])), m'))"

end
