(* ===== verification/ControlEnvelope.thy ===== *)
theory ControlEnvelope
  imports Schemas
begin

text \<open>
  \<^verbatim>\<open>packages/engine/src/security/control-envelope.ts\<close>: the signed envelope that authenticates an
  accept or a decline, and the tombstones that make it usable once.

  \<open>validateControlEnvelope\<close> awaits the signature check between looking the tombstone up and
  setting it, so the model keeps the two halves apart: \<open>checkEnvelope\<close> up to and including the
  await, then \<open>tomb_use\<close> at a later reading of the clock.
\<close>

section \<open>Model\<close>

record tombstones =
  tb_map :: "(string \<times> millis) list"
  tb_next :: "millis option"

definition no_tombstones :: tombstones where
  "no_tombstones = \<lparr>tb_map = [], tb_next = None\<rparr>"

definition isUsed :: "string \<Rightarrow> tombstones \<Rightarrow> bool" where
  "isUsed envelopeId tb \<longleftrightarrow> map_of (tb_map tb) envelopeId \<noteq> None"

definition RETENTION_MS :: int where "RETENTION_MS = 60 * 60 * 1000"

text \<open>\<open>None\<close> is \<open>Infinity\<close>.\<close>

definition before :: "millis \<Rightarrow> millis option \<Rightarrow> bool" where
  "before t n = (case n of None \<Rightarrow> True | Some x \<Rightarrow> t < x)"

definition tomb_use :: "millis \<Rightarrow> string \<Rightarrow> tombstones \<Rightarrow> tombstones" where
  "tomb_use now envelopeId tb =
     (let expiry = now + RETENTION_MS
      in \<lparr>tb_map = AList.update envelopeId expiry (tb_map tb),
          tb_next = (if before expiry (tb_next tb) then Some expiry else tb_next tb)\<rparr>)"

fun sweep_scan :: "millis \<Rightarrow> (string \<times> millis) list \<Rightarrow> millis option \<Rightarrow> (string \<times> millis) list \<times> millis option" where
  "sweep_scan now [] minExpiry = ([], minExpiry)"
| "sweep_scan now ((i, expiry) # rest) minExpiry =
     (if now \<ge> expiry then sweep_scan now rest minExpiry
      else let (kept, m) = sweep_scan now rest (if before expiry minExpiry then Some expiry else minExpiry)
           in ((i, expiry) # kept, m))"

definition sweep :: "millis \<Rightarrow> tombstones \<Rightarrow> tombstones" where
  "sweep now tb =
     (if before now (tb_next tb) then tb
      else let (kept, m) = sweep_scan now (tb_map tb) None in \<lparr>tb_map = kept, tb_next = m\<rparr>)"

record control_envelope =
  env_id :: string
  env_action :: string
  env_rfq :: string
  env_revision :: string
  env_payload :: "(string \<times> json) list"
  env_issued :: string
  env_expires :: string
  env_signature :: string

definition envelope_object :: "control_envelope \<Rightarrow> (string \<times> json) list" where
  "envelope_object v =
     [(''envelope_id'', JStr (env_id v)), (''action'', JStr (env_action v)), (''rfq_id'', JStr (env_rfq v)),
      (''session_revision'', JStr (env_revision v)), (''payload'', JObj (env_payload v)),
      (''issued_at'', JStr (env_issued v)), (''expires_at'', JStr (env_expires v)),
      (''signature'', JStr (env_signature v))]"

definition MAX_ISSUED_AGE_MS :: int where "MAX_ISSUED_AGE_MS = 60000"

abbreviation malformed :: "'a res" where
  "malformed \<equiv> Inl (EngineError 400 ''malformed_payload'')"

text \<open>The structure checks, in the order of the code.\<close>

definition parse_envelope :: "json \<Rightarrow> string \<Rightarrow> string \<Rightarrow> control_envelope res" where
  "parse_envelope body expectedAction expectedRfqId =
     (if body = JNull then Inl TypeError
      else case as_string (jget body ''envelope_id'') of None \<Rightarrow> malformed
      | Some envelopeId \<Rightarrow> if envelopeId = [] then malformed
      else if jget body ''action'' \<noteq> Some (JStr expectedAction) then malformed
      else if jget body ''rfq_id'' \<noteq> Some (JStr expectedRfqId) then Inl (EngineError 400 ''rfq_id_mismatch'')
      else case as_string (jget body ''session_revision'') of None \<Rightarrow> malformed
      | Some sessionRevision \<Rightarrow> if sessionRevision = [] then malformed
      else case as_object (jget body ''payload'') of None \<Rightarrow> malformed
      | Some pl \<Rightarrow> case as_string (jget body ''issued_at'') of None \<Rightarrow> malformed
      | Some issuedAt \<Rightarrow> case as_string (jget body ''expires_at'') of None \<Rightarrow> malformed
      | Some expiresAt \<Rightarrow> case as_string (jget body ''signature'') of None \<Rightarrow> malformed
      | Some sig \<Rightarrow>
          Inr \<lparr>env_id = envelopeId, env_action = expectedAction, env_rfq = expectedRfqId,
               env_revision = sessionRevision, env_payload = pl, env_issued = issuedAt,
               env_expires = expiresAt, env_signature = sig\<rparr>)"

definition check_times :: "platform \<Rightarrow> millis \<Rightarrow> control_envelope \<Rightarrow> unit res" where
  "check_times P now v =
     (case parse_date P (env_issued v) of None \<Rightarrow> malformed
      | Some issuedMs \<Rightarrow>
          if now - issuedMs > MAX_ISSUED_AGE_MS \<or> now - issuedMs < - MAX_ISSUED_AGE_MS then malformed
          else case parse_date P (env_expires v) of None \<Rightarrow> malformed
           | Some expiresMs \<Rightarrow> if expiresMs \<le> now then malformed else Inr ())"

definition checkEnvelope ::
  "platform \<Rightarrow> millis \<Rightarrow> json \<Rightarrow> string \<Rightarrow> string \<Rightarrow> did \<Rightarrow> tombstones \<Rightarrow> string \<Rightarrow> control_envelope res" where
  "checkEnvelope P now body expectedAction expectedRfqId expectedSignerDid tb signatureErrorCode =
     rbind (parse_envelope body expectedAction expectedRfqId) (\<lambda>v.
     rbind (check_times P now v) (\<lambda>_.
     if isUsed (env_id v) tb then Inl (EngineError 409 ''duplicate_control_envelope'')
     else rbind (preCheckSignatureFormat P (Some (JStr (env_signature v))) (Some (JStr expectedSignerDid))) (\<lambda>_.
     rbind (verifySignature P (envelope_object v) (env_signature v) expectedSignerDid signatureErrorCode) (\<lambda>_.
     Inr v))))"

text \<open>The whole function when nothing runs during the await; \<open>now'\<close> is the clock after it.\<close>

definition validateControlEnvelope ::
  "platform \<Rightarrow> millis \<Rightarrow> millis \<Rightarrow> json \<Rightarrow> string \<Rightarrow> string \<Rightarrow> did \<Rightarrow> string \<Rightarrow> tombstones \<Rightarrow>
   control_envelope res \<times> tombstones" where
  "validateControlEnvelope P now now' body expectedAction expectedRfqId signer errorCode tb =
     (case checkEnvelope P now body expectedAction expectedRfqId signer tb errorCode of
        Inl e \<Rightarrow> (Inl e, tb)
      | Inr v \<Rightarrow> (Inr v, tomb_use now' (env_id v) tb))"

section \<open>Lemmas\<close>

definition envelope_signed :: "platform \<Rightarrow> control_envelope \<Rightarrow> did \<Rightarrow> bool" where
  "envelope_signed P v d \<longleftrightarrow> signed_by P (objectSigningPayload P (envelope_object v)) (env_signature v) d"

lemma parse_envelope_Inr:
  assumes "parse_envelope body a r = Inr v"
  shows "jget body ''envelope_id'' = Some (JStr (env_id v))" "jget body ''issued_at'' = Some (JStr (env_issued v))"
    "env_action v = a" "env_rfq v = r"
  using assms by (auto simp: parse_envelope_def split: if_splits option.splits json.splits)

lemma checkEnvelope_ok:
  assumes "checkEnvelope P now body a r d tb code = Inr v"
  shows "parse_envelope body a r = Inr v" "check_times P now v = Inr ()" "\<not> isUsed (env_id v) tb"
    "envelope_signed P v d"
  using assms by (auto simp: checkEnvelope_def envelope_signed_def verifySignature_ok)

lemma check_times_ok:
  "check_times P now v = Inr () \<Longrightarrow>
   \<exists>t. parse_date P (env_issued v) = Some t \<and> \<bar>now - t\<bar> \<le> MAX_ISSUED_AGE_MS"
  by (auto simp: check_times_def abs_le_iff MAX_ISSUED_AGE_MS_def split: option.splits if_splits)

subsection \<open>Tombstones\<close>

text \<open>\<open>nextExpiry\<close> is a lower bound of every expiry, which is why skipping a sweep is safe.\<close>

definition tombs_ok :: "tombstones \<Rightarrow> bool" where
  "tombs_ok tb \<longleftrightarrow> distinct (map fst (tb_map tb)) \<and>
     (\<forall>i x. map_of (tb_map tb) i = Some x \<longrightarrow> (\<exists>n. tb_next tb = Some n \<and> n \<le> x))"

lemma sweep_scan_kept: "fst (sweep_scan now xs m) = filter (\<lambda>(i, x). now < x) xs"
  by (induction now xs m rule: sweep_scan.induct) (auto simp: Let_def split: prod.splits)

lemma sweep_scan_min:
  "snd (sweep_scan now xs m) = Some n \<Longrightarrow>
     (\<forall>(i, x) \<in> set xs. now < x \<longrightarrow> n \<le> x) \<and> (\<forall>y. m = Some y \<longrightarrow> n \<le> y)"
proof (induction now xs m arbitrary: n rule: sweep_scan.induct)
  case (2 now i expiry rest m)
  show ?case
  proof (cases "now \<ge> expiry")
    case True
    then show ?thesis using 2(1)[OF True, of n] 2(3) by simp
  next
    case False
    then have "snd (sweep_scan now rest (if before expiry m then Some expiry else m)) = Some n"
      using 2(3) by (simp add: case_prod_beta)
    then show ?thesis using 2(2)[OF False, of n] False
      by (auto simp: before_def split: if_splits option.splits)
  qed
qed auto

lemma sweep_scan_none:
  "snd (sweep_scan now xs m) = None \<Longrightarrow> m = None \<and> (\<forall>(i, x) \<in> set xs. x \<le> now)"
  by (induction now xs m rule: sweep_scan.induct)
    (auto simp: Let_def before_def split: prod.splits if_splits option.splits)

lemma sweep_fields:
  "\<not> before now (tb_next tb) \<Longrightarrow> tb_map (sweep now tb) = filter (\<lambda>(i, x). now < x) (tb_map tb) \<and>
     tb_next (sweep now tb) = snd (sweep_scan now (tb_map tb) None)"
  using sweep_scan_kept[of now "tb_map tb" None]
  by (auto simp: sweep_def Let_def split: prod.splits)

lemma sweep_map:
  assumes "tombs_ok tb"
  shows "map_of (tb_map (sweep now tb)) i =
     (case map_of (tb_map tb) i of None \<Rightarrow> None | Some x \<Rightarrow> if now < x then Some x else None)"
proof (cases "before now (tb_next tb)")
  case True
  then show ?thesis using assms
    by (fastforce simp: sweep_def tombs_ok_def before_def split: option.splits)
next
  case False
  have d: "distinct (map fst (tb_map tb))" using assms by (simp add: tombs_ok_def)
  have "map_of (filter (\<lambda>(i, x). now < x) xs) i =
      (case map_of xs i of None \<Rightarrow> None | Some x \<Rightarrow> if now < x then Some x else None)"
    if "distinct (map fst xs)" for xs :: "(string \<times> millis) list"
    using that
  proof (induction xs)
    case (Cons a xs)
    obtain j y where a: "a = (j, y)" by fastforce
    have "map_of xs j = None" using Cons.prems by (simp add: a map_of_eq_None_iff)
    then show ?case using Cons by (cases "i = j") (auto simp: a)
  qed simp
  then show ?thesis using sweep_fields[OF False] d by simp
qed

lemma sweep_tombs_ok:
  assumes ok: "tombs_ok tb" shows "tombs_ok (sweep now tb)"
proof (cases "before now (tb_next tb)")
  case False
  have d: "distinct (map fst (tb_map (sweep now tb)))"
    using ok sweep_fields[OF False] by (simp add: tombs_ok_def distinct_map_filter)
  have "\<exists>n. tb_next (sweep now tb) = Some n \<and> n \<le> x" if "map_of (tb_map (sweep now tb)) i = Some x" for i x
  proof -
    have "map_of (tb_map tb) i = Some x" and lt: "now < x"
      using that sweep_map[OF ok] by (auto split: option.splits if_splits)
    then have mem: "(i, x) \<in> set (tb_map tb)" by (blast dest: map_of_SomeD)
    show ?thesis
    proof (cases "snd (sweep_scan now (tb_map tb) None)")
      case None
      then show ?thesis using sweep_scan_none[OF None] mem lt by fastforce
    next
      case (Some n)
      then show ?thesis using sweep_scan_min[OF Some] mem lt sweep_fields[OF False] by fastforce
    qed
  qed
  with d show ?thesis by (simp add: tombs_ok_def)
qed (use ok in \<open>simp add: sweep_def\<close>)

lemma use_tombs_ok: "tombs_ok tb \<Longrightarrow> tombs_ok (tomb_use now i tb)"
  by (fastforce simp: tombs_ok_def tomb_use_def Let_def before_def distinct_update update_conv'
      split: if_splits option.splits)

lemma isUsed_use [simp]: "isUsed j (tomb_use now i tb) \<longleftrightarrow> j = i \<or> isUsed j tb"
  by (simp add: isUsed_def tomb_use_def Let_def update_conv')

text \<open>Runs of the tombstone store: what other requests and the enforcer do to it, with the clock.\<close>

datatype tomb_op = OpUse millis string | OpSweep millis

fun tomb_time :: "tomb_op \<Rightarrow> millis" where
  "tomb_time (OpUse t i) = t"
| "tomb_time (OpSweep t) = t"

fun tomb_exec :: "tomb_op \<Rightarrow> tombstones \<Rightarrow> tombstones" where
  "tomb_exec (OpUse t i) tb = tomb_use t i tb"
| "tomb_exec (OpSweep t) tb = sweep t tb"

definition tomb_run :: "tomb_op list \<Rightarrow> tombstones \<Rightarrow> tombstones" where
  "tomb_run ops tb = fold tomb_exec ops tb"

lemma tomb_exec_ok: "tombs_ok tb \<Longrightarrow> tombs_ok (tomb_exec x tb)"
  by (cases x) (simp_all add: use_tombs_ok sweep_tombs_ok)

lemma tomb_run_ok: "tombs_ok tb \<Longrightarrow> tombs_ok (tomb_run ops tb)"
  unfolding tomb_run_def by (induction ops arbitrary: tb) (simp_all add: tomb_exec_ok)

lemma tomb_exec_keeps:
  assumes "tombs_ok tb" "map_of (tb_map tb) i = Some x" "tomb_time p < x" "t0 \<le> tomb_time p" "t0 + RETENTION_MS \<le> x"
  shows "\<exists>y. map_of (tb_map (tomb_exec p tb)) i = Some y \<and> t0 + RETENTION_MS \<le> y"
  using assms by (cases p) (auto simp: tomb_use_def Let_def update_conv' sweep_map)

lemma tomb_run_keeps:
  assumes "tombs_ok tb" "map_of (tb_map tb) i = Some x" "t0 + RETENTION_MS \<le> x"
    "\<forall>p \<in> set ops. t0 \<le> tomb_time p \<and> tomb_time p < t0 + RETENTION_MS"
  shows "isUsed i (tomb_run ops tb)"
  using assms unfolding tomb_run_def
proof (induction ops arbitrary: tb x)
  case Nil
  then show ?case by (simp add: isUsed_def)
next
  case (Cons p ops)
  then obtain y where "map_of (tb_map (tomb_exec p tb)) i = Some y" "t0 + RETENTION_MS \<le> y"
    using tomb_exec_keeps[of tb i x p t0] by auto
  then show ?case using Cons.IH[of "tomb_exec p tb" y] Cons.prems tomb_exec_ok by simp
qed

text \<open>An accepted envelope is refused when it comes back, for as long as its issue time lets it.\<close>

lemma used_envelope_refused:
  assumes "tombs_ok tb" and "checkEnvelope P t body a r d tb code = Inr v"
    and "t \<le> t0" and "t0 \<le> t'" and "\<forall>p \<in> set ops. t0 \<le> tomb_time p \<and> tomb_time p \<le> t'"
  shows "\<exists>e. checkEnvelope P t' body a' r' d' (tomb_run ops (tomb_use t0 (env_id v) tb)) code' = Inl e"
proof (rule ccontr)
  assume "\<not> ?thesis"
  then obtain v' where ok': "checkEnvelope P t' body a' r' d' (tomb_run ops (tomb_use t0 (env_id v) tb)) code' = Inr v'"
    by (metis sum.exhaust_sel)
  note c1 = checkEnvelope_ok[OF assms(2)] and c2 = checkEnvelope_ok[OF ok']
  have ids: "env_id v' = env_id v" "env_issued v' = env_issued v"
    using parse_envelope_Inr[OF c1(1)] parse_envelope_Inr[OF c2(1)] by simp_all
  have "t' - t \<le> 2 * MAX_ISSUED_AGE_MS"
    using check_times_ok[OF c1(2)] check_times_ok[OF c2(2)] ids by auto
  then have "\<forall>p \<in> set ops. t0 \<le> tomb_time p \<and> tomb_time p < t0 + RETENTION_MS"
    using assms(3-5) by (auto simp: MAX_ISSUED_AGE_MS_def RETENTION_MS_def)
  moreover have "map_of (tb_map (tomb_use t0 (env_id v) tb)) (env_id v) = Some (t0 + RETENTION_MS)"
    by (simp add: tomb_use_def Let_def update_conv')
  ultimately have "isUsed (env_id v) (tomb_run ops (tomb_use t0 (env_id v) tb))"
    using tomb_run_keeps use_tombs_ok[OF assms(1)] by blast
  then show False using c2(3) ids by simp
qed

section \<open>Properties\<close>

text \<open>
  The sweep is exact and its fast path is safe: after \<open>sweep\<close> at time \<open>now\<close>, whether or not
  the scan was skipped, precisely the tombstones that have not expired remain.
\<close>

theorem sweep_exact:
  assumes "tombs_ok tb"
  shows "tombs_ok (sweep now tb) \<and>
         map_of (tb_map (sweep now tb)) i =
           (case map_of (tb_map tb) i of None \<Rightarrow> None | Some x \<Rightarrow> if now < x then Some x else None)"
  using sweep_map[OF assms] sweep_tombs_ok[OF assms] by simp

theorem sweep_exact_witness:
  "map_of (tb_map (sweep 3600005 (tomb_use 10 ''b'' (tomb_use 0 ''a'' no_tombstones)))) ''a'' = None \<and>
   map_of (tb_map (sweep 3600005 (tomb_use 10 ''b'' (tomb_use 0 ''a'' no_tombstones)))) ''b'' = Some 3600010"
proof -
  have "tombs_ok (tomb_use 10 ''b'' (tomb_use 0 ''a'' no_tombstones))"
    by (intro use_tombs_ok) (simp add: tombs_ok_def no_tombstones_def)
  from sweep_exact[OF this, of 3600005] show ?thesis
    by (simp add: tomb_use_def no_tombstones_def RETENTION_MS_def Let_def before_def)
qed

end
