(* ===== verification/Commitment.thy ===== *)
theory Commitment
  imports Negotiation ControlEnvelope
begin

text \<open>
  The routes that commit a negotiation: \<^verbatim>\<open>util/quote-builder.ts\<close>, \<^verbatim>\<open>routes/accept.ts\<close>,
  \<^verbatim>\<open>routes/quote-sign.ts\<close>, \<^verbatim>\<open>routes/cosign.ts\<close> and \<^verbatim>\<open>routes/decline.ts\<close>, in the parts of the
  theory \<open>Negotiation\<close>. An accept or a decline has one more part: between the signature check of
  its envelope and the lock it sets the tombstone. The settlement window is configured in
  milliseconds.

  The reducer stores a quote or a spec only when it is an object; the routes only ever store
  plain objects, for which the definitions below are written.
\<close>

section \<open>Building the quote\<close>

definition DEFAULT_SETTLEMENT_WINDOW_MS :: int where "DEFAULT_SETTLEMENT_WINDOW_MS = 300000"
definition MIN_SETTLEMENT_WINDOW_MS :: int where "MIN_SETTLEMENT_WINDOW_MS = 60000"
definition MAX_SETTLEMENT_WINDOW_MS :: int where "MAX_SETTLEMENT_WINDOW_MS = 600000"

definition settlement_window :: "int option \<Rightarrow> int" where
  "settlement_window w =
     max MIN_SETTLEMENT_WINDOW_MS
       (min MAX_SETTLEMENT_WINDOW_MS (case w of None \<Rightarrow> DEFAULT_SETTLEMENT_WINDOW_MS | Some x \<Rightarrow> x))"

definition spec_hash_of :: "platform \<Rightarrow> session_rfq \<Rightarrow> string option" where
  "spec_hash_of P r = map_option (computeSpecHash P) (as_object (spec r))"

definition buildQuoteFromSession ::
  "platform \<Rightarrow> millis \<Rightarrow> string \<Rightarrow> bytes \<Rightarrow> derived_session \<Rightarrow> string \<Rightarrow> int option \<Rightarrow> (string \<times> json) list res" where
  "buildQuoteFromSession P now quote_id random32 session offerId window =
     (case find (\<lambda>o'. o_offer_id o' = offerId) (offers session) of
        None \<Rightarrow> Inl (JsError ''buildQuoteFromSession: offer_id not found in session'')
      | Some offer \<Rightarrow>
          rbind (to_iso_string (map_option (\<lambda>d. min d (now + settlement_window window))
                   (parse_date P (deadline (rfq session))))) (\<lambda>expiresAt.
          rbind (buildUnsignedQuote P now quote_id random32
                   \<lparr>bq_rfq_id = rfq_id (rfq session), bq_buyer = buyer (rfq session), bq_seller = o_seller offer,
                    bq_service_type = service_type (rfq session), bq_final_price = o_price offer,
                    bq_currency = o_currency offer, bq_payment_endpoint = o_payment_endpoint offer,
                    bq_expires_seconds = 0, bq_memo_policy = None, bq_spec = None,
                    bq_spec_hash = spec_hash_of P (rfq session)\<rparr>) (\<lambda>quote.
          Inr (spread_set quote ''expires_at'' (JStr expiresAt)))))"

section \<open>POST /rfqs/:id/accept\<close>

definition MAX_ACCEPTS_PER_SESSION :: nat where "MAX_ACCEPTS_PER_SESSION = 6"
definition MAX_ACCEPTS_PER_SELLER :: nat where "MAX_ACCEPTS_PER_SELLER = 2"

definition accept_check ::
  "platform \<Rightarrow> millis \<Rightarrow> string \<Rightarrow> json \<Rightarrow> tombstones \<Rightarrow> manager \<Rightarrow> control_envelope res \<times> manager" where
  "accept_check P now rfqId body tb m =
     (case getSession now rfqId m of
        (Inl e, m') \<Rightarrow> (Inl e, m')
      | (Inr None, m') \<Rightarrow> (Inl (EngineError 404 ''session_not_found''), m')
      | (Inr (Some s), m') \<Rightarrow>
          (checkEnvelope P now body ''accept'' rfqId (buyer (rfq s)) tb ''invalid_buyer_signature'', m'))"

text \<open>After the await: the tombstone, then the fields of the signed payload.\<close>

definition accept_use :: "millis \<Rightarrow> control_envelope \<Rightarrow> tombstones \<Rightarrow> (did \<times> string) res \<times> tombstones" where
  "accept_use now v tb =
     (case as_string (map_of (env_payload v) ''seller'') of
        None \<Rightarrow> Inl (EngineError 400 ''malformed_payload'')
      | Some sellerDid \<Rightarrow>
          (case as_string (map_of (env_payload v) ''offer_id'') of
             None \<Rightarrow> Inl (EngineError 400 ''malformed_payload'')
           | Some offerId \<Rightarrow> Inr (sellerDid, offerId)),
      tomb_use now (env_id v) tb)"

definition accept_guard ::
  "platform \<Rightarrow> millis \<Rightarrow> control_envelope \<Rightarrow> did \<Rightarrow> string \<Rightarrow> derived_session \<Rightarrow> unit res" where
  "accept_guard P now v sellerDid offerId s =
     (if time_passed P now (deadline (rfq s)) then Inl (EngineError 409 ''session_expired'')
      else rbind (assertState (state s) [NEGOTIATING]) (\<lambda>_.
      if filter (\<lambda>o'. o_seller o' = sellerDid) (offers s) = [] then Inl (EngineError 404 ''seller_not_found'')
      else case find (\<lambda>o'. o_offer_id o' = offerId \<and> o_seller o' = sellerDid) (offers s) of
        None \<Rightarrow> Inl (EngineError 404 ''offer_not_found'')
      | Some offer \<Rightarrow>
          if env_revision v \<noteq> lastEventId s then Inl (EngineError 409 ''stale_revision'')
          else if time_passed P now (o_valid_until offer) then Inl (EngineError 422 ''invalid_expiry'')
          else if totalAcceptAttempts s \<ge> MAX_ACCEPTS_PER_SESSION then Inl (EngineError 422 ''accept_limit_exceeded'')
          else if count_get (acceptAttemptsBySeller s) sellerDid \<ge> MAX_ACCEPTS_PER_SELLER
            then Inl (EngineError 422 ''accept_limit_exceeded'')
          else Inr ()))"

definition quote_text :: "(string \<times> json) list \<Rightarrow> string \<Rightarrow> string" where
  "quote_text q k = (case as_string (map_of q k) of None \<Rightarrow> [] | Some s \<Rightarrow> s)"

definition winner_quote :: "(string \<times> json) list \<Rightarrow> (string \<times> json) list" where
  "winner_quote q =
     pick (JObj q) [''quote_id'', ''rfq_id'', ''buyer'', ''seller'', ''service_type'', ''final_price'', ''currency'',
       ''payment_endpoint'', ''expires_at'', ''nonce'', ''memo_policy''] @
     [(''buyer_signature'', JStr []), (''seller_signature'', JStr [])] @ pick (JObj q) [''spec_hash'']"

definition accept_quote ::
  "platform \<Rightarrow> mint_table \<Rightarrow> int option \<Rightarrow> millis \<Rightarrow> string \<Rightarrow> bytes \<Rightarrow> string \<Rightarrow> derived_session \<Rightarrow>
   (string \<times> json) list res" where
  "accept_quote P mints window now quote_id random32 offerId s =
     rbind (buildQuoteFromSession P now quote_id random32 s offerId window) (\<lambda>q.
     rbind (mintFor (currency (rfq s))) (\<lambda>mint.
     rbind (normalizeAmount mints (quote_text q ''final_price'') mint) (\<lambda>n.
     if n = 0 then Inl (EngineError 422 ''invalid_amount'') else Inr q)))"

definition accept_locked ::
  "platform \<Rightarrow> mint_table \<Rightarrow> int option \<Rightarrow> millis \<Rightarrow> event_id \<Rightarrow> string \<Rightarrow> bytes \<Rightarrow> string \<Rightarrow> control_envelope \<Rightarrow> did \<Rightarrow>
   string \<Rightarrow> derived_session option \<Rightarrow> manager \<Rightarrow> (string \<times> json) list res \<times> manager" where
  "accept_locked P mints window now uuid quote_id random32 rfqId v sellerDid offerId so m =
     (case so of
        None \<Rightarrow> (Inl (EngineError 404 ''session_not_found''), m)
      | Some s \<Rightarrow>
          (case rbind (accept_guard P now v sellerDid offerId s)
                  (\<lambda>_. accept_quote P mints window now quote_id random32 offerId s) of
             Inl e \<Rightarrow> (Inl e, m)
           | Inr q \<Rightarrow>
               (case appendEvent now rfqId
                       (mk_event now uuid rfqId WINNER_SELECTED (buyer (rfq s))
                          [(''seller'', JStr sellerDid), (''offer_id'', JStr offerId),
                           (''quote'', JObj (winner_quote q))]) m of
                  (Inl e, m') \<Rightarrow> (Inl e, m')
                | (Inr _, m') \<Rightarrow> (Inr q, m'))))"

definition postAccept ::
  "platform \<Rightarrow> mint_table \<Rightarrow> int option \<Rightarrow> bool \<Rightarrow> millis \<Rightarrow> event_id \<Rightarrow> string \<Rightarrow> bytes \<Rightarrow> string \<Rightarrow> control_envelope \<Rightarrow> did \<Rightarrow>
   string \<Rightarrow> manager \<Rightarrow> json res \<times> manager" where
  "postAccept P mints window granted now uuid quote_id random32 rfqId v sellerDid offerId m =
     (case withLock granted now rfqId (accept_locked P mints window now uuid quote_id random32 rfqId v sellerDid offerId) m of
        (Inl e, m') \<Rightarrow> (Inl e, m')
      | (Inr q, m') \<Rightarrow> (Inr (JObj (winner_quote q)), m'))"

section \<open>PUT /rfqs/:id/quote/sign\<close>

definition quote_fields_of :: "json \<Rightarrow> (string \<times> json) list" where
  "quote_fields_of q = (case as_object (Some q) of None \<Rightarrow> [] | Some kvs \<Rightarrow> kvs)"

definition json_or_null :: "string option \<Rightarrow> json" where
  "json_or_null v = (case v of None \<Rightarrow> JNull | Some s \<Rightarrow> JStr s)"

definition quote_sign_pre ::
  "platform \<Rightarrow> millis \<Rightarrow> string \<Rightarrow> json \<Rightarrow> manager \<Rightarrow> string res \<times> manager" where
  "quote_sign_pre P now rfqId body m =
     (if body = JNull then (Inl TypeError, m)
      else case as_string (jget body ''buyer_signature'') of
        None \<Rightarrow> (Inl (EngineError 400 ''malformed_payload''), m)
      | Some sig \<Rightarrow>
          (case getSession now rfqId m of
             (Inl e, m') \<Rightarrow> (Inl e, m')
           | (Inr None, m') \<Rightarrow> (Inl (EngineError 404 ''session_not_found''), m')
           | (Inr (Some s), m') \<Rightarrow>
               (rbind (preCheckSignatureFormat P (Some (JStr sig)) (Some (JStr (buyer (rfq s))))) (\<lambda>_. Inr sig), m')))"

definition quote_expired :: "platform \<Rightarrow> millis \<Rightarrow> json option \<Rightarrow> bool" where
  "quote_expired P now q =
     (case q of None \<Rightarrow> False
      | Some x \<Rightarrow> (case as_string (jget x ''expires_at'') of None \<Rightarrow> False | Some t \<Rightarrow> time_passed P now t))"

definition quote_sign_guard :: "platform \<Rightarrow> millis \<Rightarrow> string \<Rightarrow> derived_session \<Rightarrow> unit res" where
  "quote_sign_guard P now sig s =
     (if time_passed P now (deadline (rfq s)) then Inl (EngineError 409 ''session_expired'')
      else if quote_expired P now (unsignedQuote s) then Inl (EngineError 422 ''quote_expired'')
      else rbind (assertState (state s) [COMMIT_PENDING]) (\<lambda>_.
      case unsignedQuote s of
        None \<Rightarrow> Inl (EngineError 404 ''quote_not_found'')
      | Some q \<Rightarrow>
          if buyerSignature s \<noteq> None then Inl (EngineError 409 ''already_signed'')
          else verifyQuoteSignature P (quote_fields_of q) sig (buyer (rfq s)) ''invalid_buyer_signature''))"

text \<open>
  The callbacks that take a signature read the clock twice: deadline and quote expiry are checked at
  \<open>now\<close>, then the callback awaits the check of the signature, and the event is stamped with a new
  reading \<open>now'\<close>. The lock is held over the await, so the session is the same on both sides of it.
\<close>

definition quote_sign_locked ::
  "platform \<Rightarrow> millis \<Rightarrow> millis \<Rightarrow> event_id \<Rightarrow> string \<Rightarrow> string \<Rightarrow> derived_session option \<Rightarrow> manager \<Rightarrow>
   derived_session res \<times> manager" where
  "quote_sign_locked P now now' uuid rfqId sig so m =
     (case so of
        None \<Rightarrow> (Inl (EngineError 404 ''session_not_found''), m)
      | Some s \<Rightarrow>
          (case quote_sign_guard P now sig s of
             Inl e \<Rightarrow> (Inl e, m)
           | Inr _ \<Rightarrow>
               appendEvent now' rfqId
                 (mk_event now' uuid rfqId QUOTE_SIGNED (buyer (rfq s))
                    [(''seller'', json_or_null (selectedSeller s)), (''buyer_signature'', JStr sig)]) m))"

definition signed_quote :: "derived_session \<Rightarrow> string option \<Rightarrow> json" where
  "signed_quote s sellerSig =
     JObj (spread_set (spread_set (case unsignedQuote s of None \<Rightarrow> [] | Some q \<Rightarrow> quote_fields_of q)
             ''buyer_signature'' (JStr (case buyerSignature s of None \<Rightarrow> [] | Some x \<Rightarrow> x)))
             ''seller_signature'' (JStr (case sellerSig of None \<Rightarrow> [] | Some x \<Rightarrow> x)))"

definition putQuoteSign ::
  "platform \<Rightarrow> bool \<Rightarrow> millis \<Rightarrow> millis \<Rightarrow> event_id \<Rightarrow> string \<Rightarrow> string \<Rightarrow> manager \<Rightarrow> json res \<times> manager" where
  "putQuoteSign P granted now now' uuid rfqId sig m =
     (case withLock granted now rfqId (quote_sign_locked P now now' uuid rfqId sig) m of
        (Inl e, m') \<Rightarrow> (Inl e, m')
      | (Inr s, m') \<Rightarrow> (Inr (signed_quote s None), m'))"

section \<open>PUT /rfqs/:id/cosign\<close>

definition cosign_pre ::
  "platform \<Rightarrow> millis \<Rightarrow> string \<Rightarrow> json \<Rightarrow> manager \<Rightarrow> string res \<times> manager" where
  "cosign_pre P now rfqId body m =
     (if body = JNull then (Inl TypeError, m)
      else case as_string (jget body ''seller_signature'') of
        None \<Rightarrow> (Inl (EngineError 400 ''malformed_payload''), m)
      | Some sig \<Rightarrow>
          (case getSession now rfqId m of
             (Inl e, m') \<Rightarrow> (Inl e, m')
           | (Inr None, m') \<Rightarrow> (Inl (EngineError 404 ''session_not_found''), m')
           | (Inr (Some s), m') \<Rightarrow>
               (if selectedSeller s = None \<or> selectedSeller s = Some [] then Inl (EngineError 404 ''session_not_found'')
                else rbind (preCheckSignatureFormat P (Some (JStr sig)) (Some (JStr (the (selectedSeller s))))) (\<lambda>_.
                  Inr sig), m')))"

definition cosign_guard :: "platform \<Rightarrow> millis \<Rightarrow> string \<Rightarrow> derived_session \<Rightarrow> did res" where
  "cosign_guard P now sig s =
     (if time_passed P now (deadline (rfq s)) then Inl (EngineError 409 ''session_expired'')
      else if quote_expired P now (unsignedQuote s) then Inl (EngineError 422 ''quote_expired'')
      else rbind (assertState (state s) [COMMIT_PENDING]) (\<lambda>_.
      case unsignedQuote s of
        None \<Rightarrow> Inl (EngineError 404 ''quote_not_found'')
      | Some q \<Rightarrow>
          if buyerSignature s = None then Inl (EngineError 409 ''buyer_not_signed'')
          else case selectedSeller s of
            None \<Rightarrow> Inl (EngineError 400 ''malformed_payload'')
          | Some d \<Rightarrow>
              rbind (verifyQuoteSignature P (quote_fields_of q) sig d ''invalid_seller_signature'') (\<lambda>_. Inr d)))"

definition cosign_locked ::
  "platform \<Rightarrow> millis \<Rightarrow> millis \<Rightarrow> event_id \<Rightarrow> string \<Rightarrow> string \<Rightarrow> derived_session option \<Rightarrow> manager \<Rightarrow>
   derived_session res \<times> manager" where
  "cosign_locked P now now' uuid rfqId sig so m =
     (case so of
        None \<Rightarrow> (Inl (EngineError 404 ''session_not_found''), m)
      | Some s \<Rightarrow>
          (case cosign_guard P now sig s of
             Inl e \<Rightarrow> (Inl e, m)
           | Inr d \<Rightarrow>
               appendEvent now' rfqId
                 (mk_event now' uuid rfqId QUOTE_COMMITTED d
                    [(''seller'', JStr d), (''seller_signature'', JStr sig)]) m))"

definition putCosign ::
  "platform \<Rightarrow> bool \<Rightarrow> millis \<Rightarrow> millis \<Rightarrow> event_id \<Rightarrow> string \<Rightarrow> string \<Rightarrow> manager \<Rightarrow> json res \<times> manager" where
  "putCosign P granted now now' uuid rfqId sig m =
     (case withLock granted now rfqId (cosign_locked P now now' uuid rfqId sig) m of
        (Inl e, m') \<Rightarrow> (Inl e, m')
      | (Inr s, m') \<Rightarrow> (Inr (signed_quote s (sellerSignature s)), m'))"

section \<open>PUT /rfqs/:id/decline\<close>

text \<open>The seller selected before the lock is part of the result: the callback compares it.\<close>

definition decline_check ::
  "platform \<Rightarrow> millis \<Rightarrow> string \<Rightarrow> json \<Rightarrow> tombstones \<Rightarrow> manager \<Rightarrow> (control_envelope \<times> did) res \<times> manager" where
  "decline_check P now rfqId body tb m =
     (case getSession now rfqId m of
        (Inl e, m') \<Rightarrow> (Inl e, m')
      | (Inr None, m') \<Rightarrow> (Inl (EngineError 404 ''session_not_found''), m')
      | (Inr (Some s), m') \<Rightarrow>
          (case selectedSeller s of
             None \<Rightarrow> (Inl (EngineError 404 ''session_not_found''), m')
           | Some d \<Rightarrow>
               if d = [] then (Inl (EngineError 404 ''session_not_found''), m')
               else (rbind (checkEnvelope P now body ''decline'' rfqId d tb ''invalid_seller_signature'')
                       (\<lambda>v. Inr (v, d)), m')))"

definition decline_guard :: "platform \<Rightarrow> millis \<Rightarrow> control_envelope \<Rightarrow> did \<Rightarrow> derived_session \<Rightarrow> did res" where
  "decline_guard P now v preSeller s =
     (if time_passed P now (deadline (rfq s)) then Inl (EngineError 409 ''session_expired'')
      else rbind (assertState (state s) [COMMIT_PENDING]) (\<lambda>_.
      case selectedSeller s of
        None \<Rightarrow> Inl (EngineError 409 ''invalid_state_transition'')
      | Some d \<Rightarrow>
          if d = [] then Inl (EngineError 409 ''invalid_state_transition'')
          else if d \<noteq> preSeller then Inl (EngineError 409 ''stale_revision'')
          else if env_revision v \<noteq> lastEventId s then Inl (EngineError 409 ''stale_revision'')
          else Inr d))"

definition decline_locked ::
  "platform \<Rightarrow> millis \<Rightarrow> event_id \<Rightarrow> string \<Rightarrow> control_envelope \<Rightarrow> did \<Rightarrow> derived_session option \<Rightarrow> manager \<Rightarrow>
   derived_session res \<times> manager" where
  "decline_locked P now uuid rfqId v preSeller so m =
     (case so of
        None \<Rightarrow> (Inl (EngineError 404 ''session_not_found''), m)
      | Some s \<Rightarrow>
          (case decline_guard P now v preSeller s of
             Inl e \<Rightarrow> (Inl e, m)
           | Inr d \<Rightarrow> appendEvent now rfqId (mk_event now uuid rfqId COSIGN_DECLINED d [(''seller'', JStr d)]) m))"

definition putDecline ::
  "platform \<Rightarrow> bool \<Rightarrow> millis \<Rightarrow> event_id \<Rightarrow> string \<Rightarrow> control_envelope \<Rightarrow> did \<Rightarrow> manager \<Rightarrow> json res \<times> manager" where
  "putDecline P granted now uuid rfqId v preSeller m =
     (case withLock granted now rfqId (decline_locked P now uuid rfqId v preSeller) m of
        (Inl e, m') \<Rightarrow> (Inl e, m')
      | (Inr s, m') \<Rightarrow> (Inr (JObj [(''rfq_id'', JStr rfqId), (''state'', JStr (state_text (state s)))]), m'))"

end
