(* ===== verification/Settlement.thy ===== *)
theory Settlement
  imports Schemas
begin

text \<open>
  \<^verbatim>\<open>packages/settlement/src/\<close>: verification of a Solana payment against a signed quote
  (\<^verbatim>\<open>execute.ts\<close>), the consumed nonces (\<^verbatim>\<open>nonce.ts\<close>), receipts (\<^verbatim>\<open>receipt.ts\<close>) and errors
  (\<^verbatim>\<open>errors.ts\<close>).

  A quote header is given as the JSON value it decodes to, \<open>None\<close> when decoding or parsing
  throws. A transaction is the JSON value the RPC node returns, with public keys as their base58
  text. The RPC node, the derivation of token accounts, UTF-8 decoding and the corners of
  \<open>BigInt(string)\<close> are parameters.
\<close>

section \<open>Parameters and errors\<close>

record chain =
  ch_tx :: "string \<Rightarrow> json option res"
  ch_ata :: "string \<Rightarrow> pubkey \<Rightarrow> string res"
  ch_utf8_decode :: "bytes \<Rightarrow> string"
  ch_bigint_other :: "string \<Rightarrow> int option"
  ch_key58 :: "pubkey \<Rightarrow> string"

text \<open>
  \<open>ch_ata mint owner\<close> is \<open>getAssociatedTokenAddressSync(new PublicKey(mint), owner).toBase58()\<close>,
  either of which may throw; \<open>ch_key58\<close> is \<open>toBase58()\<close>.
\<close>

definition malformedQuoteHeader :: js_error where "malformedQuoteHeader = SettlementError ''malformed_quote_header'' 400"
definition invalidBuyerSignature :: js_error where "invalidBuyerSignature = SettlementError ''invalid_buyer_signature'' 401"
definition invalidSellerSignature :: js_error where "invalidSellerSignature = SettlementError ''invalid_seller_signature'' 401"
definition invalidPaymentSignature :: js_error where "invalidPaymentSignature = SettlementError ''invalid_payment_signature'' 400"
definition transactionNotFound :: js_error where "transactionNotFound = SettlementError ''transaction_not_found'' 404"
definition transactionFailed :: js_error where "transactionFailed = SettlementError ''transaction_failed'' 422"
definition transactionNotConfirmed :: js_error where "transactionNotConfirmed = SettlementError ''transaction_not_confirmed'' 422"
definition transferInstructionMissing :: js_error where "transferInstructionMissing = SettlementError ''transfer_instruction_missing'' 422"
definition transferDestinationMismatch :: js_error where "transferDestinationMismatch = SettlementError ''transfer_destination_mismatch'' 422"
definition transferMintMismatch :: js_error where "transferMintMismatch = SettlementError ''transfer_mint_mismatch'' 422"
definition priceMismatch :: js_error where "priceMismatch = SettlementError ''price_mismatch'' 422"
definition memoMissing :: js_error where "memoMissing = SettlementError ''memo_missing'' 422"
definition memoMismatch :: js_error where "memoMismatch = SettlementError ''memo_mismatch'' 422"
definition invalidNonceFormat :: js_error where "invalidNonceFormat = SettlementError ''invalid_nonce_format'' 422"
definition nonceReplayed :: js_error where "nonceReplayed = SettlementError ''nonce_replayed'' 409"
definition expiredQuote :: js_error where "expiredQuote = SettlementError ''expired_quote'' 422"
definition executionFailed :: js_error where "executionFailed = SettlementError ''execution_failed'' 500"

section \<open>Reading a transaction\<close>

definition TOKEN_PROGRAM_ID :: string where "TOKEN_PROGRAM_ID = ''TokenkegQfeZyiNwAJbNbGKPFXCWuBvf9Ss623VQ5DA''"
definition MEMO_PROGRAM_V2 :: string where "MEMO_PROGRAM_V2 = ''MemoSq4gqABAXKb96qnH8TysNcWxMyWCqXgDLGmfcHr''"
definition MEMO_PROGRAM_V1 :: string where "MEMO_PROGRAM_V1 = ''Memo1UhkJBfCR1EPHNqwLDxhZMM2Yfc3G2YfZeVMQwE1''"

text \<open>\<open>x?.k\<close>, and the elements of \<open>x\<close> when it is an array.\<close>

definition oget :: "json option \<Rightarrow> string \<Rightarrow> json option" where
  "oget v k = (case v of None \<Rightarrow> None | Some x \<Rightarrow> jget x k)"

definition elements :: "json option \<Rightarrow> json list" where
  "elements v = (case v of Some (JArr xs) \<Rightarrow> xs | _ \<Rightarrow> [])"

text \<open>\<open>a ?? b\<close>.\<close>

definition coalesce :: "json option \<Rightarrow> json option \<Rightarrow> json option" where
  "coalesce a b = (if is_nullish a then b else a)"

definition tx_message :: "json \<Rightarrow> json option" where
  "tx_message tx = oget (jget tx ''transaction'') ''message''"

definition collectInstructions :: "json \<Rightarrow> json list" where
  "collectInstructions tx =
     elements (oget (tx_message tx) ''instructions'') @
     concat (map (\<lambda>inner. elements (jget inner ''instructions'')) (elements (oget (jget tx ''meta'') ''innerInstructions'')))"

text \<open>\<open>ix.programId?.toString?.() ?? ix.program ?? ""\<close>.\<close>

definition program_id :: "platform \<Rightarrow> json \<Rightarrow> json option" where
  "program_id P ix =
     (case jget ix ''programId'' of
        Some v \<Rightarrow> if v = JNull then coalesce (jget ix ''program'') (Some (JStr [])) else Some (JStr (to_str (num_repr P) v))
      | None \<Rightarrow> coalesce (jget ix ''program'') (Some (JStr [])))"

text \<open>\<open>xs[i]\<close>.\<close>

definition arr_get :: "json option \<Rightarrow> json option \<Rightarrow> json option" where
  "arr_get xs i =
     (case as_number i of
        None \<Rightarrow> None
      | Some q \<Rightarrow>
          if rat_is_int q \<and> 0 \<le> q \<and> nat \<lfloor>q\<rfloor> < length (elements xs) then Some (elements xs ! nat \<lfloor>q\<rfloor>) else None)"

definition resolveAccountKey :: "platform \<Rightarrow> json \<Rightarrow> json option \<Rightarrow> string" where
  "resolveAccountKey P message index =
     (let key = arr_get (jget message ''accountKeys'') index in
      if is_nullish key then string_of P key
      else if is_nullish (oget key ''pubkey'') then string_of P key
      else string_of P (oget key ''pubkey''))"

unbundle bit_operations_syntax

definition readU64LE :: "bytes \<Rightarrow> nat \<Rightarrow> nat" where
  "readU64LE data offset =
     foldl (\<lambda>value i. value OR push_bit (i * 8) (unat (data ! (offset + i)))) 0 [0..<8]"

record transfer_info =
  ti_destination :: "json option"
  ti_amount :: "json option"
  ti_mint :: "json option"

definition parsed_transfer :: "platform \<Rightarrow> json \<Rightarrow> transfer_info option" where
  "parsed_transfer P ix =
     (if falsy (jget ix ''parsed'') then None
      else if program_id P ix = Some (JStr TOKEN_PROGRAM_ID) \<or> jget ix ''program'' = Some (JStr ''spl-token'') then
        (let parsed = jget ix ''parsed''; info = oget parsed ''info'' in
         if oget parsed ''type'' = Some (JStr ''transferChecked'') \<and> \<not> falsy info then
           Some \<lparr>ti_destination = oget info ''destination'',
                 ti_amount = coalesce (oget (oget info ''tokenAmount'') ''amount'')
                               (Some (JStr (string_of P (oget info ''amount'')))),
                 ti_mint = coalesce (oget info ''mint'') (Some JNull)\<rparr>
         else if oget parsed ''type'' = Some (JStr ''transfer'') \<and> \<not> falsy info then
           Some \<lparr>ti_destination = oget info ''destination'',
                 ti_amount = Some (JStr (string_of P (oget info ''amount''))), ti_mint = Some JNull\<rparr>
         else None)
      else None)"

text \<open>One raw instruction of the fallback scan; \<open>Inr None\<close> goes on with the next.\<close>

definition account_at :: "platform \<Rightarrow> json \<Rightarrow> json \<Rightarrow> nat \<Rightarrow> string res" where
  "account_at P message ix i =
     (if is_nullish (jget ix ''accounts'') then Inl TypeError
      else Inr (resolveAccountKey P message (arr_get (jget ix ''accounts'') (Some (JNum (of_nat i))))))"

definition raw_transfer :: "platform \<Rightarrow> json \<Rightarrow> json \<Rightarrow> transfer_info option res" where
  "raw_transfer P message ix =
     (if arr_get (jget message ''accountKeys'') (jget ix ''programIdIndex'') = Some (JStr TOKEN_PROGRAM_ID)
         \<and> \<not> falsy (jget ix ''data'') then
        (case as_string (jget ix ''data'') of
           None \<Rightarrow> Inl TypeError
         | Some s \<Rightarrow>
             (case bs58_decode P s of
                None \<Rightarrow> Inl (JsError ''Non-base58 character'')
              | Some data \<Rightarrow>
                  if data \<noteq> [] \<and> hd data = 3 \<and> length data \<ge> 9 then
                    rbind (account_at P message ix 0) (\<lambda>_. rbind (account_at P message ix 1) (\<lambda>dest.
                    Inr (Some \<lparr>ti_destination = Some (JStr dest),
                               ti_amount = Some (JStr (show_nat (readU64LE data 1))), ti_mint = Some JNull\<rparr>)))
                  else if data \<noteq> [] \<and> hd data = 12 \<and> length data \<ge> 10 then
                    rbind (account_at P message ix 0) (\<lambda>_. rbind (account_at P message ix 2) (\<lambda>dest.
                    rbind (account_at P message ix 1) (\<lambda>mint.
                    Inr (Some \<lparr>ti_destination = Some (JStr dest),
                               ti_amount = Some (JStr (show_nat (readU64LE data 1))), ti_mint = Some (JStr mint)\<rparr>))))
                  else Inr None))
      else Inr None)"

fun first_found :: "('a \<Rightarrow> 'b option res) \<Rightarrow> 'a list \<Rightarrow> 'b option res" where
  "first_found f [] = Inr None"
| "first_found f (x # xs) = rbind (f x) (\<lambda>r. case r of None \<Rightarrow> first_found f xs | Some y \<Rightarrow> Inr (Some y))"

definition extractSplTransfer :: "platform \<Rightarrow> json \<Rightarrow> transfer_info option res" where
  "extractSplTransfer P tx =
     rbind (first_found (\<lambda>ix. Inr (parsed_transfer P ix)) (collectInstructions tx)) (\<lambda>r.
     case r of
       Some t \<Rightarrow> Inr (Some t)
     | None \<Rightarrow>
         (case tx_message tx of
            None \<Rightarrow> Inr None
          | Some message \<Rightarrow>
              if falsy (jget message ''accountKeys'') \<or> falsy (jget message ''instructions'') then Inr None
              else first_found (raw_transfer P message) (elements (jget message ''instructions''))))"

definition memo_instruction :: "platform \<Rightarrow> chain \<Rightarrow> json \<Rightarrow> string option" where
  "memo_instruction P ch ix =
     (if program_id P ix \<in> {Some (JStr MEMO_PROGRAM_V2), Some (JStr MEMO_PROGRAM_V1)}
         \<or> jget ix ''program'' = Some (JStr ''spl-memo'') then
        (case as_string (jget ix ''parsed'') of
           Some (c # s) \<Rightarrow> Some (c # s)
         | _ \<Rightarrow>
             (case as_string (jget ix ''data'') of
                Some (c # s) \<Rightarrow>
                  (case bs58_decode P (c # s) of None \<Rightarrow> Some (c # s) | Some bs \<Rightarrow> Some (ch_utf8_decode ch bs))
              | _ \<Rightarrow> None))
      else None)"

text \<open>\<^verbatim>\<open>/^Program log: Memo \(len \d+\): "(.*)"$/\<close>: the captured text.\<close>

definition memo_log_match :: "string \<Rightarrow> string option" where
  "memo_log_match l =
     (if \<not> starts_with ''Program log: Memo (len '' l then None
      else
        let r = drop 23 l; ds = takeWhile is_digit r; q = dropWhile is_digit r
        in if ds \<noteq> [] \<and> starts_with (''): '' @ [CHR 0x22]) q \<and> length q \<ge> 5 \<and> last q = CHR 0x22
              \<and> list_all (\<lambda>c. c \<noteq> CHR 0x0A \<and> c \<noteq> CHR 0x0D) (butlast (drop 4 q))
           then Some (butlast (drop 4 q)) else None)"

definition memo_log :: "json \<Rightarrow> string option" where
  "memo_log l =
     (case l of
        JStr s \<Rightarrow>
          (case memo_log_match s of
             Some t \<Rightarrow> Some t
           | None \<Rightarrow>
               if starts_with ''Program log: '' s \<and> str_includes s ''Ghost Bazaar:'' then Some (drop 13 s) else None)
      | _ \<Rightarrow> None)"

fun first_some :: "('a \<Rightarrow> 'b option) \<Rightarrow> 'a list \<Rightarrow> 'b option" where
  "first_some f [] = None"
| "first_some f (x # xs) = (case f x of None \<Rightarrow> first_some f xs | Some y \<Rightarrow> Some y)"

definition extractMemo :: "platform \<Rightarrow> chain \<Rightarrow> json \<Rightarrow> string option" where
  "extractMemo P ch tx =
     (case first_some (memo_instruction P ch) (collectInstructions tx) of
        Some t \<Rightarrow> Some t
      | None \<Rightarrow> first_some memo_log (elements (oget (jget tx ''meta'') ''logMessages'')))"

section \<open>Verification\<close>

record settlement_request =
  sr_quote :: "json option"
  sr_payment :: string
  sr_usdcMint :: string
  sr_cluster :: "string option"

text \<open>\<open>BigInt(x)\<close>.\<close>

definition to_bigint :: "chain \<Rightarrow> json option \<Rightarrow> int res" where
  "to_bigint ch v =
     (case v of
        Some (JStr s) \<Rightarrow>
          if s \<noteq> [] \<and> list_all is_digit s then Inr (int (nat_of_digits s))
          else (case ch_bigint_other ch s of None \<Rightarrow> Inl (JsError ''SyntaxError'') | Some i \<Rightarrow> Inr i)
      | Some (JNum q) \<Rightarrow> if rat_is_int q then Inr \<lfloor>q\<rfloor> else Inl RangeError
      | Some (JBool b) \<Rightarrow> Inr (if b then 1 else 0)
      | _ \<Rightarrow> Inl TypeError)"

definition decode_quote :: "json option \<Rightarrow> json res" where
  "decode_quote q =
     (case q of
        None \<Rightarrow> Inl malformedQuoteHeader
      | Some x \<Rightarrow>
          if \<not> is_object (Some x) \<or> falsy (jget x ''quote_id'') then Inl malformedQuoteHeader else Inr x)"

definition decode_payment :: "platform \<Rightarrow> string \<Rightarrow> string res" where
  "decode_payment P sig =
     (case bs58_decode P sig of
        None \<Rightarrow> Inl invalidPaymentSignature
      | Some b \<Rightarrow> if length b \<noteq> 64 then Inl invalidPaymentSignature else Inr sig)"

definition fetch_tx :: "chain \<Rightarrow> string \<Rightarrow> json res" where
  "fetch_tx ch sig =
     rbind (ch_tx ch sig) (\<lambda>r.
     case r of
       None \<Rightarrow> Inl transactionNotFound
     | Some tx \<Rightarrow>
         if \<not> falsy (oget (jget tx ''meta'') ''err'') then Inl transactionFailed
         else if falsy (jget tx ''slot'') then Inl transactionNotConfirmed
         else Inr tx)"

text \<open>Steps 7 to 10: a transfer of exactly the price to the seller's token account.\<close>

definition check_transfer :: "platform \<Rightarrow> mint_table \<Rightarrow> chain \<Rightarrow> string \<Rightarrow> json \<Rightarrow> json \<Rightarrow> unit res" where
  "check_transfer P mints ch usdcMint quote tx =
     (case didFieldToPublicKey P (jget quote ''seller'') of
        None \<Rightarrow> Inl malformedQuoteHeader
      | Some sellerPubkey \<Rightarrow>
          rbind (normalizeField P mints (jget quote ''final_price'') usdcMint) (\<lambda>expectedAmount.
          rbind (ch_ata ch usdcMint sellerPubkey) (\<lambda>expectedDestination.
          rbind (extractSplTransfer P tx) (\<lambda>transferInfo.
          case transferInfo of
            None \<Rightarrow> Inl transferInstructionMissing
          | Some t \<Rightarrow>
              if ti_destination t \<noteq> Some (JStr expectedDestination) then Inl transferDestinationMismatch
              else if ti_mint t \<noteq> Some (JStr usdcMint) then Inl transferMintMismatch
              else rbind (to_bigint ch (ti_amount t)) (\<lambda>amount.
                if amount \<noteq> int expectedAmount then Inl priceMismatch else Inr ())))))"

text \<open>Steps 11 and 12.\<close>

definition check_memo :: "platform \<Rightarrow> chain \<Rightarrow> json \<Rightarrow> json \<Rightarrow> unit res" where
  "check_memo P ch quote tx =
     (if jget quote ''memo_policy'' = Some (JStr ''optional'') then Inr ()
      else case extractMemo P ch tx of
        None \<Rightarrow> Inl memoMissing
      | Some memo \<Rightarrow>
          if memo = [] then Inl memoMissing
          else if jget quote ''memo_policy'' = Some (JStr ''quote_id_required'') then
            (if str_includes memo (string_of P (jget quote ''quote_id'')) then Inr () else Inl memoMismatch)
          else if jget quote ''memo_policy'' = Some (JStr ''hash_required'') then
            (let kvs = (case quote of JObj kvs \<Rightarrow> kvs | _ \<Rightarrow> []) in
             if str_includes memo (to_hex (sha256 P (canonicalJson P kvs))) then Inr () else Inl memoMismatch)
          else Inr ())"

text \<open>\<open>verifySettlement\<close>: an expired quote is let through on purpose.\<close>

definition settlement_quote :: "platform \<Rightarrow> millis \<Rightarrow> json \<Rightarrow> unit res" where
  "settlement_quote P now quote =
     rbind (verifyQuote P now quote) (\<lambda>v.
     case v of
       VOk \<Rightarrow> Inr ()
     | VBad code \<Rightarrow>
         if code = ''invalid_buyer_signature'' then Inl invalidBuyerSignature
         else if code = ''invalid_seller_signature'' then Inl invalidSellerSignature
         else if code = ''expired_quote'' then Inr ()
         else Inl malformedQuoteHeader)"

definition explorer_url :: "string \<Rightarrow> string option \<Rightarrow> string" where
  "explorer_url sig cluster =
     (let c = (case cluster of None \<Rightarrow> ''devnet'' | Some x \<Rightarrow> x) in
      ''https://explorer.solana.com/tx/'' @ sig @ (if c = ''mainnet-beta'' then [] else ''?cluster='' @ c))"

definition block_time :: "json \<Rightarrow> json res" where
  "block_time tx =
     (if falsy (jget tx ''blockTime'') then Inr JNull
      else case as_number (jget tx ''blockTime'') of
        None \<Rightarrow> Inl RangeError
      | Some q \<Rightarrow> rbind (to_iso_string (Some (let m = q * 1000 in if 0 \<le> m then \<lfloor>m\<rfloor> else \<lceil>m\<rceil>))) (\<lambda>t. Inr (JStr t)))"

record verification_result =
  vr_quote :: json
  vr_tx_sig :: string
  vr_verification :: json

definition verifySettlement ::
  "platform \<Rightarrow> mint_table \<Rightarrow> chain \<Rightarrow> millis \<Rightarrow> settlement_request \<Rightarrow> verification_result res" where
  "verifySettlement P mints ch now request =
     rbind (decode_quote (sr_quote request)) (\<lambda>quote.
     rbind (settlement_quote P now quote) (\<lambda>_.
     rbind (decode_payment P (sr_payment request)) (\<lambda>sig.
     rbind (fetch_tx ch sig) (\<lambda>tx.
     rbind (check_transfer P mints ch (sr_usdcMint request) quote tx) (\<lambda>_.
     rbind (check_memo P ch quote tx) (\<lambda>_.
     rbind (block_time tx) (\<lambda>bt.
     Inr \<lparr>vr_quote = quote, vr_tx_sig = sig,
          vr_verification = JObj [(''amount_matched'', JBool True), (''mint_matched'', JBool True),
            (''destination_matched'', JBool True), (''memo_matched'', JBool True), (''confirmations'', JNum 1),
            (''block_time'', bt), (''solana_explorer'', JStr (explorer_url sig (sr_cluster request)))]\<rparr>)))))))"

section \<open>Execution\<close>

text \<open>
  The consumed nonces are a JavaScript \<open>Set\<close>, which compares strings, numbers, booleans and null by
  value and arrays and objects by reference. A quote id is parsed anew from the header of every
  request, so an id that is an array or an object is never one the set already holds; nothing
  checks that it is a string. \<open>decode_quote\<close> has refused an absent id before the set is asked.
\<close>

type_synonym nonces = "json list"

fun primitive :: "json \<Rightarrow> bool" where
  "primitive (JArr xs) \<longleftrightarrow> False"
| "primitive (JObj kvs) \<longleftrightarrow> False"
| "primitive v \<longleftrightarrow> True"

definition isNonceConsumed :: "json option \<Rightarrow> nonces \<Rightarrow> bool" where
  "isNonceConsumed quoteId ns \<longleftrightarrow> (case quoteId of None \<Rightarrow> False | Some v \<Rightarrow> primitive v \<and> v \<in> set ns)"

definition consumeNonce :: "json option \<Rightarrow> nonces \<Rightarrow> nonces" where
  "consumeNonce quoteId ns =
     (case quoteId of None \<Rightarrow> ns | Some v \<Rightarrow> if primitive v then List.insert v ns else v # ns)"

definition execution_quote :: "platform \<Rightarrow> millis \<Rightarrow> json \<Rightarrow> unit res" where
  "execution_quote P now quote =
     rbind (verifyQuote P now quote) (\<lambda>v.
     case v of
       VOk \<Rightarrow> Inr ()
     | VBad code \<Rightarrow>
         if code = ''invalid_buyer_signature'' then Inl invalidBuyerSignature
         else if code = ''invalid_seller_signature'' then Inl invalidSellerSignature
         else if code = ''expired_quote'' then Inl expiredQuote
         else Inl malformedQuoteHeader)"

text \<open>
  \<open>verifyAndExecute\<close> up to the await of the executor: steps 1 to 15; \<open>now'\<close> is the clock after
  the RPC answered.
\<close>

definition execute_check ::
  "platform \<Rightarrow> mint_table \<Rightarrow> chain \<Rightarrow> millis \<Rightarrow> millis \<Rightarrow> settlement_request \<Rightarrow> nonces \<Rightarrow> json res" where
  "execute_check P mints ch now now' request ns =
     rbind (decode_quote (sr_quote request)) (\<lambda>quote.
     rbind (execution_quote P now quote) (\<lambda>_.
     rbind (decode_payment P (sr_payment request)) (\<lambda>sig.
     rbind (fetch_tx ch sig) (\<lambda>tx.
     rbind (check_transfer P mints ch (sr_usdcMint request) quote tx) (\<lambda>_.
     rbind (check_memo P ch quote tx) (\<lambda>_.
     if \<not> nonce_re (string_of P (jget quote ''nonce'')) then Inl invalidNonceFormat
     else if isNonceConsumed (jget quote ''quote_id'') ns then Inl nonceReplayed
     else if \<not> isFutureISO P now' (jget quote ''expires_at'') then Inl expiredQuote
     else Inr quote))))))"

definition pubkey_or_did :: "platform \<Rightarrow> chain \<Rightarrow> json option \<Rightarrow> json option" where
  "pubkey_or_did P ch d = (case didFieldToPublicKey P d of None \<Rightarrow> d | Some pk \<Rightarrow> Some (JStr (ch_key58 ch pk)))"

definition buildReceipt ::
  "platform \<Rightarrow> chain \<Rightarrow> millis \<Rightarrow> json \<Rightarrow> string \<Rightarrow> int \<Rightarrow> string option \<Rightarrow> json" where
  "buildReceipt P ch now quote txSignature settlementMs cluster =
     JObj [(''receipt'', JObj (pick quote [''quote_id'', ''final_price''] @
              opt_prop ''buyer_pubkey'' (pubkey_or_did P ch (jget quote ''buyer'')) @
              opt_prop ''seller_pubkey'' (pubkey_or_did P ch (jget quote ''seller'')) @
              [(''settled_at'', JStr (to_iso now))])),
           (''explorer_tx'', JStr (explorer_url txSignature cluster)),
           (''settlement_ms'', JNum (of_int settlementMs))]"

text \<open>After the executor: \<open>succeeded\<close> says whether it succeeded.\<close>

definition execute_finish ::
  "platform \<Rightarrow> chain \<Rightarrow> millis \<Rightarrow> millis \<Rightarrow> settlement_request \<Rightarrow> json \<Rightarrow> bool \<Rightarrow> nonces \<Rightarrow> json res \<times> nonces" where
  "execute_finish P ch start now request quote succeeded ns =
     (if \<not> succeeded then (Inl executionFailed, ns)
      else (Inr (buildReceipt P ch now quote (sr_payment request) (now - start) (sr_cluster request)),
            consumeNonce (jget quote ''quote_id'') ns))"

section \<open>Lemmas\<close>

subsection \<open>Little-endian amounts\<close>

text \<open>The reference: a number in base 256, least significant byte first.\<close>

fun le_value :: "bytes \<Rightarrow> nat" where
  "le_value [] = 0"
| "le_value (b # bs) = unat b + 256 * le_value bs"

lemma le_value_snoc: "le_value (bs @ [b]) = le_value bs + 256 ^ length bs * unat b"
  by (induction bs) (simp_all add: algebra_simps)

lemma le_value_less: "le_value bs < 256 ^ length bs"
proof (induction bs)
  case (Cons b bs)
  have "unat b < 256" using unsigned_less[of b, where 'a = nat] by simp
  with Cons show ?case by simp
qed simp

lemma or_push_bit_add: "v < 2 ^ k \<Longrightarrow> v OR push_bit k b = v + 2 ^ k * b" for v b :: nat
proof -
  assume v: "v < 2 ^ k"
  have "v AND push_bit k b = 0"
  proof (rule bit_eqI)
    fix n
    have "\<not> bit v n" if "k \<le> n"
      using v that by (metis bit_take_bit_iff linorder_not_less take_bit_nat_eq_self_iff)
    then show "bit (v AND push_bit k b) n \<longleftrightarrow> bit (0 :: nat) n"
      by (auto simp: bit_and_iff bit_push_bit_iff)
  qed
  from disjunctive_add_eq_or[OF this] show ?thesis by (simp add: push_bit_eq_mult ac_simps)
qed

lemma readU64LE_prefix:
  "off + n \<le> length data \<Longrightarrow>
   foldl (\<lambda>value i. value OR push_bit (i * 8) (unat (data ! (off + i)))) 0 [0..<n] =
     le_value (take n (drop off data))"
proof (induction n)
  case (Suc n)
  have t: "take (Suc n) (drop off data) = take n (drop off data) @ [data ! (off + n)]"
    using Suc.prems by (simp add: take_Suc_conv_app_nth)
  have len: "length (take n (drop off data)) = n" using Suc.prems by simp
  have pw: "(2 :: nat) ^ (n * 8) = 256 ^ n" by (subst mult.commute) (simp add: power_mult)
  have "le_value (take n (drop off data)) < 2 ^ (n * 8)"
    using le_value_less[of "take n (drop off data)"] unfolding pw len .
  from or_push_bit_add[OF this, of "unat (data ! (off + n))"] show ?case
    using Suc.IH Suc.prems unfolding t le_value_snoc len pw by simp
qed simp

subsection \<open>Verified settlements\<close>

definition pays :: "platform \<Rightarrow> mint_table \<Rightarrow> chain \<Rightarrow> string \<Rightarrow> json \<Rightarrow> json \<Rightarrow> bool" where
  "pays P mints ch usdcMint quote tx \<longleftrightarrow>
     (\<exists>pk dest n t. didFieldToPublicKey P (jget quote ''seller'') = Some pk \<and> ch_ata ch usdcMint pk = Inr dest \<and>
        normalizeField P mints (jget quote ''final_price'') usdcMint = Inr n \<and>
        extractSplTransfer P tx = Inr (Some t) \<and> ti_destination t = Some (JStr dest) \<and>
        ti_mint t = Some (JStr usdcMint) \<and> to_bigint ch (ti_amount t) = Inr (int n))"

lemma check_transfer_ok: "check_transfer P mints ch mint quote tx = Inr () \<longleftrightarrow> pays P mints ch mint quote tx"
  unfolding check_transfer_def pays_def by (auto split: option.splits)

definition quote_signed :: "platform \<Rightarrow> json \<Rightarrow> bool" where
  "quote_signed P quote \<longleftrightarrow>
     (\<exists>kvs b s bs ss. quote = JObj kvs \<and> jget quote ''buyer'' = Some (JStr b) \<and> jget quote ''seller'' = Some (JStr s) \<and>
        jget quote ''buyer_signature'' = Some (JStr bs) \<and> jget quote ''seller_signature'' = Some (JStr ss) \<and>
        signed_by P (quoteSigningPayload P kvs) bs b \<and> signed_by P (quoteSigningPayload P kvs) ss s)"

lemma didField_string: "didFieldToPublicKey P v = Some pk \<Longrightarrow> \<exists>d. v = Some (JStr d) \<and> didToPublicKey P d = Some pk"
  by (auto simp: didFieldToPublicKey_def split: option.splits)

lemma verifyEd25519_True_string: "verifyEd25519 P m v pk = Inr True \<Longrightarrow> \<exists>s. v = Some (JStr s)"
  by (cases v rule: as_string.cases) (auto simp: verifyEd25519_def)

lemma verifyQuote_ok:
  assumes "verifyQuote P now quote = Inr VOk"
  shows "quote_signed P quote"
proof -
  obtain bpk spk where pk: "didFieldToPublicKey P (jget quote ''buyer'') = Some bpk"
    "didFieldToPublicKey P (jget quote ''seller'') = Some spk"
    and sg: "verifyEd25519 P (quoteSigningPayload P (case quote of JObj kvs \<Rightarrow> kvs | _ \<Rightarrow> [])) (jget quote ''buyer_signature'') bpk = Inr True"
    "verifyEd25519 P (quoteSigningPayload P (case quote of JObj kvs \<Rightarrow> kvs | _ \<Rightarrow> [])) (jget quote ''seller_signature'') spk = Inr True"
    using assms by (auto simp: verifyQuote_def Let_def split: if_splits option.splits)
  obtain b where b: "jget quote ''buyer'' = Some (JStr b)" "didToPublicKey P b = Some bpk"
    using didField_string[OF pk(1)] by blast
  obtain s where s: "jget quote ''seller'' = Some (JStr s)" "didToPublicKey P s = Some spk"
    using didField_string[OF pk(2)] by blast
  obtain kvs where q: "quote = JObj kvs" using b(1) by (cases quote) auto
  obtain bs ss where "jget quote ''buyer_signature'' = Some (JStr bs)" "jget quote ''seller_signature'' = Some (JStr ss)"
    using sg verifyEd25519_True_string by blast
  then show ?thesis unfolding quote_signed_def signed_by_def using b s q sg by fastforce
qed

lemma verifyQuote_future: "verifyQuote P now quote = Inr VOk \<Longrightarrow> isFutureISO P now (jget quote ''expires_at'')"
  by (auto simp: verifyQuote_def Let_def split: if_splits)

lemma execute_check_ok:
  assumes "execute_check P mints ch now now' request ns = Inr quote"
  shows "sr_quote request = Some quote" "quote_signed P quote" "isFutureISO P now' (jget quote ''expires_at'')"
    "\<not> isNonceConsumed (jget quote ''quote_id'') ns"
    "\<exists>tx. fetch_tx ch (sr_payment request) = Inr tx \<and> pays P mints ch (sr_usdcMint request) quote tx \<and>
       check_memo P ch quote tx = Inr ()"
proof -
  have ex: "execution_quote P now quote = Inr ()" and dq: "decode_quote (sr_quote request) = Inr quote"
    and "decode_payment P (sr_payment request) = Inr (sr_payment request)"
    and tx: "\<exists>tx. fetch_tx ch (sr_payment request) = Inr tx \<and>
      check_transfer P mints ch (sr_usdcMint request) quote tx = Inr () \<and> check_memo P ch quote tx = Inr ()"
    and nc: "\<not> isNonceConsumed (jget quote ''quote_id'') ns" "isFutureISO P now' (jget quote ''expires_at'')"
    using assms by (auto simp: execute_check_def decode_payment_def split: option.splits if_splits)
  obtain v where v: "verifyQuote P now quote = Inr v" using ex by (auto simp: execution_quote_def)
  then have "verifyQuote P now quote = Inr VOk"
    using ex by (cases v) (auto simp: execution_quote_def split: if_splits)
  then show "quote_signed P quote" by (rule verifyQuote_ok)
  show "sr_quote request = Some quote" using dq by (auto simp: decode_quote_def split: option.splits if_splits)
  show "\<exists>tx. fetch_tx ch (sr_payment request) = Inr tx \<and> pays P mints ch (sr_usdcMint request) quote tx \<and>
       check_memo P ch quote tx = Inr ()" using tx check_transfer_ok by blast
  show "isFutureISO P now' (jget quote ''expires_at'')" "\<not> isNonceConsumed (jget quote ''quote_id'') ns"
    using nc by simp_all
qed

lemma verifySettlement_facts:
  assumes "verifySettlement P mints ch now request = Inr r"
  shows "sr_quote request = Some (vr_quote r) \<and> vr_tx_sig r = sr_payment request \<and>
    (isFutureISO P now (jget (vr_quote r) ''expires_at'') \<longrightarrow> quote_signed P (vr_quote r)) \<and>
    (\<exists>tx. fetch_tx ch (sr_payment request) = Inr tx \<and> pays P mints ch (sr_usdcMint request) (vr_quote r) tx)"
proof -
  have sq: "settlement_quote P now (vr_quote r) = Inr ()" and dq: "decode_quote (sr_quote request) = Inr (vr_quote r)"
    and tx: "vr_tx_sig r = sr_payment request" "\<exists>tx. fetch_tx ch (sr_payment request) = Inr tx \<and>
      check_transfer P mints ch (sr_usdcMint request) (vr_quote r) tx = Inr ()"
    using assms by (auto simp: verifySettlement_def decode_payment_def split: option.splits if_splits)
  obtain v where v: "verifyQuote P now (vr_quote r) = Inr v" using sq by (auto simp: settlement_quote_def)
  have "quote_signed P (vr_quote r)" if "isFutureISO P now (jget (vr_quote r) ''expires_at'')"
  proof -
    have "v \<noteq> VBad ''expired_quote''"
      using v that by (auto simp: verifyQuote_def Let_def split: if_splits option.splits)
    then have "v = VOk" using sq v by (cases v) (auto simp: settlement_quote_def split: if_splits)
    then show ?thesis using v verifyQuote_ok by blast
  qed
  moreover have "sr_quote request = Some (vr_quote r)"
    using dq by (auto simp: decode_quote_def split: option.splits if_splits)
  ultimately show ?thesis using tx check_transfer_ok by blast
qed

subsection \<open>Executions one after another\<close>

text \<open>
  Requests that do not overlap: each is checked, run and recorded before the next starts. A job
  is a request, the clock before and after its checks, and whether its executor succeeds; the
  result lists the quotes whose executor succeeded.
\<close>

type_synonym exec_job = "settlement_request \<times> millis \<times> millis \<times> bool"

fun exec_all :: "platform \<Rightarrow> mint_table \<Rightarrow> chain \<Rightarrow> exec_job list \<Rightarrow> nonces \<Rightarrow> json list \<times> nonces" where
  "exec_all P mints ch [] ns = ([], ns)"
| "exec_all P mints ch ((request, now, now', good) # jobs) ns =
     (case execute_check P mints ch now now' request ns of
        Inl _ \<Rightarrow> exec_all P mints ch jobs ns
      | Inr quote \<Rightarrow>
          (let (r, ns') = execute_finish P ch now now' request quote good ns;
               (fin, ns'') = exec_all P mints ch jobs ns'
           in (if good then quote # fin else fin, ns'')))"

text \<open>The ids the nonce set can tell apart, in the order the quotes were served.\<close>

definition primitive_ids :: "json list \<Rightarrow> json list" where
  "primitive_ids qs = concat (map (\<lambda>q. case jget q ''quote_id'' of
     Some v \<Rightarrow> if primitive v then [v] else [] | None \<Rightarrow> []) qs)"

lemma primitive_ids_Cons:
  "primitive_ids (q # qs) =
     (case jget q ''quote_id'' of Some v \<Rightarrow> if primitive v then [v] else [] | None \<Rightarrow> []) @ primitive_ids qs"
  by (simp add: primitive_ids_def)

lemma consumeNonce_set: "set (consumeNonce (Some v) ns) = insert v (set ns)"
  by (auto simp: consumeNonce_def)

lemma execute_finish_nonces:
  "set (snd (execute_finish P ch start now request quote succeeded ns)) =
     (if succeeded then set (consumeNonce (jget quote ''quote_id'') ns) else set ns)"
  by (simp add: execute_finish_def)

lemma execute_check_fresh:
  "execute_check P mints ch now now' request ns = Inr quote \<Longrightarrow>
     \<exists>v. jget quote ''quote_id'' = Some v \<and> (primitive v \<longrightarrow> v \<notin> set ns)"
  by (cases "jget quote ''quote_id''")
    (auto simp: execute_check_def decode_quote_def isNonceConsumed_def split: option.splits if_splits)

lemma exec_all_ids:
  assumes "exec_all P mints ch jobs ns = (fin, ns')"
  shows "distinct (primitive_ids fin) \<and> set (primitive_ids fin) \<inter> set ns = {}"
  using assms
proof (induction P mints ch jobs ns arbitrary: fin ns' rule: exec_all.induct)
  case (2 P mints ch request now now' good jobs ns)
  show ?case
  proof (cases "execute_check P mints ch now now' request ns")
    case (Inl e)
    then show ?thesis using 2 by simp
  next
    case (Inr quote)
    obtain v where v: "jget quote ''quote_id'' = Some v" "primitive v \<longrightarrow> v \<notin> set ns"
      using execute_check_fresh[OF Inr] by blast
    define ns1 where "ns1 = snd (execute_finish P ch now now' request quote good ns)"
    have ns1: "set ns1 = (if good then insert v (set ns) else set ns)"
      using v(1) by (simp add: ns1_def execute_finish_nonces consumeNonce_set)
    obtain d2 n2 where rest: "exec_all P mints ch jobs ns1 = (d2, n2)" by fastforce
    have IH: "distinct (primitive_ids d2) \<and> set (primitive_ids d2) \<inter> set ns1 = {}"
      using 2(2)[OF Inr HOL.refl prod.collapse, folded ns1_def, OF rest] .
    have "fin = (if good then quote # d2 else d2)"
      using 2(3) Inr rest by (auto simp: ns1_def Let_def split: prod.splits)
    then show ?thesis using IH ns1 v by (auto simp: primitive_ids_Cons split: if_splits)
  qed
qed (simp add: primitive_ids_def)

section \<open>Sample data\<close>

definition sample_mint :: string where "sample_mint = DEFAULT_USDC_MINT"

definition sample_tx :: json where
  "sample_tx = JObj [(''meta'', JObj [(''err'', JNull)]), (''slot'', JNum 1), (''transaction'', JObj [(''message'',
     JObj [(''instructions'', JArr
       [JObj [(''program'', JStr ''spl-token''), (''parsed'', JObj [(''type'', JStr ''transferChecked''),
          (''info'', JObj [(''destination'', JStr ''ATA''), (''mint'', JStr sample_mint),
             (''tokenAmount'', JObj [(''amount'', JStr ''1'')])])])],
        JObj [(''program'', JStr ''spl-memo''), (''parsed'', JStr ''q1 q2'')]])])])]"

definition sample_chain :: chain where
  "sample_chain = \<lparr>ch_tx = (\<lambda>_. Inr (Some sample_tx)), ch_ata = (\<lambda>m k. Inr ''ATA''),
     ch_utf8_decode = map (\<lambda>b. char_of (unat b)), ch_bigint_other = (\<lambda>_. None), ch_key58 = map (\<lambda>b. char_of (unat b))\<rparr>"

definition quote_with_id :: "json \<Rightarrow> string \<Rightarrow> string \<Rightarrow> json" where
  "quote_with_id qid expires bsig = JObj [(''quote_id'', qid), (''rfq_id'', JStr ''r''), (''buyer'', JStr (demo_did (CHR ''B''))),
     (''seller'', JStr (demo_did (CHR ''S''))), (''final_price'', JStr ''0.000001''), (''currency'', JStr ''USDC''),
     (''expires_at'', JStr expires), (''nonce'', JStr (''0x'' @ replicate 64 (CHR ''0''))),
     (''memo_policy'', JStr ''quote_id_required''), (''buyer_signature'', JStr bsig),
     (''seller_signature'', JStr (demo_sig (CHR ''S'')))]"

abbreviation sample_quote :: "string \<Rightarrow> string \<Rightarrow> string \<Rightarrow> json" where
  "sample_quote qid \<equiv> quote_with_id (JStr qid)"

definition sample_payment :: string where "sample_payment = replicate 62 (CHR ''p'')"

definition sample_request :: "json \<Rightarrow> settlement_request" where
  "sample_request q = \<lparr>sr_quote = Some q, sr_payment = sample_payment, sr_usdcMint = sample_mint, sr_cluster = None\<rparr>"

lemma sample_payment_ok: "decode_payment demo_platform sample_payment = Inr sample_payment"
  by (simp add: decode_payment_def sample_payment_def demo_platform_def latin1_def)

lemma sample_fetch: "fetch_tx sample_chain sig = Inr sample_tx"
  by (simp add: fetch_tx_def sample_chain_def sample_tx_def oget_def)

lemma sample_transfer:
  "check_transfer demo_platform MINT_DECIMALS sample_chain sample_mint (quote_with_id qid ex bs) sample_tx = Inr ()"
proof -
  have "extractSplTransfer demo_platform sample_tx =
      Inr (Some \<lparr>ti_destination = Some (JStr ''ATA''), ti_amount = Some (JStr ''1''), ti_mint = Some (JStr sample_mint)\<rparr>)"
    by (simp add: sample_tx_def extractSplTransfer_def collectInstructions_def tx_message_def oget_def elements_def
        parsed_transfer_def program_id_def coalesce_def is_nullish_def)
  moreover have "normalizeField demo_platform MINT_DECIMALS (Some (JStr ''0.000001'')) sample_mint = Inr 1"
    unfolding sample_mint_def by code_simp
  moreover have "to_bigint sample_chain (Some (JStr ''1'')) = Inr 1" by code_simp
  ultimately show ?thesis
    by (simp add: check_transfer_def quote_with_id_def didFieldToPublicKey_def sample_chain_def)
qed

lemma sample_memo:
  assumes "str_includes ''q1 q2'' (string_of demo_platform (Some qid))"
  shows "check_memo demo_platform sample_chain (quote_with_id qid ex bs) sample_tx = Inr ()"
  using assms
  by (simp add: check_memo_def quote_with_id_def sample_tx_def extractMemo_def collectInstructions_def tx_message_def
      oget_def elements_def memo_instruction_def program_id_def coalesce_def is_nullish_def
      MEMO_PROGRAM_V1_def MEMO_PROGRAM_V2_def)

lemma sample_verify:
  assumes "parse_date demo_platform ex = Some t" "now < t"
  shows "verifyQuote demo_platform now (quote_with_id qid ex (demo_sig (CHR ''B''))) = Inr VOk"
proof -
  have key: "verifyEd25519 demo_platform m (Some (JStr (demo_sig c))) (latin1 (''6Mk'' @ [c])) = Inr True" for m c
    using demo_signed[of m c] by (auto simp: signed_by_def)
  have "nonce_re (''0x'' @ replicate 64 (CHR ''0''))" by code_simp
  moreover have "dec_pos demo_platform (JStr ''0.000001'')" by code_simp
  ultimately show ?thesis using assms key
    by (simp add: verifyQuote_def quote_with_id_def isValidDecimalPositive_def currency_supported_def SUPPORTED_CURRENCIES_def
        memo_policy_known_def VALID_MEMO_POLICIES_def isFutureISO_def string_of_def didFieldToPublicKey_def Let_def
        del: rbind_eq_Inr verifyEd25519_string_True)
qed

lemma sample_date: "parse_date demo_platform ''2030-01-01T00:00:00.000Z'' = Some 1893456000000"
  by (simp add: parse_date_def date_parse_def iso_parse_def iso_fields_def nat_of_digits_def digit_val_def is_digit_def
      leap_day_def leap_year_def month_start_def day_from_year_def)

lemma sample_execute_id:
  assumes "str_includes ''q1 q2'' (string_of demo_platform (Some qid))" "\<not> falsy (Some qid)"
    "\<not> isNonceConsumed (Some qid) ns"
  shows "execute_check demo_platform MINT_DECIMALS sample_chain 0 0
     (sample_request (quote_with_id qid ''2030-01-01T00:00:00.000Z'' (demo_sig (CHR ''B'')))) ns =
     Inr (quote_with_id qid ''2030-01-01T00:00:00.000Z'' (demo_sig (CHR ''B'')))"
proof -
  let ?q = "quote_with_id qid ''2030-01-01T00:00:00.000Z'' (demo_sig (CHR ''B''))"
  have v: "verifyQuote demo_platform 0 ?q = Inr VOk" by (rule sample_verify[OF sample_date]) simp
  have j: "jget ?q ''quote_id'' = Some qid" "jget ?q ''nonce'' = Some (JStr (''0x'' @ replicate 64 (CHR ''0'')))"
    by (simp_all add: quote_with_id_def)
  have "nonce_re (''0x'' @ replicate 64 (CHR ''0''))" by code_simp
  then have "nonce_re (string_of demo_platform (jget ?q ''nonce''))" by (simp add: j string_of_def)
  moreover have "is_object (Some ?q)" by (simp add: quote_with_id_def)
  ultimately show ?thesis
    using assms v verifyQuote_future[OF v] sample_transfer sample_memo
    by (simp add: execute_check_def sample_request_def decode_quote_def execution_quote_def sample_payment_ok
        sample_fetch j)
qed

lemma sample_execute:
  assumes "str_includes ''q1 q2'' qid" "qid \<noteq> []" "JStr qid \<notin> set ns"
  shows "execute_check demo_platform MINT_DECIMALS sample_chain 0 0
     (sample_request (sample_quote qid ''2030-01-01T00:00:00.000Z'' (demo_sig (CHR ''B'')))) ns =
     Inr (sample_quote qid ''2030-01-01T00:00:00.000Z'' (demo_sig (CHR ''B'')))"
  using assms by (intro sample_execute_id) (simp_all add: string_of_def isNonceConsumed_def)

section \<open>Properties\<close>

text \<open>
  C30. What a settlement response certifies: if the checks of \<open>verifyAndExecute\<close> pass, both
  parties signed the quote, the quote has not expired at the last check, its nonce was free, and
  the named transaction succeeded and transfers exactly the quote's price, in the configured
  mint, to the seller's token account.
\<close>

theorem execute_check_sound:
  assumes "execute_check P mints ch now now' request ns = Inr quote"
  shows "quote_signed P quote \<and> isFutureISO P now' (jget quote ''expires_at'') \<and>
    \<not> isNonceConsumed (jget quote ''quote_id'') ns \<and>
    (\<exists>tx. ch_tx ch (sr_payment request) = Inr (Some tx) \<and> falsy (oget (jget tx ''meta'') ''err'') \<and>
       pays P mints ch (sr_usdcMint request) quote tx)"
proof -
  have "fetch_tx ch sig = Inr tx \<Longrightarrow> ch_tx ch sig = Inr (Some tx) \<and> falsy (oget (jget tx ''meta'') ''err'')" for sig tx
    by (auto simp: fetch_tx_def split: option.splits if_splits)
  then show ?thesis using execute_check_ok[OF assms] by blast
qed

theorem execute_check_sound_witness:
  "quote_signed demo_platform (sample_quote ''q1'' ''2030-01-01T00:00:00.000Z'' (demo_sig (CHR ''B''))) \<and>
   pays demo_platform MINT_DECIMALS sample_chain sample_mint
     (sample_quote ''q1'' ''2030-01-01T00:00:00.000Z'' (demo_sig (CHR ''B''))) sample_tx"
proof -
  have inc: "str_includes ''q1 q2'' ''q1''" by code_simp
  show ?thesis
    using execute_check_sound[OF sample_execute[OF inc, of "[]"]] by (simp add: sample_request_def sample_chain_def)
qed

text \<open>
  C31. No quote with a string id is served twice by requests that do not overlap: whatever the
  requests, clocks and executor outcomes, among the quotes whose executor succeeded those whose id
  is a string, a number, a boolean or null have different ids, and none of these was consumed before. Ids
  that are arrays or objects are not covered: the nonce set compares them by reference.
\<close>

theorem execute_once:
  assumes "exec_all P mints ch jobs ns = (fin, ns')"
  shows "distinct (primitive_ids fin) \<and> set (primitive_ids fin) \<inter> set ns = {}"
  by (rule exec_all_ids[OF assms])

text \<open>
  The witness sends one quote twice and then another one with the same payment: the second request
  is refused, the others are served.
\<close>

theorem execute_once_witness:
  "\<exists>fin ns'. exec_all demo_platform MINT_DECIMALS sample_chain
     (map (\<lambda>i. (sample_request (sample_quote i ''2030-01-01T00:00:00.000Z'' (demo_sig (CHR ''B''))), 0, 0, True))
       [''q1'', ''q1'', ''q2'']) [] = (fin, ns') \<and>
     primitive_ids fin = [JStr ''q1'', JStr ''q2''] \<and> distinct (primitive_ids fin)"
proof -
  let ?q = "\<lambda>i. sample_quote i ''2030-01-01T00:00:00.000Z'' (demo_sig (CHR ''B''))"
  have inc: "str_includes ''q1 q2'' ''q1''" "str_includes ''q1 q2'' ''q2''" by code_simp+
  have id: "jget (?q i) ''quote_id'' = Some (JStr i)" for i by (simp add: quote_with_id_def)
  have once: "execute_check demo_platform MINT_DECIMALS sample_chain 0 0 (sample_request (?q ''q1'')) [JStr ''q1''] \<noteq> Inr x" for x
    using execute_check_fresh[of demo_platform MINT_DECIMALS sample_chain 0 0 "sample_request (?q ''q1'')" "[JStr ''q1'']" x]
      execute_check_ok(1)[of demo_platform MINT_DECIMALS sample_chain 0 0 "sample_request (?q ''q1'')" "[JStr ''q1'']" x] id[of "''q1''"]
    by (auto simp: sample_request_def)
  obtain e where refused: "execute_check demo_platform MINT_DECIMALS sample_chain 0 0 (sample_request (?q ''q1'')) [JStr ''q1''] = Inl e"
    using once by (cases "execute_check demo_platform MINT_DECIMALS sample_chain 0 0 (sample_request (?q ''q1'')) [JStr ''q1'']") auto
  have ex: "exec_all demo_platform MINT_DECIMALS sample_chain
     (map (\<lambda>i. (sample_request (?q i), 0, 0, True)) [''q1'', ''q1'', ''q2'']) [] =
     ([?q ''q1'', ?q ''q2''], [JStr ''q2'', JStr ''q1''])"
    using sample_execute[OF inc(1), of "[]"] refused sample_execute[OF inc(2), of "[JStr ''q1'']"]
    by (simp add: execute_finish_def consumeNonce_def id)
  show ?thesis using execute_once[OF ex] ex by (simp add: primitive_ids_def id)
qed

text \<open>
  A quote whose id is an array is served again and again: a request with the id \<open>["q1"]\<close>, whose
  text the memo contains, passes the checks also after it has been served.
\<close>

theorem array_id_served_twice:
  "\<exists>quote ns'. exec_all demo_platform MINT_DECIMALS sample_chain
     [(sample_request quote, 0, 0, True), (sample_request quote, 0, 0, True)] [] = ([quote, quote], ns') \<and>
     jget quote ''quote_id'' = Some (JArr [JStr ''q1''])"
proof -
  let ?i = "JArr [JStr ''q1'']" and ?ex = "''2030-01-01T00:00:00.000Z''"
  let ?q = "quote_with_id ?i ?ex (demo_sig (CHR ''B''))"
  have inc: "str_includes ''q1 q2'' (string_of demo_platform (Some ?i))" by code_simp
  have again: "execute_check demo_platform MINT_DECIMALS sample_chain 0 0 (sample_request ?q) ns = Inr ?q" for ns
    using sample_execute_id[OF inc, of ns] by (simp add: isNonceConsumed_def)
  have id: "jget ?q ''quote_id'' = Some ?i" by (simp add: quote_with_id_def)
  then show ?thesis by (intro exI[of _ ?q]) (simp add: again execute_finish_def)
qed

text \<open>
  Overlapping requests are not protected: the nonce is looked up before the executor is
  awaited and recorded after it. Two requests with the same quote both pass the checks while
  neither has finished, and both then finish with a receipt.
\<close>

theorem execute_twice_when_overlapping:
  "\<exists>request quote. execute_check demo_platform MINT_DECIMALS sample_chain 0 0 request [] = Inr quote \<and>
     (\<exists>r1 r2 ns1 ns2. execute_finish demo_platform sample_chain 0 0 request quote True [] = (Inr r1, ns1) \<and>
        execute_finish demo_platform sample_chain 0 0 request quote True ns1 = (Inr r2, ns2) \<and>
        isNonceConsumed (jget quote ''quote_id'') ns1)"
proof -
  let ?q = "sample_quote ''q1'' ''2030-01-01T00:00:00.000Z'' (demo_sig (CHR ''B''))"
  have inc: "str_includes ''q1 q2'' ''q1''" by code_simp
  have "execute_check demo_platform MINT_DECIMALS sample_chain 0 0 (sample_request ?q) [] = Inr ?q"
    using sample_execute[OF inc, of "[]"] by simp
  moreover have "jget ?q ''quote_id'' = Some (JStr ''q1'')" by (simp add: quote_with_id_def)
  ultimately show ?thesis
    by (intro exI[of _ "sample_request ?q"] exI[of _ ?q])
      (simp add: execute_finish_def consumeNonce_def isNonceConsumed_def)
qed

text \<open>
  One payment can settle several quotes: a transaction whose memo mentions two quote ids
  passes the checks for both quotes, one after the other, because only quote ids and not
  transactions are remembered.
\<close>

theorem one_payment_two_quotes:
  "\<exists>q1 q2 ns. jget q1 ''quote_id'' \<noteq> jget q2 ''quote_id'' \<and>
     execute_check demo_platform MINT_DECIMALS sample_chain 0 0 (sample_request q1) [] = Inr q1 \<and>
     snd (execute_finish demo_platform sample_chain 0 0 (sample_request q1) q1 True []) = ns \<and>
     execute_check demo_platform MINT_DECIMALS sample_chain 0 0 (sample_request q2) ns = Inr q2"
proof -
  let ?q = "\<lambda>i. sample_quote i ''2030-01-01T00:00:00.000Z'' (demo_sig (CHR ''B''))"
  have inc: "str_includes ''q1 q2'' ''q1''" "str_includes ''q1 q2'' ''q2''" by code_simp+
  have id: "jget (?q i) ''quote_id'' = Some (JStr i)" for i by (simp add: quote_with_id_def)
  have "snd (execute_finish demo_platform sample_chain 0 0 (sample_request (?q ''q1'')) (?q ''q1'') True []) = [JStr ''q1'']"
    by (simp add: execute_finish_def consumeNonce_def id)
  then show ?thesis
    using sample_execute[OF inc(1), of "[]"] sample_execute[OF inc(2), of "[JStr ''q1'']"] id
    by (intro exI[of _ "?q ''q1''"] exI[of _ "?q ''q2''"]) simp
qed

text \<open>
  What \<open>verifySettlement\<close> certifies: the transaction pays exactly the quote's price to the
  quote's seller, and, if the quote has not expired yet, both parties signed it.
\<close>

theorem verifySettlement_sound:
  assumes "verifySettlement P mints ch now request = Inr r"
  shows "sr_quote request = Some (vr_quote r) \<and> vr_tx_sig r = sr_payment request \<and>
    (isFutureISO P now (jget (vr_quote r) ''expires_at'') \<longrightarrow> quote_signed P (vr_quote r)) \<and>
    (\<exists>tx. fetch_tx ch (sr_payment request) = Inr tx \<and> pays P mints ch (sr_usdcMint request) (vr_quote r) tx)"
  using assms by (rule verifySettlement_facts)

theorem verifySettlement_sound_witness:
  "\<exists>r. verifySettlement demo_platform MINT_DECIMALS sample_chain 0
     (sample_request (sample_quote ''q1'' ''2030-01-01T00:00:00.000Z'' (demo_sig (CHR ''B'')))) = Inr r \<and>
     vr_tx_sig r = sample_payment"
proof -
  let ?q = "sample_quote ''q1'' ''2030-01-01T00:00:00.000Z'' (demo_sig (CHR ''B''))"
  have inc: "str_includes ''q1 q2'' ''q1''" by code_simp
  have v: "verifyQuote demo_platform 0 ?q = Inr VOk" by (rule sample_verify[OF sample_date]) simp
  have "decode_quote (Some ?q) = Inr ?q" by (simp add: decode_quote_def quote_with_id_def)
  then have "\<exists>r. verifySettlement demo_platform MINT_DECIMALS sample_chain 0 (sample_request ?q) = Inr r"
    using v sample_transfer sample_memo[of "JStr ''q1''"] inc
    by (simp add: verifySettlement_def sample_request_def settlement_quote_def sample_payment_ok sample_fetch
        block_time_def sample_tx_def string_of_def)
  then obtain r where r: "verifySettlement demo_platform MINT_DECIMALS sample_chain 0 (sample_request ?q) = Inr r" by blast
  show ?thesis using verifySettlement_sound[OF r] r by (simp add: sample_request_def)
qed

text \<open>
  An expired quote needs no signatures: \<open>verifySettlement\<close> accepts a quote the buyer never
  signed once its \<open>expires_at\<close> has passed, because \<open>verifyQuote\<close> reports the expiry before it
  looks at the signatures and the caller ignores that report.
\<close>

theorem expired_forgery_accepted:
  "\<exists>quote r. verifySettlement demo_platform MINT_DECIMALS sample_chain 1893456000000 (sample_request quote) = Inr r \<and>
     \<not> quote_signed demo_platform quote"
proof -
  let ?q = "sample_quote ''q1'' ''2030-01-01T00:00:00.000Z'' ''ed25519:''"
  have inc: "str_includes ''q1 q2'' ''q1''" by code_simp
  have "dec_pos demo_platform (JStr ''0.000001'')" by code_simp
  then have v: "verifyQuote demo_platform 1893456000000 ?q = Inr (VBad ''expired_quote'')"
    using sample_date
    by (simp add: verifyQuote_def quote_with_id_def isValidDecimalPositive_def currency_supported_def
        SUPPORTED_CURRENCIES_def memo_policy_known_def VALID_MEMO_POLICIES_def isFutureISO_def string_of_def Let_def)
  have "decode_quote (Some ?q) = Inr ?q" by (simp add: decode_quote_def quote_with_id_def)
  then have "\<exists>r. verifySettlement demo_platform MINT_DECIMALS sample_chain 1893456000000 (sample_request ?q) = Inr r"
    using v sample_transfer sample_memo[of "JStr ''q1''"] inc
    by (simp add: verifySettlement_def sample_request_def settlement_quote_def sample_payment_ok sample_fetch
        block_time_def sample_tx_def string_of_def)
  moreover have "\<not> signed_by demo_platform m ''ed25519:'' (demo_did (CHR ''B''))" for m
    by (simp add: signed_by_def) (simp add: demo_platform_def latin1_def)
  then have "\<not> quote_signed demo_platform ?q" by (auto simp: quote_signed_def quote_with_id_def)
  ultimately show ?thesis by blast
qed

text \<open>
  Raw token amounts are read correctly: the shift-and-or loop computes the little-endian value
  of the eight bytes, which is below \<open>2^64\<close>, so no amount is misread and none wraps.
\<close>

theorem readU64LE_value:
  assumes "offset + 8 \<le> length data"
  shows "readU64LE data offset = le_value (take 8 (drop offset data)) \<and> readU64LE data offset < 2 ^ 64"
proof -
  have "readU64LE data offset = le_value (take 8 (drop offset data))"
    unfolding readU64LE_def using readU64LE_prefix[OF assms] by simp
  then show ?thesis using le_value_less[of "take 8 (drop offset data)"] assms by simp
qed

theorem readU64LE_value_witness: "readU64LE [12, 1, 2, 0, 0, 0, 0, 0, 0, 6] 1 = 513"
  using readU64LE_value[of 1 "[12, 1, 2, 0, 0, 0, 0, 0, 0, 6]"] by simp

end
