(* ===== verification/SettlementRoutes.thy ===== *)
theory SettlementRoutes
  imports Commitment Settlement
begin

text \<open>
  \<^verbatim>\<open>routes/execute.ts\<close> and \<^verbatim>\<open>routes/settle-report.ts\<close>: recording a verified payment in the log of a
  committed session. Both verify first, then append under the session's lock unless a
  settlement is already recorded. The error responses they build themselves are written as
  \<open>EngineError\<close>s with the same status and code. The caller of a settle report is authenticated
  by a function of the configuration, so its DID is an argument. Encoding the committed quote
  as a header and decoding it again gives the quote back.
\<close>

record settle_config =
  sc_mints :: mint_table
  sc_chain :: chain
  sc_usdcMint :: string
  sc_cluster :: "string option"

definition settlement_status :: "nat \<Rightarrow> nat" where
  "settlement_status s = (if 400 \<le> s \<and> s < 500 then s else 422)"

definition map_settlement_error :: "js_error \<Rightarrow> js_error \<Rightarrow> js_error" where
  "map_settlement_error other e =
     (case e of SettlementError code status \<Rightarrow> EngineError (settlement_status status) code | _ \<Rightarrow> other)"

abbreviation execute_other :: js_error where "execute_other \<equiv> EngineError 500 ''internal_error''"
abbreviation report_other :: js_error where "report_other \<equiv> EngineError 422 ''verification_failed''"

definition quote_mismatch :: "derived_session \<Rightarrow> json option \<Rightarrow> bool" where
  "quote_mismatch s quoteId \<longleftrightarrow>
     (let q = oget (unsignedQuote s) ''quote_id'' in \<not> falsy q \<and> q \<noteq> quoteId)"

section \<open>POST /execute\<close>

definition execute_pre ::
  "platform \<Rightarrow> settle_config \<Rightarrow> millis \<Rightarrow> json option \<Rightarrow> string \<Rightarrow> manager \<Rightarrow>
   (string \<times> verification_result) res \<times> manager" where
  "execute_pre P sc now quote payment m =
     (case verifySettlement P (sc_mints sc) (sc_chain sc) now
             \<lparr>sr_quote = quote, sr_payment = payment, sr_usdcMint = sc_usdcMint sc, sr_cluster = sc_cluster sc\<rparr> of
        Inl e \<Rightarrow> (Inl (map_settlement_error execute_other e), m)
      | Inr result \<Rightarrow>
          (case as_string (jget (vr_quote result) ''rfq_id'') of
             None \<Rightarrow> (Inl (EngineError 404 ''session_not_found''), m)
           | Some rfqId \<Rightarrow>
               (case getSession now rfqId m of
                  (Inl e, m') \<Rightarrow> (Inl execute_other, m')
                | (Inr None, m') \<Rightarrow> (Inl (EngineError 404 ''session_not_found''), m')
                | (Inr (Some s), m') \<Rightarrow>
                    (if state s \<noteq> COMMITTED then Inl (EngineError 409 ''invalid_state'')
                     else if quote_mismatch s (jget (vr_quote result) ''quote_id'')
                       then Inl (EngineError 422 ''quote_mismatch'')
                     else Inr (rfqId, result), m'))))"

definition SETTLEMENT_VERIFIER :: string where "SETTLEMENT_VERIFIER = ''system:settlement-verifier''"

definition settle_event :: "string \<Rightarrow> event_id \<Rightarrow> string \<Rightarrow> verification_result \<Rightarrow> json option \<Rightarrow> negotiation_event" where
  "settle_event verifiedAt uuid rfqId result quoteId =
     \<lparr>ev_id = uuid, ev_rfq = rfqId, ev_type = SETTLEMENT_CONFIRMED, ev_time = verifiedAt,
      ev_actor = SETTLEMENT_VERIFIER,
      ev_payload = [(''tx_sig'', JStr (vr_tx_sig result))] @ opt_prop ''quote_id'' quoteId @
        pick (vr_quote result) [''final_price'', ''buyer'', ''seller''] @
        [(''verified_at'', JStr verifiedAt), (''verification'', vr_verification result)]\<rparr>"

definition settle_locked ::
  "millis \<Rightarrow> string \<Rightarrow> event_id \<Rightarrow> string \<Rightarrow> verification_result \<Rightarrow> json option \<Rightarrow> derived_session option \<Rightarrow> manager \<Rightarrow>
   unit res \<times> manager" where
  "settle_locked now verifiedAt uuid rfqId result quoteId _ m =
     (if list_ex (\<lambda>e. ev_type e = SETTLEMENT_CONFIRMED) (events_in m rfqId) then (Inr (), m)
      else case appendEvent now rfqId (settle_event verifiedAt uuid rfqId result quoteId) m of
        (Inl e, m') \<Rightarrow> (Inl e, m')
      | (Inr _, m') \<Rightarrow> (Inr (), m'))"

definition postExecute ::
  "platform \<Rightarrow> settle_config \<Rightarrow> bool \<Rightarrow> millis \<Rightarrow> event_id \<Rightarrow> string \<Rightarrow> verification_result \<Rightarrow> manager \<Rightarrow> json res \<times> manager" where
  "postExecute P sc granted now uuid rfqId result m =
     (case withLock granted now rfqId (settle_locked now (to_iso now) uuid rfqId result (jget (vr_quote result) ''quote_id'')) m of
        (Inl e, m') \<Rightarrow> (Inl (map_settlement_error execute_other e), m')
      | (Inr _, m') \<Rightarrow>
          (Inr (JObj [(''receipt'', JObj (pick (vr_quote result) [''quote_id'', ''final_price''] @
                 opt_prop ''buyer_pubkey'' (pubkey_or_did P (sc_chain sc) (jget (vr_quote result) ''buyer'')) @
                 opt_prop ''seller_pubkey'' (pubkey_or_did P (sc_chain sc) (jget (vr_quote result) ''seller'')) @
                 [(''settled_at'', JStr (to_iso now))])),
               (''explorer_tx'', JStr (explorer_url (vr_tx_sig result) (sc_cluster sc))),
               (''settlement_ms'', JNum 0), (''delivery_status'', JStr ''pending_seller'')]), m'))"

section \<open>POST /rfqs/:id/settle-report\<close>

definition settle_report_pre ::
  "platform \<Rightarrow> settle_config \<Rightarrow> millis \<Rightarrow> string \<Rightarrow> did \<Rightarrow> json \<Rightarrow> manager \<Rightarrow> verification_result res \<times> manager" where
  "settle_report_pre P sc now rfqId callerDid body m =
     (case getSession now rfqId m of
        (Inl e, m') \<Rightarrow> (Inl e, m')
      | (Inr None, m') \<Rightarrow> (Inl (EngineError 404 ''session_not_found''), m')
      | (Inr (Some s), m') \<Rightarrow>
          (if state s \<noteq> COMMITTED then Inl (EngineError 409 ''invalid_state'')
           else if selectedSeller s \<noteq> Some callerDid then Inl (EngineError 403 ''forbidden'')
           else if body = JNull then Inl TypeError
           else if falsy (jget body ''tx_sig'') \<or> falsy (jget body ''quote_id'') then Inl (EngineError 400 ''bad_request'')
           else if quote_mismatch s (jget body ''quote_id'') then Inl (EngineError 422 ''quote_mismatch'')
           else case unsignedQuote s of
             None \<Rightarrow> Inl (EngineError 409 ''no_quote'')
           | Some _ \<Rightarrow>
               (case as_string (jget body ''tx_sig'') of
                  None \<Rightarrow> Inl (map_settlement_error report_other invalidPaymentSignature)
                | Some tx_sig \<Rightarrow>
                    (case verifySettlement P (sc_mints sc) (sc_chain sc) now
                            \<lparr>sr_quote = Some (signed_quote s (sellerSignature s)), sr_payment = tx_sig,
                             sr_usdcMint = sc_usdcMint sc, sr_cluster = sc_cluster sc\<rparr> of
                       Inl e \<Rightarrow> Inl (map_settlement_error report_other e)
                     | Inr result \<Rightarrow> Inr result)), m'))"

definition postSettleReport ::
  "bool \<Rightarrow> millis \<Rightarrow> string \<Rightarrow> event_id \<Rightarrow> string \<Rightarrow> verification_result \<Rightarrow> json option \<Rightarrow> manager \<Rightarrow> json res \<times> manager" where
  "postSettleReport granted now verifiedAt uuid rfqId result quoteId m =
     (case withLock granted now rfqId (settle_locked now verifiedAt uuid rfqId result quoteId) m of
        (Inl e, m') \<Rightarrow> (Inl (map_settlement_error report_other e), m')
      | (Inr _, m') \<Rightarrow>
          (Inr (JObj [(''settled'', JBool True), (''tx_sig'', JStr (vr_tx_sig result)),
                 (''verified_at'', JStr verifiedAt)]), m'))"

end
