(* ===== verification/Enforcer.thy ===== *)
theory Enforcer
  imports Negotiation ControlEnvelope
begin

text \<open>
  \<^verbatim>\<open>packages/engine/src/deadline-enforcer.ts\<close>: the periodic scan that expires sessions and times
  out cosigning. One iteration of the scan's loop has two parts: \<open>scan_session\<close> reads the session
  and, when something is due, starts an attempt and awaits the session's lock; \<open>run_attempt\<close> is the
  attempt's turn, when the lock has been granted or refused, at a later reading of the clock and on
  whatever the session has become. A refused attempt changes nothing; the next scan finds the
  session again. Timers and the loop that schedules the
  scan are not modelled, nor are the connections the scan closes (theory \<open>Connections\<close>).
\<close>

definition EXPIRABLE_STATES :: "session_state list" where
  "EXPIRABLE_STATES = [OPEN, NEGOTIATING, COMMIT_PENDING]"

definition DEFAULT_COSIGN_TIMEOUT_MS :: int where "DEFAULT_COSIGN_TIMEOUT_MS = 60000"
definition MIN_COSIGN_TIMEOUT_MS :: int where "MIN_COSIGN_TIMEOUT_MS = 15000"
definition MAX_COSIGN_TIMEOUT_MS :: int where "MAX_COSIGN_TIMEOUT_MS = 120000"

definition cosign_timeout :: "int option \<Rightarrow> int" where
  "cosign_timeout c =
     clamp (case c of None \<Rightarrow> DEFAULT_COSIGN_TIMEOUT_MS | Some x \<Rightarrow> x) MIN_COSIGN_TIMEOUT_MS MAX_COSIGN_TIMEOUT_MS"

definition ENFORCER :: string where "ENFORCER = ''engine/deadline-enforcer''"

text \<open>\<open>now - new Date(since).getTime() >= timeout\<close>: false when \<open>since\<close> is no date.\<close>

definition waited :: "platform \<Rightarrow> millis \<Rightarrow> int \<Rightarrow> string \<Rightarrow> bool" where
  "waited P now timeout since = (case parse_date P since of None \<Rightarrow> False | Some t \<Rightarrow> now - t \<ge> timeout)"

text \<open>The callback of \<open>tryExpire\<close>. An unreadable deadline does not stop it: \<open>Date.now() < NaN\<close> is false.\<close>

definition expire_locked :: "platform \<Rightarrow> millis \<Rightarrow> event_id \<Rightarrow> string \<Rightarrow> derived_session option \<Rightarrow> manager \<Rightarrow> unit res \<times> manager" where
  "expire_locked P now uuid rfqId so m =
     (case so of
        None \<Rightarrow> (Inr (), m)
      | Some s \<Rightarrow>
          if state s \<in> set TERMINAL_STATES then (Inr (), m)
          else if state s \<notin> set EXPIRABLE_STATES then (Inr (), m)
          else if (case parse_date P (deadline (rfq s)) of None \<Rightarrow> False | Some t \<Rightarrow> now < t) then (Inr (), m)
          else (case appendEvent now rfqId (mk_event now uuid rfqId NEGOTIATION_EXPIRED ENFORCER []) m of
                  (Inl e, m') \<Rightarrow> (Inl e, m') | (Inr _, m') \<Rightarrow> (Inr (), m')))"

text \<open>\<open>if (e instanceof SessionBusyError) return; throw e\<close>.\<close>

definition unless_busy :: "unit res \<times> manager \<Rightarrow> unit res \<times> manager" where
  "unless_busy rm = (case rm of (Inl SessionBusyError, m) \<Rightarrow> (Inr (), m) | other \<Rightarrow> other)"

definition tryExpire :: "platform \<Rightarrow> bool \<Rightarrow> millis \<Rightarrow> event_id \<Rightarrow> string \<Rightarrow> manager \<Rightarrow> unit res \<times> manager" where
  "tryExpire P granted now uuid rfqId m = unless_busy (withLock granted now rfqId (expire_locked P now uuid rfqId) m)"

definition timeout_locked ::
  "platform \<Rightarrow> int \<Rightarrow> millis \<Rightarrow> event_id \<Rightarrow> string \<Rightarrow> derived_session option \<Rightarrow> manager \<Rightarrow> unit res \<times> manager" where
  "timeout_locked P timeout now uuid rfqId so m =
     (case so of
        None \<Rightarrow> (Inr (), m)
      | Some s \<Rightarrow>
          if state s \<noteq> COMMIT_PENDING then (Inr (), m)
          else case commitPendingAt s of
            None \<Rightarrow> (Inr (), m)
          | Some since \<Rightarrow>
              if since = [] then (Inr (), m)
              else if (case parse_date P since of None \<Rightarrow> False | Some t \<Rightarrow> now - t < timeout) then (Inr (), m)
              else case selectedSeller s of
                None \<Rightarrow> (Inr (), m)
              | Some d \<Rightarrow>
                  if d = [] then (Inr (), m)
                  else (case appendEvent now rfqId
                               (mk_event now uuid rfqId COSIGN_TIMEOUT ENFORCER [(''seller'', JStr d)]) m of
                          (Inl e, m') \<Rightarrow> (Inl e, m') | (Inr _, m') \<Rightarrow> (Inr (), m')))"

definition tryCosignTimeout :: "platform \<Rightarrow> int \<Rightarrow> bool \<Rightarrow> millis \<Rightarrow> event_id \<Rightarrow> string \<Rightarrow> manager \<Rightarrow> unit res \<times> manager" where
  "tryCosignTimeout P timeout granted now uuid rfqId m =
     unless_busy (withLock granted now rfqId (timeout_locked P timeout now uuid rfqId) m)"

text \<open>What the scan decides for one session.\<close>

datatype scan_action = NoAction | CleanUp | Expire | TimeOutCosign

definition scan_action_of :: "platform \<Rightarrow> int \<Rightarrow> millis \<Rightarrow> derived_session \<Rightarrow> scan_action" where
  "scan_action_of P timeout now s =
     (if state s \<in> set TERMINAL_STATES then CleanUp
      else if state s \<in> set EXPIRABLE_STATES \<and> time_passed P now (deadline (rfq s)) then Expire
      else if state s = COMMIT_PENDING \<and>
              (case commitPendingAt s of None \<Rightarrow> False | Some since \<Rightarrow> waited P now timeout since) then TimeOutCosign
      else NoAction)"

text \<open>
  The scan's loop is sequential: while an attempt awaits a lock the scan is suspended, and scans
  do not overlap. \<open>en_attempt\<close> is the attempt the scan is suspended on.
\<close>

datatype attempt = ExpireSession string | TimeOutSession string

record enforcer =
  en_cleaned :: "string list"
  en_attempt :: "attempt option"

text \<open>
  One iteration up to its await, for a session not yet cleaned up. \<open>removal\<close> is what \<open>removeLock\<close>
  finds. An error in reading the session is swallowed.
\<close>

definition scan_session ::
  "platform \<Rightarrow> int \<Rightarrow> millis \<Rightarrow> lock_removal \<Rightarrow> string \<Rightarrow> enforcer \<Rightarrow> manager \<Rightarrow> enforcer \<times> manager" where
  "scan_session P timeout now removal rfqId en m =
     (if rfqId \<in> set (en_cleaned en) then (en, m)
      else case getSession now rfqId m of
        (Inl _, m1) \<Rightarrow> (en, m1)
      | (Inr None, m1) \<Rightarrow> (en, m1)
      | (Inr (Some s), m1) \<Rightarrow>
          (case scan_action_of P timeout now s of
             NoAction \<Rightarrow> (en, m1)
           | CleanUp \<Rightarrow>
               (if removal \<noteq> LockKept then en\<lparr>en_cleaned := en_cleaned en @ [rfqId]\<rparr> else en,
                drop_cache removal rfqId m1)
           | Expire \<Rightarrow> (en\<lparr>en_attempt := Some (ExpireSession rfqId)\<rparr>, m1)
           | TimeOutCosign \<Rightarrow> (en\<lparr>en_attempt := Some (TimeOutSession rfqId)\<rparr>, m1)))"

text \<open>
  The rest of the iteration: the attempt's turn. Its errors are swallowed too, and the scan goes on.
\<close>

definition run_attempt ::
  "platform \<Rightarrow> int \<Rightarrow> bool \<Rightarrow> millis \<Rightarrow> event_id \<Rightarrow> enforcer \<Rightarrow> manager \<Rightarrow> enforcer \<times> manager" where
  "run_attempt P timeout granted now uuid en m =
     (case en_attempt en of
        None \<Rightarrow> (en, m)
      | Some (ExpireSession rfqId) \<Rightarrow> (en\<lparr>en_attempt := None\<rparr>, snd (tryExpire P granted now uuid rfqId m))
      | Some (TimeOutSession rfqId) \<Rightarrow>
          (en\<lparr>en_attempt := None\<rparr>, snd (tryCosignTimeout P timeout granted now uuid rfqId m)))"

text \<open>The end of a scan: tombstones, stale cache entries, and the bound on the cleaned set.\<close>

definition bound_cleaned :: "enforcer \<Rightarrow> enforcer" where
  "bound_cleaned en =
     (if length (en_cleaned en) > 10000 then en\<lparr>en_cleaned := drop (length (en_cleaned en) div 2) (en_cleaned en)\<rparr>
      else en)"

definition scan_end :: "millis \<Rightarrow> enforcer \<Rightarrow> tombstones \<Rightarrow> manager \<Rightarrow> enforcer \<times> tombstones \<times> manager" where
  "scan_end now en tb m = (bound_cleaned en, sweep now tb, evictStaleCache now 300000 m)"

end
