(* ===== verification/Protocol.thy ===== *)
theory Protocol
  imports SettlementRoutes Enforcer
begin

text \<open>
  The abstract specification of what the engine records: which events may extend the log of a
  session, and with what evidence. \<open>event_legal\<close> states the conditions in terms of the session
  before the event and of the event itself, so that a reader of the log can check the signed
  parts again; \<open>legal_log\<close> is the set of logs built that way. The locale \<open>legal_invariant\<close>
  lifts a fact kept by one legal event to all legal logs. Theory \<open>Engine\<close> shows that the
  engine only ever holds legal logs.
\<close>

section \<open>Legal events\<close>

text \<open>The recorded fields \<open>ks\<close> of the event carry its actor's signature.\<close>

definition self_signed :: "platform \<Rightarrow> string list \<Rightarrow> negotiation_event \<Rightarrow> bool" where
  "self_signed P ks e \<longleftrightarrow>
     (\<exists>sig. map_of (ev_payload e) ''signature'' = Some (JStr sig) \<and>
        signed_by P (objectSigningPayload P (pick (JObj (ev_payload e)) ks)) sig (ev_actor e))"

text \<open>A session is created by the buyer it names, under that buyer's signature.\<close>

definition created_legal :: "platform \<Rightarrow> negotiation_event \<Rightarrow> bool" where
  "created_legal P e \<longleftrightarrow> self_signed P rfq_fields e \<and> map_of (ev_payload e) ''buyer'' = Some (JStr (ev_actor e))"

text \<open>A control envelope for this session, signed by \<open>d\<close>, on the session's last event.\<close>

definition envelope_for :: "platform \<Rightarrow> string \<Rightarrow> derived_session \<Rightarrow> did \<Rightarrow> string \<Rightarrow> control_envelope \<Rightarrow> bool" where
  "envelope_for P r s d act v \<longleftrightarrow>
     envelope_signed P v d \<and> env_action v = act \<and> env_rfq v = r \<and> env_revision v = lastEventId s"

definition quote_signed_by :: "platform \<Rightarrow> derived_session \<Rightarrow> string \<Rightarrow> did \<Rightarrow> bool" where
  "quote_signed_by P s sig d \<longleftrightarrow>
     (\<exists>q. unsignedQuote s = Some q \<and> signed_by P (quoteSigningPayload P (quote_fields_of q)) sig d)"

text \<open>The offer names a listing of its seller, and its payment endpoint is that listing's.\<close>

definition offer_listed :: "listing_store \<Rightarrow> negotiation_event \<Rightarrow> bool" where
  "offer_listed store e \<longleftrightarrow>
     (\<exists>i l. map_of (ev_payload e) ''listing_id'' = Some (JStr i) \<and> map_of store i = Some l \<and>
        map_of l ''seller'' = Some (JStr (ev_actor e)) \<and> map_of (ev_payload e) ''payment_endpoint'' \<noteq> None \<and>
        map_of (ev_payload e) ''payment_endpoint'' = map_of l ''payment_endpoint'')"

definition offer_legal :: "platform \<Rightarrow> listing_store \<Rightarrow> derived_session \<Rightarrow> negotiation_event \<Rightarrow> bool" where
  "offer_legal P store s e \<longleftrightarrow>
     self_signed P offer_fields e \<and>
     (\<forall>o' \<in> set (offers s). map_of (ev_payload e) ''offer_id'' \<noteq> Some (JStr (o_offer_id o'))) \<and>
     totalOfferCount s < MAX_OFFERS_PER_SESSION \<and>
     count_get (offerCountBySeller s) (ev_actor e) < MAX_OFFERS_PER_SELLER \<and> offer_listed store e"

text \<open>
  Where the RFQ commits to a budget, the counter carries a proof that the verifier accepted for
  the price in base units and that commitment.
\<close>

definition counter_proved :: "mint_table \<Rightarrow> zk_verifier \<Rightarrow> session_rfq \<Rightarrow> negotiation_event \<Rightarrow> bool" where
  "counter_proved mints zk rq e \<longleftrightarrow>
     (has_commitment rq \<longrightarrow>
        (\<exists>price mint scaled pr. map_of (ev_payload e) ''price'' = Some (JStr price) \<and> mintFor (currency rq) = Inr mint \<and>
           normalizeAmount mints price mint = Inr scaled \<and> map_of (ev_payload e) ''budget_proof'' = Some pr \<and>
           zk pr scaled (the (budget_commitment rq))))"

definition counter_legal :: "platform \<Rightarrow> mint_table \<Rightarrow> zk_verifier \<Rightarrow> derived_session \<Rightarrow> negotiation_event \<Rightarrow> bool" where
  "counter_legal P mints zk s e \<longleftrightarrow>
     self_signed P counter_fields e \<and> counter_proved mints zk (rfq s) e \<and>
     (\<forall>c \<in> set (counters s). map_of (ev_payload e) ''counter_id'' \<noteq> Some (JStr (c_counter_id c))) \<and>
     (\<exists>q. map_of (ev_payload e) ''round'' = Some (JNum q) \<and> 0 < q \<and> (\<forall>c \<in> set (counters s). c_round c < q))"

definition winner_legal ::
  "platform \<Rightarrow> mint_table \<Rightarrow> int option \<Rightarrow> millis \<Rightarrow> string \<Rightarrow> derived_session \<Rightarrow> negotiation_event \<Rightarrow> bool" where
  "winner_legal P mints window now r s e \<longleftrightarrow>
     (\<exists>v offer q qid rnd.
        envelope_for P r s (buyer (rfq s)) ''accept'' v \<and>
        map_of (env_payload v) ''seller'' = Some (JStr (o_seller offer)) \<and>
        map_of (env_payload v) ''offer_id'' = Some (JStr (o_offer_id offer)) \<and>
        offer \<in> set (offers s) \<and> \<not> time_passed P now (o_valid_until offer) \<and>
        totalAcceptAttempts s < MAX_ACCEPTS_PER_SESSION \<and>
        count_get (acceptAttemptsBySeller s) (o_seller offer) < MAX_ACCEPTS_PER_SELLER \<and>
        accept_quote P mints window now qid rnd (o_offer_id offer) s = Inr q \<and>
        ev_payload e = [(''seller'', JStr (o_seller offer)), (''offer_id'', JStr (o_offer_id offer)),
                        (''quote'', JObj (winner_quote q))])"

text \<open>
  Offers, counters, accepts and declines are stamped before the deadline, which is checked in the
  same synchronous section. A signature is checked to be in time before its event is stamped, with an await in
  between, so its stamp promises nothing; that a late signature is refused is a fact of the route
  (\<open>late_turn\<close> in theory \<open>Atomicity\<close>).
\<close>

definition timed_events :: "event_type set" where
  "timed_events = {OFFER_SUBMITTED, COUNTER_SENT, WINNER_SELECTED, COSIGN_DECLINED}"

declare timed_events_def [simp]

definition event_legal ::
  "platform \<Rightarrow> mint_table \<Rightarrow> zk_verifier \<Rightarrow> int option \<Rightarrow> int \<Rightarrow> listing_store \<Rightarrow> string \<Rightarrow> negotiation_event list \<Rightarrow> derived_session \<Rightarrow>
   negotiation_event \<Rightarrow> bool" where
  "event_legal P mints zk window timeout store r es s e \<longleftrightarrow>
     (\<exists>now. ev_time e = to_iso now \<and>
        (ev_type e \<in> timed_events \<longrightarrow> \<not> time_passed P now (deadline (rfq s))) \<and>
        (case ev_type e of
           OFFER_SUBMITTED \<Rightarrow> offer_legal P store s e
         | COUNTER_SENT \<Rightarrow> counter_legal P mints zk s e
         | WINNER_SELECTED \<Rightarrow> winner_legal P mints window now r s e
         | QUOTE_SIGNED \<Rightarrow>
             buyerSignature s = None \<and>
             (\<exists>sig. map_of (ev_payload e) ''buyer_signature'' = Some (JStr sig) \<and>
                quote_signed_by P s sig (buyer (rfq s)))
         | QUOTE_COMMITTED \<Rightarrow>
             buyerSignature s \<noteq> None \<and>
             (\<exists>sig. map_of (ev_payload e) ''seller_signature'' = Some (JStr sig) \<and> quote_signed_by P s sig (ev_actor e))
         | COSIGN_DECLINED \<Rightarrow> (\<exists>v. envelope_for P r s (ev_actor e) ''decline'' v)
         | COSIGN_TIMEOUT \<Rightarrow>
             (\<exists>since. commitPendingAt s = Some since \<and>
                (\<forall>t. parse_date P since = Some t \<longrightarrow> timeout \<le> now - t))
         | NEGOTIATION_EXPIRED \<Rightarrow> (\<forall>t. parse_date P (deadline (rfq s)) = Some t \<longrightarrow> t \<le> now)
         | SETTLEMENT_CONFIRMED \<Rightarrow> events_of SETTLEMENT_CONFIRMED es = []
         | _ \<Rightarrow> False))"

inductive legal_log ::
  "platform \<Rightarrow> mint_table \<Rightarrow> zk_verifier \<Rightarrow> int option \<Rightarrow> int \<Rightarrow> listing_store \<Rightarrow> string \<Rightarrow> negotiation_event list \<Rightarrow> bool"
  for P mints zk window timeout store r where
  empty: "legal_log P mints zk window timeout store r []"
| created: "init_session e = Inr s \<Longrightarrow> created_legal P e \<Longrightarrow> ev_rfq e = r \<Longrightarrow>
     legal_log P mints zk window timeout store r [e]"
| extended: "legal_log P mints zk window timeout store r es \<Longrightarrow> deriveState es = Inr (Some s) \<Longrightarrow>
     event_legal P mints zk window timeout store r es s e \<Longrightarrow> ev_rfq e = r \<Longrightarrow> apply_event s e = Inr s' \<Longrightarrow>
     legal_log P mints zk window timeout store r (es @ [e])"

lemma legal_log_derives:
  "legal_log P mints zk window timeout store r es \<Longrightarrow> es \<noteq> [] \<Longrightarrow> \<exists>s. deriveState es = Inr (Some s)"
proof (induction rule: legal_log.induct)
  case (created e s)
  then show ?case by (simp add: deriveState_def)
next
  case (extended es s e s')
  then have "es \<noteq> []" by auto
  then show ?case using extended by (simp add: deriveState_snoc)
qed simp

text \<open>Listings are only ever added, and a legal log stays legal.\<close>

lemma offer_listed_mono: "offer_listed store e \<Longrightarrow> map_of store \<subseteq>\<^sub>m map_of store' \<Longrightarrow> offer_listed store' e"
  unfolding offer_listed_def map_le_def by (metis domI)

lemma event_legal_mono:
  "event_legal P mints zk window timeout store r es s e \<Longrightarrow> map_of store \<subseteq>\<^sub>m map_of store' \<Longrightarrow>
   event_legal P mints zk window timeout store' r es s e"
  unfolding event_legal_def offer_legal_def
  by (cases "ev_type e") (auto simp: offer_listed_mono)

lemma legal_log_mono:
  assumes "legal_log P mints zk window timeout store r es" "map_of store \<subseteq>\<^sub>m map_of store'"
  shows "legal_log P mints zk window timeout store' r es"
  using assms
proof (induction rule: legal_log.induct)
  case (extended es s e s')
  then show ?case using event_legal_mono by (blast intro: legal_log.extended)
qed (auto intro: legal_log.intros)

locale legal_invariant =
  fixes P :: platform and mints :: mint_table and zk :: zk_verifier and window :: "int option" and timeout :: int
    and store :: listing_store and r :: string
    and inv :: "negotiation_event list \<Rightarrow> derived_session \<Rightarrow> bool"
  assumes inv_init: "init_session e = Inr s \<Longrightarrow> created_legal P e \<Longrightarrow> inv [e] s"
    and inv_step: "inv es s \<Longrightarrow> deriveState es = Inr (Some s) \<Longrightarrow>
      event_legal P mints zk window timeout store r es s e \<Longrightarrow> apply_event s e = Inr s' \<Longrightarrow> inv (es @ [e]) s'"
begin

lemma legal: "legal_log P mints zk window timeout store r es \<Longrightarrow> deriveState es = Inr (Some s) \<Longrightarrow> inv es s"
proof (induction arbitrary: s rule: legal_log.induct)
  case (created e s0)
  then have "s0 = s" by (simp add: deriveState_def)
  then show ?case using inv_init created by blast
next
  case (extended es s0 e s')
  have "apply_event s0 e = Inr s" using deriveState_snocD extended by blast
  then show ?case using inv_step extended by blast
qed (simp add: deriveState_def)

end

section \<open>Limits and freshness\<close>

definition within_limits :: "derived_session \<Rightarrow> bool" where
  "within_limits s \<longleftrightarrow>
     length (offers s) \<le> MAX_OFFERS_PER_SESSION \<and>
     (\<forall>d. length (filter (\<lambda>o'. o_seller o' = d) (offers s)) \<le> MAX_OFFERS_PER_SELLER) \<and>
     totalAcceptAttempts s \<le> MAX_ACCEPTS_PER_SESSION \<and>
     (\<forall>d. count_get (acceptAttemptsBySeller s) d \<le> MAX_ACCEPTS_PER_SELLER)"

definition fresh_ids :: "derived_session \<Rightarrow> bool" where
  "fresh_ids s \<longleftrightarrow>
     distinct (map o_offer_id (offers s)) \<and> distinct (map c_counter_id (counters s)) \<and>
     sorted_wrt (<) (map c_round (counters s)) \<and> (\<forall>c \<in> set (counters s). 0 < c_round c)"

lemma apply_event_accepts:
  "apply_event s e = Inr s' \<Longrightarrow> ev_type e \<noteq> WINNER_SELECTED \<Longrightarrow>
   totalAcceptAttempts s' = totalAcceptAttempts s \<and> acceptAttemptsBySeller s' = acceptAttemptsBySeller s"
  by (erule apply_event_cases) (auto simp: session_simps)

lemma apply_offer_event:
  assumes "apply_event s e = Inr s'" "ev_type e = OFFER_SUBMITTED"
  shows "\<exists>o'. offers s' = offers s @ [o'] \<and> o_seller o' = ev_actor e \<and>
     map_of (ev_payload e) ''offer_id'' = Some (JStr (o_offer_id o'))"
  using assms by (cases rule: apply_event_cases) (auto simp: session_simps)

lemma apply_counter_event:
  assumes "apply_event s e = Inr s'" "ev_type e = COUNTER_SENT"
  shows "\<exists>c. counters s' = counters s @ [c] \<and> map_of (ev_payload e) ''counter_id'' = Some (JStr (c_counter_id c)) \<and>
     map_of (ev_payload e) ''round'' = Some (JNum (c_round c))"
  using assms by (cases rule: apply_event_cases) (auto simp: session_simps)

lemma apply_winner_event:
  assumes "apply_event s e = Inr s'" "ev_type e = WINNER_SELECTED"
  shows "\<exists>d. map_of (ev_payload e) ''seller'' = Some (JStr d) \<and> totalAcceptAttempts s' = totalAcceptAttempts s + 1 \<and>
     acceptAttemptsBySeller s' = count_inc (acceptAttemptsBySeller s) d"
  using assms by (cases rule: apply_event_cases) (auto simp: session_simps)

lemma within_limits_step:
  assumes ok: "within_limits s" and d: "deriveState es = Inr (Some s)"
    and l: "event_legal P mints zk window timeout store r es s e" and a: "apply_event s e = Inr s'"
  shows "within_limits s'"
proof -
  have b: "bookkeeping es s" using d by (rule book.derived)
  consider "ev_type e = OFFER_SUBMITTED" | "ev_type e = WINNER_SELECTED"
    | "ev_type e \<noteq> OFFER_SUBMITTED" "ev_type e \<noteq> WINNER_SELECTED" by blast
  then show ?thesis
  proof cases
    case 1
    then have "offer_legal P store s e" using l by (auto simp: event_legal_def)
    then have "length (offers s) < MAX_OFFERS_PER_SESSION"
      "length (filter (\<lambda>o'. o_seller o' = ev_actor e) (offers s)) < MAX_OFFERS_PER_SELLER"
      using b by (simp_all add: offer_legal_def bookkeeping_def)
    then show ?thesis using ok apply_offer_event[OF a 1] apply_event_accepts[OF a] 1
      by (auto simp: within_limits_def)
  next
    case 2
    then have "\<exists>d. map_of (ev_payload e) ''seller'' = Some (JStr d) \<and> totalAcceptAttempts s < MAX_ACCEPTS_PER_SESSION \<and>
        count_get (acceptAttemptsBySeller s) d < MAX_ACCEPTS_PER_SELLER"
      using l by (auto simp: event_legal_def winner_legal_def)
    then show ?thesis using ok apply_winner_event[OF a 2] apply_event_offers[OF a] 2
      by (auto simp: within_limits_def)
  next
    case 3
    then show ?thesis using ok apply_event_offers[OF a] apply_event_accepts[OF a] by (simp add: within_limits_def)
  qed
qed

lemma fresh_ids_step:
  assumes ok: "fresh_ids s" and l: "event_legal P mints zk window timeout store r es s e" and a: "apply_event s e = Inr s'"
  shows "fresh_ids s'"
proof -
  consider "ev_type e = OFFER_SUBMITTED" | "ev_type e = COUNTER_SENT"
    | "ev_type e \<noteq> OFFER_SUBMITTED" "ev_type e \<noteq> COUNTER_SENT" by blast
  then show ?thesis
  proof cases
    case 1
    then have "offer_legal P store s e" using l by (auto simp: event_legal_def)
    then show ?thesis using ok apply_offer_event[OF a 1] apply_event_counters[OF a] 1
      by (auto simp: fresh_ids_def offer_legal_def)
  next
    case 2
    then have "counter_legal P mints zk s e" using l by (auto simp: event_legal_def)
    then show ?thesis using ok apply_counter_event[OF a 2] apply_event_offers[OF a] 2
      by (auto simp: fresh_ids_def counter_legal_def sorted_wrt_append)
  next
    case 3
    then show ?thesis using ok apply_event_offers[OF a] apply_event_counters[OF a] by (simp add: fresh_ids_def)
  qed
qed

lemma limits_init: "init_session e = Inr s \<Longrightarrow> within_limits s \<and> fresh_ids s"
  by (auto simp: init_session_def Let_def within_limits_def fresh_ids_def split: if_splits)

interpretation limits: legal_invariant P mints zk window timeout store r "\<lambda>_ s. within_limits s \<and> fresh_ids s"
  for P mints zk window timeout store r
  by unfold_locales (auto simp: limits_init intro: within_limits_step fresh_ids_step)

section \<open>The committed quote\<close>

text \<open>The quote restates the selected offer, for the session's buyer, and ends by the deadline.\<close>

definition quote_for :: "platform \<Rightarrow> derived_session \<Rightarrow> recorded_offer \<Rightarrow> (string \<times> json) list \<Rightarrow> bool" where
  "quote_for P s o' q \<longleftrightarrow>
     map_of q ''rfq_id'' = Some (JStr (rfq_id (rfq s))) \<and>
     map_of q ''buyer'' = Some (JStr (buyer (rfq s))) \<and>
     map_of q ''seller'' = Some (JStr (o_seller o')) \<and>
     map_of q ''final_price'' = Some (JStr (o_price o')) \<and>
     map_of q ''currency'' = Some (JStr (o_currency o')) \<and>
     map_of q ''payment_endpoint'' = Some (JStr (o_payment_endpoint o')) \<and>
     map_of q ''memo_policy'' = Some (JStr ''quote_id_required'') \<and>
     (\<exists>t d. map_of q ''expires_at'' = Some (JStr (to_iso t)) \<and>
        parse_date P (deadline (rfq s)) = Some d \<and> t \<le> d)"

definition quote_inv :: "platform \<Rightarrow> derived_session \<Rightarrow> bool" where
  "quote_inv P s \<longleftrightarrow>
     (state s \<in> {COMMIT_PENDING, COMMITTED} \<longrightarrow>
        (\<exists>o' q. o' \<in> set (offers s) \<and> selectedOfferId s = Some (o_offer_id o') \<and>
           selectedSeller s = Some (o_seller o') \<and> unsignedQuote s = Some (JObj q) \<and> quote_for P s o' q)) \<and>
     (\<forall>sig. buyerSignature s = Some sig \<longrightarrow> quote_signed_by P s sig (buyer (rfq s))) \<and>
     (\<forall>sig. sellerSignature s = Some sig \<longrightarrow>
        (\<exists>d. selectedSeller s = Some d \<and> quote_signed_by P s sig d)) \<and>
     (state s = COMMITTED \<longrightarrow> buyerSignature s \<noteq> None \<and> sellerSignature s \<noteq> None)"

lemma winner_quote_lookup:
  assumes "k \<in> set [''quote_id'', ''rfq_id'', ''buyer'', ''seller'', ''service_type'', ''final_price'', ''currency'',
       ''payment_endpoint'', ''expires_at'', ''nonce'', ''memo_policy'']"
    "k \<noteq> ''buyer_signature''" "k \<noteq> ''seller_signature''" "k \<noteq> ''spec_hash''"
  shows "map_of (winner_quote q) k = map_of q k"
proof -
  define ks where "ks = [''quote_id'', ''rfq_id'', ''buyer'', ''seller'', ''service_type'', ''final_price'', ''currency'',
       ''payment_endpoint'', ''expires_at'', ''nonce'', ''memo_policy'']"
  show ?thesis using assms unfolding winner_quote_def ks_def[symmetric]
    by (simp add: map_add_def split: option.splits)
qed

lemma accept_quote_for:
  assumes "accept_quote P mints window now qid rnd oi s = Inr q" "find (\<lambda>x. o_offer_id x = oi) (offers s) = Some o'"
  shows "quote_for P s o' (winner_quote q)"
proof -
  obtain iso iso0 d where q: "q = spread_set ([(''quote_id'', JStr qid), (''rfq_id'', JStr (rfq_id (rfq s))),
      (''buyer'', JStr (buyer (rfq s))), (''seller'', JStr (o_seller o')), (''service_type'', JStr (service_type (rfq s))),
      (''final_price'', JStr (o_price o')), (''currency'', JStr (o_currency o')),
      (''payment_endpoint'', JStr (o_payment_endpoint o')), (''expires_at'', JStr iso0), (''nonce'', JStr (make_nonce rnd)),
      (''memo_policy'', JStr ''quote_id_required''), (''buyer_signature'', JStr []), (''seller_signature'', JStr [])] @
      opt_prop ''spec_hash'' (map_option JStr (spec_hash_of P (rfq s)))) ''expires_at'' (JStr iso)"
    and d: "parse_date P (deadline (rfq s)) = Some d" "iso = to_iso (min d (now + settlement_window window))"
    using assms by (auto simp: accept_quote_def buildQuoteFromSession_def buildUnsignedQuote_def to_iso_string_def
        split: option.splits if_splits)
  have f: "map_of (winner_quote q) ''rfq_id'' = Some (JStr (rfq_id (rfq s)))"
    "map_of (winner_quote q) ''buyer'' = Some (JStr (buyer (rfq s)))"
    "map_of (winner_quote q) ''seller'' = Some (JStr (o_seller o'))"
    "map_of (winner_quote q) ''final_price'' = Some (JStr (o_price o'))"
    "map_of (winner_quote q) ''currency'' = Some (JStr (o_currency o'))"
    "map_of (winner_quote q) ''payment_endpoint'' = Some (JStr (o_payment_endpoint o'))"
    "map_of (winner_quote q) ''memo_policy'' = Some (JStr ''quote_id_required'')"
    "map_of (winner_quote q) ''expires_at'' = Some (JStr iso)"
    by (simp_all add: winner_quote_lookup q)
  show ?thesis unfolding quote_for_def f using d
    by (intro conjI HOL.refl exI[of _ "min d (now + settlement_window window)"] exI[of _ d]) simp_all
qed

lemma apply_keeps_quote:
  assumes "apply_event s e = Inr s'" "ev_type e \<notin> {WINNER_SELECTED, COSIGN_DECLINED, COSIGN_TIMEOUT}"
  shows "unsignedQuote s' = unsignedQuote s" "selectedSeller s' = selectedSeller s"
    "selectedOfferId s' = selectedOfferId s" "rfq s' = rfq s" "set (offers s) \<subseteq> set (offers s')"
  using assms by (auto elim!: apply_event_cases simp: session_simps)

lemma quote_signed_by_cong: "unsignedQuote s' = unsignedQuote s \<Longrightarrow> quote_signed_by P s' = quote_signed_by P s"
  by (simp add: quote_signed_by_def fun_eq_iff)

lemma quote_for_cong: "rfq s' = rfq s \<Longrightarrow> quote_for P s' = quote_for P s"
  by (simp add: quote_for_def fun_eq_iff)

lemma quote_inv_winner:
  assumes l: "event_legal P mints zk window timeout store r es s e" and a: "apply_event s e = Inr s'"
    and w: "ev_type e = WINNER_SELECTED"
  shows "quote_inv P s'"
proof -
  obtain now q qid rnd and offer :: recorded_offer where q: "accept_quote P mints window now qid rnd (o_offer_id offer) s = Inr q"
    and pl: "ev_payload e = [(''seller'', JStr (o_seller offer)), (''offer_id'', JStr (o_offer_id offer)),
       (''quote'', JObj (winner_quote q))]"
  proof -
    have "\<exists>now. winner_legal P mints window now r s e" using l w by (auto simp: event_legal_def)
    then show thesis unfolding winner_legal_def by (elim exE conjE) (rule that; assumption)
  qed
  obtain mo where mo: "find (\<lambda>x. o_offer_id x = o_offer_id offer) (offers s) = Some mo" "o_seller mo = o_seller offer"
    and s': "offers s' = offers s" "rfq s' = rfq s" "selectedSeller s' = Some (o_seller mo)"
      "selectedOfferId s' = Some (o_offer_id offer)" "unsignedQuote s' = Some (JObj (winner_quote q))"
      "buyerSignature s' = None" "sellerSignature s' = None" "state s' = COMMIT_PENDING"
    using a w pl by (auto elim!: apply_event_cases simp: session_simps)
  have "mo \<in> set (offers s)" "o_offer_id mo = o_offer_id offer" using mo(1) by (auto simp: find_Some_iff)
  then show ?thesis using s' accept_quote_for[OF q mo(1)]
    by (auto simp: quote_inv_def quote_for_cong[OF s'(2)] intro!: bexI exI[of _ mo])
qed

lemma apply_signed_event:
  assumes "apply_event s e = Inr s'" "ev_type e = QUOTE_SIGNED"
  shows "state s = COMMIT_PENDING \<and> (\<exists>sig. map_of (ev_payload e) ''buyer_signature'' = Some (JStr sig) \<and>
     s' = (entered s e COMMIT_PENDING)\<lparr>buyerSignature := Some sig\<rparr>)"
  using assms by (cases rule: apply_event_cases) (auto simp: session_simps)

lemma apply_committed_event:
  assumes "apply_event s e = Inr s'" "ev_type e = QUOTE_COMMITTED"
  shows "state s = COMMIT_PENDING \<and> selectedSeller s = Some (ev_actor e) \<and>
     (\<exists>sig. map_of (ev_payload e) ''seller_signature'' = Some (JStr sig) \<and>
        s' = (entered s e COMMITTED)\<lparr>sellerSignature := Some sig\<rparr>)"
  using assms by (cases rule: apply_event_cases) (auto simp: session_simps)

lemma quote_inv_signed:
  assumes ok: "quote_inv P s" and l: "event_legal P mints zk window timeout store r es s e" and a: "apply_event s e = Inr s'"
    and t: "ev_type e = QUOTE_SIGNED"
  shows "quote_inv P s'"
proof -
  obtain sig where st: "state s = COMMIT_PENDING" and pl: "map_of (ev_payload e) ''buyer_signature'' = Some (JStr sig)"
    and s': "s' = (entered s e COMMIT_PENDING)\<lparr>buyerSignature := Some sig\<rparr>"
    using apply_signed_event[OF a t] by blast
  have "quote_signed_by P s sig (buyer (rfq s))" using l t pl by (auto simp: event_legal_def)
  then show ?thesis using ok st by (simp add: s' quote_inv_def quote_for_def quote_signed_by_def)
qed

lemma quote_inv_committed:
  assumes ok: "quote_inv P s" and l: "event_legal P mints zk window timeout store r es s e" and a: "apply_event s e = Inr s'"
    and t: "ev_type e = QUOTE_COMMITTED"
  shows "quote_inv P s'"
proof -
  obtain sig where st: "state s = COMMIT_PENDING" and sel: "selectedSeller s = Some (ev_actor e)"
    and pl: "map_of (ev_payload e) ''seller_signature'' = Some (JStr sig)"
    and s': "s' = (entered s e COMMITTED)\<lparr>sellerSignature := Some sig\<rparr>"
    using apply_committed_event[OF a t] by blast
  have "quote_signed_by P s sig (ev_actor e)" "buyerSignature s \<noteq> None" using l t pl by (auto simp: event_legal_def)
  then show ?thesis using ok st sel by (simp add: s' quote_inv_def quote_for_def quote_signed_by_def)
qed

lemma apply_rollback_event:
  assumes "apply_event s e = Inr s'" "ev_type e = COSIGN_DECLINED \<or> ev_type e = COSIGN_TIMEOUT"
  shows "state s' = NEGOTIATING \<and> buyerSignature s' = None \<and> sellerSignature s' = None"
  using assms by (cases rule: apply_event_cases) (auto simp: session_simps)

lemma quote_inv_step:
  assumes ok: "quote_inv P s" and l: "event_legal P mints zk window timeout store r es s e" and a: "apply_event s e = Inr s'"
  shows "quote_inv P s'"
proof -
  consider "ev_type e = WINNER_SELECTED" | "ev_type e = QUOTE_SIGNED" | "ev_type e = QUOTE_COMMITTED"
    | "ev_type e = COSIGN_DECLINED \<or> ev_type e = COSIGN_TIMEOUT"
    | "ev_type e \<notin> {WINNER_SELECTED, QUOTE_SIGNED, QUOTE_COMMITTED, COSIGN_DECLINED, COSIGN_TIMEOUT}" by auto
  then show ?thesis
  proof cases
    case 1
    then show ?thesis using quote_inv_winner[OF l a] by blast
  next
    case 2
    then show ?thesis using quote_inv_signed[OF ok l a] by blast
  next
    case 3
    then show ?thesis using quote_inv_committed[OF ok l a] by blast
  next
    case 4
    then show ?thesis using apply_rollback_event[OF a] by (simp add: quote_inv_def)
  next
    case 5
    have keep: "unsignedQuote s' = unsignedQuote s" "selectedSeller s' = selectedSeller s"
      "selectedOfferId s' = selectedOfferId s" "rfq s' = rfq s" "set (offers s) \<subseteq> set (offers s')"
      using apply_keeps_quote[OF a] 5 by simp_all
    have sigs: "buyerSignature s' = buyerSignature s" "sellerSignature s' = sellerSignature s"
      and st: "state s' \<in> {COMMIT_PENDING, COMMITTED} \<Longrightarrow> state s' = state s"
      using a 5 by (auto elim!: apply_event_cases simp: session_simps)
    have sel: "\<exists>o' q. o' \<in> set (offers s') \<and> selectedOfferId s' = Some (o_offer_id o') \<and>
        selectedSeller s' = Some (o_seller o') \<and> unsignedQuote s' = Some (JObj q) \<and> quote_for P s' o' q"
      if "state s' \<in> {COMMIT_PENDING, COMMITTED}"
    proof -
      have "state s \<in> {COMMIT_PENDING, COMMITTED}" using st[OF that] that by simp
      then obtain o' q where "o' \<in> set (offers s)" "selectedOfferId s = Some (o_offer_id o')"
        "selectedSeller s = Some (o_seller o')" "unsignedQuote s = Some (JObj q)" "quote_for P s o' q"
        using ok unfolding quote_inv_def by blast
      then show ?thesis using keep by (intro exI[of _ o'] exI[of _ q]) (auto simp: quote_for_cong[OF keep(4)])
    qed
    have "buyerSignature s' \<noteq> None \<and> sellerSignature s' \<noteq> None" if "state s' = COMMITTED"
      using ok st that sigs by (simp add: quote_inv_def)
    then show ?thesis using ok sel keep sigs unfolding quote_inv_def quote_signed_by_cong[OF keep(1)] by auto
  qed
qed

lemma quote_inv_init: "init_session e = Inr s \<Longrightarrow> quote_inv P s"
  by (auto simp: init_session_def Let_def quote_inv_def split: if_splits)

interpretation quotes: legal_invariant P mints zk window timeout store r "\<lambda>_. quote_inv P" for P mints zk window timeout store r
  by unfold_locales (auto simp: quote_inv_init intro: quote_inv_step)

section \<open>Settlements and signatures in the log\<close>

definition settled_once :: "negotiation_event list \<Rightarrow> bool" where
  "settled_once es \<longleftrightarrow> length (events_of SETTLEMENT_CONFIRMED es) \<le> 1"

definition signed_fields :: "event_type \<Rightarrow> string list option" where
  "signed_fields t = (case t of RFQ_CREATED \<Rightarrow> Some rfq_fields | OFFER_SUBMITTED \<Rightarrow> Some offer_fields
     | COUNTER_SENT \<Rightarrow> Some counter_fields | _ \<Rightarrow> None)"

definition messages_signed :: "platform \<Rightarrow> negotiation_event list \<Rightarrow> bool" where
  "messages_signed P es \<longleftrightarrow> (\<forall>e \<in> set es. \<forall>ks. signed_fields (ev_type e) = Some ks \<longrightarrow> self_signed P ks e)"

definition offers_listed :: "listing_store \<Rightarrow> negotiation_event list \<Rightarrow> bool" where
  "offers_listed store es \<longleftrightarrow> (\<forall>e \<in> set es. ev_type e = OFFER_SUBMITTED \<longrightarrow> offer_listed store e)"

lemma offers_listed_step:
  "offers_listed store es \<Longrightarrow> event_legal P mints zk window timeout store r es s e \<Longrightarrow> offers_listed store (es @ [e])"
  by (auto simp: offers_listed_def event_legal_def offer_legal_def)

lemma settled_once_step:
  "settled_once es \<Longrightarrow> event_legal P mints zk window timeout store r es s e \<Longrightarrow> settled_once (es @ [e])"
  by (auto simp: settled_once_def event_legal_def events_of_def)

lemma messages_signed_step:
  "messages_signed P es \<Longrightarrow> event_legal P mints zk window timeout store r es s e \<Longrightarrow> messages_signed P (es @ [e])"
  by (auto simp: messages_signed_def event_legal_def signed_fields_def offer_legal_def counter_legal_def
      split: event_type.splits)

lemma log_facts_init: "init_session e = Inr s \<Longrightarrow> created_legal P e \<Longrightarrow>
   settled_once [e] \<and> messages_signed P [e] \<and> offers_listed store [e]"
  by (auto simp: init_session_def offers_listed_def settled_once_def messages_signed_def events_of_def signed_fields_def created_legal_def
      split: if_splits)

interpretation log_facts: legal_invariant P mints zk window timeout store r
  "\<lambda>es _. settled_once es \<and> messages_signed P es \<and> offers_listed store es"
  for P mints zk window timeout store r
  by unfold_locales (auto simp: log_facts_init intro: settled_once_step messages_signed_step offers_listed_step)

text \<open>Every counter of a session that commits to a budget has its proof.\<close>

definition counters_proved :: "mint_table \<Rightarrow> zk_verifier \<Rightarrow> negotiation_event list \<Rightarrow> derived_session \<Rightarrow> bool" where
  "counters_proved mints zk es s \<longleftrightarrow> (\<forall>e \<in> set es. ev_type e = COUNTER_SENT \<longrightarrow> counter_proved mints zk (rfq s) e)"

interpretation proofs: legal_invariant P mints zk window timeout store r "counters_proved mints zk"
  for P mints zk window timeout store r
  by unfold_locales
    (auto simp: counters_proved_def init_session_def apply_event_rfq event_legal_def counter_legal_def split: if_splits)

text \<open>Every session was created by the buyer it names.\<close>

definition creator_is_buyer :: "negotiation_event list \<Rightarrow> derived_session \<Rightarrow> bool" where
  "creator_is_buyer es s \<longleftrightarrow> es \<noteq> [] \<and> ev_actor (hd es) = buyer (rfq s)"

interpretation creator: legal_invariant P mints zk window timeout store r creator_is_buyer
  for P mints zk window timeout store r
  by unfold_locales
    (auto simp: creator_is_buyer_def created_legal_def init_session_def Let_def str_def apply_event_rfq split: if_splits)

text \<open>No legal event cancels a negotiation or is a bare \<open>COMMIT_PENDING\<close> marker.\<close>

lemma never_cancelled_step:
  assumes "state s \<noteq> CANCELLED" "event_legal P mints zk window timeout store r es s e" "apply_event s e = Inr s'"
  shows "state s' \<noteq> CANCELLED"
proof
  assume "state s' = CANCELLED"
  then have "ev_type e = NEGOTIATION_CANCELLED"
    using transition_cases[OF apply_event_transition[OF assms(3)]] by auto
  then show False using assms(2) by (simp add: event_legal_def)
qed

lemma never_cancelled_init: "init_session e = Inr s \<Longrightarrow> state s \<noteq> CANCELLED"
  by (auto simp: init_session_def Let_def split: if_splits)

interpretation uncancelled: legal_invariant P mints zk window timeout store r "\<lambda>_ s. state s \<noteq> CANCELLED"
  for P mints zk window timeout store r
  by unfold_locales (auto simp: never_cancelled_init never_cancelled_step)

text \<open>Offers, counters, accepts and declines carry a time before the deadline.\<close>

definition in_time :: "platform \<Rightarrow> negotiation_event list \<Rightarrow> derived_session \<Rightarrow> bool" where
  "in_time P es s \<longleftrightarrow> (\<forall>e \<in> set es. ev_type e \<in> timed_events \<longrightarrow>
     (\<exists>now. ev_time e = to_iso now \<and> \<not> time_passed P now (deadline (rfq s))))"

lemma in_time_init: "init_session e = Inr s \<Longrightarrow> in_time P [e] s"
  by (auto simp: init_session_def in_time_def timed_events_def split: if_splits)

lemma in_time_step:
  assumes "in_time P es s" "event_legal P mints zk window timeout store r es s e" "apply_event s e = Inr s'"
  shows "in_time P (es @ [e]) s'"
proof -
  have "rfq s' = rfq s" using assms(3) by (rule apply_event_rfq)
  moreover have "ev_type e \<in> timed_events \<Longrightarrow> \<exists>now. ev_time e = to_iso now \<and> \<not> time_passed P now (deadline (rfq s))"
    using assms(2) by (auto simp: event_legal_def)
  ultimately show ?thesis using assms(1) by (auto simp: in_time_def)
qed

interpretation timely: legal_invariant P mints zk window timeout store r "in_time P" for P mints zk window timeout store r
  by unfold_locales (auto simp: in_time_init intro: in_time_step)

end
