(* ===== verification/Handlers.thy ===== *)
theory Handlers
  imports Protocol
begin

text \<open>
  What the callbacks of the routes and of the enforcer do under the session's lock: each leaves
  the manager alone or appends one event, and that event is legal. The locale
  \<open>locked_callback\<close> is this contract; the effect of \<open>withLock\<close> on logs and invariants is proved
  once inside it, and it is interpreted on every callback of the model.
\<close>

section \<open>The contract of a callback\<close>

definition step_legal ::
  "platform \<Rightarrow> mint_table \<Rightarrow> zk_verifier \<Rightarrow> int option \<Rightarrow> int \<Rightarrow> listing_store \<Rightarrow> string \<Rightarrow> negotiation_event list \<Rightarrow> derived_session option \<Rightarrow>
   negotiation_event \<Rightarrow> bool" where
  "step_legal P mints zk window timeout store r es so e =
     (case so of None \<Rightarrow> created_legal P e | Some s \<Rightarrow> event_legal P mints zk window timeout store r es s e)"

lemma legal_log_extend:
  assumes "legal_log P mints zk window timeout store r es" "deriveState es = Inr so" "step_legal P mints zk window timeout store r es so e"
    "deriveState (es @ [e]) = Inr (Some s')" "ev_rfq e = r"
  shows "legal_log P mints zk window timeout store r (es @ [e])"
proof (cases so)
  case None
  then have es: "es = []" using assms(2) by (simp add: deriveState_None)
  then have "init_session e = Inr s'" using assms(4) by (auto simp: deriveState_Some)
  then show ?thesis using assms(3,5) None es by (auto simp: step_legal_def intro: legal_log.created)
next
  case (Some s)
  then show ?thesis using assms deriveState_snocD[of es s e s']
    by (auto simp: step_legal_def intro: legal_log.extended)
qed

text \<open>The logs before and after: unchanged, or one legal event more for one session.\<close>

definition evolves ::
  "(negotiation_event list \<Rightarrow> derived_session option \<Rightarrow> negotiation_event \<Rightarrow> bool) \<Rightarrow> string \<Rightarrow> manager \<Rightarrow> manager \<Rightarrow> bool" where
  "evolves legal r m m' \<longleftrightarrow>
     events_in m' = events_in m \<or>
     (\<exists>e so s'. events_in m' = (events_in m)(r := events_in m r @ [e]) \<and> ev_rfq e = r \<and>
        deriveState (events_in m r) = Inr so \<and> deriveState (events_in m r @ [e]) = Inr (Some s') \<and>
        legal (events_in m r) so e)"

text \<open>\<open>now\<close> is the clock at which the callback appends; it may have taken the lock at another.\<close>

locale locked_callback =
  fixes now :: millis and r :: string
    and legal :: "negotiation_event list \<Rightarrow> derived_session option \<Rightarrow> negotiation_event \<Rightarrow> bool"
    and fn :: "derived_session option \<Rightarrow> manager \<Rightarrow> 'a res \<times> manager"
  assumes appends: "fn so m = (v, m') \<Longrightarrow> deriveState (events_in m r) = Inr so \<Longrightarrow>
      m' = m \<or> (\<exists>e s'. appendEvent now r e m = (Inr s', m') \<and> legal (events_in m r) so e)"
begin

lemma callback_effect:
  assumes ok: "manager_ok m" and d: "deriveState (events_in m r) = Inr so" and f: "fn so m = (v, m')"
  shows "manager_ok m' \<and> sm_active m' = sm_active m \<and> evolves legal r m m'"
proof -
  consider "m' = m" | e s' where "appendEvent now r e m = (Inr s', m')" "legal (events_in m r) so e"
    using appends[OF f d] by blast
  then show ?thesis
  proof cases
    case 1
    then show ?thesis using ok by (simp add: evolves_def)
  next
    case 2
    have "ev_rfq e = r" "sm_active m' = sm_active m" using 2(1) by (auto simp: appendEvent_Inr store_append_Inr)
    moreover have "deriveState (events_in m r @ [e]) = Inr (Some s')" using 2(1) by (simp add: appendEvent_Inr)
    ultimately show ?thesis
      using sessions.app_ok[OF ok 2(1)] appendEvent_log[OF 2(1)] 2(2) d unfolding evolves_def by blast
  qed
qed

lemma withLock_effect:
  assumes ok: "manager_ok m" and w: "withLock gr t r fn m = (v, m')"
  shows "manager_ok m' \<and> (sm_active m = [] \<longrightarrow> sm_active m' = []) \<and> evolves legal r m m'"
proof (cases gr)
  case False
  then show ?thesis using ok w by (simp add: withLock_def evolves_def)
next
  case True
  define m1 where "m1 = m\<lparr>sm_active := List.insert r (sm_active m)\<rparr>"
  have ok1: "manager_ok m1" and ev1: "events_in m1 = events_in m"
    using ok by (simp_all add: m1_def manager_ok_def cache_ok_def logs_ok_def)
  obtain so m2 where g: "getSession t r m1 = (Inr so, m2)"
    using sessions.get_total[OF ok1, of t r] by (cases "getSession t r m1") auto
  obtain m3 where f: "fn so m2 = (v, m3)" and m': "m' = m3\<lparr>sm_active := removeAll r (sm_active m3)\<rparr>"
    using w g True by (auto simp: withLock_def Let_def m1_def[symmetric] split: prod.splits)
  have ev2: "events_in m2 = events_in m" and ok2: "manager_ok m2" and a2: "sm_active m2 = sm_active m1"
    using sessions.get_state[OF g] ok1 ev1 getSession_fields[OF g] by auto
  have "deriveState (events_in m2 r) = Inr so"
    using sessions.get_value[OF ok1, of t r] g ev1 ev2 by simp
  then have "manager_ok m3" "sm_active m3 = sm_active m2" "evolves legal r m2 m3"
    using callback_effect[OF ok2 _ f] by blast+
  then show ?thesis using a2 ev2
    by (simp add: m' evolves_def m1_def manager_ok_def cache_ok_def logs_ok_def List.insert_def)
qed

end

section \<open>Evidence carried into the lock\<close>

lemma pick_cong: "(\<And>k. k \<in> set ks \<Longrightarrow> jget v k = jget w k) \<Longrightarrow> pick v ks = pick w ks"
  by (induction ks) (simp_all add: pick_def)

lemma verify_field_ok:
  assumes "verify_field P obj body signer code = Inr ()" "jget body ''signature'' = Some (JStr sig)"
    "jget body signer = Some (JStr d)"
  shows "signed_by P (objectSigningPayload P obj) sig d"
  using assms by (simp add: verify_field_def verifySignature_ok string_of_def)

lemma rfq_pre_signed:
  assumes "rfq_pre P mints now body m = Inr ()"
  shows "\<exists>d. jget body ''buyer'' = Some (JStr d) \<and>
     (\<forall>e. ev_payload e = pick body rfq_fields \<longrightarrow> ev_actor e = d \<longrightarrow> created_legal P e)"
proof -
  have v: "validateRfq P now body = VOk"
    and s: "verify_field P (extractRfqFields body) body ''buyer'' ''invalid_buyer_signature'' = Inr ()"
    using assms by (auto simp: rfq_pre_def split: validation.splits)
  obtain d sig where d: "jget body ''buyer'' = Some (JStr d)" and sig: "jget body ''signature'' = Some (JStr sig)"
    using validateRfq_ok[OF v] by blast
  have sg: "signed_by P (objectSigningPayload P (pick body rfq_fields)) sig d"
    using verify_field_ok[OF s sig d] by (simp add: extractRfqFields_def)
  have pk: "pick (JObj (pick body rfq_fields)) rfq_fields = pick body rfq_fields" by (rule pick_cong) simp
  have "''signature'' \<in> set rfq_fields" "''buyer'' \<in> set rfq_fields" by (simp_all add: rfq_fields_def)
  then have "created_legal P e" if "ev_payload e = pick body rfq_fields" "ev_actor e = d" for e
    using sg sig d that by (simp add: created_legal_def self_signed_def pk)
  then show ?thesis using d by blast
qed

lemma offer_signed:
  assumes c: "check_offer P mints now r body s0 = Inr ()"
    and e: "ev_payload e = offer_payload r body endpoint" "ev_actor e = string_of P (jget body ''seller'')"
  shows "self_signed P offer_fields e"
proof -
  have v: "validateOffer P now body (rfq s0) = VOk" and rid: "jget body ''rfq_id'' = Some (JStr r)"
    and s: "verify_field P (extractOfferFields body) body ''seller'' ''invalid_seller_signature'' = Inr ()"
    using c by (auto simp: check_offer_def split: validation.splits)
  obtain d sig where d: "jget body ''seller'' = Some (JStr d)" and sig: "jget body ''signature'' = Some (JStr sig)"
    using validateOffer_ok[OF v] by blast
  have lk: "map_of (offer_payload r body endpoint) k = jget body k" if "k \<in> set offer_fields" for k
    using that rid by (auto simp: offer_payload_def offer_fields_def map_add_def split: option.splits)
  have "pick (JObj (ev_payload e)) offer_fields = extractOfferFields body"
    unfolding extractOfferFields_def e(1) by (rule pick_cong) (simp add: lk)
  moreover have "''signature'' \<in> set offer_fields" by (simp add: offer_fields_def)
  ultimately show ?thesis using verify_field_ok[OF s sig d] e d sig lk[of "''signature''"]
    by (simp add: self_signed_def string_of_def)
qed

lemma offer_listing:
  "check_offer P mints now r body s0 = Inr () \<Longrightarrow> \<exists>i. jget body ''listing_id'' = Some (JStr i)"
  by (auto simp: check_offer_def split: validation.splits dest!: validateOffer_ok)

lemma counter_signed:
  assumes c: "check_counter P mints zk now r body s0 = Inr ()"
    and e: "ev_payload e = counter_payload r body" "ev_actor e = string_of P (jget body ''from'')"
  shows "self_signed P counter_fields e" "\<exists>q. map_of (ev_payload e) ''round'' = Some (JNum q) \<and> 0 < q"
    "jget body ''round'' = map_of (ev_payload e) ''round''"
    "jget body ''counter_id'' = map_of (ev_payload e) ''counter_id''"
proof -
  have v: "validateCounter P now body (rfq s0) = VOk" and rid: "jget body ''rfq_id'' = Some (JStr r)"
    and s: "verify_field P (extractCounterFields body) body ''from'' ''invalid_buyer_signature'' = Inr ()"
    using c by (auto simp: check_counter_def split: validation.splits)
  obtain q d sig where d: "jget body ''from'' = Some (JStr d)" and sig: "jget body ''signature'' = Some (JStr sig)"
    and q: "jget body ''round'' = Some (JNum q)" "0 < q"
    using validateCounter_ok[OF v] by blast
  have lk: "map_of (counter_payload r body) k = jget body k" if "k \<in> set counter_fields" for k
    using that rid by (auto simp: counter_payload_def counter_fields_def map_add_def split: option.splits)
  have mem: "''signature'' \<in> set counter_fields" "''round'' \<in> set counter_fields" "''counter_id'' \<in> set counter_fields"
    by (simp_all add: counter_fields_def)
  have "pick (JObj (ev_payload e)) counter_fields = extractCounterFields body"
    unfolding extractCounterFields_def e(1) by (rule pick_cong) (simp add: lk)
  then show "self_signed P counter_fields e"
    using verify_field_ok[OF s sig d] e d sig lk[OF mem(1)] by (simp add: self_signed_def string_of_def)
  show "\<exists>q. map_of (ev_payload e) ''round'' = Some (JNum q) \<and> 0 < q"
    "jget body ''round'' = map_of (ev_payload e) ''round''"
    "jget body ''counter_id'' = map_of (ev_payload e) ''counter_id''"
    using q lk[OF mem(2)] lk[OF mem(3)] by (simp_all add: e(1))
qed

section \<open>The callbacks keep the contract\<close>

text \<open>A callback that appends, or answers with an error and changes nothing.\<close>

lemma append_or_not:
  assumes "(case g of Inl x \<Rightarrow> (Inl x, m) | Inr y \<Rightarrow> appendEvent now r (mk y) m) = (v, m')"
  shows "m' = m \<or> (\<exists>y s'. g = Inr y \<and> appendEvent now r (mk y) m = (Inr s', m'))"
proof (cases g)
  case (Inr y)
  then have a: "appendEvent now r (mk y) m = (v, m')" using assms by simp
  show ?thesis
  proof (cases v)
    case (Inl x)
    then show ?thesis using appendEvent_Inl[of now r "mk y" m x m'] a by simp
  next
    case (Inr s')
    then show ?thesis using a \<open>g = Inr y\<close> by blast
  qed
qed (use assms in simp)

lemma mk_event_fields [simp]:
  "ev_id (mk_event now u r t a pl) = u" "ev_rfq (mk_event now u r t a pl) = r" "ev_type (mk_event now u r t a pl) = t"
  "ev_time (mk_event now u r t a pl) = to_iso now" "ev_actor (mk_event now u r t a pl) = a"
  "ev_payload (mk_event now u r t a pl) = pl"
  by (simp_all add: mk_event_def)

lemma rfq_cb_appends:
  assumes f: "rfq_locked P now u body r so m = (v, m')" and d: "deriveState (events_in m r) = Inr so"
  shows "m' = m \<or> (\<exists>e s'. appendEvent now r e m = (Inr s', m') \<and>
     ((\<exists>t m0. rfq_pre P mints t body m0 = Inr ()) \<longrightarrow> step_legal P mints zk window timeout store r (events_in m r) so e))"
proof (cases "hasSession r m")
  case True
  then show ?thesis using f by (simp add: rfq_locked_def)
next
  case False
  let ?e = "mk_event now u r RFQ_CREATED (string_of P (jget body ''buyer'')) (pick body rfq_fields)"
  have a: "appendEvent now r ?e m = (v, m')" using f False by (simp add: rfq_locked_def)
  have "events_in m r = []" using False by (simp add: hasSession_def store_size_eq events_in_def)
  then have so: "so = None" using d by simp
  have "step_legal P mints zk window timeout store r (events_in m r) so ?e" if "rfq_pre P mints t body m0 = Inr ()" for t m0
    using rfq_pre_signed[OF that] by (auto simp: step_legal_def so string_of_def)
  then show ?thesis using a appendEvent_Inl by (cases v) blast+
qed

interpretation rfq_cb: locked_callback now r
  "\<lambda>es so e. (\<exists>t m0. rfq_pre P mints t body m0 = Inr ()) \<longrightarrow> step_legal P mints zk window timeout store r es so e"
  "rfq_locked P now u body r" for now r P mints zk window timeout store u body
  by unfold_locales (rule rfq_cb_appends)

lemma offer_cb_appends:
  assumes f: "offer_locked P now u store r body so m = (v, m')" and d: "deriveState (events_in m r) = Inr so"
  shows "m' = m \<or> (\<exists>e s'. appendEvent now r e m = (Inr s', m') \<and>
     ((\<exists>t s0. check_offer P mints t r body s0 = Inr ()) \<longrightarrow> step_legal P mints zk window timeout store r (events_in m r) so e))"
proof (cases so)
  case None
  then show ?thesis using f by (simp add: offer_locked_def)
next
  case (Some s)
  let ?e = "\<lambda>(d, pe). mk_event now u r OFFER_SUBMITTED d (offer_payload r body pe)"
  have "(case offer_guard P now store body s of Inl x \<Rightarrow> (Inl x, m) | Inr y \<Rightarrow> appendEvent now r (?e y) m) = (v, m')"
    using f by (simp add: offer_locked_def Some split: sum.splits prod.splits)
  then have "m' = m \<or> (\<exists>y s'. offer_guard P now store body s = Inr y \<and> appendEvent now r (?e y) m = (Inr s', m'))"
    by (rule append_or_not)
  then consider "m' = m" | d pe s' where "offer_guard P now store body s = Inr (d, pe)"
    "appendEvent now r (?e (d, pe)) m = (Inr s', m')" by auto
  then show ?thesis
  proof cases
    case 2
    have g: "\<not> time_passed P now (deadline (rfq s))" "d = string_of P (jget body ''seller'')"
      "\<forall>o' \<in> set (offers s). jget body ''offer_id'' \<noteq> Some (JStr (o_offer_id o'))"
      "totalOfferCount s < MAX_OFFERS_PER_SESSION" "count_get (offerCountBySeller s) d < MAX_OFFERS_PER_SELLER"
      using 2(1) by (auto simp: offer_guard_def Let_def list_ex_iff)
    obtain li where li: "findBySellerAndId d (string_of P (jget body ''listing_id'')) store = Some li"
      "map_of li ''payment_endpoint'' = Some pe"
      using 2(1) by (auto simp: offer_guard_def Let_def)
    have listed: "offer_listed store (?e (d, pe))" if "check_offer P mints t r body s0 = Inr ()" for t s0
      using offer_listing[OF that] li
      by (auto simp: offer_listed_def offer_payload_def findBySellerAndId_def string_of_def map_add_def split: option.splits if_splits)
    have "map_of (offer_payload r body pe) ''offer_id'' = jget body ''offer_id''"
      by (simp add: offer_payload_def map_add_def split: option.splits)
    then have "step_legal P mints zk window timeout store r (events_in m r) so (?e (d, pe))"
      if "check_offer P mints t r body s0 = Inr ()" for t s0
      using offer_signed[OF that, of "?e (d, pe)" pe] listed[OF that] g
      by (auto simp: step_legal_def Some event_legal_def offer_legal_def)
    then show ?thesis using 2(2) by blast
  qed simp
qed

interpretation offer_cb: locked_callback now r
  "\<lambda>es so e. (\<exists>t s0. check_offer P mints t r body s0 = Inr ()) \<longrightarrow> step_legal P mints zk window timeout store r es so e"
  "offer_locked P now u store r body" for now r P mints zk window timeout store u body
  by unfold_locales (rule offer_cb_appends)

lemma max_round_ge: "c \<in> set cs \<Longrightarrow> c_round c \<le> max_round cs"
proof -
  have "b \<le> foldl (\<lambda>m ct. max m (c_round ct)) b cs \<and>
      (\<forall>c \<in> set cs. c_round c \<le> foldl (\<lambda>m ct. max m (c_round ct)) b cs)" for b :: rat and cs :: "recorded_counter list"
  proof (induction cs arbitrary: b)
    case (Cons a cs)
    show ?case using Cons[of "max b (c_round a)"] by auto
  qed simp
  then show "c \<in> set cs \<Longrightarrow> c_round c \<le> max_round cs" by (simp add: max_round_def)
qed

lemma normalizeField_Inr: "normalizeField P mints v mint = Inr n \<Longrightarrow> \<exists>price. v = Some (JStr price) \<and> normalizeAmount mints price mint = Inr n"
  by (cases v; cases "the v") (auto simp: normalizeField_def split: if_splits)

lemma check_amount_Inr:
  "check_amount P mints cur v = Inr n \<Longrightarrow>
   \<exists>price mint. v = Some (JStr price) \<and> mintFor cur = Inr mint \<and> normalizeAmount mints price mint = Inr n"
  by (auto simp: check_amount_def split: if_splits dest!: normalizeField_Inr)

lemma check_proof_Inr:
  "check_proof zk body scaled rq = Inr () \<Longrightarrow> has_commitment rq \<Longrightarrow>
   \<exists>pr. jget body ''budget_proof'' = Some pr \<and> zk pr scaled (the (budget_commitment rq))"
  by (auto simp: check_proof_def split: option.splits if_splits)

lemma counter_proof_recorded:
  assumes "check_counter P mints zk now r body s0 = Inr ()" "ev_payload e = counter_payload r body"
  shows "counter_proved mints zk (rfq s0) e"
proof -
  obtain scaled where a: "check_amount P mints (currency (rfq s0)) (jget body ''price'') = Inr scaled"
    "check_proof zk body scaled (rfq s0) = Inr ()"
    using assms(1) by (auto simp: check_counter_def split: validation.splits if_splits)
  have "map_of (counter_payload r body) k = jget body k" if "k \<in> {''price'', ''budget_proof''}" for k
    using that by (auto simp: counter_payload_def map_add_def split: option.splits)
  then show ?thesis
    using check_amount_Inr[OF a(1)] check_proof_Inr[OF a(2)] assms(2) by (auto simp: counter_proved_def)
qed

text \<open>A counter that passed the checks against a session with the same RFQ.\<close>

definition counter_evidence ::
  "platform \<Rightarrow> mint_table \<Rightarrow> zk_verifier \<Rightarrow> string \<Rightarrow> json \<Rightarrow> derived_session option \<Rightarrow> bool" where
  "counter_evidence P mints zk r body so \<longleftrightarrow>
     (\<exists>t s0. check_counter P mints zk t r body s0 = Inr () \<and> (\<forall>s. so = Some s \<longrightarrow> rfq s = rfq s0))"

lemma counter_cb_appends:
  assumes f: "counter_locked P now u r body so m = (v, m')" and d: "deriveState (events_in m r) = Inr so"
  shows "m' = m \<or> (\<exists>e s'. appendEvent now r e m = (Inr s', m') \<and>
     (counter_evidence P mints zk r body so \<longrightarrow> step_legal P mints zk window timeout store r (events_in m r) so e))"
proof (cases so)
  case None
  then show ?thesis using f by (simp add: counter_locked_def)
next
  case (Some s)
  let ?e = "mk_event now u r COUNTER_SENT (string_of P (jget body ''from'')) (counter_payload r body)"
  have "(case counter_guard P now body s of Inl x \<Rightarrow> (Inl x, m) | Inr y \<Rightarrow> appendEvent now r ?e m) = (v, m')"
    using f by (simp add: counter_locked_def Some split: sum.splits)
  then have "m' = m \<or> (\<exists>y s'. counter_guard P now body s = Inr y \<and> appendEvent now r ?e m = (Inr s', m'))"
    by (rule append_or_not)
  then consider "m' = m" | s' where "counter_guard P now body s = Inr ()"
    "appendEvent now r ?e m = (Inr s', m')" by auto
  then show ?thesis
  proof cases
    case 2
    have g: "\<not> time_passed P now (deadline (rfq s))"
      "\<forall>c \<in> set (counters s). jget body ''counter_id'' \<noteq> Some (JStr (c_counter_id c))"
      "\<And>q. jget body ''round'' = Some (JNum q) \<Longrightarrow> max_round (counters s) < q"
      using 2(1) by (auto simp: counter_guard_def list_ex_iff split: option.splits if_splits)
    have "step_legal P mints zk window timeout store r (events_in m r) so ?e"
      if ev: "counter_evidence P mints zk r body so"
    proof -
      obtain t s0 where c: "check_counter P mints zk t r body s0 = Inr ()" and rq: "rfq s = rfq s0"
        using ev Some by (auto simp: counter_evidence_def)
      note cs = counter_signed[OF c, of ?e, simplified]
      obtain q where q: "jget body ''round'' = Some (JNum q)" "0 < q" using cs(2,3) by auto
      then have "\<forall>c \<in> set (counters s). c_round c < q" using g(3) max_round_ge order_le_less_trans by blast
      then show ?thesis using cs g q counter_proof_recorded[OF c, of ?e] rq
        by (auto simp: step_legal_def Some event_legal_def counter_legal_def)
    qed
    then show ?thesis using 2(2) by blast
  qed simp
qed

interpretation counter_cb: locked_callback now r
  "\<lambda>es so e. counter_evidence P mints zk r body so \<longrightarrow> step_legal P mints zk window timeout store r es so e"
  "counter_locked P now u r body" for now r P mints zk window timeout store u body
  by unfold_locales (rule counter_cb_appends)

text \<open>The same when the callback returns something other than the session.\<close>

lemma append_then:
  assumes "(case appendEvent now r e m of (Inl x, m1) \<Rightarrow> (Inl x, m1) | (Inr y, m1) \<Rightarrow> (Inr (h y), m1)) = (v, m')"
  shows "m' = m \<or> (\<exists>s'. appendEvent now r e m = (Inr s', m'))"
  using assms appendEvent_Inl[of now r e m] by (auto split: prod.splits sum.splits)

definition accept_evidence :: "platform \<Rightarrow> string \<Rightarrow> control_envelope \<Rightarrow> did \<Rightarrow> string \<Rightarrow> derived_session option \<Rightarrow> bool" where
  "accept_evidence P r v d oi so \<longleftrightarrow>
     env_action v = ''accept'' \<and> env_rfq v = r \<and> map_of (env_payload v) ''seller'' = Some (JStr d) \<and>
     map_of (env_payload v) ''offer_id'' = Some (JStr oi) \<and>
     (\<forall>s. so = Some s \<longrightarrow> envelope_signed P v (buyer (rfq s)))"

lemma accept_guard_ok:
  assumes "accept_guard P now v d oi s = Inr ()"
  shows "\<exists>offer \<in> set (offers s). o_offer_id offer = oi \<and> o_seller offer = d \<and> env_revision v = lastEventId s \<and>
     \<not> time_passed P now (deadline (rfq s)) \<and> \<not> time_passed P now (o_valid_until offer) \<and>
     totalAcceptAttempts s < MAX_ACCEPTS_PER_SESSION \<and> count_get (acceptAttemptsBySeller s) d < MAX_ACCEPTS_PER_SELLER"
proof -
  obtain offer where o: "find (\<lambda>o'. o_offer_id o' = oi \<and> o_seller o' = d) (offers s) = Some offer"
    and rest: "env_revision v = lastEventId s" "\<not> time_passed P now (deadline (rfq s))"
      "\<not> time_passed P now (o_valid_until offer)" "totalAcceptAttempts s < MAX_ACCEPTS_PER_SESSION"
      "count_get (acceptAttemptsBySeller s) d < MAX_ACCEPTS_PER_SELLER"
    using assms by (auto simp: accept_guard_def)
  have "offer \<in> set (offers s)" "o_offer_id offer = oi" "o_seller offer = d" using o by (auto simp: find_Some_iff)
  then show ?thesis using rest by blast
qed

lemma accept_cb_appends:
  assumes f: "accept_locked P mints window now u qid rnd r v d oi so m = (w, m')"
    and de: "deriveState (events_in m r) = Inr so"
  shows "m' = m \<or> (\<exists>e s'. appendEvent now r e m = (Inr s', m') \<and>
     (accept_evidence P r v d oi so \<longrightarrow> step_legal P mints zk window timeout store r (events_in m r) so e))"
proof (cases so)
  case None
  then show ?thesis using f by (simp add: accept_locked_def)
next
  case (Some s)
  show ?thesis
  proof (cases "rbind (accept_guard P now v d oi s) (\<lambda>_. accept_quote P mints window now qid rnd oi s)")
    case (Inl x)
    then show ?thesis using f by (simp add: accept_locked_def Some)
  next
    case (Inr q)
    let ?e = "mk_event now u r WINNER_SELECTED (buyer (rfq s))
      [(''seller'', JStr d), (''offer_id'', JStr oi), (''quote'', JObj (winner_quote q))]"
    have g: "accept_guard P now v d oi s = Inr ()" and q: "accept_quote P mints window now qid rnd oi s = Inr q"
      using Inr by auto
    obtain offer where o: "offer \<in> set (offers s)" "o_offer_id offer = oi" "o_seller offer = d"
      "env_revision v = lastEventId s" "\<not> time_passed P now (deadline (rfq s))"
      "\<not> time_passed P now (o_valid_until offer)" "totalAcceptAttempts s < MAX_ACCEPTS_PER_SESSION"
      "count_get (acceptAttemptsBySeller s) d < MAX_ACCEPTS_PER_SELLER"
      using accept_guard_ok[OF g] by blast
    have "winner_legal P mints window now r s ?e" if "accept_evidence P r v d oi so"
      unfolding winner_legal_def using o q that
      by (intro exI[of _ v] exI[of _ offer] exI[of _ q] exI[of _ qid] exI[of _ rnd])
         (simp add: envelope_for_def accept_evidence_def Some)
    then have "step_legal P mints zk window timeout store r (events_in m r) so ?e" if "accept_evidence P r v d oi so"
      using that o(5) by (auto simp: step_legal_def Some event_legal_def)
    moreover have "m' = m \<or> (\<exists>s'. appendEvent now r ?e m = (Inr s', m'))"
      using f Inr by (intro append_then[where h = "\<lambda>_. q" and v = w]) (simp add: accept_locked_def Some)
    ultimately show ?thesis by blast
  qed
qed

interpretation accept_cb: locked_callback now r
  "\<lambda>es so e. accept_evidence P r v d oi so \<longrightarrow> step_legal P mints zk window timeout store r es so e"
  "accept_locked P mints window now u qid rnd r v d oi" for now r P mints zk window timeout store u qid rnd v d oi
  by unfold_locales (rule accept_cb_appends)

lemma quote_sign_cb_appends:
  assumes f: "quote_sign_locked P now now' u r sig so m = (v, m')" and d: "deriveState (events_in m r) = Inr so"
  shows "m' = m \<or> (\<exists>e s'. appendEvent now' r e m = (Inr s', m') \<and> step_legal P mints zk window timeout store r (events_in m r) so e)"
proof (cases so)
  case None
  then show ?thesis using f by (simp add: quote_sign_locked_def)
next
  case (Some s)
  let ?e = "mk_event now' u r QUOTE_SIGNED (buyer (rfq s))
    [(''seller'', json_or_null (selectedSeller s)), (''buyer_signature'', JStr sig)]"
  have "(case quote_sign_guard P now sig s of Inl x \<Rightarrow> (Inl x, m) | Inr y \<Rightarrow> appendEvent now' r ?e m) = (v, m')"
    using f by (simp add: quote_sign_locked_def Some split: sum.splits)
  then have "m' = m \<or> (\<exists>y s'. quote_sign_guard P now sig s = Inr y \<and> appendEvent now' r ?e m = (Inr s', m'))"
    by (rule append_or_not)
  moreover have "step_legal P mints zk window timeout store r (events_in m r) so ?e" if "quote_sign_guard P now sig s = Inr ()"
    using that by (auto simp: step_legal_def Some event_legal_def quote_sign_guard_def quote_signed_by_def verifyQuoteSignature_ok)
  ultimately show ?thesis by auto
qed

interpretation quote_sign_cb: locked_callback now' r "step_legal P mints zk window timeout store r" "quote_sign_locked P now now' u r sig"
  for now now' r P mints zk window timeout store u sig
  by unfold_locales (rule quote_sign_cb_appends)

lemma cosign_cb_appends:
  assumes f: "cosign_locked P now now' u r sig so m = (v, m')" and d: "deriveState (events_in m r) = Inr so"
  shows "m' = m \<or> (\<exists>e s'. appendEvent now' r e m = (Inr s', m') \<and> step_legal P mints zk window timeout store r (events_in m r) so e)"
proof (cases so)
  case None
  then show ?thesis using f by (simp add: cosign_locked_def)
next
  case (Some s)
  let ?e = "\<lambda>d. mk_event now' u r QUOTE_COMMITTED d [(''seller'', JStr d), (''seller_signature'', JStr sig)]"
  have "(case cosign_guard P now sig s of Inl x \<Rightarrow> (Inl x, m) | Inr d \<Rightarrow> appendEvent now' r (?e d) m) = (v, m')"
    using f by (simp add: cosign_locked_def Some split: sum.splits)
  then have "m' = m \<or> (\<exists>d s'. cosign_guard P now sig s = Inr d \<and> appendEvent now' r (?e d) m = (Inr s', m'))"
    by (rule append_or_not)
  moreover have "step_legal P mints zk window timeout store r (events_in m r) so (?e d)" if "cosign_guard P now sig s = Inr d" for d
    using that by (auto simp: step_legal_def Some event_legal_def cosign_guard_def quote_signed_by_def verifyQuoteSignature_ok)
  ultimately show ?thesis by blast
qed

interpretation cosign_cb: locked_callback now' r "step_legal P mints zk window timeout store r" "cosign_locked P now now' u r sig"
  for now now' r P mints zk window timeout store u sig
  by unfold_locales (rule cosign_cb_appends)

definition decline_evidence :: "platform \<Rightarrow> string \<Rightarrow> control_envelope \<Rightarrow> did \<Rightarrow> bool" where
  "decline_evidence P r v d \<longleftrightarrow> env_action v = ''decline'' \<and> env_rfq v = r \<and> envelope_signed P v d"

lemma decline_cb_appends:
  assumes f: "decline_locked P now u r v pre so m = (w, m')" and d: "deriveState (events_in m r) = Inr so"
  shows "m' = m \<or> (\<exists>e s'. appendEvent now r e m = (Inr s', m') \<and>
     (decline_evidence P r v pre \<longrightarrow> step_legal P mints zk window timeout store r (events_in m r) so e))"
proof (cases so)
  case None
  then show ?thesis using f by (simp add: decline_locked_def)
next
  case (Some s)
  let ?e = "\<lambda>d. mk_event now u r COSIGN_DECLINED d [(''seller'', JStr d)]"
  have "(case decline_guard P now v pre s of Inl x \<Rightarrow> (Inl x, m) | Inr d \<Rightarrow> appendEvent now r (?e d) m) = (w, m')"
    using f by (simp add: decline_locked_def Some split: sum.splits)
  then have "m' = m \<or> (\<exists>d s'. decline_guard P now v pre s = Inr d \<and> appendEvent now r (?e d) m = (Inr s', m'))"
    by (rule append_or_not)
  moreover have "decline_evidence P r v pre \<longrightarrow> step_legal P mints zk window timeout store r (events_in m r) so (?e d)"
    if "decline_guard P now v pre s = Inr d" for d
  proof
    assume ev: "decline_evidence P r v pre"
    have "envelope_for P r s d ''decline'' v" "\<not> time_passed P now (deadline (rfq s))"
      using that ev by (auto simp: decline_guard_def decline_evidence_def envelope_for_def)
    then show "step_legal P mints zk window timeout store r (events_in m r) so (?e d)"
      by (auto simp: step_legal_def Some event_legal_def)
  qed
  ultimately show ?thesis by blast
qed

interpretation decline_cb: locked_callback now r
  "\<lambda>es so e. decline_evidence P r v pre \<longrightarrow> step_legal P mints zk window timeout store r es so e"
  "decline_locked P now u r v pre" for now r P mints zk window timeout store u v pre
  by unfold_locales (rule decline_cb_appends)

lemma settle_cb_appends:
  assumes f: "settle_locked now at_iso u r result quoteId so m = (v, m')" and d: "deriveState (events_in m r) = Inr so"
  shows "m' = m \<or> (\<exists>e s'. appendEvent now r e m = (Inr s', m') \<and>
     ((\<exists>t. at_iso = to_iso t) \<longrightarrow> step_legal P mints zk window timeout store r (events_in m r) so e))"
proof (cases "list_ex (\<lambda>e. ev_type e = SETTLEMENT_CONFIRMED) (events_in m r)")
  case True
  then show ?thesis using f by (simp add: settle_locked_def)
next
  case False
  let ?e = "settle_event at_iso u r result quoteId"
  have ty: "ev_type ?e = SETTLEMENT_CONFIRMED" "ev_time ?e = at_iso" by (simp_all add: settle_event_def)
  have "(case appendEvent now r ?e m of (Inl x, m1) \<Rightarrow> (Inl x, m1) | (Inr y, m1) \<Rightarrow> (Inr (), m1)) = (v, m')"
    using f False by (simp add: settle_locked_def)
  then have "m' = m \<or> (\<exists>s'. appendEvent now r ?e m = (Inr s', m'))"
    by (rule append_then)
  moreover have "(\<exists>t. at_iso = to_iso t) \<longrightarrow> step_legal P mints zk window timeout store r (events_in m r) so ?e"
    if a: "appendEvent now r ?e m = (Inr s', m')" for s'
  proof (cases so)
    case None
    then have "deriveState [?e] = Inr (Some s')" using a d by (simp add: appendEvent_Inr deriveState_None)
    then show ?thesis using ty by (auto simp: deriveState_Some init_session_def)
  next
    case (Some s)
    have "events_of SETTLEMENT_CONFIRMED (events_in m r) = []"
      using False by (auto simp: events_of_def list_ex_iff filter_empty_conv)
    then show ?thesis using ty by (auto simp: step_legal_def Some event_legal_def)
  qed
  ultimately show ?thesis by blast
qed

interpretation settle_cb: locked_callback now r
  "\<lambda>es so e. (\<exists>t. at_iso = to_iso t) \<longrightarrow> step_legal P mints zk window timeout store r es so e"
  "settle_locked now at_iso u r result quoteId" for now r P mints zk window timeout store at_iso u result quoteId
  by unfold_locales (rule settle_cb_appends)

lemma expire_cb_appends:
  assumes f: "expire_locked P now u r so m = (v, m')" and d: "deriveState (events_in m r) = Inr so"
  shows "m' = m \<or> (\<exists>e s'. appendEvent now r e m = (Inr s', m') \<and> step_legal P mints zk window timeout store r (events_in m r) so e)"
proof (cases so)
  case None
  then show ?thesis using f by (simp add: expire_locked_def)
next
  case (Some s)
  let ?e = "mk_event now u r NEGOTIATION_EXPIRED ENFORCER []"
  show ?thesis
  proof (cases "state s \<in> set TERMINAL_STATES \<or> state s \<notin> set EXPIRABLE_STATES \<or>
      (case parse_date P (deadline (rfq s)) of None \<Rightarrow> False | Some t \<Rightarrow> now < t)")
    case True
    then show ?thesis using f by (auto simp: expire_locked_def Some split: if_splits)
  next
    case False
    then have "(case appendEvent now r ?e m of (Inl x, m1) \<Rightarrow> (Inl x, m1) | (Inr y, m1) \<Rightarrow> (Inr (), m1)) = (v, m')"
      using f by (simp add: expire_locked_def Some)
    then have "m' = m \<or> (\<exists>s'. appendEvent now r ?e m = (Inr s', m'))" by (rule append_then)
    moreover have "step_legal P mints zk window timeout store r (events_in m r) so ?e"
      using False by (auto simp: step_legal_def Some event_legal_def)
    ultimately show ?thesis by blast
  qed
qed

interpretation expire_cb: locked_callback now r "step_legal P mints zk window timeout store r" "expire_locked P now u r"
  for now r P mints zk window timeout store u
  by unfold_locales (rule expire_cb_appends)

lemma timeout_locked_Some:
  "timeout_locked P timeout now u r (Some s) m =
     (case rbind (require (state s = COMMIT_PENDING) []) (\<lambda>_.
           case commitPendingAt s of None \<Rightarrow> Inl (JsError []) | Some since \<Rightarrow>
             rbind (require (since \<noteq> [] \<and> (\<forall>t. parse_date P since = Some t \<longrightarrow> timeout \<le> now - t)) []) (\<lambda>_.
             case selectedSeller s of None \<Rightarrow> Inl (JsError []) | Some d \<Rightarrow> if d = [] then Inl (JsError []) else Inr d)) of
        Inl _ \<Rightarrow> (Inr (), m)
      | Inr d \<Rightarrow> (case appendEvent now r (mk_event now u r COSIGN_TIMEOUT ENFORCER [(''seller'', JStr d)]) m of
          (Inl e, m') \<Rightarrow> (Inl e, m') | (Inr _, m') \<Rightarrow> (Inr (), m')))"
  by (auto simp: timeout_locked_def require_def split: option.splits)

lemma timeout_cb_appends:
  assumes f: "timeout_locked P timeout now u r so m = (v, m')" and d: "deriveState (events_in m r) = Inr so"
  shows "m' = m \<or> (\<exists>e s'. appendEvent now r e m = (Inr s', m') \<and> step_legal P mints zk window timeout store r (events_in m r) so e)"
proof (cases so)
  case None
  then show ?thesis using f by (simp add: timeout_locked_def)
next
  case (Some s)
  let ?e = "\<lambda>d. mk_event now u r COSIGN_TIMEOUT ENFORCER [(''seller'', JStr d)]"
  define g where "g = rbind (require (state s = COMMIT_PENDING) []) (\<lambda>_.
      case commitPendingAt s of None \<Rightarrow> Inl (JsError []) | Some since \<Rightarrow>
        rbind (require (since \<noteq> [] \<and> (\<forall>t. parse_date P since = Some t \<longrightarrow> timeout \<le> now - t)) []) (\<lambda>_.
        case selectedSeller s of None \<Rightarrow> Inl (JsError []) | Some d \<Rightarrow> if d = [] then Inl (JsError []) else Inr d))"
  show ?thesis
  proof (cases g)
    case (Inl x)
    then show ?thesis using f by (simp add: timeout_locked_Some Some g_def[symmetric])
  next
    case (Inr d)
    then have "(case appendEvent now r (?e d) m of (Inl x, m1) \<Rightarrow> (Inl x, m1) | (Inr y, m1) \<Rightarrow> (Inr (), m1)) = (v, m')"
      using f by (simp add: timeout_locked_Some Some g_def[symmetric])
    then have "m' = m \<or> (\<exists>s'. appendEvent now r (?e d) m = (Inr s', m'))" by (rule append_then)
    moreover have "step_legal P mints zk window timeout store r (events_in m r) so (?e d)"
      using Inr by (auto simp: g_def step_legal_def Some event_legal_def)
    ultimately show ?thesis by blast
  qed
qed

interpretation timeout_cb: locked_callback now r "step_legal P mints zk window timeout store r" "timeout_locked P timeout now u r"
  for now r P mints zk window timeout store u
  by unfold_locales (rule timeout_cb_appends)

end
