(* ===== verification/Engine.thy ===== *)
theory Engine
  imports Handlers
begin

text \<open>
  The engine as a whole: the routes of \<^verbatim>\<open>packages/engine/src/server.ts\<close> on one session manager,
  one tombstone table, one listing table and one enforcer, with requests in flight between
  their checks and their turn in the lock. \<open>engine_step\<close> is the step relation; every
  interleaving of requests, scans, reads and subscriptions is a run of it. The invariant
  \<open>engine_ok\<close> says that the logs of a reachable engine are legal in the sense of \<open>Protocol\<close>.
\<close>

section \<open>Model\<close>

record engine_config =
  cf_platform :: platform
  cf_mints :: mint_table
  cf_zk :: zk_verifier
  cf_window :: "int option"
  cf_cosignTimeout :: "int option"
  cf_discover :: "discover_fn option"
  cf_settle :: settle_config

datatype http_request =
    PostRfq json
  | PostOffer string json
  | PostCounter string json
  | PostAccept string json
  | PutQuoteSign string json
  | PutCosign string json
  | PutDecline string json
  | PostExecute "json option" string
  | PostSettleReport string did json

text \<open>A request between two of its synchronous parts.\<close>

datatype in_flight =
    AwaitRfq json
  | AwaitOffer string json
  | AwaitCounter string json
  | AwaitAcceptEnvelope string control_envelope
  | AwaitAccept string control_envelope did string
  | AwaitQuoteSign string string
  | AwaitCosign string string
  | AwaitDeclineEnvelope string control_envelope did
  | AwaitDecline string control_envelope did
  | AwaitExecute string verification_result
  | AwaitReport string string verification_result "json option"

record engine =
  eg_mgr :: manager
  eg_tombs :: tombstones
  eg_listings :: listing_store
  eg_enf :: enforcer
  eg_flight :: "in_flight list"

definition engine_start :: engine where
  "engine_start = \<lparr>eg_mgr = new_manager, eg_tombs = no_tombstones, eg_listings = [],
     eg_enf = \<lparr>en_cleaned = [], en_attempt = None\<rparr>, eg_flight = []\<rparr>"

abbreviation then_await :: "('a \<Rightarrow> in_flight) \<Rightarrow> 'a res \<times> manager \<Rightarrow> in_flight res \<times> manager" where
  "then_await f rm \<equiv> (rbind (fst rm) (\<lambda>x. Inr (f x)), snd rm)"

text \<open>The part of a handler before its first await.\<close>

fun admit :: "engine_config \<Rightarrow> millis \<Rightarrow> http_request \<Rightarrow> engine \<Rightarrow> in_flight res \<times> manager" where
  "admit cf now (PostRfq body) e =
     (rbind (rfq_pre (cf_platform cf) (cf_mints cf) now body (eg_mgr e)) (\<lambda>_. Inr (AwaitRfq body)), eg_mgr e)"
| "admit cf now (PostOffer r body) e =
     then_await (\<lambda>_. AwaitOffer r body) (offer_pre (cf_platform cf) (cf_mints cf) now r body (eg_mgr e))"
| "admit cf now (PostCounter r body) e =
     then_await (\<lambda>_. AwaitCounter r body) (counter_pre (cf_platform cf) (cf_mints cf) (cf_zk cf) now r body (eg_mgr e))"
| "admit cf now (PostAccept r body) e =
     then_await (AwaitAcceptEnvelope r) (accept_check (cf_platform cf) now r body (eg_tombs e) (eg_mgr e))"
| "admit cf now (PutQuoteSign r body) e =
     then_await (AwaitQuoteSign r) (quote_sign_pre (cf_platform cf) now r body (eg_mgr e))"
| "admit cf now (PutCosign r body) e =
     then_await (AwaitCosign r) (cosign_pre (cf_platform cf) now r body (eg_mgr e))"
| "admit cf now (PutDecline r body) e =
     then_await (\<lambda>(v, d). AwaitDeclineEnvelope r v d) (decline_check (cf_platform cf) now r body (eg_tombs e) (eg_mgr e))"
| "admit cf now (PostExecute quote payment) e =
     then_await (\<lambda>(r, result). AwaitExecute r result) (execute_pre (cf_platform cf) (cf_settle cf) now quote payment (eg_mgr e))"
| "admit cf now (PostSettleReport r caller body) e =
     then_await (\<lambda>result. AwaitReport r (to_iso now) result (jget body ''quote_id''))
       (settle_report_pre (cf_platform cf) (cf_settle cf) now r caller body (eg_mgr e))"

abbreviation reply :: "engine \<Rightarrow> json res \<times> manager \<Rightarrow> json res option \<times> engine" where
  "reply e rm \<equiv> (Some (fst rm), e\<lparr>eg_mgr := snd rm\<rparr>)"

text \<open>
  The part after an await: the callback under the lock when \<open>granted\<close>, the answer to a busy session
  when not, or, for a control envelope, setting its
  tombstone and going on to wait for the lock. \<open>None\<close> is no response yet. \<open>now'\<close> is the second
  clock reading of the callbacks that check a signature.
\<close>

fun proceed ::
  "engine_config \<Rightarrow> bool \<Rightarrow> millis \<Rightarrow> millis \<Rightarrow> event_id \<Rightarrow> string \<Rightarrow> bytes \<Rightarrow> in_flight \<Rightarrow> engine \<Rightarrow> json res option \<times> engine" where
  "proceed cf granted now now' u qid rnd (AwaitRfq body) e = reply e (postRfqs (cf_platform cf) granted now u body (eg_mgr e))"
| "proceed cf granted now now' u qid rnd (AwaitOffer r body) e =
     reply e (postOffers (cf_platform cf) granted now u (eg_listings e) r body (eg_mgr e))"
| "proceed cf granted now now' u qid rnd (AwaitCounter r body) e = reply e (postCounter (cf_platform cf) granted now u r body (eg_mgr e))"
| "proceed cf granted now now' u qid rnd (AwaitAcceptEnvelope r v) e =
     (case accept_use now v (eg_tombs e) of
        (Inl x, tb) \<Rightarrow> (Some (Inl x), e\<lparr>eg_tombs := tb\<rparr>)
      | (Inr (d, oi), tb) \<Rightarrow> (None, e\<lparr>eg_tombs := tb, eg_flight := eg_flight e @ [AwaitAccept r v d oi]\<rparr>))"
| "proceed cf granted now now' u qid rnd (AwaitAccept r v d oi) e =
     reply e (postAccept (cf_platform cf) (cf_mints cf) (cf_window cf) granted now u qid rnd r v d oi (eg_mgr e))"
| "proceed cf granted now now' u qid rnd (AwaitQuoteSign r sig) e = reply e (putQuoteSign (cf_platform cf) granted now now' u r sig (eg_mgr e))"
| "proceed cf granted now now' u qid rnd (AwaitCosign r sig) e = reply e (putCosign (cf_platform cf) granted now now' u r sig (eg_mgr e))"
| "proceed cf granted now now' u qid rnd (AwaitDeclineEnvelope r v d) e =
     (None, e\<lparr>eg_tombs := tomb_use now (env_id v) (eg_tombs e), eg_flight := eg_flight e @ [AwaitDecline r v d]\<rparr>)"
| "proceed cf granted now now' u qid rnd (AwaitDecline r v d) e = reply e (putDecline (cf_platform cf) granted now u r v d (eg_mgr e))"
| "proceed cf granted now now' u qid rnd (AwaitExecute r result) e =
     reply e (postExecute (cf_platform cf) (cf_settle cf) granted now u r result (eg_mgr e))"
| "proceed cf granted now now' u qid rnd (AwaitReport r verifiedAt result quoteId) e =
     reply e (postSettleReport granted now verifiedAt u r result quoteId (eg_mgr e))"

inductive engine_step :: "engine_config \<Rightarrow> engine \<Rightarrow> engine \<Rightarrow> bool" for cf where
  receive: "admit cf now h e = (Inr q, m) \<Longrightarrow> engine_step cf e (e\<lparr>eg_mgr := m, eg_flight := eg_flight e @ [q]\<rparr>)"
| reject: "admit cf now h e = (Inl x, m) \<Longrightarrow> engine_step cf e (e\<lparr>eg_mgr := m\<rparr>)"
| run: "q \<in> set (eg_flight e) \<Longrightarrow>
    proceed cf gr now now' u qid rnd q (e\<lparr>eg_flight := remove1 q (eg_flight e)\<rparr>) = (rep, e') \<Longrightarrow> engine_step cf e e'"
| register: "postListings (cf_platform cf) (cf_discover cf) body (eg_listings e) = (res, ls) \<Longrightarrow>
    engine_step cf e (e\<lparr>eg_listings := ls\<rparr>)"
| seed: "seedListingsIfMissing (cf_platform cf) seeds (eg_listings e) = (n, ls) \<Longrightarrow> engine_step cf e (e\<lparr>eg_listings := ls\<rparr>)"
| read_session: "getSession now r (eg_mgr e) = (v, m) \<Longrightarrow> engine_step cf e (e\<lparr>eg_mgr := m\<rparr>)"
| scan: "en_attempt (eg_enf e) = None \<Longrightarrow>
    scan_session (cf_platform cf) (cosign_timeout (cf_cosignTimeout cf)) now removal r (eg_enf e) (eg_mgr e) = (en, m) \<Longrightarrow>
    engine_step cf e (e\<lparr>eg_mgr := m, eg_enf := en\<rparr>)"
| enforce: "run_attempt (cf_platform cf) (cosign_timeout (cf_cosignTimeout cf)) gr now u (eg_enf e) (eg_mgr e) = (en, m) \<Longrightarrow>
    engine_step cf e (e\<lparr>eg_mgr := m, eg_enf := en\<rparr>)"
| scan_done: "en_attempt (eg_enf e) = None \<Longrightarrow> scan_end now (eg_enf e) (eg_tombs e) (eg_mgr e) = (en, tb, m) \<Longrightarrow>
    engine_step cf e (e\<lparr>eg_mgr := m, eg_tombs := tb, eg_enf := en\<rparr>)"
| stream: "store_step (sm_store (eg_mgr e)) act st \<Longrightarrow> (\<forall>r ev. act \<noteq> OpAppend r ev) \<Longrightarrow>
    engine_step cf e (e\<lparr>eg_mgr := (eg_mgr e)\<lparr>sm_store := st\<rparr>\<rparr>)"

inductive_cases engine_step_cases: "engine_step cf e e'"

inductive engine_reach :: "engine_config \<Rightarrow> engine \<Rightarrow> bool" for cf where
  start: "engine_reach cf engine_start"
| step: "engine_reach cf e \<Longrightarrow> engine_step cf e e' \<Longrightarrow> engine_reach cf e'"

section \<open>The invariant\<close>

abbreviation legal_in :: "engine_config \<Rightarrow> listing_store \<Rightarrow> string \<Rightarrow> negotiation_event list \<Rightarrow> bool" where
  "legal_in cf store \<equiv> legal_log (cf_platform cf) (cf_mints cf) (cf_zk cf) (cf_window cf) (cosign_timeout (cf_cosignTimeout cf)) store"

abbreviation step_in ::
  "engine_config \<Rightarrow> listing_store \<Rightarrow> string \<Rightarrow> negotiation_event list \<Rightarrow> derived_session option \<Rightarrow> negotiation_event \<Rightarrow> bool" where
  "step_in cf store \<equiv> step_legal (cf_platform cf) (cf_mints cf) (cf_zk cf) (cf_window cf) (cosign_timeout (cf_cosignTimeout cf)) store"

definition buyer_signed :: "platform \<Rightarrow> manager \<Rightarrow> string \<Rightarrow> control_envelope \<Rightarrow> bool" where
  "buyer_signed P m r v \<longleftrightarrow>
     (\<exists>s. deriveState (events_in m r) = Inr (Some s) \<and> envelope_signed P v (buyer (rfq s)))"

text \<open>What the checks before the await established of a request in flight.\<close>

fun backed :: "engine_config \<Rightarrow> manager \<Rightarrow> in_flight \<Rightarrow> bool" where
  "backed cf m (AwaitRfq body) \<longleftrightarrow> (\<exists>t m0. rfq_pre (cf_platform cf) (cf_mints cf) t body m0 = Inr ())"
| "backed cf m (AwaitOffer r body) \<longleftrightarrow> (\<exists>t s0. check_offer (cf_platform cf) (cf_mints cf) t r body s0 = Inr ())"
| "backed cf m (AwaitCounter r body) \<longleftrightarrow>
     (\<exists>t s0 s. check_counter (cf_platform cf) (cf_mints cf) (cf_zk cf) t r body s0 = Inr () \<and>
        deriveState (events_in m r) = Inr (Some s) \<and> rfq s = rfq s0)"
| "backed cf m (AwaitAcceptEnvelope r v) \<longleftrightarrow>
     env_action v = ''accept'' \<and> env_rfq v = r \<and> buyer_signed (cf_platform cf) m r v"
| "backed cf m (AwaitAccept r v d oi) \<longleftrightarrow>
     env_action v = ''accept'' \<and> env_rfq v = r \<and> buyer_signed (cf_platform cf) m r v \<and>
     map_of (env_payload v) ''seller'' = Some (JStr d) \<and> map_of (env_payload v) ''offer_id'' = Some (JStr oi)"
| "backed cf m (AwaitDeclineEnvelope r v d) \<longleftrightarrow> decline_evidence (cf_platform cf) r v d"
| "backed cf m (AwaitDecline r v d) \<longleftrightarrow> decline_evidence (cf_platform cf) r v d"
| "backed cf m (AwaitReport r verifiedAt result quoteId) \<longleftrightarrow> (\<exists>t. verifiedAt = to_iso t)"
| "backed cf m q \<longleftrightarrow> True"

definition engine_ok :: "engine_config \<Rightarrow> engine \<Rightarrow> bool" where
  "engine_ok cf e \<longleftrightarrow>
     manager_ok (eg_mgr e) \<and> sm_active (eg_mgr e) = [] \<and> tombs_ok (eg_tombs e) \<and>
     listings_ok (cf_platform cf) (eg_listings e) \<and>
     (\<forall>r. legal_in cf (eg_listings e) r (events_in (eg_mgr e) r)) \<and>
     (\<forall>q \<in> set (eg_flight e). backed cf (eg_mgr e) q)"

subsection \<open>Steps of the manager\<close>

lemma evolves_weaken:
  assumes "evolves L r m m'"
    and "\<And>so e. deriveState (events_in m r) = Inr so \<Longrightarrow> L (events_in m r) so e \<Longrightarrow> L' (events_in m r) so e"
  shows "evolves L' r m m'"
  using assms unfolding evolves_def by blast

lemma evolves_rfq:
  assumes "evolves L r m m'" "deriveState (events_in m r') = Inr (Some s)"
  shows "\<exists>s'. deriveState (events_in m' r') = Inr (Some s') \<and> rfq s' = rfq s"
proof (cases "events_in m' r' = events_in m r'")
  case True
  then show ?thesis using assms(2) by simp
next
  case False
  then obtain e s' where "r' = r" "events_in m' r = events_in m r @ [e]" "deriveState (events_in m r @ [e]) = Inr (Some s')"
    using assms(1) by (auto simp: evolves_def split: if_splits)
  then show ?thesis using apply_event_rfq deriveState_snocD assms(2) by metis
qed

lemma backed_evolves: "evolves L r m m' \<Longrightarrow> backed cf m q \<Longrightarrow> backed cf m' q"
proof -
  assume ev: "evolves L r m m'" and b: "backed cf m q"
  have "buyer_signed P m r' v \<Longrightarrow> buyer_signed P m' r' v" for P r' v
    using evolves_rfq[OF ev] unfolding buyer_signed_def by metis
  then show ?thesis using b evolves_rfq[OF ev] by (cases q) (auto, metis)
qed

definition mgr_step :: "engine_config \<Rightarrow> listing_store \<Rightarrow> manager \<Rightarrow> manager \<Rightarrow> bool" where
  "mgr_step cf store m m' \<longleftrightarrow>
     manager_ok m' \<and> sm_active m' = [] \<and> (\<exists>r. evolves (step_in cf store r) r m m')"

lemma mgr_step_quiet:
  "manager_ok m' \<Longrightarrow> sm_active m' = [] \<Longrightarrow> events_in m' = events_in m \<Longrightarrow> mgr_step cf store m m'"
  by (auto simp: mgr_step_def evolves_def)

lemma mgr_step_engine_ok:
  assumes ok: "engine_ok cf e" and st: "mgr_step cf (eg_listings e) (eg_mgr e) m'"
    and fl: "\<forall>q \<in> set fl. q \<in> set (eg_flight e) \<or> backed cf m' q" and tb: "tombs_ok tb"
  shows "engine_ok cf (e\<lparr>eg_mgr := m', eg_tombs := tb, eg_enf := en, eg_flight := fl\<rparr>)"
proof -
  obtain r where ev: "evolves (step_in cf (eg_listings e) r) r (eg_mgr e) m'" and m': "manager_ok m'" "sm_active m' = []"
    using st by (auto simp: mgr_step_def)
  have old: "legal_in cf (eg_listings e) r' (events_in (eg_mgr e) r')" for r' using ok by (simp add: engine_ok_def)
  have "legal_in cf (eg_listings e) r' (events_in m' r')" for r'
  proof (cases "events_in m' r' = events_in (eg_mgr e) r'")
    case False
    then have "r' = r" using ev by (auto simp: evolves_def split: if_splits)
    then show ?thesis using ev False old legal_log_extend by (fastforce simp: evolves_def)
  qed (use old in simp)
  moreover have "backed cf m' q" if "q \<in> set fl" for q
    using fl that ok backed_evolves[OF ev] by (auto simp: engine_ok_def)
  ultimately show ?thesis using ok m' tb by (simp add: engine_ok_def)
qed

lemma locked_mgr_step:
  assumes cb: "locked_callback now r L fn" and ok: "manager_ok m" "sm_active m = []"
    and w: "withLock gr t r fn m = (v, m')"
    and L: "\<And>so e. deriveState (events_in m r) = Inr so \<Longrightarrow> L (events_in m r) so e \<Longrightarrow> step_in cf store r (events_in m r) so e"
  shows "mgr_step cf store m m'"
proof -
  have e: "manager_ok m'" "sm_active m' = []" "evolves L r m m'"
    using locked_callback.withLock_effect[OF cb ok(1) w] ok(2) by blast+
  have "evolves (step_in cf store r) r m m'" using e(3) L by (rule evolves_weaken[where L = L])
  then show ?thesis using e ok(2) unfolding mgr_step_def by auto
qed

lemmas callbacks = rfq_cb.locked_callback_axioms offer_cb.locked_callback_axioms counter_cb.locked_callback_axioms
  accept_cb.locked_callback_axioms quote_sign_cb.locked_callback_axioms cosign_cb.locked_callback_axioms
  decline_cb.locked_callback_axioms settle_cb.locked_callback_axioms expire_cb.locked_callback_axioms
  timeout_cb.locked_callback_axioms

text \<open>Wrapping the result of \<open>withLock\<close> into a response does not touch the manager.\<close>

lemma snd_wrap: "snd (case w of (Inl x, m') \<Rightarrow> (Inl (g x), m') | (Inr y, m') \<Rightarrow> (Inr (f y), m')) = snd w"
  by (cases w; cases "fst w") auto

lemma post_managers:
  "snd (postOffers P gr now u store r body m) = snd (withLock gr now r (offer_locked P now u store r body) m)"
  "snd (postCounter P gr now u r body m) = snd (withLock gr now r (counter_locked P now u r body) m)"
  "snd (postAccept P mints window gr now u qid rnd r v d oi m) =
     snd (withLock gr now r (accept_locked P mints window now u qid rnd r v d oi) m)"
  "snd (putQuoteSign P gr now now' u r sig m) = snd (withLock gr now r (quote_sign_locked P now now' u r sig) m)"
  "snd (putCosign P gr now now' u r sig m) = snd (withLock gr now r (cosign_locked P now now' u r sig) m)"
  "snd (putDecline P gr now u r v d m) = snd (withLock gr now r (decline_locked P now u r v d) m)"
  "snd (postExecute P sc gr now u r result m) =
     snd (withLock gr now r (settle_locked now (to_iso now) u r result (jget (vr_quote result) ''quote_id'')) m)"
  "snd (postSettleReport gr now va u r result quoteId m) = snd (withLock gr now r (settle_locked now va u r result quoteId) m)"
  by (auto simp: postOffers_def postCounter_def postAccept_def putQuoteSign_def putCosign_def putDecline_def
      postExecute_def postSettleReport_def split: prod.splits sum.splits)

lemma postRfqs_manager:
  "snd (postRfqs P gr now u body m) =
     (case as_string (jget body ''rfq_id'') of None \<Rightarrow> m | Some r \<Rightarrow> snd (withLock gr now r (rfq_locked P now u body r) m))"
  by (auto simp: postRfqs_def split: prod.splits sum.splits option.splits)

lemma accept_backed:
  "backed cf m (AwaitAccept r v d oi) \<Longrightarrow> deriveState (events_in m r) = Inr so \<Longrightarrow> accept_evidence (cf_platform cf) r v d oi so"
  by (auto simp: accept_evidence_def buyer_signed_def)

lemma proceed_mgr_step:
  assumes ok: "engine_ok cf e" and b: "backed cf (eg_mgr e) q" and p: "proceed cf gr now now' u qid rnd q e = (rep, e')"
  shows "mgr_step cf (eg_listings e) (eg_mgr e) (eg_mgr e')"
proof -
  have m: "manager_ok (eg_mgr e)" "sm_active (eg_mgr e) = []" using ok by (auto simp: engine_ok_def)
  note lock = locked_mgr_step[OF _ m surjective_pairing]
  show ?thesis
  proof (cases q)
    case (AwaitRfq body)
    show ?thesis
    proof (cases "as_string (jget body ''rfq_id'')")
      case None
      then show ?thesis using p AwaitRfq m by (auto simp: postRfqs_manager mgr_step_quiet)
    next
      case (Some r)
      have "mgr_step cf (eg_listings e) (eg_mgr e) (snd (withLock gr now r (rfq_locked (cf_platform cf) now u body r) (eg_mgr e)))"
        by (rule lock[OF callbacks(1)]) (use b AwaitRfq in auto)
      then show ?thesis using p AwaitRfq Some by (auto simp: postRfqs_manager)
    qed
  next
    case (AwaitOffer r body)
    have "mgr_step cf (eg_listings e) (eg_mgr e)
        (snd (withLock gr now r (offer_locked (cf_platform cf) now u (eg_listings e) r body) (eg_mgr e)))"
      by (rule lock[OF callbacks(2)]) (use b AwaitOffer in auto)
    then show ?thesis using p AwaitOffer by (auto simp: post_managers)
  next
    case (AwaitCounter r body)
    have "mgr_step cf (eg_listings e) (eg_mgr e) (snd (withLock gr now r (counter_locked (cf_platform cf) now u r body) (eg_mgr e)))"
      by (rule lock[OF callbacks(3)]) (use b AwaitCounter in \<open>auto simp: counter_evidence_def\<close>)
    then show ?thesis using p AwaitCounter by (auto simp: post_managers)
  next
    case (AwaitAcceptEnvelope r v)
    then have "eg_mgr e' = eg_mgr e" using p by (auto split: prod.splits sum.splits)
    then show ?thesis using m mgr_step_quiet by simp
  next
    case (AwaitAccept r v d oi)
    have "mgr_step cf (eg_listings e) (eg_mgr e)
        (snd (withLock gr now r (accept_locked (cf_platform cf) (cf_mints cf) (cf_window cf) now u qid rnd r v d oi) (eg_mgr e)))"
      by (rule lock[OF callbacks(4)]) (use b AwaitAccept accept_backed in blast)
    then show ?thesis using p AwaitAccept by (auto simp: post_managers)
  next
    case (AwaitQuoteSign r sig)
    have "mgr_step cf (eg_listings e) (eg_mgr e) (snd (withLock gr now r (quote_sign_locked (cf_platform cf) now now' u r sig) (eg_mgr e)))"
      by (rule lock[OF callbacks(5)])
    then show ?thesis using p AwaitQuoteSign by (auto simp: post_managers)
  next
    case (AwaitCosign r sig)
    have "mgr_step cf (eg_listings e) (eg_mgr e) (snd (withLock gr now r (cosign_locked (cf_platform cf) now now' u r sig) (eg_mgr e)))"
      by (rule lock[OF callbacks(6)])
    then show ?thesis using p AwaitCosign by (auto simp: post_managers)
  next
    case (AwaitDeclineEnvelope r v d)
    then show ?thesis using p m mgr_step_quiet by auto
  next
    case (AwaitDecline r v d)
    have "mgr_step cf (eg_listings e) (eg_mgr e) (snd (withLock gr now r (decline_locked (cf_platform cf) now u r v d) (eg_mgr e)))"
      by (rule lock[OF callbacks(7)]) (use b AwaitDecline in auto)
    then show ?thesis using p AwaitDecline by (auto simp: post_managers)
  next
    case (AwaitExecute r result)
    have "mgr_step cf (eg_listings e) (eg_mgr e)
        (snd (withLock gr now r (settle_locked now (to_iso now) u r result (jget (vr_quote result) ''quote_id'')) (eg_mgr e)))"
      by (rule lock[OF callbacks(8)]) auto
    then show ?thesis using p AwaitExecute by (auto simp: post_managers)
  next
    case (AwaitReport r va result quoteId)
    have "mgr_step cf (eg_listings e) (eg_mgr e) (snd (withLock gr now r (settle_locked now va u r result quoteId) (eg_mgr e)))"
      by (rule lock[OF callbacks(8)]) (use b AwaitReport in auto)
    then show ?thesis using p AwaitReport by (auto simp: post_managers)
  qed
qed

subsection \<open>Reads\<close>

text \<open>What the checks before the lock do to the manager: at most a cache entry.\<close>

definition quiet :: "manager \<Rightarrow> manager \<Rightarrow> bool" where
  "quiet m m' \<longleftrightarrow> events_in m' = events_in m \<and> sm_active m' = sm_active m \<and> (manager_ok m \<longrightarrow> manager_ok m')"

lemma quiet_refl [simp]: "quiet m m"
  by (simp add: quiet_def)

lemma quiet_getSession: "quiet m (snd (getSession now r m))"
  using sessions.get_state[of now r m "fst (getSession now r m)" "snd (getSession now r m)"]
    getSession_fields[of now r m "fst (getSession now r m)" "snd (getSession now r m)"]
  by (simp add: quiet_def)

lemma quiet_pre: "m' \<in> {m, snd (getSession now r m)} \<Longrightarrow> quiet m m'"
  using quiet_getSession by auto

lemma pre_quiet:
  "quiet m (snd (offer_pre P mints now r body m))" "quiet m (snd (counter_pre P mints zk now r body m))"
  "quiet m (snd (accept_check P now r body tb m))" "quiet m (snd (quote_sign_pre P now r body m))"
  "quiet m (snd (cosign_pre P now r body m))" "quiet m (snd (decline_check P now r body tb m))"
  "quiet m (snd (settle_report_pre P sc now r caller body m))"
  by (rule quiet_pre[of _ m now r]; cases "getSession now r m";
      auto simp: offer_pre_def counter_pre_def accept_check_def quote_sign_pre_def cosign_pre_def decline_check_def
        settle_report_pre_def split: sum.splits option.splits)+

lemma execute_pre_quiet: "quiet m (snd (execute_pre P sc now quote payment m))"
proof -
  have "\<exists>r. snd (execute_pre P sc now quote payment m) \<in> {m, snd (getSession now r m)}"
    unfolding execute_pre_def by (auto split: sum.splits option.splits prod.splits) (metis snd_conv)+
  then show ?thesis using quiet_pre by blast
qed

lemma admit_quiet: "admit cf now h e = (v, m) \<Longrightarrow> quiet (eg_mgr e) m"
  by (cases h) (auto simp: pre_quiet execute_pre_quiet)

lemma getSession_Some:
  "manager_ok m \<Longrightarrow> getSession now r m = (Inr (Some s), m') \<Longrightarrow> deriveState (events_in m r) = Inr (Some s)"
  using sessions.get_value[of m now r] by simp

lemma admit_backed:
  assumes ok: "manager_ok (eg_mgr e)" and a: "admit cf now h e = (Inr q, m)"
  shows "backed cf m q"
proof (cases h)
  case (PostRfq body)
  then show ?thesis using a by (auto intro!: exI[of _ now] exI[of _ "eg_mgr e"])
next
  case (PostOffer r body)
  then show ?thesis using a
    by (auto simp: offer_pre_def split: prod.splits sum.splits option.splits intro!: exI[of _ now] exI)
next
  case (PostCounter r body)
  then obtain s where g: "getSession now r (eg_mgr e) = (Inr (Some s), m)"
    and c: "check_counter (cf_platform cf) (cf_mints cf) (cf_zk cf) now r body s = Inr ()" and q: "q = AwaitCounter r body"
    using a by (auto simp: counter_pre_def split: prod.splits sum.splits option.splits if_splits)
  have "deriveState (events_in m r) = Inr (Some s)"
    using getSession_Some[OF ok g] quiet_getSession[of "eg_mgr e" now r] g by (simp add: quiet_def)
  then show ?thesis using q c by auto
next
  case (PostAccept r body)
  then obtain s v where g: "getSession now r (eg_mgr e) = (Inr (Some s), m)"
    and c: "checkEnvelope (cf_platform cf) now body ''accept'' r (buyer (rfq s)) (eg_tombs e) ''invalid_buyer_signature'' = Inr v"
    and q: "q = AwaitAcceptEnvelope r v"
    using a by (auto simp: accept_check_def split: prod.splits sum.splits option.splits)
  have "deriveState (events_in m r) = Inr (Some s)"
    using getSession_Some[OF ok g] quiet_getSession[of "eg_mgr e" now r] g by (simp add: quiet_def)
  then show ?thesis using q checkEnvelope_ok[OF c] parse_envelope_Inr by (auto simp: buyer_signed_def)
next
  case (PutDecline r body)
  then obtain s v d where "q = AwaitDeclineEnvelope r v d"
    and c: "checkEnvelope (cf_platform cf) now body ''decline'' r d (eg_tombs e) ''invalid_seller_signature'' = Inr v"
    using a by (auto simp: decline_check_def split: prod.splits sum.splits option.splits if_splits)
  then show ?thesis using checkEnvelope_ok[OF c] parse_envelope_Inr by (auto simp: decline_evidence_def)
next
  case (PostSettleReport r caller body)
  then show ?thesis using a by (cases "fst (settle_report_pre (cf_platform cf) (cf_settle cf) now r caller body (eg_mgr e))") auto
qed (use a in \<open>auto\<close>)

subsection \<open>The enforcer\<close>

lemma quiet_mgr_step:
  "quiet m m' \<Longrightarrow> manager_ok m \<Longrightarrow> sm_active m = [] \<Longrightarrow> mgr_step cf store m m'"
  by (simp add: quiet_def mgr_step_quiet)

lemma mgr_step_after_quiet: "quiet m m1 \<Longrightarrow> mgr_step cf store m1 m2 \<Longrightarrow> mgr_step cf store m m2"
  by (simp add: quiet_def mgr_step_def evolves_def)

lemma scan_session_cases:
  assumes "scan_session P timeout now removal r en m = (en', m')"
  shows "m' = m \<or> m' = snd (getSession now r m) \<or> m' = drop_cache removal r (snd (getSession now r m))"
  using assms by (cases "getSession now r m")
    (auto simp: scan_session_def split: sum.splits option.splits scan_action.splits if_splits)

lemma quiet_trans: "quiet m m1 \<Longrightarrow> quiet m1 m2 \<Longrightarrow> quiet m m2"
  by (simp add: quiet_def)

lemma drop_cache_quiet: "quiet m (drop_cache removal r m)"
  using drop_cache_manager_ok[of m removal r] by (auto simp: quiet_def drop_cache_def)

lemma scan_quiet: "scan_session P timeout now removal r en m = (en', m') \<Longrightarrow> quiet m m'"
  by (drule scan_session_cases, elim disjE)
    (simp_all add: quiet_getSession quiet_trans[OF quiet_getSession drop_cache_quiet])

lemma snd_unless_busy [simp]: "snd (unless_busy rm) = snd rm"
  by (auto simp: unless_busy_def split: prod.splits sum.splits js_error.splits)

lemma attempt_mgr_step:
  assumes ok: "manager_ok m" "sm_active m = []"
    and s: "run_attempt (cf_platform cf) (cosign_timeout (cf_cosignTimeout cf)) gr now u en m = (en', m')"
  shows "mgr_step cf store m m'"
proof -
  note lock = locked_mgr_step[OF _ ok surjective_pairing]
  have ex: "mgr_step cf store m (snd (tryExpire (cf_platform cf) gr now u r m))" for r
    unfolding tryExpire_def snd_unless_busy by (rule lock[OF callbacks(9)])
  have ti: "mgr_step cf store m (snd (tryCosignTimeout (cf_platform cf) (cosign_timeout (cf_cosignTimeout cf)) gr now u r m))" for r
    unfolding tryCosignTimeout_def snd_unless_busy by (rule lock[OF callbacks(10)])
  show ?thesis using s ex ti mgr_step_quiet[OF ok]
    by (auto simp: run_attempt_def split: option.splits attempt.splits)
qed

subsection \<open>Preservation\<close>

lemma engine_ok_listings:
  assumes "engine_ok cf e" "listings_ok (cf_platform cf) ls" "map_of (eg_listings e) \<subseteq>\<^sub>m map_of ls"
  shows "engine_ok cf (e\<lparr>eg_listings := ls\<rparr>)"
proof -
  have "legal_in cf ls r (events_in (eg_mgr e) r)" for r
    using legal_log_mono[OF _ assms(3)] assms(1) by (simp add: engine_ok_def)
  then show ?thesis using assms by (simp add: engine_ok_def)
qed

lemma engine_ok_start: "engine_ok cf engine_start"
proof -
  have "events_in new_manager r = []" "sm_active new_manager = []" for r
    by (simp_all add: events_in_def getAllEvents_def empty_store_def new_manager_def)
  then show ?thesis
    by (simp add: engine_ok_def engine_start_def manager_ok_start listings_ok_def tombs_ok_def no_tombstones_def
        legal_log.empty)
qed

lemma engine_ok_run:
  assumes ok: "engine_ok cf e" and q: "q \<in> set (eg_flight e)"
    and p: "proceed cf gr now now' u qid rnd q (e\<lparr>eg_flight := remove1 q (eg_flight e)\<rparr>) = (rep, e')"
  shows "engine_ok cf e'"
proof -
  let ?e = "e\<lparr>eg_flight := remove1 q (eg_flight e)\<rparr>"
  have sub: "set (remove1 q (eg_flight e)) \<subseteq> set (eg_flight e)" by (rule set_remove1_subset)
  then have ok1: "engine_ok cf ?e" using ok by (auto simp: engine_ok_def)
  have b: "backed cf (eg_mgr e) q" using ok q by (simp add: engine_ok_def)
  have st: "mgr_step cf (eg_listings e) (eg_mgr e) (eg_mgr e')" using proceed_mgr_step[OF ok1 _ p] b by simp
  obtain r where ev: "evolves (step_in cf (eg_listings e) r) r (eg_mgr e) (eg_mgr e')" using st by (auto simp: mgr_step_def)
  have b': "backed cf (eg_mgr e') q" using backed_evolves[OF ev b] .
  have new: "\<forall>p \<in> set (eg_flight e'). p \<in> set (eg_flight ?e) \<or> backed cf (eg_mgr e') p"
    using p b' by (cases q) (auto simp: accept_use_def split: prod.splits sum.splits option.splits)
  have tb: "tombs_ok (eg_tombs e')" and same: "eg_listings e' = eg_listings e" "eg_enf e' = eg_enf e"
    using p ok by (cases q; auto simp: engine_ok_def accept_use_def use_tombs_ok split: prod.splits sum.splits option.splits)+
  have "e' = ?e\<lparr>eg_mgr := eg_mgr e', eg_tombs := eg_tombs e', eg_enf := eg_enf e', eg_flight := eg_flight e'\<rparr>"
    using same by simp
  then show ?thesis using mgr_step_engine_ok[OF ok1 _ new tb, of "eg_enf e'"] st by simp
qed

lemma engine_ok_step:
  assumes "engine_step cf e e'" and ok: "engine_ok cf e"
  shows "engine_ok cf e'"
proof -
  have m: "manager_ok (eg_mgr e)" "sm_active (eg_mgr e) = []" and tb: "tombs_ok (eg_tombs e)"
    and ls: "listings_ok (cf_platform cf) (eg_listings e)"
    using ok by (auto simp: engine_ok_def)
  note quiet_ok = mgr_step_engine_ok[OF ok quiet_mgr_step[OF _ m]]
  show ?thesis using assms(1)
  proof (cases rule: engine_step.cases)
    case (receive now h q m')
    have "engine_ok cf (e\<lparr>eg_mgr := m', eg_tombs := eg_tombs e, eg_enf := eg_enf e, eg_flight := eg_flight e @ [q]\<rparr>)"
      by (rule quiet_ok[OF admit_quiet[OF receive(2)] _ tb]) (use admit_backed[OF m(1) receive(2)] in auto)
    then show ?thesis using receive by simp
  next
    case (reject now h x m')
    have "engine_ok cf (e\<lparr>eg_mgr := m', eg_tombs := eg_tombs e, eg_enf := eg_enf e, eg_flight := eg_flight e\<rparr>)"
      by (rule quiet_ok[OF admit_quiet[OF reject(2)] _ tb]) simp
    then show ?thesis using reject by simp
  next
    case (run q gr now now' u qid rnd rep)
    then show ?thesis using engine_ok_run[OF ok] by blast
  next
    case (register body res ls')
    then show ?thesis using postListings_store[OF register(2)] store_add_ok[OF ls] store_add_mono ok
      by (auto intro: engine_ok_listings)
  next
    case (seed seeds n ls')
    then show ?thesis using seed_store[OF seed(2) ls] ok by (auto intro: engine_ok_listings)
  next
    case (read_session now r v m')
    have "quiet (eg_mgr e) m'" using quiet_getSession[of "eg_mgr e" now r] read_session by simp
    then have "engine_ok cf (e\<lparr>eg_mgr := m', eg_tombs := eg_tombs e, eg_enf := eg_enf e, eg_flight := eg_flight e\<rparr>)"
      by (rule quiet_ok[OF _ _ tb]) simp
    then show ?thesis using read_session by simp
  next
    case (scan now removal r en m')
    have "engine_ok cf (e\<lparr>eg_mgr := m', eg_tombs := eg_tombs e, eg_enf := en, eg_flight := eg_flight e\<rparr>)"
      by (rule quiet_ok[OF scan_quiet[OF scan(3)] _ tb]) simp
    then show ?thesis using scan by simp
  next
    case (enforce gr now u en m')
    have "engine_ok cf (e\<lparr>eg_mgr := m', eg_tombs := eg_tombs e, eg_enf := en, eg_flight := eg_flight e\<rparr>)"
      by (rule mgr_step_engine_ok[OF ok attempt_mgr_step[OF m enforce(2)] _ tb]) simp
    then show ?thesis using enforce by simp
  next
    case (scan_done now en tb' m')
    have "quiet (eg_mgr e) m'" and "tombs_ok tb'"
      using scan_done evict_manager_ok[OF m(1)] sweep_tombs_ok[OF tb] by (auto simp: quiet_def scan_end_def)
    then have "engine_ok cf (e\<lparr>eg_mgr := m', eg_tombs := tb', eg_enf := en, eg_flight := eg_flight e\<rparr>)"
      by (intro quiet_ok) simp_all
    then show ?thesis using scan_done by simp
  next
    case (stream act st)
    let ?m = "(eg_mgr e)\<lparr>sm_store := st\<rparr>"
    have "es_events st = es_events (sm_store (eg_mgr e))" "es_seen st = es_seen (sm_store (eg_mgr e))"
      using store_step_events[OF stream(2,3)] by auto
    then have "quiet (eg_mgr e) ?m"
      using getAllEvents_cong[of st "sm_store (eg_mgr e)"]
      by (auto simp: quiet_def events_in_def fun_eq_iff manager_ok_def cache_ok_def logs_ok_def store_ids_ok_def)
    then have "engine_ok cf (e\<lparr>eg_mgr := ?m, eg_tombs := eg_tombs e, eg_enf := eg_enf e, eg_flight := eg_flight e\<rparr>)"
      by (rule quiet_ok[OF _ _ tb]) simp
    then show ?thesis using stream by simp
  qed
qed

lemma engine_reach_ok: "engine_reach cf e \<Longrightarrow> engine_ok cf e"
  by (induction rule: engine_reach.induct) (auto simp: engine_ok_start intro: engine_ok_step)

subsection \<open>What one step does to a log\<close>

lemma mgr_step_log:
  assumes "mgr_step cf store m m'"
  shows "events_in m' = events_in m \<or> (\<exists>r ev so s'. events_in m' = (events_in m)(r := events_in m r @ [ev]) \<and>
     deriveState (events_in m r) = Inr so \<and> deriveState (events_in m r @ [ev]) = Inr (Some s') \<and>
     step_in cf store r (events_in m r) so ev)"
  using assms by (auto simp: mgr_step_def evolves_def)

lemma step_mgr:
  assumes "engine_step cf e e'" "engine_ok cf e"
  shows "mgr_step cf (eg_listings e) (eg_mgr e) (eg_mgr e')"
proof -
  have m: "manager_ok (eg_mgr e)" "sm_active (eg_mgr e) = []" using assms(2) by (auto simp: engine_ok_def)
  note quiet = quiet_mgr_step[OF _ m]
  show ?thesis using assms(1)
  proof (cases rule: engine_step.cases)
    case (run q gr now now' u qid rnd rep)
    have "engine_ok cf (e\<lparr>eg_flight := remove1 q (eg_flight e)\<rparr>)"
      using assms(2) set_remove1_subset[of q "eg_flight e"] by (auto simp: engine_ok_def)
    then show ?thesis using proceed_mgr_step[OF _ _ run(2)] assms(2) run(1) by (auto simp: engine_ok_def)
  next
    case (scan now removal r en m')
    then show ?thesis using quiet[OF scan_quiet[OF scan(3)]] by simp
  next
    case (enforce gr now u en m')
    then show ?thesis using attempt_mgr_step[OF m enforce(2)] by simp
  next
    case (scan_done now en tb' m')
    then show ?thesis using evict_manager_ok[OF m(1)] by (auto simp: quiet_def scan_end_def intro!: quiet)
  next
    case (read_session now r v m')
    then show ?thesis using quiet_getSession[of "eg_mgr e" now r] by (auto intro!: quiet)
  next
    case (stream act st)
    then have "es_events st = es_events (sm_store (eg_mgr e))" "es_seen st = es_seen (sm_store (eg_mgr e))"
      using store_step_events[OF stream(2,3)] by auto
    then show ?thesis using getAllEvents_cong[of st "sm_store (eg_mgr e)"] stream(1)
      by (auto simp: quiet_def events_in_def fun_eq_iff manager_ok_def cache_ok_def logs_ok_def store_ids_ok_def intro!: quiet)
  next
    case (receive now h q m')
    then show ?thesis using quiet[OF admit_quiet[OF receive(2)]] by simp
  next
    case (reject now h x m')
    then show ?thesis using quiet[OF admit_quiet[OF reject(2)]] by simp
  qed (use quiet[OF quiet_refl] in simp_all)
qed

lemma proceed_enf: "proceed cf gr now now' u qid rnd q e = (rep, e') \<Longrightarrow> eg_enf e' = eg_enf e"
  by (cases q) (auto split: prod.splits sum.splits)

text \<open>The enforcer forgets a session only when its outcome is final.\<close>

definition ended :: "manager \<Rightarrow> string \<Rightarrow> bool" where
  "ended m r \<longleftrightarrow> (\<exists>s. deriveState (events_in m r) = Inr (Some s) \<and> state s \<in> set TERMINAL_STATES)"

lemma ended_mgr_step:
  assumes "mgr_step cf store m m'" "ended m r" shows "ended m' r"
proof (cases "events_in m' r = events_in m r")
  case True
  then show ?thesis using assms(2) by (simp add: ended_def)
next
  case False
  then obtain ev s' where e: "events_in m' r = events_in m r @ [ev]" "deriveState (events_in m r @ [ev]) = Inr (Some s')"
    using mgr_step_log[OF assms(1)] by (auto split: if_splits)
  obtain s where s: "deriveState (events_in m r) = Inr (Some s)" "state s \<in> set TERMINAL_STATES"
    using assms(2) by (auto simp: ended_def)
  have "isValidTransition (state s) (ev_type ev) = Some (state s')"
    using apply_event_transition deriveState_snocD[OF s(1) e(2)] by blast
  then have "state s' \<in> set TERMINAL_STATES" using transition_cases s(2) by (fastforce simp: TERMINAL_STATES_def)
  then show ?thesis using e by (auto simp: ended_def)
qed

lemma cleaned_ended: "engine_reach cf e \<Longrightarrow> \<forall>r \<in> set (en_cleaned (eg_enf e)). ended (eg_mgr e) r"
proof (induction rule: engine_reach.induct)
  case (step e e')
  have ok: "engine_ok cf e" using step(1) by (rule engine_reach_ok)
  have old: "ended (eg_mgr e') r" if "r \<in> set (en_cleaned (eg_enf e))" for r
    using ended_mgr_step[OF step_mgr[OF step(2) ok]] step(3) that by blast
  have "r \<in> set (en_cleaned (eg_enf e)) \<or> ended (eg_mgr e') r" if "r \<in> set (en_cleaned (eg_enf e'))" for r
    using step(2)
  proof (cases rule: engine_step.cases)
    case (run q gr now now' u qid rnd rep)
    then have "eg_enf e' = eg_enf e" using proceed_enf[OF run(2)] by simp
    then show ?thesis using that by simp
  next
    case (scan now removal r' en m')
    show ?thesis
    proof (cases "en_cleaned en = en_cleaned (eg_enf e)")
      case False
      obtain s m1 where g: "getSession now r' (eg_mgr e) = (Inr (Some s), m1)" and t: "state s \<in> set TERMINAL_STATES"
        and en: "en = (eg_enf e)\<lparr>en_cleaned := en_cleaned (eg_enf e) @ [r']\<rparr>" and m': "m' = drop_cache removal r' m1"
        using scan(3) False by (auto simp: scan_session_def scan_action_of_def
            split: prod.splits sum.splits option.splits if_splits scan_action.splits)
      have "events_in m' = events_in (eg_mgr e)"
        using quiet_getSession[of "eg_mgr e" now r'] g by (simp add: m' quiet_def drop_cache_def)
      then have "ended (eg_mgr e') r'"
        using getSession_Some[OF _ g] ok t scan(1) by (auto simp: ended_def engine_ok_def)
      then show ?thesis using that scan(1) en by auto
    qed (use that scan(1) in simp)
  next
    case (enforce gr now u en m')
    then have "en_cleaned en = en_cleaned (eg_enf e)"
      by (auto simp: run_attempt_def split: option.splits attempt.splits)
    then show ?thesis using that enforce(1) by simp
  next
    case (scan_done now en tb m')
    then have "set (en_cleaned en) \<subseteq> set (en_cleaned (eg_enf e))"
      by (auto simp: scan_end_def bound_cleaned_def split: if_splits dest: in_set_dropD)
    then show ?thesis using that scan_done(1) by auto
  qed (use that in simp_all)
  then show ?case using old by blast
qed (simp add: engine_start_def)

end
