(* ===== verification/Run.thy ===== *)
theory Run
  imports Engine
begin

text \<open>
  Progress: when the guards of a callback pass, the event is appended and the request answered.
  The lemmas are used to drive a concrete negotiation, from its RFQ to a committed quote,
  through the engine of theory \<open>Engine\<close> on the demonstration platform. The run shows that the
  hypotheses of the engine's properties can be met.
\<close>

section \<open>Progress of a callback\<close>

lemma append_succeeds:
  assumes "in_lock m r" "deriveState (events_in m r @ [ev]) = Inr (Some s)" "ev_rfq ev = r"
    "ev_id ev \<notin> set (es_seen (sm_store m))"
  shows "\<exists>m'. appendEvent now r ev m = (Inr s, m') \<and> events_in m' = (events_in m)(r := events_in m r @ [ev]) \<and>
     es_seen (sm_store m') = es_seen (sm_store m) @ [ev_id ev]"
proof -
  obtain st where st: "store_append r ev (sm_store m) = Inr st" using assms(3,4) by (simp add: store_append_def)
  obtain m' where m': "appendEvent now r ev m = (Inr s, m')" "sm_store m' = st"
    using assms(1,2) st by (simp add: appendEvent_def)
  have "es_seen st = es_seen (sm_store m) @ [ev_id ev]"
    using st by (auto simp: store_append_Inr append_log_def)
  then show ?thesis using m' appendEvent_log[OF m'(1)] by blast
qed

lemma withLock_progress:
  assumes ok: "manager_ok m" and d: "deriveState (events_in m r) = Inr so"
    and fn: "\<And>m1. events_in m1 = events_in m \<Longrightarrow>
      fn so m1 = (case appendEvent now r ev m1 of (Inl x, m2) \<Rightarrow> (Inl x, m2) | (Inr s, m2) \<Rightarrow> (Inr (h s), m2))"
    and s: "deriveState (events_in m r @ [ev]) = Inr (Some s)" and id: "ev_rfq ev = r" "ev_id ev \<notin> set (es_seen (sm_store m))"
  shows "\<exists>m'. withLock True t r fn m = (Inr (h s), m') \<and> events_in m' = (events_in m)(r := events_in m r @ [ev]) \<and>
     es_seen (sm_store m') = es_seen (sm_store m) @ [ev_id ev]"
proof -
  define m1 where "m1 = m\<lparr>sm_active := List.insert r (sm_active m)\<rparr>"
  have ok1: "manager_ok m1" and ev1: "events_in m1 = events_in m"
    using ok by (simp_all add: m1_def manager_ok_def cache_ok_def logs_ok_def)
  obtain m2 where g: "getSession t r m1 = (Inr so, m2)"
    using sessions.get_value[OF ok1, of t r] d ev1 by (cases "getSession t r m1") auto
  have q: "events_in m2 = events_in m" "sm_store m2 = sm_store m" "sm_active m2 = sm_active m1"
    using quiet_getSession[of m1 t r] getSession_fields[OF g] g ev1 by (auto simp: quiet_def m1_def)
  have "in_lock m2 r" using q by (simp add: m1_def)
  then obtain m3 where a: "appendEvent now r ev m2 = (Inr s, m3)" "events_in m3 = (events_in m)(r := events_in m r @ [ev])"
    "es_seen (sm_store m3) = es_seen (sm_store m) @ [ev_id ev]"
    using append_succeeds[where m = m2 and r = r and ev = ev and s = s and now = now] s id q by auto
  then show ?thesis using g fn[OF q(1)] by (auto simp: withLock_def Let_def m1_def[symmetric])
qed

section \<open>Handlers from receipt to response\<close>

text \<open>
  \<open>at_log\<close> describes an engine that holds the log \<open>es\<close> of session \<open>r\<close> and has nothing in flight.
\<close>

definition at_log :: "engine_config \<Rightarrow> string \<Rightarrow> negotiation_event list \<Rightarrow> listing_store \<Rightarrow> tombstones \<Rightarrow> engine \<Rightarrow> bool" where
  "at_log cf r es ls tb e \<longleftrightarrow>
     engine_reach cf e \<and> events_in (eg_mgr e) r = es \<and> es_seen (sm_store (eg_mgr e)) = map ev_id es \<and>
     eg_listings e = ls \<and> eg_tombs e = tb \<and> eg_flight e = [] \<and> en_attempt (eg_enf e) = None"

lemma reach_manager_ok: "engine_reach cf e \<Longrightarrow> manager_ok (eg_mgr e)"
  using engine_reach_ok by (auto simp: engine_ok_def)

lemma receive_run:
  assumes e: "engine_reach cf e" "eg_flight e = []" and a: "admit cf now h e = (Inr q, m)"
    and p: "proceed cf gr now' now'' u qid rnd q (e\<lparr>eg_mgr := m\<rparr>) = (rep, e')"
  shows "engine_reach cf e'"
proof -
  have e1: "engine_reach cf (e\<lparr>eg_mgr := m, eg_flight := [q]\<rparr>)"
    using engine_step.receive[OF a] e engine_reach.step by fastforce
  have "e\<lparr>eg_mgr := m, eg_flight := [q], eg_flight := []\<rparr> = e\<lparr>eg_mgr := m\<rparr>" using e(2) by simp
  then have "engine_step cf (e\<lparr>eg_mgr := m, eg_flight := [q]\<rparr>) e'"
    using engine_step.run[of q "e\<lparr>eg_mgr := m, eg_flight := [q]\<rparr>" cf gr now' now'' u qid rnd rep e'] p by simp
  then show ?thesis using e1 engine_reach.step by blast
qed

lemma getSession_at:
  assumes "at_log cf r es ls tb e" "deriveState es = Inr so"
  shows "\<exists>m. getSession now r (eg_mgr e) = (Inr so, m) \<and> manager_ok m \<and> events_in m = events_in (eg_mgr e) \<and>
     sm_store m = sm_store (eg_mgr e)"
proof -
  have ok: "manager_ok (eg_mgr e)" and es: "events_in (eg_mgr e) r = es"
    using assms reach_manager_ok by (auto simp: at_log_def)
  obtain m where g: "getSession now r (eg_mgr e) = (Inr so, m)"
    using sessions.get_value[OF ok, of now r] assms(2) es by (cases "getSession now r (eg_mgr e)") auto
  then show ?thesis using quiet_getSession[of "eg_mgr e" now r] getSession_fields[OF g] ok by (auto simp: quiet_def)
qed

lemma at_log_after:
  assumes "at_log cf r es ls tb e" "engine_reach cf e'" "events_in (eg_mgr e') = (events_in (eg_mgr e))(r := es @ [ev])"
    "es_seen (sm_store (eg_mgr e')) = es_seen (sm_store (eg_mgr e)) @ [ev_id ev]" "eg_listings e' = ls"
    "eg_tombs e' = tb'" "eg_flight e' = []" "eg_enf e' = eg_enf e"
  shows "at_log cf r (es @ [ev]) ls tb' e'"
  using assms by (simp add: at_log_def)

lemma run_rfq:
  assumes at: "at_log cf r [] ls tb e" and pre: "\<And>m. events_in m r = [] \<Longrightarrow> rfq_pre (cf_platform cf) (cf_mints cf) now body m = Inr ()"
    and rid: "jget body ''rfq_id'' = Some (JStr r)"
    and ev: "ev = mk_event now u r RFQ_CREATED (string_of (cf_platform cf) (jget body ''buyer'')) (pick body rfq_fields)"
    and s: "deriveState [ev] = Inr (Some s)"
  shows "\<exists>e'. at_log cf r [ev] ls tb e'"
proof -
  have es: "events_in (eg_mgr e) r = []" and ok: "manager_ok (eg_mgr e)" and seen: "es_seen (sm_store (eg_mgr e)) = []"
    and lt: "eg_listings e = ls" "eg_tombs e = tb" "eg_flight e = []"
    using at reach_manager_ok by (auto simp: at_log_def)
  have a: "admit cf now (PostRfq body) e = (Inr (AwaitRfq body), eg_mgr e)" using pre[OF es] by simp
  have "\<exists>m'. withLock True now r (rfq_locked (cf_platform cf) now u body r) (eg_mgr e) = (Inr (id s), m') \<and>
      events_in m' = (events_in (eg_mgr e))(r := events_in (eg_mgr e) r @ [ev]) \<and>
      es_seen (sm_store m') = es_seen (sm_store (eg_mgr e)) @ [ev_id ev]"
  proof (rule withLock_progress[OF ok, where so = None and h = id])
    fix m1 :: manager
    assume "events_in m1 = events_in (eg_mgr e)"
    then have "\<not> hasSession r m1" using es by (simp add: hasSession_def store_size_eq events_in_def[symmetric])
    then show "rfq_locked (cf_platform cf) now u body r None m1 =
        (case appendEvent now r ev m1 of (Inl x, m2) \<Rightarrow> (Inl x, m2) | (Inr s, m2) \<Rightarrow> (Inr (id s), m2))"
      by (simp add: rfq_locked_def ev split: prod.splits sum.splits)
  qed (use es s seen in \<open>simp_all add: ev\<close>)
  then obtain m' where w: "withLock True now r (rfq_locked (cf_platform cf) now u body r) (eg_mgr e) = (Inr s, m')"
    "events_in m' = (events_in (eg_mgr e))(r := [ev])" "es_seen (sm_store m') = [ev_id ev]"
    using es seen by auto
  have p: "proceed cf True now now' u qid rnd (AwaitRfq body) (e\<lparr>eg_mgr := eg_mgr e\<rparr>) = (Some (Inr (rfq_response s)), e\<lparr>eg_mgr := m'\<rparr>)" for qid rnd now'
    using w rid by (simp add: postRfqs_def)
  have "engine_reach cf (e\<lparr>eg_mgr := m'\<rparr>)"
    using receive_run[OF _ _ a p] at by (auto simp: at_log_def)
  then have "at_log cf r ([] @ [ev]) ls tb (e\<lparr>eg_mgr := m'\<rparr>)"
    by (intro at_log_after[OF at]) (use w lt seen in simp_all)
  then show ?thesis by auto
qed

text \<open>The routes on an existing session: receive, then run the callback.\<close>

lemma run_locked:
  assumes at: "at_log cf r es ls tb e" and d: "deriveState es = Inr (Some s)"
    and a: "\<And>m. getSession now r (eg_mgr e) = (Inr (Some s), m) \<Longrightarrow> admit cf now h e = (Inr q, m)"
    and p: "\<And>m. proceed cf True now now' u qid rnd q (e\<lparr>eg_mgr := m\<rparr>) =
      (let w = withLock True now r fn m in (Some (rp (fst w)), e\<lparr>eg_mgr := snd w\<rparr>))"
    and fn: "\<And>m1. fn (Some s) m1 = (case appendEvent t r ev m1 of (Inl x, m2) \<Rightarrow> (Inl x, m2) | (Inr s, m2) \<Rightarrow> (Inr (k s), m2))"
    and s': "deriveState (es @ [ev]) = Inr (Some s')" and id: "ev_rfq ev = r" "ev_id ev \<notin> set (map ev_id es)"
  shows "\<exists>e'. at_log cf r (es @ [ev]) ls tb e'"
proof -
  obtain m where g: "getSession now r (eg_mgr e) = (Inr (Some s), m)" and m: "manager_ok m"
    "events_in m = events_in (eg_mgr e)" "sm_store m = sm_store (eg_mgr e)"
    using getSession_at[OF at d] by blast
  have es: "events_in m r = es" "es_seen (sm_store m) = map ev_id es" and lt: "eg_listings e = ls" "eg_tombs e = tb" "eg_flight e = []"
    using at m by (auto simp: at_log_def)
  obtain m' where w: "withLock True now r fn m = (Inr (k s'), m')" "events_in m' = (events_in m)(r := es @ [ev])"
    "es_seen (sm_store m') = es_seen (sm_store m) @ [ev_id ev]"
    using withLock_progress[OF m(1), where r = r and so = "Some s" and fn = fn and now = t and t = now and ev = ev and h = k and s = s'] d fn s' id es by auto
  have "proceed cf True now now' u qid rnd q (e\<lparr>eg_mgr := m\<rparr>) = (Some (rp (Inr (k s'))), e\<lparr>eg_mgr := m'\<rparr>)" using p[of m] w by simp
  then have "engine_reach cf (e\<lparr>eg_mgr := m'\<rparr>)"
    using receive_run[OF _ _ a[OF g]] at by (auto simp: at_log_def)
  then have "at_log cf r (es @ [ev]) ls tb (e\<lparr>eg_mgr := m'\<rparr>)"
    by (intro at_log_after[OF at]) (use w m lt in simp_all)
  then show ?thesis by auto
qed

text \<open>An accept has two awaits: its envelope is tombstoned before it waits for the lock.\<close>

lemma run_accept:
  assumes at: "at_log cf r es ls tb e" and d: "deriveState es = Inr (Some s)"
    and c: "checkEnvelope (cf_platform cf) now body ''accept'' r (buyer (rfq s)) tb ''invalid_buyer_signature'' = Inr v"
    and pl: "map_of (env_payload v) ''seller'' = Some (JStr sd)" "map_of (env_payload v) ''offer_id'' = Some (JStr oi)"
    and g: "accept_guard (cf_platform cf) now v sd oi s = Inr ()"
    and q: "accept_quote (cf_platform cf) (cf_mints cf) (cf_window cf) now qid rnd oi s = Inr qt"
    and ev: "ev = mk_event now u r WINNER_SELECTED (buyer (rfq s))
      [(''seller'', JStr sd), (''offer_id'', JStr oi), (''quote'', JObj (winner_quote qt))]"
    and s': "deriveState (es @ [ev]) = Inr (Some s')" and id: "u \<notin> set (map ev_id es)"
  shows "\<exists>e'. at_log cf r (es @ [ev]) ls (tomb_use now (env_id v) tb) e'"
proof -
  let ?fn = "accept_locked (cf_platform cf) (cf_mints cf) (cf_window cf) now u qid rnd r v sd oi"
  obtain m where gs: "getSession now r (eg_mgr e) = (Inr (Some s), m)" and m: "manager_ok m"
    "events_in m = events_in (eg_mgr e)" "sm_store m = sm_store (eg_mgr e)"
    using getSession_at[OF at d] by blast
  have es: "events_in m r = es" "es_seen (sm_store m) = map ev_id es" and e: "eg_listings e = ls" "eg_tombs e = tb" "eg_flight e = []"
    "engine_reach cf e" using at m by (auto simp: at_log_def)
  have a: "admit cf now (PostAccept r body) e = (Inr (AwaitAcceptEnvelope r v), m)"
    using gs c e(2) by (simp add: accept_check_def)
  define e1 where "e1 = e\<lparr>eg_mgr := m, eg_tombs := tomb_use now (env_id v) tb, eg_flight := [AwaitAccept r v sd oi]\<rparr>"
  have "proceed cf True now now' u qid rnd (AwaitAcceptEnvelope r v) (e\<lparr>eg_mgr := m\<rparr>) = (None, e1)"
    using pl e by (simp add: accept_use_def e1_def)
  then have r1: "engine_reach cf e1" by (rule receive_run[OF e(4,3) a])
  obtain m' where w: "withLock True now r ?fn m = (Inr qt, m')" "events_in m' = (events_in m)(r := es @ [ev])"
    "es_seen (sm_store m') = es_seen (sm_store m) @ [ev_id ev]"
    using withLock_progress[OF m(1), where r = r and so = "Some s" and fn = ?fn and now = now and t = now and ev = ev and h = "\<lambda>_. qt" and s = s']
      d s' es id g q by (auto simp: ev accept_locked_def)
  have "engine_step cf e1 (e1\<lparr>eg_mgr := m', eg_flight := []\<rparr>)"
    by (rule engine_step.run[where q = "AwaitAccept r v sd oi" and gr = True and now = now and u = u and qid = qid and rnd = rnd])
      (use w in \<open>simp_all add: e1_def postAccept_def\<close>)
  then have "engine_reach cf (e1\<lparr>eg_mgr := m', eg_flight := []\<rparr>)" using r1 engine_reach.step by blast
  then have "at_log cf r (es @ [ev]) ls (tomb_use now (env_id v) tb) (e1\<lparr>eg_mgr := m', eg_flight := []\<rparr>)"
    by (intro at_log_after[OF at]) (use w m e in \<open>simp_all add: e1_def\<close>)
  then show ?thesis by blast
qed

end
