(* ===== verification/Zk.thy ===== *)
theory Zk
  imports Negotiation
begin

text \<open>
  \<^verbatim>\<open>packages/zk/src\<close>: the commitment to a budget, the proof that a counter stays within it, and the
  engine's verifier, with the circuit of \<^verbatim>\<open>packages/zk/circuits/BudgetRangeProof.circom\<close>. The
  libraries snarkjs and circomlibjs, the circuit templates of circomlib and the generated
  artefacts are the fields of one record; what the code relies on are predicates on it.
\<close>

section \<open>The libraries\<close>

record groth_proof =
  gp_pi_a :: "json option"
  gp_pi_b :: "json option"
  gp_pi_c :: "json option"
  gp_protocol :: string
  gp_curve :: string

record circuit_input =
  in_counter_price_scaled :: string
  in_budget_commitment :: string
  in_budget_hard_scaled :: string
  in_commitment_salt :: string

text \<open>
  \<open>poseidon L a b\<close> is \<open>F.toObject(poseidon([a, b]))\<close>. \<open>less_eq_than L n a b\<close>: the constraint
  \<open>LessEqThan(n).out === 1\<close> on these inputs. \<open>full_prove L input wasm zkey\<close> gives the three parts of the
  proof, \<open>None\<close> where it throws. \<open>groth16_verify L vkey signals p\<close> is \<open>None\<close> where it throws.
  \<open>vkey_file L path\<close>: the parsed file, \<open>None\<close> where reading or parsing it throws.
\<close>

record zk_library =
  poseidon :: "nat \<Rightarrow> nat \<Rightarrow> nat"
  less_eq_than :: "nat \<Rightarrow> nat \<Rightarrow> nat \<Rightarrow> bool"
  full_prove :: "circuit_input \<Rightarrow> string \<Rightarrow> string \<Rightarrow> (json \<times> json \<times> json) option"
  groth16_verify :: "json \<Rightarrow> string list \<Rightarrow> groth_proof \<Rightarrow> bool option"
  vkey_file :: "string \<Rightarrow> json option"

section \<open>Hexadecimal numbers\<close>

text \<open>\<open>F.toString(x, 16)\<close>.\<close>

fun show_hex :: "nat \<Rightarrow> string" where
  "show_hex n = (if n < 16 then [hex_digit n] else show_hex (n div 16) @ [hex_digit (n mod 16)])"

declare show_hex.simps [simp del]

definition hex_val :: "char \<Rightarrow> nat option" where
  "hex_val c =
     (let n = of_char c :: nat in
      if 48 \<le> n \<and> n \<le> 57 then Some (n - 48)
      else if 97 \<le> n \<and> n \<le> 102 then Some (n - 87)
      else if 65 \<le> n \<and> n \<le> 70 then Some (n - 55) else None)"

text \<open>\<open>BigInt("0x" + s)\<close>: white space after the digits is skipped; \<open>None\<close> where it throws.\<close>

fun hex_digits :: "nat \<Rightarrow> string \<Rightarrow> nat option" where
  "hex_digits a [] = Some a"
| "hex_digits a (c # cs) = (case hex_val c of None \<Rightarrow> None | Some d \<Rightarrow> hex_digits (16 * a + d) cs)"

definition trim_end :: "string \<Rightarrow> string" where
  "trim_end s = rev (dropWhile is_white_space (rev s))"

definition hex_bigint :: "string \<Rightarrow> nat option" where
  "hex_bigint s = (let t = trim_end s in if t = [] then None else hex_digits 0 t)"

section \<open>commitment.ts\<close>

definition generateBudgetCommitment :: "zk_library \<Rightarrow> mint_table \<Rightarrow> string \<Rightarrow> nat \<Rightarrow> string res" where
  "generateBudgetCommitment L mints budget_hard salt =
     rbind (scalePrice mints budget_hard None) (\<lambda>scaled.
       Inr (''poseidon:'' @ pad_start 64 (CHR ''0'') (show_hex (poseidon L scaled salt))))"

section \<open>prover.ts\<close>

record prover_paths =
  wasmPath :: "string option"
  zkeyPath :: "string option"

text \<open>The default paths, relative to the package.\<close>

definition DEFAULT_WASM_PATH :: string where
  "DEFAULT_WASM_PATH = ''build/BudgetRangeProof_js/BudgetRangeProof.wasm''"

definition DEFAULT_ZKEY_PATH :: string where
  "DEFAULT_ZKEY_PATH = ''build/BudgetRangeProof_final.zkey''"

definition DEFAULT_VKEY_PATH :: string where
  "DEFAULT_VKEY_PATH = ''keys/vkey.json''"

abbreviation or_default :: "string option \<Rightarrow> string \<Rightarrow> string" where
  "or_default v d \<equiv> (case v of Some x \<Rightarrow> x | None \<Rightarrow> d)"

definition prover_input :: "nat \<Rightarrow> nat \<Rightarrow> nat \<Rightarrow> nat \<Rightarrow> circuit_input" where
  "prover_input c h b salt = \<lparr>in_counter_price_scaled = show_nat c, in_budget_commitment = show_nat h,
     in_budget_hard_scaled = show_nat b, in_commitment_salt = show_nat salt\<rparr>"

definition generateBudgetProof ::
  "zk_library \<Rightarrow> mint_table \<Rightarrow> string \<Rightarrow> string \<Rightarrow> nat \<Rightarrow> prover_paths \<Rightarrow> json res" where
  "generateBudgetProof L mints counter_price budget_hard salt paths =
     rbind (scalePrice mints counter_price None) (\<lambda>counter_price_scaled.
     rbind (scalePrice mints budget_hard None) (\<lambda>budget_hard_scaled.
       case full_prove L (prover_input counter_price_scaled (poseidon L budget_hard_scaled salt) budget_hard_scaled salt)
              (or_default (wasmPath paths) DEFAULT_WASM_PATH) (or_default (zkeyPath paths) DEFAULT_ZKEY_PATH) of
         None \<Rightarrow> Inl (JsError ''Error in template BudgetRangeProof'')
       | Some (a, b, c) \<Rightarrow>
           Inr (JObj [(''protocol'', JStr ''groth16''), (''curve'', JStr ''bn128''),
             (''counter_price_scaled'', JStr (show_nat counter_price_scaled)),
             (''pi_a'', a), (''pi_b'', b), (''pi_c'', c)])))"

section \<open>verifier.ts\<close>

text \<open>The cached key and the path it was read from.\<close>

type_synonym vkey_cache = "json option \<times> string option"

definition getVkey :: "zk_library \<Rightarrow> string \<Rightarrow> vkey_cache \<Rightarrow> json option \<times> vkey_cache" where
  "getVkey L vkeyPath cache =
     (if falsy (fst cache) \<or> snd cache \<noteq> Some vkeyPath then
        (case vkey_file L vkeyPath of None \<Rightarrow> (None, cache) | Some v \<Rightarrow> (Some v, (Some v, Some vkeyPath)))
      else (fst cache, cache))"

definition proofForSnarkjs :: "json \<Rightarrow> groth_proof" where
  "proofForSnarkjs pr = \<lparr>gp_pi_a = jget pr ''pi_a'', gp_pi_b = jget pr ''pi_b'', gp_pi_c = jget pr ''pi_c'',
     gp_protocol = ''groth16'', gp_curve = ''bn128''\<rparr>"

definition verifyBudgetProof ::
  "zk_library \<Rightarrow> json \<Rightarrow> nat \<Rightarrow> string \<Rightarrow> string option \<Rightarrow> vkey_cache \<Rightarrow> bool res \<times> vkey_cache" where
  "verifyBudgetProof L pr counter_price_scaled commitment vkeyPath cache =
     (case hex_bigint (drop 9 commitment) of
        None \<Rightarrow> (Inl (JsError ''Cannot convert to a BigInt''), cache)
      | Some commitmentValue \<Rightarrow>
          (case getVkey L (or_default vkeyPath DEFAULT_VKEY_PATH) cache of
             (None, cache') \<Rightarrow> (Inl (JsError ''Failed to load verification key''), cache')
           | (Some vkey, cache') \<Rightarrow>
               (Inr (groth16_verify L vkey [show_nat counter_price_scaled, show_nat commitmentValue] (proofForSnarkjs pr) = Some True),
                cache')))"

text \<open>The verifier the engine is configured with; the counter route takes a throw for a rejection.\<close>

definition zk_verify :: "zk_library \<Rightarrow> zk_verifier" where
  "zk_verify L pr scaled commitment = (fst (verifyBudgetProof L pr scaled commitment None (None, None)) = Inr True)"

section \<open>The circuit\<close>

definition BudgetRangeProof :: "zk_library \<Rightarrow> nat \<Rightarrow> nat \<Rightarrow> nat \<Rightarrow> nat \<Rightarrow> bool" where
  "BudgetRangeProof L counter_price_scaled commitment budget_hard_scaled commitment_salt \<longleftrightarrow>
     poseidon L budget_hard_scaled commitment_salt = commitment \<and>
     less_eq_than L 64 counter_price_scaled budget_hard_scaled"

section \<open>What the code relies on\<close>

text \<open>
  The order of the scalar field of bn128. Hashes are elements of the field, and the comparator
  decides \<open>\<le>\<close> on inputs of its width.
\<close>

definition FIELD :: nat where
  "FIELD = 21888242871839275222246405745257275088548364400416034343698204186575808495617"

definition circuit_ok :: "zk_library \<Rightarrow> bool" where
  "circuit_ok L \<longleftrightarrow>
     (\<forall>a b. poseidon L a b < FIELD) \<and> (\<forall>a b. a < 2 ^ 64 \<longrightarrow> b < 2 ^ 64 \<longrightarrow> less_eq_than L 64 a b = (a \<le> b))"

text \<open>
  Groth16 with the keys of this circuit. Completeness: field elements that satisfy the constraints
  have a proof, and it verifies; others have none. Soundness (of knowledge): who made a proof that
  verifies for public signals, which the library reads as field elements, knew private inputs,
  field elements themselves, that satisfy the constraints; \<open>known\<close> names them.
\<close>

definition groth16_complete :: "zk_library \<Rightarrow> bool" where
  "groth16_complete L \<longleftrightarrow>
     (\<exists>vkey. vkey_file L DEFAULT_VKEY_PATH = Some vkey \<and>
       (\<forall>c h b salt. c < FIELD \<longrightarrow> h < FIELD \<longrightarrow> b < FIELD \<longrightarrow> salt < FIELD \<longrightarrow>
          (case full_prove L (prover_input c h b salt) DEFAULT_WASM_PATH DEFAULT_ZKEY_PATH of
             None \<Rightarrow> \<not> BudgetRangeProof L c h b salt
           | Some (pa, pb, pc) \<Rightarrow> BudgetRangeProof L c h b salt \<and>
               groth16_verify L vkey [show_nat c, show_nat h]
                 \<lparr>gp_pi_a = Some pa, gp_pi_b = Some pb, gp_pi_c = Some pc, gp_protocol = ''groth16'', gp_curve = ''bn128''\<rparr> = Some True)))"

type_synonym private_inputs = "nat \<Rightarrow> nat \<Rightarrow> groth_proof \<Rightarrow> nat \<times> nat"

definition groth16_sound :: "zk_library \<Rightarrow> private_inputs \<Rightarrow> bool" where
  "groth16_sound L known \<longleftrightarrow>
     (\<forall>vkey c h p. vkey_file L DEFAULT_VKEY_PATH = Some vkey \<longrightarrow>
        groth16_verify L vkey [show_nat c, show_nat h] p = Some True \<longrightarrow>
        fst (known c h p) < FIELD \<and> snd (known c h p) < FIELD \<and>
        BudgetRangeProof L (c mod FIELD) (h mod FIELD) (fst (known c h p)) (snd (known c h p)))"

section \<open>Hexadecimal round trip\<close>

lemma of_char_hex_digit: "d < 16 \<Longrightarrow> (of_char (hex_digit d) :: nat) = (if d < 10 then 48 + d else 87 + d)"
  by (simp add: hex_digit_def)

lemma hex_val_digit: "d < 16 \<Longrightarrow> hex_val (hex_digit d) = Some d"
  by (auto simp: hex_val_def of_char_hex_digit Let_def)

lemma hex_digit_not_space: "d < 16 \<Longrightarrow> \<not> is_white_space (hex_digit d)"
  by (simp add: is_white_space_def of_char_hex_digit Let_def)

lemma hex_digits_append: "hex_digits a xs = Some b \<Longrightarrow> hex_digits a (xs @ ys) = hex_digits b ys"
  by (induction a xs rule: hex_digits.induct) (auto split: option.splits)

lemma hex_digits_show: "hex_digits 0 (show_hex n) = Some n"
proof (induction n rule: show_hex.induct)
  case (1 n)
  show ?case
  proof (cases "n < 16")
    case True
    then show ?thesis by (subst show_hex.simps) (simp add: hex_val_digit)
  next
    case False
    then show ?thesis using 1 hex_digits_append[of 0 "show_hex (n div 16)" "n div 16" "[hex_digit (n mod 16)]"]
      by (subst show_hex.simps) (simp add: hex_val_digit)
  qed
qed

lemma hex_digits_zeros: "hex_digits 0 (replicate k (CHR ''0'') @ s) = hex_digits 0 s"
  by (induction k) (simp_all add: hex_val_def)

lemma show_hex_last: "\<exists>xs d. show_hex n = xs @ [hex_digit d] \<and> d < 16"
  by (subst show_hex.simps) (auto intro: exI[of _ n])

lemma trim_end_hex: "trim_end (xs @ show_hex n) = xs @ show_hex n"
  using show_hex_last[of n] by (auto simp: trim_end_def hex_digit_not_space)

lemma hex_bigint_padded: "hex_bigint (pad_start 64 (CHR ''0'') (show_hex n)) = Some n"
  using show_hex_last[of n] by (auto simp: hex_bigint_def pad_start_def trim_end_hex hex_digits_zeros hex_digits_show Let_def)

lemma show_hex_lower: "list_all is_hex_lower (show_hex n)"
proof (induction n rule: show_hex.induct)
  case (1 n)
  then show ?case by (subst show_hex.simps) (auto simp: hex_digit_lower)
qed

lemma zero_hex: "is_hex_lower (CHR ''0'')"
  by (simp add: is_hex_lower_def is_digit_def)

lemma length_show_hex: "0 < k \<Longrightarrow> n < 16 ^ k \<Longrightarrow> length (show_hex n) \<le> k"
proof (induction n arbitrary: k rule: show_hex.induct)
  case (1 n)
  show ?case
  proof (cases "n < 16")
    case True
    then show ?thesis using 1(2) by (subst show_hex.simps) simp
  next
    case False
    then obtain j where j: "k = Suc j" "0 < j" using 1(2,3) by (cases k; cases "k - 1") auto
    then have "n div 16 < 16 ^ j" using 1(3) by (simp add: div_less_iff_less_mult mult.commute)
    then show ?thesis using 1(1)[OF False j(2)] False j(1) by (subst show_hex.simps) simp
  qed
qed

lemma FIELD_bound: "FIELD < 16 ^ 64" "2 ^ 64 < FIELD" "0 < FIELD"
  by (simp_all add: FIELD_def)

section \<open>Commitments and proofs\<close>

lemma commitment_format:
  assumes "circuit_ok L" "generateBudgetCommitment L mints budget salt = Inr c"
  shows "budget_commitment_re c"
    and "\<exists>b. scalePrice mints budget None = Inr b \<and> hex_bigint (drop 9 c) = Some (poseidon L b salt)"
proof -
  obtain b where b: "scalePrice mints budget None = Inr b"
    and c: "c = ''poseidon:'' @ pad_start 64 (CHR ''0'') (show_hex (poseidon L b salt))"
    using assms(2) by (auto simp: generateBudgetCommitment_def)
  have "poseidon L b salt < 16 ^ 64" using assms(1) FIELD_bound(1) by (auto simp: circuit_ok_def intro: less_trans)
  then have "length (show_hex (poseidon L b salt)) \<le> 64" using length_show_hex[of 64] by simp
  then have "hex64 (pad_start 64 (CHR ''0'') (show_hex (poseidon L b salt)))"
    using show_hex_lower zero_hex by (auto simp: hex64_def pad_start_def list_all_iff)
  then show "budget_commitment_re c" by (simp add: budget_commitment_re_def c starts_with_def)
  show "\<exists>b. scalePrice mints budget None = Inr b \<and> hex_bigint (drop 9 c) = Some (poseidon L b salt)"
    using b by (simp add: c hex_bigint_padded)
qed

lemma zk_verify_iff:
  "zk_verify L pr scaled c \<longleftrightarrow>
     (\<exists>h vkey. hex_bigint (drop 9 c) = Some h \<and> vkey_file L DEFAULT_VKEY_PATH = Some vkey \<and>
        groth16_verify L vkey [show_nat scaled, show_nat h] (proofForSnarkjs pr) = Some True)"
  by (cases "hex_bigint (drop 9 c)"; cases "vkey_file L DEFAULT_VKEY_PATH")
    (simp_all add: zk_verify_def verifyBudgetProof_def getVkey_def)

text \<open>The verifier's cache never changes its verdict, as long as the file does not change.\<close>

definition vkey_cache_ok :: "zk_library \<Rightarrow> vkey_cache \<Rightarrow> bool" where
  "vkey_cache_ok L cache \<longleftrightarrow> (\<forall>v p. cache = (Some v, Some p) \<longrightarrow> \<not> falsy (Some v) \<longrightarrow> vkey_file L p = Some v)"

lemma getVkey_cache:
  assumes "vkey_cache_ok L cache"
  shows "fst (getVkey L p cache) = vkey_file L p \<and> vkey_cache_ok L (snd (getVkey L p cache))"
proof (cases "falsy (fst cache) \<or> snd cache \<noteq> Some p")
  case True
  then show ?thesis using assms by (simp add: getVkey_def vkey_cache_ok_def split: option.split)
next
  case False
  then obtain v where "cache = (Some v, Some p)" by (cases cache; cases "fst cache") auto
  then show ?thesis using assms False by (simp add: getVkey_def vkey_cache_ok_def)
qed

text \<open>
  A budget and a salt, both field elements, that open the commitment, and two different pairs with
  the same hash.
\<close>

definition commits_to :: "zk_library \<Rightarrow> string \<Rightarrow> nat \<Rightarrow> nat \<Rightarrow> bool" where
  "commits_to L c b salt \<longleftrightarrow> b < FIELD \<and> salt < FIELD \<and>
     (\<exists>h. hex_bigint (drop 9 c) = Some h \<and> poseidon L b salt = h mod FIELD)"

definition collides :: "zk_library \<Rightarrow> nat \<times> nat \<Rightarrow> nat \<times> nat \<Rightarrow> bool" where
  "collides L x y \<longleftrightarrow> x \<noteq> y \<and> poseidon L (fst x) (snd x) = poseidon L (fst y) (snd y)"

text \<open>What the maker of a counter's proof knew.\<close>

definition counter_inputs :: "private_inputs \<Rightarrow> string \<Rightarrow> nat \<Rightarrow> json \<Rightarrow> nat \<times> nat" where
  "counter_inputs known c scaled pr =
     (case hex_bigint (drop 9 c) of None \<Rightarrow> (0, 0) | Some h \<Rightarrow> known scaled h (proofForSnarkjs pr))"

lemma verified_within:
  assumes "circuit_ok L" "groth16_sound L known" "zk_verify L pr scaled c" "scaled < 2 ^ 64" "commits_to L c b salt"
  shows "scaled \<le> b \<or> collides L (counter_inputs known c scaled pr) (b, salt)"
proof -
  obtain h vkey where h: "hex_bigint (drop 9 c) = Some h" "vkey_file L DEFAULT_VKEY_PATH = Some vkey"
    "groth16_verify L vkey [show_nat scaled, show_nat h] (proofForSnarkjs pr) = Some True"
    using assms(3) unfolding zk_verify_iff by blast
  obtain b' salt' where k: "counter_inputs known c scaled pr = (b', salt')" "known scaled h (proofForSnarkjs pr) = (b', salt')"
    using h(1) by (cases "known scaled h (proofForSnarkjs pr)") (simp add: counter_inputs_def)
  have "BudgetRangeProof L (scaled mod FIELD) (h mod FIELD) b' salt'"
    using assms(2) h(2,3) k(2) unfolding groth16_sound_def by fastforce
  moreover have "scaled mod FIELD = scaled" using assms(4) FIELD_bound(2) by simp
  ultimately have p: "poseidon L b' salt' = h mod FIELD" "less_eq_than L 64 scaled b'" by (simp_all add: BudgetRangeProof_def)
  have "scaled \<le> b'"
  proof (cases "b' < 2 ^ 64")
    case True
    then show ?thesis using p(2) assms(1,4) by (simp add: circuit_ok_def)
  qed (use assms(4) in simp)
  moreover have "poseidon L b salt = h mod FIELD" using assms(5) h(1) by (simp add: commits_to_def)
  ultimately show ?thesis using p(1) k(1) by (auto simp: collides_def)
qed

lemma scalePrice_Inr:
  "scalePrice mints p None = Inr n \<longleftrightarrow> (\<exists>d. map_of mints DEFAULT_USDC_MINT = Some d \<and> normalizeWithDecimals p d = Inr n)"
  by (simp add: scalePrice_def normalizeAmount_def split: option.split)

text \<open>The prover's answer for a price and a budget that scale to 64-bit values.\<close>

lemma prover_answer:
  assumes "circuit_ok L" "groth16_complete L" "salt < FIELD" "scalePrice mints price None = Inr c" "c < 2 ^ 64"
    "scalePrice mints budget None = Inr b" "b < 2 ^ 64"
  shows "b < c \<Longrightarrow> \<exists>e. generateBudgetProof L mints price budget salt \<lparr>wasmPath = None, zkeyPath = None\<rparr> = Inl e"
    and "c \<le> b \<Longrightarrow> \<exists>vkey pa pb pc. vkey_file L DEFAULT_VKEY_PATH = Some vkey \<and>
       generateBudgetProof L mints price budget salt \<lparr>wasmPath = None, zkeyPath = None\<rparr> =
         Inr (JObj [(''protocol'', JStr ''groth16''), (''curve'', JStr ''bn128''), (''counter_price_scaled'', JStr (show_nat c)),
           (''pi_a'', pa), (''pi_b'', pb), (''pi_c'', pc)]) \<and>
       groth16_verify L vkey [show_nat c, show_nat (poseidon L b salt)]
         \<lparr>gp_pi_a = Some pa, gp_pi_b = Some pb, gp_pi_c = Some pc, gp_protocol = ''groth16'', gp_curve = ''bn128''\<rparr> = Some True"
proof -
  let ?h = "poseidon L b salt"
  let ?p = "full_prove L (prover_input c ?h b salt) DEFAULT_WASM_PATH DEFAULT_ZKEY_PATH"
  have f: "c < FIELD" "?h < FIELD" "b < FIELD" using assms(1,5,7) FIELD_bound(2) by (auto simp: circuit_ok_def)
  have le: "less_eq_than L 64 c b = (c \<le> b)" using assms(1,5,7) by (simp add: circuit_ok_def)
  obtain vkey where vk: "vkey_file L DEFAULT_VKEY_PATH = Some vkey"
    and res: "case ?p of None \<Rightarrow> \<not> BudgetRangeProof L c ?h b salt
       | Some (pa, pb, pc) \<Rightarrow> BudgetRangeProof L c ?h b salt \<and> groth16_verify L vkey [show_nat c, show_nat ?h]
           \<lparr>gp_pi_a = Some pa, gp_pi_b = Some pb, gp_pi_c = Some pc, gp_protocol = ''groth16'', gp_curve = ''bn128''\<rparr> = Some True"
    using assms(2,3) f unfolding groth16_complete_def by blast
  have gen: "generateBudgetProof L mints price budget salt \<lparr>wasmPath = None, zkeyPath = None\<rparr> =
      (case ?p of None \<Rightarrow> Inl (JsError ''Error in template BudgetRangeProof'')
       | Some (pa, pb, pc) \<Rightarrow> Inr (JObj [(''protocol'', JStr ''groth16''), (''curve'', JStr ''bn128''),
           (''counter_price_scaled'', JStr (show_nat c)), (''pi_a'', pa), (''pi_b'', pb), (''pi_c'', pc)]))"
    using assms(4,6) by (simp add: generateBudgetProof_def)
  show "\<exists>e. generateBudgetProof L mints price budget salt \<lparr>wasmPath = None, zkeyPath = None\<rparr> = Inl e" if "b < c"
    using that res le unfolding gen by (cases ?p) (auto simp: BudgetRangeProof_def)
  show "\<exists>vkey pa pb pc. vkey_file L DEFAULT_VKEY_PATH = Some vkey \<and>
       generateBudgetProof L mints price budget salt \<lparr>wasmPath = None, zkeyPath = None\<rparr> =
         Inr (JObj [(''protocol'', JStr ''groth16''), (''curve'', JStr ''bn128''), (''counter_price_scaled'', JStr (show_nat c)),
           (''pi_a'', pa), (''pi_b'', pb), (''pi_c'', pc)]) \<and>
       groth16_verify L vkey [show_nat c, show_nat ?h]
         \<lparr>gp_pi_a = Some pa, gp_pi_b = Some pb, gp_pi_c = Some pc, gp_protocol = ''groth16'', gp_curve = ''bn128''\<rparr> = Some True"
    if "c \<le> b"
    using that res le vk unfolding gen by (cases ?p) (auto simp: BudgetRangeProof_def)
qed

lemma accepted_proof:
  assumes "hex_bigint (drop 9 c) = Some h" "vkey_file L DEFAULT_VKEY_PATH = Some vkey" "c \<noteq> []" "budget_commitment rq = Some c"
    "groth16_verify L vkey [show_nat p, show_nat h]
       \<lparr>gp_pi_a = Some pa, gp_pi_b = Some pb, gp_pi_c = Some pc, gp_protocol = ''groth16'', gp_curve = ''bn128''\<rparr> = Some True"
    "jget body ''budget_proof'' = Some (JObj [(''protocol'', JStr ''groth16''), (''curve'', JStr ''bn128''),
       (''counter_price_scaled'', JStr (show_nat p)), (''pi_a'', pa), (''pi_b'', pb), (''pi_c'', pc)])" (is "_ = Some ?pr")
  shows "check_proof (zk_verify L) body p rq = Inr ()"
proof -
  have "proofForSnarkjs ?pr =
      \<lparr>gp_pi_a = Some pa, gp_pi_b = Some pb, gp_pi_c = Some pc, gp_protocol = ''groth16'', gp_curve = ''bn128''\<rparr>"
    by (simp add: proofForSnarkjs_def)
  then have "zk_verify L ?pr p c" unfolding zk_verify_iff using assms(1,2,5) by simp
  then show ?thesis using assms(3,4,6) by (simp add: check_proof_def has_commitment_def)
qed

section \<open>A library to evaluate on\<close>

text \<open>Its proofs are the private inputs themselves, so the laws hold by computation.\<close>

definition demo_holds :: "string \<Rightarrow> string \<Rightarrow> string \<Rightarrow> string \<Rightarrow> bool" where
  "demo_holds c h b salt \<longleftrightarrow>
     nat_of_digits b < FIELD \<and> nat_of_digits salt < FIELD \<and>
     (nat_of_digits b + nat_of_digits salt) mod FIELD = nat_of_digits h mod FIELD \<and>
     nat_of_digits c mod FIELD \<le> nat_of_digits b"

definition demo_zk :: zk_library where
  "demo_zk = \<lparr>poseidon = (\<lambda>b salt. (b + salt) mod FIELD), less_eq_than = (\<lambda>_ a b. a \<le> b),
     full_prove = (\<lambda>i _ _.
       if demo_holds (in_counter_price_scaled i) (in_budget_commitment i) (in_budget_hard_scaled i) (in_commitment_salt i)
       then Some (JStr (in_budget_hard_scaled i), JStr (in_commitment_salt i), JNull) else None),
     groth16_verify = (\<lambda>_ signals p. case (signals, gp_pi_a p, gp_pi_b p) of
         ([c, h], Some (JStr b), Some (JStr salt)) \<Rightarrow> Some (demo_holds c h b salt) | _ \<Rightarrow> None),
     vkey_file = (\<lambda>_. Some (JBool True))\<rparr>"

definition demo_known :: private_inputs where
  "demo_known c h p = (case (gp_pi_a p, gp_pi_b p) of
     (Some (JStr b), Some (JStr salt)) \<Rightarrow> (nat_of_digits b, nat_of_digits salt) | _ \<Rightarrow> (0, 0))"

lemma demo_zk_ok: "circuit_ok demo_zk" "groth16_complete demo_zk" "groth16_sound demo_zk demo_known"
proof -
  show "circuit_ok demo_zk" using FIELD_bound(3) by (simp add: circuit_ok_def demo_zk_def)
  show "groth16_complete demo_zk"
    by (auto simp: groth16_complete_def demo_zk_def prover_input_def demo_holds_def BudgetRangeProof_def)
  have "fst (demo_known c h p) < FIELD \<and> snd (demo_known c h p) < FIELD \<and>
      BudgetRangeProof demo_zk (c mod FIELD) (h mod FIELD) (fst (demo_known c h p)) (snd (demo_known c h p))"
    if "groth16_verify demo_zk vkey [show_nat c, show_nat h] p = Some True" for vkey c h p
    using that by (auto simp: demo_zk_def demo_known_def demo_holds_def BudgetRangeProof_def split: option.split_asm json.split_asm)
  then show "groth16_sound demo_zk demo_known" by (simp add: groth16_sound_def)
qed

section \<open>Properties\<close>

text \<open>
  C38. Budget proofs are complete: a commitment made to a budget has the format the engine demands,
  the prover answers for a price exactly if it is within that budget in base units, and its
  proof passes the engine's checks of a counter at that price. Budget and price are below \<open>2 ^ 64\<close>
  base units, the width of the circuit's comparison, and the salt is a field element.
\<close>

theorem honest_proof_accepted:
  assumes "circuit_ok L" "groth16_complete L" "salt < FIELD" "generateBudgetCommitment L mints budget salt = Inr c"
    "scalePrice mints price None = Inr p" "p < 2 ^ 64" "scalePrice mints budget None = Inr b" "b < 2 ^ 64"
    "budget_commitment rq = Some c"
  shows "budget_commitment_re c \<and>
     (p \<le> b \<longleftrightarrow> is_ok (generateBudgetProof L mints price budget salt \<lparr>wasmPath = None, zkeyPath = None\<rparr>)) \<and>
     (\<forall>pr body. generateBudgetProof L mints price budget salt \<lparr>wasmPath = None, zkeyPath = None\<rparr> = Inr pr \<longrightarrow>
        jget body ''budget_proof'' = Some pr \<longrightarrow> check_proof (zk_verify L) body p rq = Inr ())"
proof -
  note answer = prover_answer[OF assms(1-3,5-8)]
  have h: "hex_bigint (drop 9 c) = Some (poseidon L b salt)"
    using commitment_format(2)[OF assms(1,4)] assms(7) by auto
  have re: "budget_commitment_re c" "c \<noteq> []" using commitment_format(1)[OF assms(1,4)] by (auto simp: budget_commitment_re_def starts_with_def)
  show ?thesis
  proof (cases "p \<le> b")
    case True
    then obtain vkey pa pb pc where v: "vkey_file L DEFAULT_VKEY_PATH = Some vkey"
        "generateBudgetProof L mints price budget salt \<lparr>wasmPath = None, zkeyPath = None\<rparr> =
           Inr (JObj [(''protocol'', JStr ''groth16''), (''curve'', JStr ''bn128''), (''counter_price_scaled'', JStr (show_nat p)),
             (''pi_a'', pa), (''pi_b'', pb), (''pi_c'', pc)])"
        "groth16_verify L vkey [show_nat p, show_nat (poseidon L b salt)]
           \<lparr>gp_pi_a = Some pa, gp_pi_b = Some pb, gp_pi_c = Some pc, gp_protocol = ''groth16'', gp_curve = ''bn128''\<rparr> = Some True"
      using answer(2) by blast
    show ?thesis using True re v(2) accepted_proof[OF h v(1) re(2) assms(9) v(3)] by auto
  next
    case False
    then obtain e where "generateBudgetProof L mints price budget salt \<lparr>wasmPath = None, zkeyPath = None\<rparr> = Inl e"
      using answer(1) by auto
    then show ?thesis using False re by simp
  qed
qed

lemma replicate_six: "replicate 6 c = [c, c, c, c, c, c]"
  by (simp add: numeral_eq_Suc)

lemma demo_scaled: "scalePrice MINT_DECIMALS ''12'' None = Inr 12000000" "scalePrice MINT_DECIMALS ''9'' None = Inr 9000000"
  by (simp_all add: scalePrice_def normalizeAmount_def MINT_DECIMALS_def DEFAULT_USDC_MINT_def normalizeWithDecimals_def
      is_decimal_string_def int_part_def frac_part_def is_digit_def pad_end_def nat_of_digits_def digit_val_def replicate_six)

definition demo_commitment :: string where
  "demo_commitment = ''poseidon:'' @ replicate 58 (CHR ''0'') @ ''b71b07''"

lemma demo_zk_committed: "generateBudgetCommitment demo_zk MINT_DECIMALS ''12'' 7 = Inr demo_commitment"
proof -
  have "poseidon demo_zk 12000000 7 = 12000007" by (simp add: demo_zk_def FIELD_def)
  moreover have "pad_start 64 (CHR ''0'') (show_hex 12000007) = replicate 58 (CHR ''0'') @ ''b71b07''"
    by (simp add: show_hex.simps pad_start_def hex_digit_def char_of_def bit_0)
  ultimately show ?thesis by (simp add: generateBudgetCommitment_def demo_scaled demo_commitment_def)
qed

theorem honest_proof_accepted_witness:
  "budget_commitment_re demo_commitment \<and>
   is_ok (generateBudgetProof demo_zk MINT_DECIMALS ''9'' ''12'' 7 \<lparr>wasmPath = None, zkeyPath = None\<rparr>) \<and>
   \<not> is_ok (generateBudgetProof demo_zk MINT_DECIMALS ''12'' ''9'' 7 \<lparr>wasmPath = None, zkeyPath = None\<rparr>)"
proof -
  let ?rq = "\<lambda>c. \<lparr>buyer = [], rfq_id = [], anchor_price = [], currency = [], deadline = [], service_type = [],
      budget_commitment = Some c, spec = None\<rparr>"
  have s: "(7::nat) < FIELD" by (simp add: FIELD_def)
  obtain c where c: "generateBudgetCommitment demo_zk MINT_DECIMALS ''9'' 7 = Inr c"
    by (simp add: generateBudgetCommitment_def demo_scaled)
  show ?thesis
    using honest_proof_accepted[OF demo_zk_ok(1,2) s demo_zk_committed demo_scaled(2) _ demo_scaled(1), of "?rq demo_commitment"]
      honest_proof_accepted[OF demo_zk_ok(1,2) s c demo_scaled(1) _ demo_scaled(2), of "?rq c"]
    by simp
qed

end
