(* ===== verification/Demo.thy ===== *)
theory Demo
  imports Run Zk
begin

text \<open>
  A concrete negotiation on the demonstration platform: an RFQ, an offer, a counter, an accept,
  both signatures, all at clock reading 0. It ends in a reachable engine whose session is
  \<open>COMMITTED\<close>.
\<close>

section \<open>The messages\<close>

definition demo_rfq :: string where "demo_rfq = ''11111111-1111-4111-8111-111111111111''"
definition demo_offer_id :: string where "demo_offer_id = ''22222222-2222-4222-8222-222222222222''"
definition demo_counter_id :: string where "demo_counter_id = ''33333333-3333-4333-8333-333333333333''"
definition demo_deadline :: string where "demo_deadline = ''2030-01-01T00:00:00.000Z''"

abbreviation demo_B :: did where "demo_B \<equiv> demo_did (CHR ''B'')"
abbreviation demo_S :: did where "demo_S \<equiv> demo_did (CHR ''S'')"

text \<open>
  The chain knows two payments with the memo \<open>q1\<close>: one of 9 USDC, and, under any other
  signature, one of a millionth of a USDC.
\<close>

definition demo_payment :: string where "demo_payment = replicate 62 (CHR ''d'')"

definition demo_tx :: json where
  "demo_tx = JObj [(''meta'', JObj [(''err'', JNull)]), (''slot'', JNum 1), (''transaction'', JObj [(''message'',
     JObj [(''instructions'', JArr
       [JObj [(''program'', JStr ''spl-token''), (''parsed'', JObj [(''type'', JStr ''transferChecked''),
          (''info'', JObj [(''destination'', JStr ''ATA''), (''mint'', JStr sample_mint),
             (''tokenAmount'', JObj [(''amount'', JStr ''9000000'')])])])],
        JObj [(''program'', JStr ''spl-memo''), (''parsed'', JStr ''q1'')]])])])]"

definition demo_chain :: chain where
  "demo_chain = sample_chain\<lparr>ch_tx := (\<lambda>sig. Inr (Some (if sig = demo_payment then demo_tx else sample_tx)))\<rparr>"

definition demo_cf :: engine_config where
  "demo_cf = \<lparr>cf_platform = demo_platform, cf_mints = MINT_DECIMALS, cf_zk = zk_verify demo_zk, cf_window = None,
     cf_cosignTimeout = None, cf_discover = None,
     cf_settle = \<lparr>sc_mints = MINT_DECIMALS, sc_chain = demo_chain, sc_usdcMint = sample_mint, sc_cluster = None\<rparr>\<rparr>"

definition demo_listing :: listing where
  "demo_listing = [(''listing_id'', JStr ''l1''), (''seller'', JStr demo_S), (''service_type'', JStr ''audit''),
     (''negotiation_endpoint'', JStr ''https://n''), (''payment_endpoint'', JStr ''https://p'')]"

text \<open>The buyer commits to a budget of 12 USDC and proves its counter of 9.\<close>

definition demo_proof :: json where
  "demo_proof = JObj [(''protocol'', JStr ''groth16''), (''curve'', JStr ''bn128''), (''counter_price_scaled'', JStr (show_nat 9000000)),
     (''pi_a'', JStr (show_nat 12000000)), (''pi_b'', JStr (show_nat 7)), (''pi_c'', JNull)]"

lemma demo_proved: "generateBudgetProof demo_zk MINT_DECIMALS ''9'' ''12'' 7 \<lparr>wasmPath = None, zkeyPath = None\<rparr> = Inr demo_proof"
  unfolding generateBudgetProof_def demo_scaled rbind_Inr
  by (simp add: prover_input_def demo_holds_def demo_zk_def FIELD_def demo_proof_def)

lemma demo_commitment_value: "hex_bigint (drop 9 demo_commitment) = Some 12000007"
proof -
  have "poseidon demo_zk 12000000 7 = 12000007" by (simp add: demo_zk_def FIELD_def)
  then show ?thesis using commitment_format(2)[OF demo_zk_ok(1) demo_zk_committed] demo_scaled(1) by simp
qed

lemma demo_commitment_nonempty: "demo_commitment \<noteq> []"
  by (simp add: demo_commitment_def)

definition demo_rfq_body :: json where
  "demo_rfq_body = JObj [(''rfq_id'', JStr demo_rfq), (''protocol'', JStr PROTOCOL_VERSION), (''buyer'', JStr demo_B),
     (''service_type'', JStr ''audit''), (''spec'', JObj []), (''anchor_price'', JStr ''10''), (''currency'', JStr ''USDC''),
     (''deadline'', JStr demo_deadline), (''signature'', JStr (demo_sig (CHR ''B''))), (''budget_commitment'', JStr demo_commitment)]"

definition demo_offer_body :: json where
  "demo_offer_body = JObj [(''offer_id'', JStr demo_offer_id), (''rfq_id'', JStr demo_rfq), (''seller'', JStr demo_S),
     (''listing_id'', JStr ''l1''), (''price'', JStr ''9''), (''currency'', JStr ''USDC''),
     (''valid_until'', JStr demo_deadline), (''signature'', JStr (demo_sig (CHR ''S'')))]"

definition demo_counter_body :: json where
  "demo_counter_body = JObj [(''counter_id'', JStr demo_counter_id), (''rfq_id'', JStr demo_rfq), (''round'', JNum 1),
     (''from'', JStr demo_B), (''to'', JStr demo_S), (''price'', JStr ''9''), (''currency'', JStr ''USDC''),
     (''valid_until'', JStr demo_deadline), (''signature'', JStr (demo_sig (CHR ''B''))), (''budget_proof'', demo_proof)]"

definition demo_envelope :: control_envelope where
  "demo_envelope = \<lparr>env_id = ''v1'', env_action = ''accept'', env_rfq = demo_rfq, env_revision = ''e2'',
     env_payload = [(''seller'', JStr demo_S), (''offer_id'', JStr demo_offer_id)],
     env_issued = ''1970-01-01T00:00:00.000Z'', env_expires = demo_deadline, env_signature = demo_sig (CHR ''B'')\<rparr>"

section \<open>The events and the sessions they lead to\<close>

definition demo_e0 :: negotiation_event where
  "demo_e0 = mk_event 0 ''e0'' demo_rfq RFQ_CREATED (string_of demo_platform (jget demo_rfq_body ''buyer'')) (pick demo_rfq_body rfq_fields)"

definition demo_e1 :: negotiation_event where
  "demo_e1 = mk_event 0 ''e1'' demo_rfq OFFER_SUBMITTED (string_of demo_platform (jget demo_offer_body ''seller''))
     (offer_payload demo_rfq demo_offer_body (JStr ''https://p''))"

definition demo_e2 :: negotiation_event where
  "demo_e2 = mk_event 0 ''e2'' demo_rfq COUNTER_SENT (string_of demo_platform (jget demo_counter_body ''from''))
     (counter_payload demo_rfq demo_counter_body)"

definition demo_offer :: recorded_offer where
  "demo_offer = \<lparr>o_offer_id = demo_offer_id, o_seller = demo_S, o_price = ''9'', o_currency = ''USDC'',
     o_valid_until = demo_deadline, o_listing_id = ''l1'', o_payment_endpoint = ''https://p'', o_extensions = None\<rparr>"

definition demo_session_rfq :: session_rfq where
  "demo_session_rfq = \<lparr>buyer = demo_B, rfq_id = demo_rfq, anchor_price = ''10'', currency = ''USDC'',
     deadline = demo_deadline, service_type = ''audit'', budget_commitment = Some demo_commitment, spec = Some (JObj [])\<rparr>"

definition demo_s0 :: derived_session where
  "demo_s0 = \<lparr>state = OPEN, rfq = demo_session_rfq, offers = [], counters = [], selectedSeller = None, selectedOfferId = None,
     quoteRevision = 0, totalOfferCount = 0, offerCountBySeller = [], totalAcceptAttempts = 0, acceptAttemptsBySeller = [],
     lastEventId = ''e0'', unsignedQuote = None, buyerSignature = None, sellerSignature = None, commitPendingAt = None\<rparr>"

definition demo_s1 :: derived_session where
  "demo_s1 = demo_s0\<lparr>state := NEGOTIATING, offers := [demo_offer], totalOfferCount := 1,
     offerCountBySeller := [(demo_S, 1)], lastEventId := ''e1''\<rparr>"

definition demo_s2 :: derived_session where
  "demo_s2 = demo_s1\<lparr>counters := [\<lparr>c_counter_id = demo_counter_id, c_round = 1, c_from = demo_B, c_to = demo_S, c_price = ''9''\<rparr>],
     lastEventId := ''e2''\<rparr>"

lemmas demo_fields = demo_rfq_body_def demo_offer_body_def demo_counter_body_def
lemmas pick_simps = pick_def opt_prop_def

lemma demo_derive0: "deriveState [demo_e0] = Inr (Some demo_s0)"
  by (simp add: deriveState_def init_session_def demo_e0_def demo_fields pick_simps rfq_fields_def string_of_def
      demo_s0_def demo_session_rfq_def optStr_def obj_or_none_def str_def)

lemma demo_apply1: "apply_event demo_s0 demo_e1 = Inr demo_s1"
  by (simp add: apply_event_def apply_offer_def demo_e1_def demo_fields pick_simps string_of_def offer_payload_def
      demo_s0_def demo_s1_def demo_offer_def obj_or_none_def str_def require_def count_inc_def)

lemma demo_apply2: "apply_event demo_s1 demo_e2 = Inr demo_s2"
  by (simp add: apply_event_def apply_counter_def demo_e2_def demo_fields pick_simps string_of_def counter_payload_def
      demo_s0_def demo_s1_def demo_s2_def demo_session_rfq_def demo_offer_def num_def str_def require_def)

lemma demo_derive1: "deriveState [demo_e0, demo_e1] = Inr (Some demo_s1)"
  using deriveState_snoc[of "[demo_e0]" demo_e1] by (simp add: demo_derive0 demo_apply1)

lemma demo_derive2: "deriveState [demo_e0, demo_e1, demo_e2] = Inr (Some demo_s2)"
  using deriveState_snoc[of "[demo_e0, demo_e1]" demo_e2] by (simp add: demo_derive1 demo_apply2)

section \<open>The checks pass\<close>

lemma demo_amounts:
  "check_amount demo_platform MINT_DECIMALS ''USDC'' (Some (JStr ''10'')) = Inr 10000000"
  "check_amount demo_platform MINT_DECIMALS ''USDC'' (Some (JStr ''9'')) = Inr 9000000"
  by (simp_all add: check_amount_def mintFor_def CURRENCY_TO_MINT_def normalizeField_def normalizeAmount_def MINT_DECIMALS_def
      normalizeWithDecimals_def is_decimal_string_def int_part_def frac_part_def is_digit_def pad_end_def nat_of_digits_def
      digit_val_def replicate_six del: rbind_eq_Inr)

lemma demo_uuids: "uuid_v4_re demo_rfq" "uuid_v4_re demo_offer_id" "uuid_v4_re demo_counter_id"
  unfolding demo_rfq_def demo_offer_id_def demo_counter_id_def by code_simp+

lemma demo_future: "isFutureISO demo_platform 0 (Some (JStr demo_deadline))" "parse_date demo_platform demo_deadline = Some 1893456000000"
  using sample_date by (simp_all add: isFutureISO_def demo_deadline_def string_of_def)

lemma demo_formats:
  "starts_with ''did:key:z6Mk'' (demo_did c)" "starts_with ''ed25519:'' (demo_sig c)"
  "dec_pos demo_platform (JStr ''10'')" "dec_pos demo_platform (JStr ''9'')"
  by (simp_all add: demo_did_def demo_sig_def starts_with_def demo_platform_def is_digit_def)

lemma demo_checks:
  "check_extensions demo_platform demo_rfq_body = Inr ()" "check_extensions demo_platform demo_offer_body = Inr ()"
  "check_extensions demo_platform demo_counter_body = Inr ()"
  by (simp_all add: check_extensions_def demo_fields)

lemmas demo_valid = missing_field_def is_nullish_def isUuidV4_def isDid_def isSignatureFormat_def isValidDecimalPositive_def
  currency_supported_def SUPPORTED_CURRENCIES_def string_of_def demo_uuids demo_formats demo_future(1)

lemma demo_commitment_format: "budget_commitment_re demo_commitment"
  using commitment_format(1)[OF demo_zk_ok(1) demo_zk_committed] .

lemma demo_rfq_valid: "validateRfq demo_platform 0 demo_rfq_body = VOk"
  by (simp add: validateRfq_def rfq_required_def demo_valid demo_fields demo_commitment_format)

lemma demo_offer_valid: "validateOffer demo_platform 0 demo_offer_body demo_session_rfq = VOk"
  by (simp add: validateOffer_def offer_required_def demo_valid demo_fields demo_session_rfq_def is_blank_def is_white_space_def)

lemma demo_counter_valid: "validateCounter demo_platform 0 demo_counter_body demo_session_rfq = VOk"
  by (simp add: validateCounter_def counter_required_def demo_valid demo_fields demo_session_rfq_def has_commitment_def
      isPositiveInteger_def rat_is_int_def demo_commitment_nonempty proof_prop_def demo_proof_def)

lemma demo_rfq_pre:
  assumes "events_in m demo_rfq = []"
  shows "rfq_pre demo_platform MINT_DECIMALS 0 demo_rfq_body m = Inr ()"
proof -
  have "verify_field demo_platform (extractRfqFields demo_rfq_body) demo_rfq_body ''buyer'' ''invalid_buyer_signature'' = Inr ()"
    by (simp add: verify_field_def verifySignature_ok demo_fields string_of_def)
  moreover have "validateSpecAndExtensions demo_platform demo_rfq_body = Inr ()"
    by (simp add: validateSpecAndExtensions_def demo_checks(1)) (simp add: demo_fields js_order_def MAX_SPEC_SIZE_def)
  moreover have "\<not> hasSession demo_rfq m" using assms by (simp add: hasSession_def store_size_eq events_in_def)
  ultimately show ?thesis using demo_rfq_valid demo_amounts(1) demo_base64
    by (simp add: rfq_pre_def) (simp add: demo_fields string_of_def)
qed

lemma demo_check_offer:
  assumes "rfq s = demo_session_rfq"
  shows "check_offer demo_platform MINT_DECIMALS 0 demo_rfq demo_offer_body s = Inr ()"
proof -
  have "verify_field demo_platform (extractOfferFields demo_offer_body) demo_offer_body ''seller'' ''invalid_seller_signature'' = Inr ()"
    by (simp add: verify_field_def verifySignature_ok demo_fields string_of_def)
  then show ?thesis using assms demo_offer_valid demo_amounts(2) demo_checks(2) demo_base64
    by (simp add: check_offer_def) (simp add: demo_fields demo_session_rfq_def)
qed

lemma demo_check_counter:
  "check_counter demo_platform MINT_DECIMALS (zk_verify demo_zk) 0 demo_rfq demo_counter_body demo_s1 = Inr ()"
proof -
  have "check_proof (zk_verify demo_zk) demo_counter_body 9000000 demo_session_rfq = Inr ()"
    by (rule accepted_proof[where h = 12000007 and c = demo_commitment and vkey = "JBool True" and pa = "JStr (show_nat 12000000)"
          and pb = "JStr (show_nat 7)" and pc = JNull])
      (use demo_commitment_value in \<open>simp_all add: demo_commitment_nonempty demo_session_rfq_def demo_fields demo_proof_def demo_zk_def
         demo_holds_def FIELD_def\<close>)
  moreover
have "verify_field demo_platform (extractCounterFields demo_counter_body) demo_counter_body ''from'' ''invalid_buyer_signature'' = Inr ()"
    by (simp add: verify_field_def verifySignature_ok demo_fields string_of_def)
  moreover have "rfq demo_s1 = demo_session_rfq" by (simp add: demo_s1_def demo_s0_def)
  ultimately show ?thesis using demo_counter_valid demo_amounts(2) demo_checks(3) demo_base64
    by (simp add: check_counter_def) (simp add: demo_fields demo_session_rfq_def has_offer_from_def demo_s1_def demo_offer_def)
qed

section \<open>The run\<close>

lemma demo_cf_simps [simp]:
  "cf_platform demo_cf = demo_platform" "cf_mints demo_cf = MINT_DECIMALS" "cf_window demo_cf = None"
  "cf_zk demo_cf = zk_verify demo_zk"
  by (simp_all add: demo_cf_def)

definition demo_listings :: listing_store where "demo_listings = [(''l1'', demo_listing)]"

lemma demo_start: "at_log demo_cf demo_rfq [] [] no_tombstones engine_start"
  using engine_reach.start
  by (simp add: at_log_def engine_start_def new_manager_def events_in_def getAllEvents_def empty_store_def)

lemma demo_normalized: "normalizeListingForStorage demo_platform demo_listing = Inr demo_listing"
proof -
  have "https_url_re ''https://n''" "https_url_re ''https://p''" by code_simp+
  then show ?thesis by (simp add: normalizeListingForStorage_def demo_listing_def didFieldToPublicKey_def string_of_def)
qed

lemma demo_stored: "store_add demo_platform demo_listing [] = Inr demo_listings"
  using demo_normalized
  by (simp add: store_add_Inr demo_listings_def MAX_LISTINGS_def) (simp add: listing_id_of_def demo_listing_def)

lemma demo_seeded: "\<exists>e. at_log demo_cf demo_rfq [] demo_listings no_tombstones e"
proof -
  have sd: "seedListingsIfMissing demo_platform [demo_listing] [] = (Inr 1, demo_listings)"
    using demo_stored by (simp add: getById_def demo_listing_def)
  have "engine_step demo_cf engine_start (engine_start\<lparr>eg_listings := demo_listings\<rparr>)"
    by (rule engine_step.seed[where seeds = "[demo_listing]" and n = "Inr 1"])
      (use sd in \<open>simp add: engine_start_def del: seedListingsIfMissing.simps\<close>)
  then have "at_log demo_cf demo_rfq [] demo_listings no_tombstones (engine_start\<lparr>eg_listings := demo_listings\<rparr>)"
    using demo_start engine_reach.step by (fastforce simp: at_log_def)
  then show ?thesis by blast
qed

lemma demo_opened: "\<exists>e. at_log demo_cf demo_rfq [demo_e0] demo_listings no_tombstones e"
proof -
  obtain e where e: "at_log demo_cf demo_rfq [] demo_listings no_tombstones e" using demo_seeded by blast
  show ?thesis
    by (rule run_rfq[OF e, of 0 demo_rfq_body])
      (use demo_rfq_pre demo_derive0 in \<open>simp_all add: demo_e0_def demo_fields\<close>)
qed

lemma demo_not_passed: "\<not> time_passed demo_platform 0 demo_deadline"
  by (simp add: time_passed_def demo_future)

lemma demo_offered: "\<exists>e. at_log demo_cf demo_rfq [demo_e0, demo_e1] demo_listings no_tombstones e"
proof -
  obtain e where e: "at_log demo_cf demo_rfq [demo_e0] demo_listings no_tombstones e" using demo_opened by blast
  have g: "offer_guard demo_platform 0 demo_listings demo_offer_body demo_s0 =
      Inr (string_of demo_platform (jget demo_offer_body ''seller''), JStr ''https://p'')"
    by (simp add: offer_guard_def demo_s0_def demo_session_rfq_def demo_not_passed assertState_def demo_fields string_of_def
        MAX_OFFERS_PER_SESSION_def MAX_OFFERS_PER_SELLER_def findBySellerAndId_def demo_listings_def demo_listing_def)
  have "\<exists>e'. at_log demo_cf demo_rfq ([demo_e0] @ [demo_e1]) demo_listings no_tombstones e'"
  proof (rule run_locked[OF e demo_derive0, where now = 0 and t = 0 and h = "PostOffer demo_rfq demo_offer_body"
        and q = "AwaitOffer demo_rfq demo_offer_body" and fn = "offer_locked demo_platform 0 ''e1'' demo_listings demo_rfq demo_offer_body"
        and k = id and u = "''e1''" and qid = "[]" and rnd = "[]" and s' = demo_s1])
    show "admit demo_cf 0 (PostOffer demo_rfq demo_offer_body) e = (Inr (AwaitOffer demo_rfq demo_offer_body), m)"
      if "getSession 0 demo_rfq (eg_mgr e) = (Inr (Some demo_s0), m)" for m
      using that demo_check_offer[of demo_s0] by (simp add: offer_pre_def demo_s0_def)
    show "proceed demo_cf True 0 0 ''e1'' [] [] (AwaitOffer demo_rfq demo_offer_body) (e\<lparr>eg_mgr := m\<rparr>) =
        (let w = withLock True 0 demo_rfq (offer_locked demo_platform 0 ''e1'' demo_listings demo_rfq demo_offer_body) m
         in (Some (case fst w of Inl x \<Rightarrow> Inl x | Inr s \<Rightarrow>
              Inr (JObj (pick demo_offer_body [''offer_id''] @ [(''rfq_id'', JStr demo_rfq), (''state'', JStr (state_text (state s)))] @
                 pick demo_offer_body [''seller'', ''price'']))), e\<lparr>eg_mgr := snd w\<rparr>))" for m
      using e by (auto simp: postOffers_def Let_def at_log_def split: prod.splits sum.splits)
    show "offer_locked demo_platform 0 ''e1'' demo_listings demo_rfq demo_offer_body (Some demo_s0) m1 =
        (case appendEvent 0 demo_rfq demo_e1 m1 of (Inl x, m2) \<Rightarrow> (Inl x, m2) | (Inr s, m2) \<Rightarrow> (Inr (id s), m2))" for m1
      using g by (simp add: offer_locked_def demo_e1_def split: prod.splits sum.splits)
    show "deriveState ([demo_e0] @ [demo_e1]) = Inr (Some demo_s1)" by (simp add: demo_derive1)
  qed (simp_all add: demo_e0_def demo_e1_def)
  then show ?thesis by simp
qed

lemma demo_countered: "\<exists>e. at_log demo_cf demo_rfq [demo_e0, demo_e1, demo_e2] demo_listings no_tombstones e"
proof -
  obtain e where e: "at_log demo_cf demo_rfq [demo_e0, demo_e1] demo_listings no_tombstones e" using demo_offered by blast
  have g: "counter_guard demo_platform 0 demo_counter_body demo_s1 = Inr ()"
    by (simp add: counter_guard_def demo_s1_def demo_s0_def demo_session_rfq_def demo_not_passed assertState_def demo_fields
        has_offer_from_def demo_offer_def max_round_def)
  have pc: "preCheckSignatureFormat demo_platform (jget demo_counter_body ''signature'') (jget demo_counter_body ''from'') = Inr ()"
    using demo_base64 by (simp add: demo_fields)
  have nn: "demo_counter_body \<noteq> JNull" by (simp add: demo_fields)
  have "\<exists>e'. at_log demo_cf demo_rfq ([demo_e0, demo_e1] @ [demo_e2]) demo_listings no_tombstones e'"
  proof (rule run_locked[OF e demo_derive1, where now = 0 and t = 0 and h = "PostCounter demo_rfq demo_counter_body"
        and q = "AwaitCounter demo_rfq demo_counter_body" and fn = "counter_locked demo_platform 0 ''e2'' demo_rfq demo_counter_body"
        and k = id and u = "''e2''" and qid = "[]" and rnd = "[]" and s' = demo_s2])
    show "admit demo_cf 0 (PostCounter demo_rfq demo_counter_body) e = (Inr (AwaitCounter demo_rfq demo_counter_body), m)"
      if "getSession 0 demo_rfq (eg_mgr e) = (Inr (Some demo_s1), m)" for m
      using that demo_check_counter pc nn by (simp add: counter_pre_def)
    show "proceed demo_cf True 0 0 ''e2'' [] [] (AwaitCounter demo_rfq demo_counter_body) (e\<lparr>eg_mgr := m\<rparr>) =
        (let w = withLock True 0 demo_rfq (counter_locked demo_platform 0 ''e2'' demo_rfq demo_counter_body) m
         in (Some (case fst w of Inl x \<Rightarrow> Inl x | Inr s \<Rightarrow>
              Inr (JObj (pick demo_counter_body [''counter_id''] @ [(''rfq_id'', JStr demo_rfq), (''state'', JStr (state_text (state s)))] @
                 pick demo_counter_body [''round'', ''from'', ''to'', ''price'']))), e\<lparr>eg_mgr := snd w\<rparr>))" for m
      by (auto simp: postCounter_def Let_def split: prod.splits sum.splits)
    show "counter_locked demo_platform 0 ''e2'' demo_rfq demo_counter_body (Some demo_s1) m1 =
        (case appendEvent 0 demo_rfq demo_e2 m1 of (Inl x, m2) \<Rightarrow> (Inl x, m2) | (Inr s, m2) \<Rightarrow> (Inr (id s), m2))" for m1
      using g by (simp add: counter_locked_def demo_e2_def split: prod.splits sum.splits)
    show "deriveState ([demo_e0, demo_e1] @ [demo_e2]) = Inr (Some demo_s2)" by (simp add: demo_derive2)
  qed (simp_all add: demo_e0_def demo_e1_def demo_e2_def)
  then show ?thesis by simp
qed

section \<open>The commitment\<close>

definition demo_quote :: "(string \<times> json) list" where
  "demo_quote = [(''quote_id'', JStr ''q1''), (''rfq_id'', JStr demo_rfq), (''buyer'', JStr demo_B), (''seller'', JStr demo_S),
     (''service_type'', JStr ''audit''), (''final_price'', JStr ''9''), (''currency'', JStr ''USDC''),
     (''payment_endpoint'', JStr ''https://p''), (''expires_at'', JStr (to_iso 300000)),
     (''nonce'', JStr (make_nonce (replicate 32 0))), (''memo_policy'', JStr ''quote_id_required''),
     (''buyer_signature'', JStr []), (''seller_signature'', JStr []),
     (''spec_hash'', JStr (computeSpecHash demo_platform []))]"

definition demo_e3 :: negotiation_event where
  "demo_e3 = mk_event 0 ''e3'' demo_rfq WINNER_SELECTED demo_B
     [(''seller'', JStr demo_S), (''offer_id'', JStr demo_offer_id), (''quote'', JObj (winner_quote demo_quote))]"

definition demo_e4 :: negotiation_event where
  "demo_e4 = mk_event 0 ''e4'' demo_rfq QUOTE_SIGNED demo_B
     [(''seller'', JStr demo_S), (''buyer_signature'', JStr (demo_sig (CHR ''B'')))]"

definition demo_e5 :: negotiation_event where
  "demo_e5 = mk_event 0 ''e5'' demo_rfq QUOTE_COMMITTED demo_S
     [(''seller'', JStr demo_S), (''seller_signature'', JStr (demo_sig (CHR ''S'')))]"

definition demo_s3 :: derived_session where
  "demo_s3 = demo_s2\<lparr>state := COMMIT_PENDING, lastEventId := ''e3'', selectedSeller := Some demo_S,
     selectedOfferId := Some demo_offer_id, quoteRevision := 1, totalAcceptAttempts := 1,
     acceptAttemptsBySeller := [(demo_S, 1)], unsignedQuote := Some (JObj (winner_quote demo_quote)),
     commitPendingAt := Some (to_iso 0)\<rparr>"

definition demo_s4 :: derived_session where
  "demo_s4 = demo_s3\<lparr>lastEventId := ''e4'', buyerSignature := Some (demo_sig (CHR ''B''))\<rparr>"

definition demo_s5 :: derived_session where
  "demo_s5 = demo_s4\<lparr>state := COMMITTED, lastEventId := ''e5'', sellerSignature := Some (demo_sig (CHR ''S''))\<rparr>"

lemmas demo_sessions = demo_s0_def demo_s1_def demo_s2_def demo_s3_def demo_s4_def demo_s5_def

lemma demo_quote_built: "accept_quote demo_platform MINT_DECIMALS None 0 ''q1'' (replicate 32 0) demo_offer_id demo_s2 = Inr demo_quote"
proof -
  have "buildQuoteFromSession demo_platform 0 ''q1'' (replicate 32 0) demo_s2 demo_offer_id None = Inr demo_quote"
    by (simp add: buildQuoteFromSession_def demo_s2_def demo_s1_def demo_s0_def demo_offer_def demo_session_rfq_def
        demo_future(2) settlement_window_def DEFAULT_SETTLEMENT_WINDOW_MS_def MIN_SETTLEMENT_WINDOW_MS_def
        MAX_SETTLEMENT_WINDOW_MS_def to_iso_string_def buildUnsignedQuote_def spec_hash_of_def opt_prop_def spread_set_def
        demo_quote_def del: rbind_eq_Inr)
  moreover have "normalizeAmount MINT_DECIMALS ''9'' ''4zMMC9srt5Ri5X14GAgXhaHii3GnPAEERYPJgZJDncDU'' = Inr 9000000"
    using demo_amounts(2) by (auto simp: check_amount_def mintFor_def CURRENCY_TO_MINT_def normalizeField_def split: if_splits)
  ultimately show ?thesis
    by (simp add: accept_quote_def mintFor_def CURRENCY_TO_MINT_def demo_s2_def demo_s1_def demo_s0_def demo_session_rfq_def)
      (simp add: quote_text_def demo_quote_def)
qed

lemma demo_apply3: "apply_event demo_s2 demo_e3 = Inr demo_s3"
  by (simp add: apply_event_def apply_winner_def demo_e3_def demo_sessions demo_session_rfq_def demo_offer_def str_def
      require_def count_inc_def)

lemma demo_apply4: "apply_event demo_s3 demo_e4 = Inr demo_s4"
  by (simp add: apply_event_def apply_signed_def demo_e4_def demo_sessions demo_session_rfq_def str_def require_def)

lemma demo_apply5: "apply_event demo_s4 demo_e5 = Inr demo_s5"
  by (simp add: apply_event_def apply_committed_def demo_e5_def demo_sessions demo_session_rfq_def str_def require_def)

lemma demo_derive3: "deriveState [demo_e0, demo_e1, demo_e2, demo_e3] = Inr (Some demo_s3)"
  using deriveState_snoc[of "[demo_e0, demo_e1, demo_e2]" demo_e3] by (simp add: demo_derive2 demo_apply3)

lemma demo_derive4: "deriveState [demo_e0, demo_e1, demo_e2, demo_e3, demo_e4] = Inr (Some demo_s4)"
  using deriveState_snoc[of "[demo_e0, demo_e1, demo_e2, demo_e3]" demo_e4] by (simp add: demo_derive3 demo_apply4)

lemma demo_derive5: "deriveState [demo_e0, demo_e1, demo_e2, demo_e3, demo_e4, demo_e5] = Inr (Some demo_s5)"
  using deriveState_snoc[of "[demo_e0, demo_e1, demo_e2, demo_e3, demo_e4]" demo_e5] by (simp add: demo_derive4 demo_apply5)

lemma demo_year: "year_from_day 0 = 1970"
  by (simp add: year_from_day_def) (subst year_search.simps, simp add: day_from_year_def)

lemma demo_expiry: "parse_date P (to_iso 300000) = Some 300000"
  by (rule parse_date_to_iso) (simp_all add: demo_year)

lemma demo_quote_live: "\<not> quote_expired demo_platform 0 (Some (JObj (winner_quote demo_quote)))"
proof -
  have "map_of (winner_quote demo_quote) ''expires_at'' = Some (JStr (to_iso 300000))"
    by (simp add: winner_quote_lookup) (simp add: demo_quote_def)
  then show ?thesis by (simp add: quote_expired_def time_passed_def demo_expiry)
qed

lemma demo_epoch: "parse_date demo_platform ''1970-01-01T00:00:00.000Z'' = Some 0"
  by (simp add: parse_date_def date_parse_def iso_parse_def iso_fields_def nat_of_digits_def digit_val_def is_digit_def
      leap_day_def leap_year_def month_start_def day_from_year_def)

lemma demo_envelope_checked:
  "checkEnvelope demo_platform 0 (JObj (envelope_object demo_envelope)) ''accept'' demo_rfq demo_B no_tombstones code = Inr demo_envelope"
proof -
  have "check_times demo_platform 0 demo_envelope = Inr ()"
    by (simp add: check_times_def demo_envelope_def demo_epoch demo_future(2) MAX_ISSUED_AGE_MS_def)
  moreover have "parse_envelope (JObj (envelope_object demo_envelope)) ''accept'' demo_rfq = Inr demo_envelope"
    by (simp add: parse_envelope_def envelope_object_def demo_envelope_def)
  moreover have "verifySignature demo_platform obj (demo_sig (CHR ''B'')) demo_B code = Inr ()" for obj
    by (simp add: verifySignature_ok)
  ultimately show ?thesis using demo_base64
    by (simp add: checkEnvelope_def isUsed_def no_tombstones_def) (simp add: demo_envelope_def)
qed

lemma demo_accepted:
  "\<exists>e. at_log demo_cf demo_rfq [demo_e0, demo_e1, demo_e2, demo_e3] demo_listings (tomb_use 0 ''v1'' no_tombstones) e"
proof -
  obtain e where e: "at_log demo_cf demo_rfq [demo_e0, demo_e1, demo_e2] demo_listings no_tombstones e" using demo_countered by blast
  have g: "accept_guard demo_platform 0 demo_envelope demo_S demo_offer_id demo_s2 = Inr ()"
    by (simp add: accept_guard_def demo_sessions demo_session_rfq_def demo_not_passed assertState_def demo_offer_def
        demo_envelope_def MAX_ACCEPTS_PER_SESSION_def MAX_ACCEPTS_PER_SELLER_def)
  have b: "buyer (rfq demo_s2) = demo_B" by (simp add: demo_sessions demo_session_rfq_def)
  have "\<exists>e'. at_log demo_cf demo_rfq ([demo_e0, demo_e1, demo_e2] @ [demo_e3]) demo_listings (tomb_use 0 (env_id demo_envelope) no_tombstones) e'"
    by (rule run_accept[OF e demo_derive2, where now = 0 and body = "JObj (envelope_object demo_envelope)" and sd = demo_S
          and oi = demo_offer_id and qid = "''q1''" and rnd = "replicate 32 0" and qt = demo_quote and u = "''e3''" and s' = demo_s3])
      (use demo_envelope_checked g demo_quote_built demo_derive3 in
        \<open>simp_all add: b demo_e3_def demo_e0_def demo_e1_def demo_e2_def, simp_all add: demo_envelope_def\<close>)
  then show ?thesis by (simp add: demo_envelope_def)
qed

lemma demo_signed_quote:
  "\<exists>e. at_log demo_cf demo_rfq [demo_e0, demo_e1, demo_e2, demo_e3, demo_e4] demo_listings (tomb_use 0 ''v1'' no_tombstones) e"
proof -
  obtain e where e: "at_log demo_cf demo_rfq [demo_e0, demo_e1, demo_e2, demo_e3] demo_listings (tomb_use 0 ''v1'' no_tombstones) e"
    using demo_accepted by blast
  let ?sig = "demo_sig (CHR ''B'')"
  have s3: "deadline (rfq demo_s3) = demo_deadline" "buyer (rfq demo_s3) = demo_B" "state demo_s3 = COMMIT_PENDING"
    "buyerSignature demo_s3 = None" "selectedSeller demo_s3 = Some demo_S" "unsignedQuote demo_s3 = Some (JObj (winner_quote demo_quote))"
    by (simp_all add: demo_sessions demo_session_rfq_def)
  have g: "quote_sign_guard demo_platform 0 ?sig demo_s3 = Inr ()"
    using demo_quote_live by (simp add: quote_sign_guard_def s3 demo_not_passed assertState_def verifyQuoteSignature_ok)
  have "\<exists>e'. at_log demo_cf demo_rfq ([demo_e0, demo_e1, demo_e2, demo_e3] @ [demo_e4]) demo_listings (tomb_use 0 ''v1'' no_tombstones) e'"
  proof (rule run_locked[OF e demo_derive3, where now = 0 and t = 0 and h = "PutQuoteSign demo_rfq (JObj [(''buyer_signature'', JStr ?sig)])"
        and q = "AwaitQuoteSign demo_rfq ?sig" and fn = "quote_sign_locked demo_platform 0 0 ''e4'' demo_rfq ?sig"
        and k = id and u = "''e4''" and qid = "[]" and rnd = "[]" and s' = demo_s4])
    show "admit demo_cf 0 (PutQuoteSign demo_rfq (JObj [(''buyer_signature'', JStr ?sig)])) e = (Inr (AwaitQuoteSign demo_rfq ?sig), m)"
      if "getSession 0 demo_rfq (eg_mgr e) = (Inr (Some demo_s3), m)" for m
      using that demo_base64 by (simp add: quote_sign_pre_def s3)
    show "proceed demo_cf True 0 0 ''e4'' [] [] (AwaitQuoteSign demo_rfq ?sig) (e\<lparr>eg_mgr := m\<rparr>) =
        (let w = withLock True 0 demo_rfq (quote_sign_locked demo_platform 0 0 ''e4'' demo_rfq ?sig) m
         in (Some (case fst w of Inl x \<Rightarrow> Inl x | Inr s \<Rightarrow> Inr (signed_quote s None)), e\<lparr>eg_mgr := snd w\<rparr>))" for m
      by (auto simp: putQuoteSign_def Let_def split: prod.splits sum.splits)
    show "quote_sign_locked demo_platform 0 0 ''e4'' demo_rfq ?sig (Some demo_s3) m1 =
        (case appendEvent 0 demo_rfq demo_e4 m1 of (Inl x, m2) \<Rightarrow> (Inl x, m2) | (Inr s, m2) \<Rightarrow> (Inr (id s), m2))" for m1
      using g by (simp add: quote_sign_locked_def demo_e4_def s3 json_or_null_def split: prod.splits sum.splits)
    show "deriveState ([demo_e0, demo_e1, demo_e2, demo_e3] @ [demo_e4]) = Inr (Some demo_s4)" by (simp add: demo_derive4)
  qed (simp_all add: demo_e0_def demo_e1_def demo_e2_def demo_e3_def demo_e4_def)
  then show ?thesis by simp
qed

definition demo_log :: "negotiation_event list" where
  "demo_log = [demo_e0, demo_e1, demo_e2, demo_e3, demo_e4, demo_e5]"

lemma demo_committed: "\<exists>e. at_log demo_cf demo_rfq demo_log demo_listings (tomb_use 0 ''v1'' no_tombstones) e"
proof -
  obtain e where e: "at_log demo_cf demo_rfq [demo_e0, demo_e1, demo_e2, demo_e3, demo_e4] demo_listings (tomb_use 0 ''v1'' no_tombstones) e"
    using demo_signed_quote by blast
  let ?sig = "demo_sig (CHR ''S'')"
  have s4: "deadline (rfq demo_s4) = demo_deadline" "state demo_s4 = COMMIT_PENDING" "buyerSignature demo_s4 \<noteq> None"
    "selectedSeller demo_s4 = Some demo_S" "unsignedQuote demo_s4 = Some (JObj (winner_quote demo_quote))" "demo_S \<noteq> []"
    by (simp_all add: demo_sessions demo_session_rfq_def demo_did_def)
  have g: "cosign_guard demo_platform 0 ?sig demo_s4 = Inr demo_S"
    using demo_quote_live s4 by (simp add: cosign_guard_def demo_not_passed assertState_def verifyQuoteSignature_ok)
  have "\<exists>e'. at_log demo_cf demo_rfq ([demo_e0, demo_e1, demo_e2, demo_e3, demo_e4] @ [demo_e5]) demo_listings (tomb_use 0 ''v1'' no_tombstones) e'"
  proof (rule run_locked[OF e demo_derive4, where now = 0 and t = 0 and h = "PutCosign demo_rfq (JObj [(''seller_signature'', JStr ?sig)])"
        and q = "AwaitCosign demo_rfq ?sig" and fn = "cosign_locked demo_platform 0 0 ''e5'' demo_rfq ?sig"
        and k = id and u = "''e5''" and qid = "[]" and rnd = "[]" and s' = demo_s5])
    show "admit demo_cf 0 (PutCosign demo_rfq (JObj [(''seller_signature'', JStr ?sig)])) e = (Inr (AwaitCosign demo_rfq ?sig), m)"
      if "getSession 0 demo_rfq (eg_mgr e) = (Inr (Some demo_s4), m)" for m
      using that demo_base64 by (simp add: cosign_pre_def s4)
    show "proceed demo_cf True 0 0 ''e5'' [] [] (AwaitCosign demo_rfq ?sig) (e\<lparr>eg_mgr := m\<rparr>) =
        (let w = withLock True 0 demo_rfq (cosign_locked demo_platform 0 0 ''e5'' demo_rfq ?sig) m
         in (Some (case fst w of Inl x \<Rightarrow> Inl x | Inr s \<Rightarrow> Inr (signed_quote s (sellerSignature s))), e\<lparr>eg_mgr := snd w\<rparr>))" for m
      by (auto simp: putCosign_def Let_def split: prod.splits sum.splits)
    show "cosign_locked demo_platform 0 0 ''e5'' demo_rfq ?sig (Some demo_s4) m1 =
        (case appendEvent 0 demo_rfq demo_e5 m1 of (Inl x, m2) \<Rightarrow> (Inl x, m2) | (Inr s, m2) \<Rightarrow> (Inr (id s), m2))" for m1
      using g by (simp add: cosign_locked_def demo_e5_def split: prod.splits sum.splits)
    show "deriveState ([demo_e0, demo_e1, demo_e2, demo_e3, demo_e4] @ [demo_e5]) = Inr (Some demo_s5)" by (simp add: demo_derive5)
  qed (simp_all add: demo_e0_def demo_e1_def demo_e2_def demo_e3_def demo_e4_def demo_e5_def)
  then show ?thesis by (simp add: demo_log_def)
qed

text \<open>
  A commitment can carry a time after the deadline: the seller's co-signature is admitted and checked in
  time, and the clock passes the deadline while the signature is verified.
\<close>

definition demo_late_e5 :: negotiation_event where
  "demo_late_e5 = mk_event 1893456000001 ''e5'' demo_rfq QUOTE_COMMITTED demo_S
     [(''seller'', JStr demo_S), (''seller_signature'', JStr (demo_sig (CHR ''S'')))]"

theorem late_commitment_recorded:
  "\<exists>e. engine_reach demo_cf e \<and> demo_late_e5 \<in> set (events_in (eg_mgr e) demo_rfq) \<and>
     deriveState (events_in (eg_mgr e) demo_rfq) = Inr (Some demo_s5) \<and> state demo_s5 = COMMITTED \<and>
     ev_time demo_late_e5 = to_iso 1893456000001 \<and> time_passed demo_platform 1893456000001 (deadline (rfq demo_s5))"
proof -
  obtain e where e: "at_log demo_cf demo_rfq [demo_e0, demo_e1, demo_e2, demo_e3, demo_e4] demo_listings (tomb_use 0 ''v1'' no_tombstones) e"
    using demo_signed_quote by blast
  let ?sig = "demo_sig (CHR ''S'')" and ?now = "1893456000001 :: int"
  have s4: "deadline (rfq demo_s4) = demo_deadline" "state demo_s4 = COMMIT_PENDING" "buyerSignature demo_s4 \<noteq> None"
    "selectedSeller demo_s4 = Some demo_S" "unsignedQuote demo_s4 = Some (JObj (winner_quote demo_quote))" "demo_S \<noteq> []"
    by (simp_all add: demo_sessions demo_session_rfq_def demo_did_def)
  have g: "cosign_guard demo_platform 0 ?sig demo_s4 = Inr demo_S"
    using demo_quote_live s4 by (simp add: cosign_guard_def demo_not_passed assertState_def verifyQuoteSignature_ok)
  have "apply_event demo_s4 demo_late_e5 = Inr demo_s5"
    by (simp add: apply_event_def apply_committed_def demo_late_e5_def demo_sessions demo_session_rfq_def str_def require_def)
  then have d: "deriveState ([demo_e0, demo_e1, demo_e2, demo_e3, demo_e4] @ [demo_late_e5]) = Inr (Some demo_s5)"
    using deriveState_snoc[of "[demo_e0, demo_e1, demo_e2, demo_e3, demo_e4]" demo_late_e5] by (simp add: demo_derive4)
  have "\<exists>e'. at_log demo_cf demo_rfq ([demo_e0, demo_e1, demo_e2, demo_e3, demo_e4] @ [demo_late_e5]) demo_listings
      (tomb_use 0 ''v1'' no_tombstones) e'"
  proof (rule run_locked[OF e demo_derive4, where now = 0 and t = ?now and h = "PutCosign demo_rfq (JObj [(''seller_signature'', JStr ?sig)])"
        and q = "AwaitCosign demo_rfq ?sig" and fn = "cosign_locked demo_platform 0 ?now ''e5'' demo_rfq ?sig"
        and k = id and u = "''e5''" and qid = "[]" and rnd = "[]" and s' = demo_s5])
    show "admit demo_cf 0 (PutCosign demo_rfq (JObj [(''seller_signature'', JStr ?sig)])) e = (Inr (AwaitCosign demo_rfq ?sig), m)"
      if "getSession 0 demo_rfq (eg_mgr e) = (Inr (Some demo_s4), m)" for m
      using that demo_base64 by (simp add: cosign_pre_def s4)
    show "proceed demo_cf True 0 ?now ''e5'' [] [] (AwaitCosign demo_rfq ?sig) (e\<lparr>eg_mgr := m\<rparr>) =
        (let w = withLock True 0 demo_rfq (cosign_locked demo_platform 0 ?now ''e5'' demo_rfq ?sig) m
         in (Some (case fst w of Inl x \<Rightarrow> Inl x | Inr s \<Rightarrow> Inr (signed_quote s (sellerSignature s))), e\<lparr>eg_mgr := snd w\<rparr>))" for m
      by (auto simp: putCosign_def Let_def split: prod.splits sum.splits)
    show "cosign_locked demo_platform 0 ?now ''e5'' demo_rfq ?sig (Some demo_s4) m1 =
        (case appendEvent ?now demo_rfq demo_late_e5 m1 of (Inl x, m2) \<Rightarrow> (Inl x, m2) | (Inr s, m2) \<Rightarrow> (Inr (id s), m2))" for m1
      using g by (simp add: cosign_locked_def demo_late_e5_def split: prod.splits sum.splits)
  qed (use d in \<open>simp_all add: demo_e0_def demo_e1_def demo_e2_def demo_e3_def demo_e4_def demo_late_e5_def\<close>)
  moreover have "time_passed demo_platform ?now (deadline (rfq demo_s5))"
    using demo_future(2) by (simp add: demo_sessions demo_session_rfq_def time_passed_def)
  ultimately show ?thesis using d by (auto simp: at_log_def demo_s5_def demo_late_e5_def mk_event_def)
qed

lemma demo_engine:
  "\<exists>e. engine_reach demo_cf e \<and> events_in (eg_mgr e) demo_rfq = demo_log \<and> deriveState demo_log = Inr (Some demo_s5) \<and>
     eg_listings e = demo_listings"
  using demo_committed demo_derive5 by (auto simp: at_log_def demo_log_def)

end
