(* ===== verification/DemoSettlement.thy ===== *)
theory DemoSettlement
  imports Demo
begin

text \<open>
  Two settlements of the demonstration session: its seller reports the payment of the committed
  quote, and a third party executes a quote it made up.
\<close>

section \<open>The payments\<close>

lemma demo_transfer:
  assumes "jget q ''seller'' = Some (JStr demo_S)" "jget q ''final_price'' = Some (JStr ''9'')"
  shows "check_transfer demo_platform MINT_DECIMALS demo_chain sample_mint q demo_tx = Inr ()"
proof -
  have "extractSplTransfer demo_platform demo_tx =
      Inr (Some \<lparr>ti_destination = Some (JStr ''ATA''), ti_amount = Some (JStr ''9000000''), ti_mint = Some (JStr sample_mint)\<rparr>)"
    by (simp add: demo_tx_def extractSplTransfer_def collectInstructions_def tx_message_def oget_def elements_def
        parsed_transfer_def program_id_def coalesce_def is_nullish_def)
  moreover have "normalizeField demo_platform MINT_DECIMALS (Some (JStr ''9'')) sample_mint = Inr 9000000"
    using demo_amounts(2)
    by (auto simp: check_amount_def mintFor_def CURRENCY_TO_MINT_def sample_mint_def DEFAULT_USDC_MINT_def split: if_splits)
  moreover have "to_bigint demo_chain (Some (JStr ''9000000'')) = Inr 9000000"
    by (simp add: to_bigint_def is_digit_def nat_of_digits_def digit_val_def)
  moreover have "ch_ata demo_chain m k = Inr ''ATA''" for m k by (simp add: demo_chain_def sample_chain_def)
  ultimately show ?thesis using assms by (simp add: check_transfer_def didFieldToPublicKey_def)
qed

lemma demo_memo:
  assumes "jget q ''memo_policy'' = Some (JStr ''quote_id_required'')" "jget q ''quote_id'' = Some (JStr ''q1'')"
  shows "check_memo demo_platform demo_chain q demo_tx = Inr ()" "check_memo demo_platform demo_chain q sample_tx = Inr ()"
proof -
  have inc: "str_includes ''q1'' ''q1''" "str_includes ''q1 q2'' ''q1''" by code_simp+
  then show "check_memo demo_platform demo_chain q demo_tx = Inr ()" "check_memo demo_platform demo_chain q sample_tx = Inr ()"
    using assms
    by (simp_all add: check_memo_def demo_tx_def sample_tx_def extractMemo_def collectInstructions_def tx_message_def
        oget_def elements_def memo_instruction_def program_id_def coalesce_def is_nullish_def string_of_def
        MEMO_PROGRAM_V1_def MEMO_PROGRAM_V2_def)
qed

lemma demo_fetch:
  "fetch_tx demo_chain demo_payment = Inr demo_tx" "fetch_tx demo_chain sample_payment = Inr sample_tx"
proof -
  have "sample_payment \<noteq> demo_payment" by (simp add: sample_payment_def demo_payment_def)
  then show "fetch_tx demo_chain demo_payment = Inr demo_tx" "fetch_tx demo_chain sample_payment = Inr sample_tx"
    by (simp_all add: fetch_tx_def demo_chain_def demo_tx_def sample_tx_def oget_def)
qed

lemma demo_payment_ok: "decode_payment demo_platform demo_payment = Inr demo_payment"
  by (simp add: decode_payment_def demo_payment_def demo_platform_def latin1_def)

section \<open>The committed quote verifies\<close>

definition demo_final :: json where "demo_final = signed_quote demo_s5 (sellerSignature demo_s5)"

lemma demo_final_fields:
  "jget demo_final ''quote_id'' = Some (JStr ''q1'')" "jget demo_final ''seller'' = Some (JStr demo_S)"
  "jget demo_final ''buyer'' = Some (JStr demo_B)" "jget demo_final ''final_price'' = Some (JStr ''9'')"
  "jget demo_final ''memo_policy'' = Some (JStr ''quote_id_required'')" "jget demo_final ''currency'' = Some (JStr ''USDC'')"
  "jget demo_final ''expires_at'' = Some (JStr (to_iso 300000))"
  "jget demo_final ''nonce'' = Some (JStr (make_nonce (replicate 32 0)))"
  "jget demo_final ''buyer_signature'' = Some (JStr (demo_sig (CHR ''B'')))"
  "jget demo_final ''seller_signature'' = Some (JStr (demo_sig (CHR ''S'')))"
  by (simp_all add: demo_final_def signed_quote_def demo_sessions demo_session_rfq_def quote_fields_of_def spread_set_def
      winner_quote_def pick_simps demo_quote_def)

lemma demo_final_object: "\<exists>kvs. demo_final = JObj kvs"
  by (simp add: demo_final_def signed_quote_def)

lemma to_hex_zeros: "to_hex (replicate n 0) = replicate (2 * n) (CHR ''0'')"
proof -
  have "hex_digit 0 = CHR ''0''" by code_simp
  then show ?thesis by (induction n) (simp_all add: to_hex_def hex_byte_def)
qed

lemma demo_nonce: "nonce_re (make_nonce (replicate 32 0))"
proof -
  have "is_hex_lower (CHR ''0'')" by code_simp
  then have "list_all is_hex_lower (replicate n (CHR ''0''))" for n by (simp add: list_all_iff)
  then show ?thesis by (simp add: make_nonce_def to_hex_zeros nonce_re_def hex64_def starts_with_def)
qed

lemma demo_final_verifies: "verifyQuote demo_platform 0 demo_final = Inr VOk"
proof -
  have key: "verifyEd25519 demo_platform m (Some (JStr (demo_sig c))) (latin1 (''6Mk'' @ [c])) = Inr True" for m c
    using demo_signed[of m c] by (auto simp: signed_by_def)
  obtain kvs where kvs: "demo_final = JObj kvs" using demo_final_object by blast
  show ?thesis using demo_final_fields demo_nonce demo_formats key unfolding kvs
    by (simp add: verifyQuote_def isValidDecimalPositive_def currency_supported_def SUPPORTED_CURRENCIES_def
        memo_policy_known_def VALID_MEMO_POLICIES_def isFutureISO_def string_of_def didFieldToPublicKey_def demo_expiry Let_def
        del: rbind_eq_Inr verifyEd25519_string_True)
qed


section \<open>The report of the seller\<close>

definition demo_report :: json where
  "demo_report = JObj [(''tx_sig'', JStr demo_payment), (''quote_id'', JStr ''q1'')]"

lemma demo_settles:
  "\<exists>result. verifySettlement demo_platform MINT_DECIMALS demo_chain 0
     \<lparr>sr_quote = Some demo_final, sr_payment = demo_payment, sr_usdcMint = sample_mint, sr_cluster = None\<rparr> = Inr result"
proof -
  have "decode_quote (Some demo_final) = Inr demo_final"
    using demo_final_fields(1) by (simp add: decode_quote_def) (simp add: demo_final_def signed_quote_def)
  moreover have "block_time demo_tx = Inr JNull" by (simp add: block_time_def demo_tx_def)
  ultimately show ?thesis
    using demo_transfer[OF demo_final_fields(2,4)] demo_memo(1)[OF demo_final_fields(5,1)]
    by (simp add: verifySettlement_def settlement_quote_def demo_final_verifies demo_payment_ok demo_fetch)
qed

lemma demo_s5_quote: "oget (unsignedQuote demo_s5) ''quote_id'' = Some (JStr ''q1'')"
  by (simp add: demo_sessions demo_session_rfq_def oget_def winner_quote_lookup) (simp add: demo_quote_def)

lemma demo_mismatch: "\<not> quote_mismatch demo_s5 (Some (JStr ''q1''))"
  by (simp add: quote_mismatch_def demo_s5_quote)

lemma demo_s5_facts: "state demo_s5 = COMMITTED" "selectedSeller demo_s5 = Some demo_S" "\<exists>q. unsignedQuote demo_s5 = Some q"
  by (simp_all add: demo_sessions)

lemma demo_report_admitted:
  assumes "getSession 0 demo_rfq (eg_mgr e) = (Inr (Some demo_s5), m)"
  shows "\<exists>q. admit demo_cf 0 (PostSettleReport demo_rfq demo_S demo_report) e = (Inr q, m)"
proof -
  obtain result where "verifySettlement demo_platform MINT_DECIMALS demo_chain 0
      \<lparr>sr_quote = Some demo_final, sr_payment = demo_payment, sr_usdcMint = sample_mint, sr_cluster = None\<rparr> = Inr result"
    using demo_settles by blast
  moreover have "demo_payment \<noteq> []" by (simp add: demo_payment_def)
  ultimately show ?thesis using assms demo_s5_facts demo_mismatch
    by (auto simp: settle_report_pre_def demo_cf_def demo_report_def demo_final_def)
qed

section \<open>A forged execution\<close>

definition demo_forged :: json where
  "demo_forged = JObj [(''quote_id'', JStr ''q1''), (''rfq_id'', JStr demo_rfq), (''buyer'', JStr demo_B), (''seller'', JStr demo_S),
     (''final_price'', JStr ''0.000001''), (''currency'', JStr ''USDC''), (''expires_at'', JStr ''1970-01-01T00:00:00.000Z''),
     (''memo_policy'', JStr ''quote_id_required''), (''buyer_signature'', JStr []), (''seller_signature'', JStr [])]"

lemma demo_forged_unsigned: "\<not> quote_signed demo_platform demo_forged"
proof -
  have "\<not> signed_by demo_platform m [] d" for m d by (simp add: signed_by_def starts_with_def)
  then show ?thesis by (auto simp: quote_signed_def demo_forged_def)
qed

lemma demo_forged_transfer: "check_transfer demo_platform MINT_DECIMALS demo_chain sample_mint demo_forged sample_tx = Inr ()"
proof -
  have eq: "jget demo_forged ''seller'' = jget (sample_quote x y z) ''seller''"
    "jget demo_forged ''final_price'' = jget (sample_quote x y z) ''final_price''" for x y z
    by (simp_all add: demo_forged_def quote_with_id_def)
  have ch: "ch_ata demo_chain = ch_ata sample_chain" "to_bigint demo_chain = to_bigint sample_chain"
    by (simp_all add: demo_chain_def to_bigint_def fun_eq_iff split: option.splits json.splits)
  have "check_transfer demo_platform MINT_DECIMALS demo_chain sample_mint demo_forged tx =
      check_transfer demo_platform MINT_DECIMALS sample_chain sample_mint (sample_quote [] [] []) tx" for tx
    unfolding check_transfer_def eq[of "[]" "[]" "[]"] ch by (rule HOL.refl)
  then show ?thesis using sample_transfer by simp
qed

lemma demo_forged_settles:
  "\<exists>result. verifySettlement demo_platform MINT_DECIMALS demo_chain 0
     \<lparr>sr_quote = Some demo_forged, sr_payment = sample_payment, sr_usdcMint = sample_mint, sr_cluster = None\<rparr> = Inr result \<and>
     vr_quote result = demo_forged"
proof -
  have j: "jget demo_forged ''memo_policy'' = Some (JStr ''quote_id_required'')" "jget demo_forged ''quote_id'' = Some (JStr ''q1'')"
    by (simp_all add: demo_forged_def)
  have "dec_pos demo_platform (JStr ''0.000001'')" by code_simp
  then have "verifyQuote demo_platform 0 demo_forged = Inr (VBad ''expired_quote'')"
    by (simp add: verifyQuote_def demo_forged_def isValidDecimalPositive_def currency_supported_def
        SUPPORTED_CURRENCIES_def memo_policy_known_def VALID_MEMO_POLICIES_def isFutureISO_def string_of_def demo_epoch Let_def)
  moreover have "decode_quote (Some demo_forged) = Inr demo_forged" by (simp add: decode_quote_def demo_forged_def)
  moreover have "block_time sample_tx = Inr JNull" by (simp add: block_time_def sample_tx_def)
  ultimately show ?thesis using demo_forged_transfer demo_memo(2)[OF j]
    by (simp add: verifySettlement_def settlement_quote_def sample_payment_ok demo_fetch)
qed

lemma apply_settled:
  "state s = COMMITTED \<Longrightarrow> ev_type ev = SETTLEMENT_CONFIRMED \<Longrightarrow> apply_event s ev = Inr (s\<lparr>lastEventId := ev_id ev, state := COMMITTED\<rparr>)"
  by (simp add: apply_event_def)

lemma forged_run:
  "\<exists>e ev. engine_reach demo_cf e \<and> events_in (eg_mgr e) demo_rfq = demo_log @ [ev] \<and> ev_type ev = SETTLEMENT_CONFIRMED \<and>
     map_of (ev_payload ev) ''final_price'' = Some (JStr ''0.000001'')"
proof -
  obtain e where e: "at_log demo_cf demo_rfq demo_log demo_listings (tomb_use 0 ''v1'' no_tombstones) e" using demo_committed by blast
  have d: "deriveState demo_log = Inr (Some demo_s5)" using demo_derive5 by (simp add: demo_log_def)
  obtain result where v: "verifySettlement demo_platform MINT_DECIMALS demo_chain 0
      \<lparr>sr_quote = Some demo_forged, sr_payment = sample_payment, sr_usdcMint = sample_mint, sr_cluster = None\<rparr> = Inr result"
    and q: "vr_quote result = demo_forged" using demo_forged_settles by blast
  define ev where "ev = settle_event (to_iso 0) ''e6'' demo_rfq result (Some (JStr ''q1''))"
  have ev: "ev_type ev = SETTLEMENT_CONFIRMED" "ev_id ev = ''e6''" "ev_rfq ev = demo_rfq"
    "map_of (ev_payload ev) ''final_price'' = Some (JStr ''0.000001'')"
    by (simp_all add: ev_def settle_event_def q pick_simps) (simp add: demo_forged_def)
  obtain m where g: "getSession 0 demo_rfq (eg_mgr e) = (Inr (Some demo_s5), m)" "manager_ok m"
    "events_in m = events_in (eg_mgr e)" "sm_store m = sm_store (eg_mgr e)"
    using getSession_at[OF e d] by blast
  have r: "jget demo_forged ''rfq_id'' = Some (JStr demo_rfq)" "jget demo_forged ''quote_id'' = Some (JStr ''q1'')"
    by (simp_all add: demo_forged_def)
  have a: "admit demo_cf 0 (PostExecute (Some demo_forged) sample_payment) e = (Inr (AwaitExecute demo_rfq result), m)"
    using v g q r demo_s5_facts(1) demo_mismatch by (simp add: execute_pre_def demo_cf_def)
  have es: "events_in m demo_rfq = demo_log" "set (es_seen (sm_store m)) = set (map ev_id demo_log)"
    using e g by (auto simp: at_log_def)
  have none: "\<not> list_ex (\<lambda>x. ev_type x = SETTLEMENT_CONFIRMED) demo_log"
    by (simp add: demo_log_def demo_e0_def demo_e1_def demo_e2_def demo_e3_def demo_e4_def demo_e5_def)
  let ?s = "demo_s5\<lparr>lastEventId := ev_id ev, state := COMMITTED\<rparr>"
  have d': "deriveState (demo_log @ [ev]) = Inr (Some ?s)"
    using deriveState_snoc[of demo_log ev] d apply_settled[OF demo_s5_facts(1) ev(1)] by (simp add: demo_log_def)
  have "\<exists>m'. withLock True 0 demo_rfq (settle_locked 0 (to_iso 0) ''e6'' demo_rfq result (Some (JStr ''q1''))) m = (Inr (), m') \<and>
      events_in m' = (events_in m)(demo_rfq := events_in m demo_rfq @ [ev]) \<and> es_seen (sm_store m') = es_seen (sm_store m) @ [ev_id ev]"
  proof (rule withLock_progress[where so = "Some demo_s5" and s = ?s and ev = ev and h = "\<lambda>_. ()"])
    show "settle_locked 0 (to_iso 0) ''e6'' demo_rfq result (Some (JStr ''q1'')) (Some demo_s5) m1 =
        (case appendEvent 0 demo_rfq ev m1 of (Inl x, m2) \<Rightarrow> (Inl x, m2) | (Inr s, m2) \<Rightarrow> (Inr (), m2))"
      if "events_in m1 = events_in m" for m1
      using that none es by (simp add: settle_locked_def ev_def)
    show "ev_id ev \<notin> set (es_seen (sm_store m))" unfolding es(2) ev(2)
      by (simp add: demo_log_def demo_e0_def demo_e1_def demo_e2_def demo_e3_def demo_e4_def demo_e5_def)
  qed (use g es d d' ev in simp_all)
  then obtain m' where w: "withLock True 0 demo_rfq (settle_locked 0 (to_iso 0) ''e6'' demo_rfq result (Some (JStr ''q1''))) m = (Inr (), m')"
    "events_in m' demo_rfq = demo_log @ [ev]" using es by auto
  obtain rep e' where p: "proceed demo_cf True 0 0 ''e6'' [] [] (AwaitExecute demo_rfq result) (e\<lparr>eg_mgr := m\<rparr>) = (rep, e')" by fastforce
  have "eg_mgr e' = m'" using p w q r by (auto simp: postExecute_def)
  then show ?thesis using receive_run[OF _ _ a p] e w ev by (auto simp: at_log_def)
qed

end
