(* ===== verification/Liveness.thy ===== *)
theory Liveness
  imports Demo
begin

text \<open>
  What the deadline enforcer achieves: a scan past the deadline starts an attempt that ends the
  session when the lock is granted to it, and a scan past the co-signing timeout one that takes a
  pending selection back. Between the scan and the attempt's turn the engine may take any steps.
  The lemmas rest on the progress of \<open>withLock\<close> and on the invariants of legal logs, which rule
  out that the callback skips the session.
\<close>

section \<open>Between a scan and its attempt\<close>

lemma steps_reach: "(engine_step cf)\<^sup>*\<^sup>* e e1 \<Longrightarrow> engine_reach cf e \<Longrightarrow> engine_reach cf e1"
  by (induction rule: rtranclp_induct) (auto intro: engine_reach.step)

lemma steps_session:
  assumes "(engine_step cf)\<^sup>*\<^sup>* e e1" "engine_reach cf e" "deriveState (events_in (eg_mgr e) r) = Inr (Some s)"
  shows "\<exists>s1. deriveState (events_in (eg_mgr e1) r) = Inr (Some s1) \<and> rfq s1 = rfq s"
  using assms
proof (induction rule: rtranclp_induct)
  case (step e1 e2)
  then obtain s1 where s1: "deriveState (events_in (eg_mgr e1) r) = Inr (Some s1)" "rfq s1 = rfq s" by blast
  have "engine_ok cf e1" using step steps_reach engine_reach_ok by blast
  then obtain r' where "evolves (step_in cf (eg_listings e1) r') r' (eg_mgr e1) (eg_mgr e2)"
    using step_mgr[OF step(2)] by (auto simp: mgr_step_def)
  then show ?case using evolves_rfq s1 by metis
qed simp

lemma withLock_keeps:
  assumes ok: "manager_ok m" and d: "deriveState (events_in m r) = Inr so" and fn: "\<And>m1. snd (fn so m1) = m1"
  shows "events_in (snd (withLock gr t r fn m)) = events_in m"
proof (cases gr)
  case True
  define m1 where "m1 = m\<lparr>sm_active := List.insert r (sm_active m)\<rparr>"
  have ok1: "manager_ok m1" "events_in m1 = events_in m"
    using ok by (simp_all add: m1_def manager_ok_def cache_ok_def logs_ok_def)
  then obtain m2 where g: "getSession t r m1 = (Inr so, m2)"
    using sessions.get_value[of m1 t r] d by (cases "getSession t r m1") auto
  then have "events_in m2 = events_in m" using quiet_getSession[of m1 t r] ok1 by (simp add: quiet_def)
  then show ?thesis using g fn[of m2] True by (cases "fn so m2") (auto simp: withLock_def Let_def m1_def[symmetric])
qed (simp add: withLock_def)

lemma quiet_seen: "es_seen (sm_store (snd (getSession now r m))) = es_seen (sm_store m)"
  using getSession_fields[of now r m] by (cases "getSession now r m") auto

lemma scan_seen:
  "scan_session P timeout now removal r en m = (en', m') \<Longrightarrow> es_seen (sm_store m') = es_seen (sm_store m)"
  by (drule scan_session_cases, elim disjE) (simp_all add: quiet_seen drop_cache_def)

lemma reach_not_cleaned:
  assumes "engine_reach cf e" "deriveState (events_in (eg_mgr e) r) = Inr (Some s)" "state s \<notin> set TERMINAL_STATES"
  shows "r \<notin> set (en_cleaned (eg_enf e))"
  using cleaned_ended[OF assms(1)] assms(2,3) by (auto simp: ended_def)

text \<open>What a scan does to a live session: it starts the attempt that is due.\<close>

lemma scan_starts:
  assumes e: "engine_reach cf e" and d: "deriveState (events_in (eg_mgr e) r) = Inr (Some s)"
    and st: "state s \<notin> set TERMINAL_STATES"
    and sc: "scan_session (cf_platform cf) timeout now removal r (eg_enf e) (eg_mgr e) = (en, m)"
  shows "events_in m = events_in (eg_mgr e)"
    "scan_action_of (cf_platform cf) timeout now s = Expire \<Longrightarrow> en_attempt en = Some (ExpireSession r)"
    "scan_action_of (cf_platform cf) timeout now s = TimeOutCosign \<Longrightarrow> en_attempt en = Some (TimeOutSession r)"
proof -
  have ok: "manager_ok (eg_mgr e)" using engine_reach_ok[OF e] by (simp add: engine_ok_def)
  obtain m1 where g: "getSession now r (eg_mgr e) = (Inr (Some s), m1)"
    using sessions.get_value[OF ok, of now r] d by (cases "getSession now r (eg_mgr e)") auto
  show "events_in m = events_in (eg_mgr e)" using scan_quiet[OF sc] by (simp add: quiet_def)
  show "scan_action_of (cf_platform cf) timeout now s = Expire \<Longrightarrow> en_attempt en = Some (ExpireSession r)"
    "scan_action_of (cf_platform cf) timeout now s = TimeOutCosign \<Longrightarrow> en_attempt en = Some (TimeOutSession r)"
    using sc g reach_not_cleaned[OF e d st] by (auto simp: scan_session_def)
qed

section \<open>Expiry\<close>

lemma apply_expired:
  assumes "state s \<notin> set TERMINAL_STATES"
  shows "apply_event s (mk_event now u r NEGOTIATION_EXPIRED a p) = Inr (s\<lparr>lastEventId := u, state := EXPIRED\<rparr>)"
  using assms by (cases "state s") (simp_all add: apply_event_def TERMINAL_STATES_def)

lemma expire_progress:
  assumes ok: "manager_ok m" and d: "deriveState (events_in m r) = Inr (Some s)" and st: "state s \<notin> set TERMINAL_STATES"
    and dl: "parse_date P (deadline (rfq s)) = Some t" "t \<le> now" and u: "u \<notin> set (es_seen (sm_store m))"
  shows "\<exists>m'. tryExpire P True now u r m = (Inr (), m') \<and>
     deriveState (events_in m' r) = Inr (Some (s\<lparr>lastEventId := u, state := EXPIRED\<rparr>))"
proof -
  let ?ev = "mk_event now u r NEGOTIATION_EXPIRED ENFORCER []" and ?s = "s\<lparr>lastEventId := u, state := EXPIRED\<rparr>"
  have ne: "events_in m r \<noteq> []" using d by auto
  then have d': "deriveState (events_in m r @ [?ev]) = Inr (Some ?s)" using d by (simp add: deriveState_snoc apply_expired[OF st])
  have ex: "state s \<in> set EXPIRABLE_STATES" using st by (cases "state s") (auto simp: TERMINAL_STATES_def EXPIRABLE_STATES_def)
  have fn: "expire_locked P now u r (Some s) m1 =
      (case appendEvent now r ?ev m1 of (Inl x, m2) \<Rightarrow> (Inl x, m2) | (Inr s, m2) \<Rightarrow> (Inr (), m2))" for m1
    using dl st ex by (simp add: expire_locked_def)
  have "\<exists>m'. withLock True now r (expire_locked P now u r) m = (Inr (), m') \<and>
      events_in m' = (events_in m)(r := events_in m r @ [?ev]) \<and> es_seen (sm_store m') = es_seen (sm_store m) @ [ev_id ?ev]"
    by (rule withLock_progress[where so = "Some s" and s = ?s and ev = ?ev and h = "\<lambda>_. ()"]) (use ok d fn d' u in simp_all)
  then show ?thesis using d' by (auto simp: tryExpire_def unless_busy_def)
qed

lemma expiry_turn:
  assumes ok: "manager_ok m" and d: "deriveState (events_in m r) = Inr (Some s)"
    and dl: "parse_date P (deadline (rfq s)) = Some t" "t \<le> now" and u: "u \<notin> set (es_seen (sm_store m))"
    and a: "en_attempt en = Some (ExpireSession r)" and run: "run_attempt P timeout granted now u en m = (en', m')"
  shows "en_attempt en' = None \<and> deriveState (events_in m' r) =
     Inr (Some (if granted \<and> state s \<notin> set TERMINAL_STATES then s\<lparr>lastEventId := u, state := EXPIRED\<rparr> else s))"
proof -
  have m': "m' = snd (tryExpire P granted now u r m)" "en_attempt en' = None" using run a by (auto simp: run_attempt_def)
  show ?thesis
  proof (cases "granted \<and> state s \<notin> set TERMINAL_STATES")
    case True
    then show ?thesis using expire_progress[OF ok d _ dl u] m' by auto
  next
    case False
    have "events_in (snd (withLock granted now r (expire_locked P now u r) m)) = events_in m"
    proof (cases granted)
      case True
      then show ?thesis using False by (intro withLock_keeps[OF ok d]) (simp add: expire_locked_def)
    qed (simp add: withLock_def)
    then show ?thesis using d by (simp add: m' tryExpire_def if_not_P[OF False])
  qed
qed

section \<open>The co-signing timeout\<close>

text \<open>A pending selection has a seller, a readable start and no empty DID.\<close>

definition pending_since :: "derived_session \<Rightarrow> bool" where
  "pending_since s \<longleftrightarrow> (\<forall>since. commitPendingAt s = Some since \<longrightarrow> since \<noteq> [])"

lemma to_iso_nonempty [simp]: "to_iso t \<noteq> []"
  by (simp add: to_iso_def Let_def)

lemma pending_since_init: "init_session e = Inr s \<Longrightarrow> pending_since s"
  by (auto simp: init_session_def Let_def pending_since_def split: if_splits)

lemma pending_since_step:
  assumes "pending_since s" "event_legal P mints zk window timeout store r es s e" "apply_event s e = Inr s'"
  shows "pending_since s'"
proof -
  obtain now where "ev_time e = to_iso now" using assms(2) unfolding event_legal_def by blast
  then show ?thesis using assms(1,3) by (auto elim!: apply_event_cases simp: session_simps pending_since_def)
qed

interpretation since: legal_invariant P mints zk window timeout store r "\<lambda>_. pending_since" for P mints zk window timeout store r
  by unfold_locales (auto simp: pending_since_init intro: pending_since_step)

lemma signer_nonempty: "signed_by P m sig d \<Longrightarrow> d \<noteq> []"
  by (auto simp: signed_by_def didToPublicKey_def starts_with_def DID_KEY_PREFIX_def)


lemma list_all2_partner: "list_all2 Q xs ys \<Longrightarrow> x \<in> set xs \<Longrightarrow> \<exists>y \<in> set ys. Q x y"
  by (induction rule: list_all2_induct) auto

lemma sellers_nonempty:
  assumes e: "engine_reach cf e" and d: "deriveState (events_in (eg_mgr e) r) = Inr (Some s)" and o: "o' \<in> set (offers s)"
  shows "o_seller o' \<noteq> []"
proof -
  have "list_all2 offer_event (offers s) (events_of OFFER_SUBMITTED (events_in (eg_mgr e) r))"
    using logged.derived[OF d] by (simp add: offers_logged_def)
  then obtain ev where ev: "ev \<in> set (events_in (eg_mgr e) r)" "ev_type ev = OFFER_SUBMITTED" "ev_actor ev = o_seller o'"
    using list_all2_partner[OF _ o] by (fastforce simp: offer_event_def events_of_def)
  have "legal_in cf (eg_listings e) r (events_in (eg_mgr e) r)" using engine_reach_ok[OF e] by (simp add: engine_ok_def)
  then have "messages_signed (cf_platform cf) (events_in (eg_mgr e) r)" using log_facts.legal d by blast
  then have "self_signed (cf_platform cf) offer_fields ev" using ev by (simp add: messages_signed_def signed_fields_def)
  then show ?thesis using ev(3) signer_nonempty by (fastforce simp: self_signed_def)
qed

lemma apply_timed_out:
  assumes "state s = COMMIT_PENDING" "selectedSeller s = Some d"
  shows "apply_event s (mk_event now u r COSIGN_TIMEOUT a [(''seller'', JStr d)]) =
     Inr (s\<lparr>lastEventId := u, state := NEGOTIATING, selectedSeller := None, selectedOfferId := None, unsignedQuote := None,
            buyerSignature := None, sellerSignature := None, commitPendingAt := None\<rparr>)"
  using assms by (simp add: apply_event_def apply_rollback_def str_def require_def)

lemma timeout_progress:
  assumes ok: "manager_ok m" and d: "deriveState (events_in m r) = Inr (Some s)" and st: "state s = COMMIT_PENDING"
    and since: "commitPendingAt s = Some since" "since \<noteq> []" "\<forall>t. parse_date P since = Some t \<longrightarrow> t + timeout \<le> now"
    and sel: "selectedSeller s = Some sd" "sd \<noteq> []" and u: "u \<notin> set (es_seen (sm_store m))"
  shows "\<exists>m'. tryCosignTimeout P timeout True now u r m = (Inr (), m') \<and>
     deriveState (events_in m' r) = Inr (Some (s\<lparr>lastEventId := u, state := NEGOTIATING, selectedSeller := None,
        selectedOfferId := None, unsignedQuote := None, buyerSignature := None, sellerSignature := None, commitPendingAt := None\<rparr>))"
proof -
  let ?ev = "mk_event now u r COSIGN_TIMEOUT ENFORCER [(''seller'', JStr sd)]"
  let ?s = "s\<lparr>lastEventId := u, state := NEGOTIATING, selectedSeller := None,
        selectedOfferId := None, unsignedQuote := None, buyerSignature := None, sellerSignature := None, commitPendingAt := None\<rparr>"
  have "events_in m r \<noteq> []" using d by auto
  then have d': "deriveState (events_in m r @ [?ev]) = Inr (Some ?s)"
    using d by (simp add: deriveState_snoc apply_timed_out[OF st sel(1)])
  have fn: "timeout_locked P timeout now u r (Some s) m1 =
      (case appendEvent now r ?ev m1 of (Inl x, m2) \<Rightarrow> (Inl x, m2) | (Inr s, m2) \<Rightarrow> (Inr (), m2))" for m1
    using since st sel by (auto simp: timeout_locked_def split: option.splits)
  have "\<exists>m'. withLock True now r (timeout_locked P timeout now u r) m = (Inr (), m') \<and>
      events_in m' = (events_in m)(r := events_in m r @ [?ev]) \<and> es_seen (sm_store m') = es_seen (sm_store m) @ [ev_id ?ev]"
    by (rule withLock_progress[where so = "Some s" and s = ?s and ev = ?ev and h = "\<lambda>_. ()"]) (use ok d fn d' u in simp_all)
  then show ?thesis using d' by (auto simp: tryCosignTimeout_def unless_busy_def)
qed

text \<open>A selection that has waited for the co-signature at least the timeout.\<close>

definition overdue :: "platform \<Rightarrow> int \<Rightarrow> millis \<Rightarrow> derived_session \<Rightarrow> bool" where
  "overdue P timeout now s \<longleftrightarrow> state s = COMMIT_PENDING \<and>
     (\<exists>since. commitPendingAt s = Some since \<and> (\<forall>t. parse_date P since = Some t \<longrightarrow> t + timeout \<le> now))"

abbreviation rolled_back :: "event_id \<Rightarrow> derived_session \<Rightarrow> derived_session" where
  "rolled_back u s \<equiv> s\<lparr>lastEventId := u, state := NEGOTIATING, selectedSeller := None, selectedOfferId := None,
     unsignedQuote := None, buyerSignature := None, sellerSignature := None, commitPendingAt := None\<rparr>"

lemma timeout_turn:
  assumes e: "engine_reach cf e" and d: "deriveState (events_in (eg_mgr e) r) = Inr (Some s)"
    and u: "u \<notin> set (es_seen (sm_store (eg_mgr e)))" and a: "en_attempt en = Some (TimeOutSession r)"
    and run: "run_attempt (cf_platform cf) timeout granted now u en (eg_mgr e) = (en', m')"
  shows "en_attempt en' = None \<and> deriveState (events_in m' r) =
     Inr (Some (if granted \<and> overdue (cf_platform cf) timeout now s then rolled_back u s else s))"
proof -
  let ?P = "cf_platform cf"
  have ok: "manager_ok (eg_mgr e)" and l: "legal_in cf (eg_listings e) r (events_in (eg_mgr e) r)"
    using engine_reach_ok[OF e] by (auto simp: engine_ok_def)
  have m': "m' = snd (tryCosignTimeout ?P timeout granted now u r (eg_mgr e))" "en_attempt en' = None"
    using run a by (auto simp: run_attempt_def)
  show ?thesis
  proof (cases "granted \<and> overdue ?P timeout now s")
    case True
    then obtain since where since: "commitPendingAt s = Some since" "\<forall>t. parse_date ?P since = Some t \<longrightarrow> t + timeout \<le> now"
      and st: "state s = COMMIT_PENDING" by (auto simp: overdue_def)
    have ne: "since \<noteq> []" using since.legal[OF l d] since(1) by (simp add: pending_since_def)
    obtain o' where "o' \<in> set (offers s)" "selectedSeller s = Some (o_seller o')"
      using quotes.legal[OF l d] st unfolding quote_inv_def by blast
    then have "selectedSeller s = Some (o_seller o')" "o_seller o' \<noteq> []" using sellers_nonempty[OF e d] by auto
    then show ?thesis using timeout_progress[OF ok d st since(1) ne since(2) _ _ u] True m' by auto
  next
    case False
    have "events_in (snd (withLock granted now r (timeout_locked ?P timeout now u r) (eg_mgr e))) = events_in (eg_mgr e)"
    proof (cases granted)
      case True
      then have "snd (timeout_locked ?P timeout now u r (Some s) m1) = m1" for m1
        using False by (auto simp: timeout_locked_def overdue_def split: option.splits if_splits)
      then show ?thesis by (rule withLock_keeps[OF ok d])
    qed (simp add: withLock_def)
    then show ?thesis using d by (simp add: m' tryCosignTimeout_def if_not_P[OF False])
  qed
qed

end
