(* ===== verification/Atomicity.thy ===== *)
theory Atomicity
  imports Engine
begin

text \<open>
  Responses and the log: a request answered with an error has written nothing, and one answered
  with success has written its event. The locale \<open>atomic_callback\<close> is the first half of this
  contract for a callback under the lock, \<open>writing_callback\<close> adds the second; they are
  interpreted on the callbacks of the routes.
\<close>

locale atomic_callback =
  fixes fn :: "derived_session option \<Rightarrow> manager \<Rightarrow> 'a res \<times> manager"
  assumes fails: "fn so m = (Inl x, m') \<Longrightarrow> m' = m"
begin

lemma withLock_fails:
  assumes "withLock gr now r fn m = (Inl x, m')" shows "events_in m' = events_in m"
proof (cases gr)
  case False
  then show ?thesis using assms by (simp add: withLock_def)
next
  case True
  define m1 where "m1 = m\<lparr>sm_active := List.insert r (sm_active m)\<rparr>"
  obtain v m2 where g: "getSession now r m1 = (v, m2)" by fastforce
  have "events_in m2 = events_in m" using quiet_getSession[of m1 now r] g by (simp add: quiet_def m1_def)
  moreover have "\<exists>m3. m' = m3\<lparr>sm_active := removeAll r (sm_active m3)\<rparr> \<and> m3 = m2"
    using assms g fails True by (auto simp: withLock_def Let_def m1_def[symmetric] split: prod.splits sum.splits)
  ultimately show ?thesis by auto
qed

end

locale writing_callback = atomic_callback fn
  for fn :: "derived_session option \<Rightarrow> manager \<Rightarrow> 'a res \<times> manager" +
  fixes now :: millis and r :: string
  assumes writes: "fn so m = (Inr y, m') \<Longrightarrow> \<exists>ev s. appendEvent now r ev m = (Inr s, m')"
begin

lemma withLock_writes:
  assumes "withLock gr t r fn m = (Inr y, m')"
  shows "\<exists>ev. ev_rfq ev = r \<and> events_in m' = (events_in m)(r := events_in m r @ [ev])"
proof -
  define m1 where "m1 = m\<lparr>sm_active := List.insert r (sm_active m)\<rparr>"
  have gr: gr using assms by (simp add: withLock_def split: if_splits)
  obtain v m2 where g: "getSession t r m1 = (v, m2)" by fastforce
  have ev2: "events_in m2 = events_in m" using quiet_getSession[of m1 t r] g by (simp add: quiet_def m1_def)
  obtain so m3 where f: "fn so m2 = (Inr y, m3)" "m' = m3\<lparr>sm_active := removeAll r (sm_active m3)\<rparr>"
    using assms g gr by (auto simp: withLock_def Let_def m1_def[symmetric] split: prod.splits sum.splits)
  then obtain ev s where a: "appendEvent now r ev m2 = (Inr s, m3)" using writes by blast
  then have "ev_rfq ev = r" by (auto simp: appendEvent_Inr store_append_Inr)
  then show ?thesis using appendEvent_log[OF a] f(2) ev2 by auto
qed

end

lemmas locked_defs = rfq_locked_def offer_locked_def counter_locked_def accept_locked_def quote_sign_locked_def
  cosign_locked_def decline_locked_def

lemmas locked_splits = option.splits sum.splits prod.splits if_splits

interpretation rfq_w: writing_callback "rfq_locked P now u body r" now r for P now u body r
  by unfold_locales (auto simp: locked_defs dest: appendEvent_Inl split: locked_splits)

interpretation offer_w: writing_callback "offer_locked P now u store r body" now r for P now u store r body
  by unfold_locales (auto simp: locked_defs dest: appendEvent_Inl split: locked_splits)

interpretation counter_w: writing_callback "counter_locked P now u r body" now r for P now u r body
  by unfold_locales (auto simp: locked_defs dest: appendEvent_Inl split: locked_splits)

interpretation accept_w: writing_callback "accept_locked P mints window now u qid rnd r v d oi" now r
  for P mints window now u qid rnd r v d oi
  by unfold_locales (auto simp: locked_defs dest: appendEvent_Inl split: locked_splits)

interpretation quote_sign_w: writing_callback "quote_sign_locked P now now' u r sig" now' r for P now now' u r sig
  by unfold_locales (auto simp: locked_defs dest: appendEvent_Inl split: locked_splits)

interpretation cosign_w: writing_callback "cosign_locked P now now' u r sig" now' r for P now now' u r sig
  by unfold_locales (auto simp: locked_defs dest: appendEvent_Inl split: locked_splits)

interpretation decline_w: writing_callback "decline_locked P now u r v d" now r for P now u r v d
  by unfold_locales (auto simp: locked_defs dest: appendEvent_Inl split: locked_splits)

text \<open>A settlement that is already recorded is answered with success and not written again.\<close>

interpretation settle_w: atomic_callback "settle_locked now va u r result quoteId" for now va u r result quoteId
  by unfold_locales (auto simp: settle_locked_def dest: appendEvent_Inl split: locked_splits)

lemmas fails_quietly = rfq_w.withLock_fails offer_w.withLock_fails counter_w.withLock_fails accept_w.withLock_fails
  quote_sign_w.withLock_fails cosign_w.withLock_fails decline_w.withLock_fails settle_w.withLock_fails

lemmas success_writes = rfq_w.withLock_writes offer_w.withLock_writes counter_w.withLock_writes accept_w.withLock_writes
  quote_sign_w.withLock_writes cosign_w.withLock_writes decline_w.withLock_writes

lemmas response_defs = postRfqs_def postOffers_def postCounter_def postAccept_def putQuoteSign_def putCosign_def putDecline_def
  postExecute_def postSettleReport_def

lemma proceed_error:
  assumes "proceed cf gr now now' u qid rnd q e = (Some (Inl x), e')"
  shows "events_in (eg_mgr e') = events_in (eg_mgr e)"
  using assms by (cases q) (auto simp: response_defs dest: fails_quietly split: locked_splits)

lemma proceed_success:
  assumes "proceed cf gr now now' u qid rnd q e = (Some (Inr y), e')" "\<forall>r v. q \<noteq> AwaitExecute r v" "\<forall>r t v i. q \<noteq> AwaitReport r t v i"
  shows "\<exists>r ev. ev_rfq ev = r \<and> events_in (eg_mgr e') = (events_in (eg_mgr e))(r := events_in (eg_mgr e) r @ [ev])"
  using assms by (cases q) (auto simp: response_defs dest!: success_writes split: locked_splits)

text \<open>
  A request of a party whose turn in the lock comes after the deadline is refused, whatever it
  found before it waited.
\<close>

fun party_turn :: "in_flight \<Rightarrow> string option" where
  "party_turn (AwaitOffer r body) = Some r"
| "party_turn (AwaitCounter r body) = Some r"
| "party_turn (AwaitAccept r v d oi) = Some r"
| "party_turn (AwaitQuoteSign r sig) = Some r"
| "party_turn (AwaitCosign r sig) = Some r"
| "party_turn (AwaitDecline r v d) = Some r"
| "party_turn q = None"

lemma withLock_refuses:
  assumes ok: "manager_ok m" and d: "deriveState (events_in m r) = Inr so"
    and fn: "\<And>m1. \<exists>x. fn so m1 = (Inl x, m1)"
  shows "\<exists>x. fst (withLock gr now r fn m) = Inl x"
proof (cases gr)
  case True
  define m1 where "m1 = m\<lparr>sm_active := List.insert r (sm_active m)\<rparr>"
  have "manager_ok m1" "events_in m1 = events_in m"
    using ok by (simp_all add: m1_def manager_ok_def cache_ok_def logs_ok_def)
  then obtain m2 where "getSession now r m1 = (Inr so, m2)"
    using sessions.get_value[of m1 now r] d by (cases "getSession now r m1") auto
  then show ?thesis using fn[of m2] True by (auto simp: withLock_def Let_def m1_def[symmetric])
qed (simp add: withLock_def)

lemma late_guards:
  assumes "time_passed P now (deadline (rfq s))"
  shows "\<exists>x. offer_locked P now u store r body (Some s) m = (Inl x, m)"
    "\<exists>x. counter_locked P now u r body (Some s) m = (Inl x, m)"
    "\<exists>x. accept_locked P mints window now u qid rnd r v d oi (Some s) m = (Inl x, m)"
    "\<exists>x. quote_sign_locked P now now' u r sig (Some s) m = (Inl x, m)"
    "\<exists>x. cosign_locked P now now' u r sig (Some s) m = (Inl x, m)"
    "\<exists>x. decline_locked P now u r v d (Some s) m = (Inl x, m)"
  using assms by (auto simp: locked_defs offer_guard_def counter_guard_def accept_guard_def quote_sign_guard_def
      cosign_guard_def decline_guard_def)

lemma late_turn:
  assumes ok: "manager_ok (eg_mgr e)" and d: "deriveState (events_in (eg_mgr e) r) = Inr (Some s)"
    and late: "time_passed (cf_platform cf) now (deadline (rfq s))" and q: "party_turn q = Some r"
    and p: "proceed cf gr now now' u qid rnd q e = (rep, e')"
  shows "(\<exists>x. rep = Some (Inl x)) \<and> events_in (eg_mgr e') = events_in (eg_mgr e)"
proof -
  note refuses = withLock_refuses[OF ok d, where gr = gr and now = now]
  have "\<exists>x. rep = Some (Inl x)"
  proof (cases q)
    case (AwaitOffer r' body)
    then show ?thesis using p q refuses[where fn = "offer_locked (cf_platform cf) now u (eg_listings e) r body", OF late_guards(1)[OF late]]
      by (auto simp: response_defs split: locked_splits)
  next
    case (AwaitCounter r' body)
    then show ?thesis using p q refuses[where fn = "counter_locked (cf_platform cf) now u r body", OF late_guards(2)[OF late]]
      by (auto simp: response_defs split: locked_splits)
  next
    case (AwaitAccept r' v d oi)
    then show ?thesis using p q refuses[where fn = "accept_locked (cf_platform cf) (cf_mints cf) (cf_window cf) now u qid rnd r v d oi", OF late_guards(3)[OF late]]
      by (auto simp: response_defs split: locked_splits)
  next
    case (AwaitQuoteSign r' sig)
    then show ?thesis using p q refuses[where fn = "quote_sign_locked (cf_platform cf) now now' u r sig", OF late_guards(4)[OF late]]
      by (auto simp: response_defs split: locked_splits)
  next
    case (AwaitCosign r' sig)
    then show ?thesis using p q refuses[where fn = "cosign_locked (cf_platform cf) now now' u r sig", OF late_guards(5)[OF late]]
      by (auto simp: response_defs split: locked_splits)
  next
    case (AwaitDecline r' v d)
    then show ?thesis using p q refuses[where fn = "decline_locked (cf_platform cf) now u r v d", OF late_guards(6)[OF late]]
      by (auto simp: response_defs split: locked_splits)
  qed (use q in simp_all)
  then show ?thesis using proceed_error p by blast
qed

end
