(* ===== verification/SqliteStore.thy ===== *)
theory SqliteStore
  imports EventStore
begin

text \<open>
  \<^verbatim>\<open>packages/engine/src/state/sqlite-event-store.ts\<close>: the durable event store. The table \<open>events\<close> is
  the list of its rows in the order of insertion; the prepared statements are functions on it.
  A JSON text in the column \<open>payload\<close> is represented by the value it denotes, so that
  \<open>JSON.stringify\<close> is \<open>JsonText\<close> and \<open>JSON.parse\<close> takes it away. Whether the database can
  write (the disk, the page limit) is an argument of \<open>sql_append\<close>; the order of the rows of the
  \<open>SELECT DISTINCT\<close> at startup is one of \<open>sql_open\<close>. Pragmas and indexes do not change
  answers. The store refines the in-memory store of \<open>EventStore\<close>: \<open>mem_of\<close> is the abstraction.
\<close>

section \<open>Model\<close>

datatype json_text = JsonText (json_of: payload)

record event_row =
  row_id :: nat
  row_event_id :: event_id
  row_session :: string
  row_type :: event_type
  row_actor :: did
  row_time :: string
  row_payload :: json_text

definition rowToEvent :: "event_row \<Rightarrow> negotiation_event" where
  "rowToEvent row = \<lparr>ev_id = row_event_id row, ev_rfq = row_session row, ev_type = row_type row,
     ev_time = row_time row, ev_actor = row_actor row, ev_payload = json_of (row_payload row)\<rparr>"

record sqlite_store =
  sq_rows :: "event_row list"
  sq_active :: "string list"
  sq_subs :: "(string \<times> nat) list"
  sq_sets :: "nat \<Rightarrow> subscriber list"
  sq_term :: "(string \<times> nat) list"
  sq_tsets :: "nat \<Rightarrow> nat list"
  sq_fired :: "(nat \<times> session_state) list"
  sq_next :: nat

text \<open>The statements.\<close>

definition next_row_id :: "event_row list \<Rightarrow> nat" where
  "next_row_id rows = foldr max (map row_id rows) 0 + 1"

definition stmtInsert :: "event_row \<Rightarrow> event_row list \<Rightarrow> event_row list option" where
  "stmtInsert row rows =
     (if list_ex (\<lambda>x. row_event_id x = row_event_id row) rows then None
      else Some (rows @ [row\<lparr>row_id := next_row_id rows\<rparr>]))"

definition stmtGetAll :: "string \<Rightarrow> event_row list \<Rightarrow> event_row list" where
  "stmtGetAll session rows = sort_key row_id (filter (\<lambda>x. row_session x = session) rows)"

definition stmtGetAfterCursor :: "string \<Rightarrow> event_id \<Rightarrow> event_row list \<Rightarrow> event_row list" where
  "stmtGetAfterCursor session cursor rows =
     (case find (\<lambda>x. row_session x = session \<and> row_event_id x = cursor) rows of
        None \<Rightarrow> []
      | Some c \<Rightarrow> sort_key row_id (filter (\<lambda>x. row_session x = session \<and> row_id c < row_id x) rows))"

definition stmtHasCursor :: "string \<Rightarrow> event_id \<Rightarrow> event_row list \<Rightarrow> bool" where
  "stmtHasCursor session cursor rows = list_ex (\<lambda>x. row_session x = session \<and> row_event_id x = cursor) rows"

definition stmtSize :: "string \<Rightarrow> event_row list \<Rightarrow> nat" where
  "stmtSize session rows = length (filter (\<lambda>x. row_session x = session) rows)"

text \<open>The constructor; \<open>ids\<close> are the rows of \<open>SELECT DISTINCT session_id\<close> in the order delivered.\<close>

definition sql_open :: "event_row list \<Rightarrow> string list \<Rightarrow> sqlite_store" where
  "sql_open rows ids = \<lparr>sq_rows = rows, sq_active = remdups ids, sq_subs = [], sq_sets = (\<lambda>_. []), sq_term = [],
     sq_tsets = (\<lambda>_. []), sq_fired = [], sq_next = 0\<rparr>"

definition event_row_of :: "string \<Rightarrow> negotiation_event \<Rightarrow> event_row" where
  "event_row_of rfqId event = \<lparr>row_id = 0, row_event_id = ev_id event, row_session = rfqId, row_type = ev_type event,
     row_actor = ev_actor event, row_time = ev_time event, row_payload = JsonText (ev_payload event)\<rparr>"

definition frozen_event :: "string \<Rightarrow> negotiation_event \<Rightarrow> negotiation_event" where
  "frozen_event rfqId event = \<lparr>ev_id = ev_id event, ev_rfq = rfqId, ev_type = ev_type event, ev_time = ev_time event,
     ev_actor = ev_actor event, ev_payload = json_of (JsonText (ev_payload event))\<rparr>"

definition sql_notify_subscribers :: "string \<Rightarrow> negotiation_event \<Rightarrow> sqlite_store \<Rightarrow> sqlite_store" where
  "sql_notify_subscribers rfqId event st =
     (case map_of (sq_subs st) rfqId of
        None \<Rightarrow> st
      | Some a \<Rightarrow> st\<lparr>sq_sets := (sq_sets st)(a := map (deliver event) (sq_sets st a))\<rparr>)"

definition sql_notify_terminal :: "string \<Rightarrow> negotiation_event \<Rightarrow> sqlite_store \<Rightarrow> sqlite_store" where
  "sql_notify_terminal rfqId event st =
     (if ev_type event \<in> set TERMINAL_EVENT_TYPES then
        (case map_of (sq_term st) rfqId of
           None \<Rightarrow> st
         | Some a \<Rightarrow>
             st\<lparr>sq_fired := sq_fired st @ map (\<lambda>l. (l, terminal_state_of (ev_type event))) (sq_tsets st a),
                sq_term := AList.delete rfqId (sq_term st)\<rparr>)
      else st)"

definition sql_append :: "bool \<Rightarrow> string \<Rightarrow> negotiation_event \<Rightarrow> sqlite_store \<Rightarrow> sqlite_store res" where
  "sql_append writable rfqId event st =
     (if rfqId \<noteq> ev_rfq event then Inl (JsError ''EventStore.append: rfqId mismatch'')
      else if \<not> writable then Inl (JsError ''SqliteError'')
      else case stmtInsert (event_row_of rfqId event) (sq_rows st) of
        None \<Rightarrow> Inl (JsError ''EventStore.append: duplicate event_id'')
      | Some rows \<Rightarrow>
          let e = frozen_event rfqId event;
              st1 = st\<lparr>sq_rows := rows, sq_active := (if rfqId \<in> set (sq_active st) then sq_active st else sq_active st @ [rfqId])\<rparr>
          in Inr (sql_notify_terminal rfqId e (sql_notify_subscribers rfqId e st1)))"

definition sql_hasCursor :: "sqlite_store \<Rightarrow> string \<Rightarrow> event_id \<Rightarrow> bool" where
  "sql_hasCursor st rfqId eventId = stmtHasCursor rfqId eventId (sq_rows st)"

definition sql_getEvents :: "sqlite_store \<Rightarrow> string \<Rightarrow> did \<Rightarrow> did \<Rightarrow> event_id option \<Rightarrow> negotiation_event list" where
  "sql_getEvents st rfqId callerDid buyerDid afterId =
     (let rows = (case afterId of
                    None \<Rightarrow> stmtGetAll rfqId (sq_rows st)
                  | Some a \<Rightarrow> if \<not> sql_hasCursor st rfqId a then [] else stmtGetAfterCursor rfqId a (sq_rows st))
      in filter (\<lambda>e. isEventVisibleTo e callerDid buyerDid) (map rowToEvent rows))"

definition sql_getAllEvents :: "sqlite_store \<Rightarrow> string \<Rightarrow> negotiation_event list" where
  "sql_getAllEvents st rfqId = map rowToEvent (stmtGetAll rfqId (sq_rows st))"

definition sql_size :: "sqlite_store \<Rightarrow> string \<Rightarrow> nat" where
  "sql_size st rfqId = stmtSize rfqId (sq_rows st)"

definition sql_listSessionIds :: "sqlite_store \<Rightarrow> string list" where
  "sql_listSessionIds st = sq_active st"

definition sql_add_subscriber :: "sub_mode \<Rightarrow> string \<Rightarrow> did \<Rightarrow> did \<Rightarrow> sqlite_store \<Rightarrow> sub_handle \<times> sqlite_store" where
  "sql_add_subscriber md rfqId callerDid buyerDid st =
     (let (a, st1) =
            (case map_of (sq_subs st) rfqId of
               Some a \<Rightarrow> (a, st)
             | None \<Rightarrow> (sq_next st,
                 st\<lparr>sq_next := sq_next st + 1, sq_sets := (sq_sets st)(sq_next st := []),
                    sq_subs := AList.update rfqId (sq_next st) (sq_subs st)\<rparr>));
          i = sq_next st1;
          sub = \<lparr>sub_id = i, sub_caller = callerDid, sub_buyer = buyerDid, sub_mode = md,
                 sub_buffer = [], sub_delivered = []\<rparr>
      in (\<lparr>h_rfq = rfqId, h_set = a, h_sub = i\<rparr>,
          st1\<lparr>sq_next := i + 1, sq_sets := (sq_sets st1)(a := sq_sets st1 a @ [sub])\<rparr>))"

definition sql_subscribe :: "string \<Rightarrow> did \<Rightarrow> did \<Rightarrow> sqlite_store \<Rightarrow> sub_handle \<times> sqlite_store" where
  "sql_subscribe = sql_add_subscriber Direct"

definition sql_unsubscribe_role :: "sub_handle \<Rightarrow> sqlite_store \<Rightarrow> sqlite_store" where
  "sql_unsubscribe_role h st =
     (let rest = filter (\<lambda>s. sub_id s \<noteq> h_sub h) (sq_sets st (h_set h)) in
      st\<lparr>sq_sets := (sq_sets st)(h_set h := rest),
         sq_subs := (if rest = [] then AList.delete (h_rfq h) (sq_subs st) else sq_subs st)\<rparr>)"

definition sql_update_sub :: "sub_handle \<Rightarrow> (subscriber \<Rightarrow> subscriber) \<Rightarrow> sqlite_store \<Rightarrow> sqlite_store" where
  "sql_update_sub h f st =
     st\<lparr>sq_sets := (sq_sets st)(h_set h :=
          map (\<lambda>s. if sub_id s = h_sub h then f s else s) (sq_sets st (h_set h)))\<rparr>"

definition sql_buffer_of :: "sub_handle \<Rightarrow> sqlite_store \<Rightarrow> negotiation_event list" where
  "sql_buffer_of h st =
     (case find (\<lambda>s. sub_id s = h_sub h) (sq_sets st (h_set h)) of None \<Rightarrow> [] | Some s \<Rightarrow> sub_buffer s)"

definition sql_subscribeFrom :: "string \<Rightarrow> did \<Rightarrow> did \<Rightarrow> event_id option \<Rightarrow> sqlite_store \<Rightarrow> subscription \<times> sqlite_store" where
  "sql_subscribeFrom rfqId callerDid buyerDid afterId st =
     (let (h, st1) = sql_add_subscriber Buffering rfqId callerDid buyerDid st;
          replay = sql_getEvents st1 rfqId callerDid buyerDid afterId;
          replayIds = map ev_id replay;
          dedupedBuffer = filter (\<lambda>e. ev_id e \<notin> set replayIds) (sql_buffer_of h st1)
      in (\<lparr>sn_replay = replay, sn_buffered = dedupedBuffer, sn_handle = h\<rparr>,
          sql_update_sub h (\<lambda>s. s\<lparr>sub_buffer := []\<rparr>) st1))"

definition sql_activate :: "sub_handle \<Rightarrow> sqlite_store \<Rightarrow> sqlite_store" where
  "sql_activate h st = sql_update_sub h flush_sub st"

definition sql_unsubscribe :: "sub_handle \<Rightarrow> sqlite_store \<Rightarrow> sqlite_store" where
  "sql_unsubscribe h st =
     sql_unsubscribe_role h (sql_update_sub h (\<lambda>s. s\<lparr>sub_mode := Stopped, sub_buffer := []\<rparr>) st)"

definition sql_subscribeTerminal :: "string \<Rightarrow> sqlite_store \<Rightarrow> sub_handle \<times> sqlite_store" where
  "sql_subscribeTerminal rfqId st =
     (let (a, st1) =
            (case map_of (sq_term st) rfqId of
               Some a \<Rightarrow> (a, st)
             | None \<Rightarrow> (sq_next st,
                 st\<lparr>sq_next := sq_next st + 1, sq_tsets := (sq_tsets st)(sq_next st := []),
                    sq_term := AList.update rfqId (sq_next st) (sq_term st)\<rparr>));
          l = sq_next st1
      in (\<lparr>h_rfq = rfqId, h_set = a, h_sub = l\<rparr>,
          st1\<lparr>sq_next := l + 1, sq_tsets := (sq_tsets st1)(a := sq_tsets st1 a @ [l])\<rparr>))"

definition sql_unsubscribe_terminal :: "sub_handle \<Rightarrow> sqlite_store \<Rightarrow> sqlite_store" where
  "sql_unsubscribe_terminal h st =
     (let rest = filter (\<lambda>l. l \<noteq> h_sub h) (sq_tsets st (h_set h)) in
      st\<lparr>sq_tsets := (sq_tsets st)(h_set h := rest),
         sq_term := (if rest = [] then AList.delete (h_rfq h) (sq_term st) else sq_term st)\<rparr>)"

section \<open>Refinement\<close>

abbreviation rows_of :: "string \<Rightarrow> event_row list \<Rightarrow> event_row list" where
  "rows_of r rows \<equiv> filter (\<lambda>x. row_session x = r) rows"

text \<open>The in-memory store with the same contents.\<close>

definition mem_of :: "sqlite_store \<Rightarrow> event_store" where
  "mem_of st = \<lparr>es_events = map (\<lambda>r. (r, map rowToEvent (rows_of r (sq_rows st)))) (sq_active st),
     es_seen = map row_event_id (sq_rows st), es_subs = sq_subs st, es_sets = sq_sets st, es_term = sq_term st,
     es_tsets = sq_tsets st, es_fired = sq_fired st, es_next = sq_next st\<rparr>"

definition table_ok :: "event_row list \<Rightarrow> bool" where
  "table_ok rows \<longleftrightarrow> sorted_wrt (<) (map row_id rows) \<and> distinct (map row_event_id rows)"

definition sql_ok :: "sqlite_store \<Rightarrow> bool" where
  "sql_ok st \<longleftrightarrow> table_ok (sq_rows st) \<and> distinct (sq_active st) \<and> set (sq_active st) = row_session ` set (sq_rows st)"

lemma sort_key_filter_rows:
  "table_ok rows \<Longrightarrow> sort_key row_id (filter Q rows) = filter Q rows"
proof -
  assume "table_ok rows"
  then have "sorted (map row_id rows)" by (auto simp: table_ok_def intro: strict_sorted_imp_sorted)
  then show ?thesis by (simp add: sorted_filter sort_key_id_if_sorted)
qed

lemma next_row_id_greater: "x \<in> set rows \<Longrightarrow> row_id x < next_row_id rows"
proof -
  have "n \<in> set ns \<Longrightarrow> n \<le> foldr max ns 0" for n :: nat and ns by (induction ns) auto
  then show "x \<in> set rows \<Longrightarrow> row_id x < next_row_id rows" by (fastforce simp: next_row_id_def le_imp_less_Suc)
qed

lemma stmtInsert_ok:
  assumes "stmtInsert row rows = Some rows'" "table_ok rows"
  shows "table_ok rows' \<and> rows' = rows @ [row\<lparr>row_id := next_row_id rows\<rparr>]"
  using assms next_row_id_greater
  by (auto simp: stmtInsert_def table_ok_def sorted_wrt_append list_ex_iff split: if_splits) blast

lemma map_of_keyed: "map_of (map (\<lambda>r. (r, f r)) rs) r = (if r \<in> set rs then Some (f r) else None)"
  by (induction rs) auto

lemma mem_getAllEvents: "sql_ok st \<Longrightarrow> getAllEvents (mem_of st) r = map rowToEvent (rows_of r (sq_rows st))"
  by (auto simp: getAllEvents_def mem_of_def map_of_keyed sql_ok_def filter_empty_conv)

lemma sql_getAllEvents_mem: "sql_ok st \<Longrightarrow> sql_getAllEvents st r = getAllEvents (mem_of st) r"
  by (simp add: sql_getAllEvents_def stmtGetAll_def sort_key_filter_rows mem_getAllEvents sql_ok_def)

lemma sql_size_mem: "sql_ok st \<Longrightarrow> sql_size st r = store_size (mem_of st) r"
  by (simp add: sql_size_def stmtSize_def store_size_eq mem_getAllEvents)

lemma sql_listSessionIds_mem: "sql_listSessionIds st = listSessionIds (mem_of st)"
  by (simp add: sql_listSessionIds_def listSessionIds_def mem_of_def o_def)

lemma sql_hasCursor_mem: "sql_ok st \<Longrightarrow> sql_hasCursor st r i = hasCursor (mem_of st) r i"
  by (auto simp: hasCursor_iff mem_getAllEvents sql_hasCursor_def stmtHasCursor_def list_ex_iff rowToEvent_def)

text \<open>The rows after the cursor's row are the rows with a greater id.\<close>

lemma after_row:
  assumes "table_ok rows" "x \<in> set rows" "Q x"
  shows "tl (dropWhile (\<lambda>y. row_event_id y \<noteq> row_event_id x) (filter Q rows)) = filter (\<lambda>y. Q y \<and> row_id x < row_id y) rows"
proof -
  obtain as bs where r: "rows = as @ x # bs" using assms(2) by (meson split_list)
  have "\<forall>y \<in> set as. row_event_id y \<noteq> row_event_id x \<and> row_id y < row_id x" "\<forall>y \<in> set bs. row_id x < row_id y"
    using assms(1) by (auto simp: r table_ok_def sorted_wrt_append) (metis image_eqI)
  then have "dropWhile (\<lambda>y. row_event_id y \<noteq> row_event_id x) (filter Q rows) = x # filter Q bs"
    "filter (\<lambda>y. Q y \<and> row_id x < row_id y) as = []" "filter (\<lambda>y. Q y \<and> row_id x < row_id y) bs = filter Q bs"
    using assms(3) by (auto simp: r dropWhile_append filter_empty_conv intro: filter_cong)
  then show ?thesis by (simp add: r)
qed

lemma sql_getEvents_mem: "sql_ok st \<Longrightarrow> sql_getEvents st r c b cur = getEvents (mem_of st) r c b cur"
proof (cases cur)
  case None
  assume "sql_ok st"
  then show ?thesis using None
    by (simp add: sql_getEvents_def getEvents_def after_cursor_def mem_getAllEvents stmtGetAll_def sort_key_filter_rows sql_ok_def)
next
  case (Some i)
  assume ok: "sql_ok st"
  let ?Q = "\<lambda>x. row_session x = r \<and> row_event_id x = i"
  have dw: "after_cursor cur (getAllEvents (mem_of st) r) =
      map rowToEvent (tl (dropWhile (\<lambda>y. row_event_id y \<noteq> i) (rows_of r (sq_rows st))))"
    by (simp add: Some after_cursor_def mem_getAllEvents[OF ok] dropWhile_map o_def rowToEvent_def map_tl)
  show ?thesis
  proof (cases "find ?Q (sq_rows st)")
    case None
    then have "\<forall>x \<in> set (sq_rows st). \<not> ?Q x" by (simp add: find_None_iff)
    then have d0: "dropWhile (\<lambda>y. row_event_id y \<noteq> i) (rows_of r (sq_rows st)) = []" and nc: "\<not> sql_hasCursor st r i"
      by (auto simp: sql_hasCursor_def stmtHasCursor_def list_ex_iff)
    show ?thesis unfolding getEvents_def dw d0 using nc by (simp add: Some sql_getEvents_def)
  next
    case (Some x)
    then have x: "x \<in> set (sq_rows st)" "row_session x = r" "row_event_id x = i" by (auto simp: find_Some_iff)
    then have h: "sql_hasCursor st r i" by (auto simp: sql_hasCursor_def stmtHasCursor_def list_ex_iff)
    have "stmtGetAfterCursor r i (sq_rows st) = tl (dropWhile (\<lambda>y. row_event_id y \<noteq> i) (rows_of r (sq_rows st)))"
      using after_row[of "sq_rows st" x "\<lambda>x. row_session x = r"] x ok Some
      by (simp add: stmtGetAfterCursor_def sort_key_filter_rows sql_ok_def)
    then show ?thesis using dw h \<open>cur = Some i\<close> by (simp add: sql_getEvents_def getEvents_def)
  qed
qed


subsection \<open>Operations\<close>

lemma event_row_event: "rfqId = ev_rfq e \<Longrightarrow> rowToEvent (event_row_of rfqId e \<lparr>row_id := n\<rparr>) = e \<and> frozen_event rfqId e = e"
  by (simp add: rowToEvent_def event_row_of_def frozen_event_def)

lemma mem_notify:
  "mem_of (sql_notify_subscribers r e st) = notify_subscribers r e (mem_of st)"
  "mem_of (sql_notify_terminal r e st) = notify_terminal r e (mem_of st)"
  by (auto simp: mem_of_def sql_notify_subscribers_def notify_subscribers_def sql_notify_terminal_def notify_terminal_def
      split: option.splits)

lemma sql_notify_rows [simp]:
  "sq_rows (sql_notify_subscribers r e st) = sq_rows st" "sq_active (sql_notify_subscribers r e st) = sq_active st"
  "sq_rows (sql_notify_terminal r e st) = sq_rows st" "sq_active (sql_notify_terminal r e st) = sq_active st"
  by (simp_all add: sql_notify_subscribers_def sql_notify_terminal_def split: option.splits)

lemma update_keyed:
  "r \<in> set rs \<Longrightarrow> distinct rs \<Longrightarrow> AList.update r v (map (\<lambda>x. (x, f x)) rs) = map (\<lambda>x. (x, if x = r then v else f x)) rs"
  "r \<notin> set rs \<Longrightarrow> AList.update r v (map (\<lambda>x. (x, f x)) rs) = map (\<lambda>x. (x, f x)) rs @ [(r, v)]"
  by (induction rs) auto

lemma mem_append_log:
  assumes ok: "sql_ok st" and e: "r = ev_rfq e" and ins: "stmtInsert (event_row_of r e) (sq_rows st) = Some rows"
  defines "st1 \<equiv> st\<lparr>sq_rows := rows, sq_active := (if r \<in> set (sq_active st) then sq_active st else sq_active st @ [r])\<rparr>"
  shows "mem_of st1 = append_log r e (mem_of st)" "sql_ok st1"
proof -
  have t: "table_ok rows" and rows: "rows = sq_rows st @ [event_row_of r e\<lparr>row_id := next_row_id (sq_rows st)\<rparr>]"
    using stmtInsert_ok[OF ins] ok by (auto simp: sql_ok_def)
  have new: "row_session (event_row_of r e) = r" "row_event_id (event_row_of r e) = ev_id e"
    by (simp_all add: event_row_of_def)
  show "sql_ok st1" using ok t new by (auto simp: sql_ok_def st1_def rows)
  have a: "distinct (sq_active st)" "r \<notin> set (sq_active st) \<Longrightarrow> rows_of r (sq_rows st) = []"
    using ok by (auto simp: sql_ok_def filter_empty_conv)
  show "mem_of st1 = append_log r e (mem_of st)"
  proof (cases "r \<in> set (sq_active st)")
    case True
    then show ?thesis using new a(1) event_row_event[OF e]
      by (auto simp: append_log_def mem_getAllEvents[OF ok]) (auto simp: mem_of_def st1_def rows update_keyed)
  next
    case False
    then show ?thesis using new a(2) event_row_event[OF e]
      by (auto simp: append_log_def mem_getAllEvents[OF ok]) (auto simp: mem_of_def st1_def rows update_keyed)
  qed
qed

lemma sql_append_sim:
  assumes ok: "sql_ok st" and a: "sql_append w r e st = Inr st'"
  shows "store_append r e (mem_of st) = Inr (mem_of st') \<and> sql_ok st'"
proof -
  obtain rows where e: "r = ev_rfq e" and ins: "stmtInsert (event_row_of r e) (sq_rows st) = Some rows"
    and st': "st' = sql_notify_terminal r e (sql_notify_subscribers r e
      (st\<lparr>sq_rows := rows, sq_active := (if r \<in> set (sq_active st) then sq_active st else sq_active st @ [r])\<rparr>))"
    using a event_row_event[of r e] by (auto simp: sql_append_def Let_def split: if_splits option.splits)
  note m = mem_append_log[OF ok e ins]
  have "ev_id e \<notin> set (es_seen (mem_of st))"
    using ins by (auto simp: stmtInsert_def mem_of_def list_ex_iff event_row_of_def split: if_splits)
  then have "store_append r e (mem_of st) = Inr (mem_of st')"
    using e unfolding store_append_def st' mem_notify m(1) by simp
  moreover have "sql_ok st'" using m(2) unfolding st' sql_ok_def sql_notify_rows .
  ultimately show ?thesis by blast
qed

lemma sql_append_fails:
  assumes "sql_append True r e st = Inl x" shows "\<exists>y. store_append r e (mem_of st) = Inl y"
  using assms
  by (auto simp: sql_append_def store_append_def stmtInsert_def mem_of_def list_ex_iff event_row_of_def Let_def image_iff split: if_splits) metis

lemma mem_subscriptions:
  "(\<lambda>(h, st). (h, mem_of st)) (sql_add_subscriber md r c b st) = add_subscriber md r c b (mem_of st)"
  "mem_of (sql_update_sub h f st) = update_sub h f (mem_of st)"
  "mem_of (sql_unsubscribe_role h st) = unsubscribe_role h (mem_of st)"
  "(\<lambda>(h, st). (h, mem_of st)) (sql_subscribeTerminal r st) = subscribeTerminal r (mem_of st)"
  "mem_of (sql_unsubscribe_terminal h st) = unsubscribe_terminal h (mem_of st)"
  "sql_buffer_of h st = buffer_of h (mem_of st)"
  by (auto simp: mem_of_def sql_add_subscriber_def add_subscriber_def sql_update_sub_def update_sub_def Let_def
      sql_unsubscribe_role_def unsubscribe_role_def sql_subscribeTerminal_def subscribeTerminal_def
      sql_unsubscribe_terminal_def unsubscribe_terminal_def sql_buffer_of_def buffer_of_def find_sub_def split: option.splits)

lemma sql_sub_rows:
  "sql_add_subscriber md r c b st = (h, st') \<Longrightarrow> sq_rows st' = sq_rows st \<and> sq_active st' = sq_active st"
  "sql_subscribeTerminal r st = (h, st') \<Longrightarrow> sq_rows st' = sq_rows st \<and> sq_active st' = sq_active st"
  by (auto simp: sql_add_subscriber_def sql_subscribeTerminal_def Let_def split: option.splits)

lemma sql_sub_fields [simp]:
  "sq_rows (sql_update_sub h f st) = sq_rows st" "sq_active (sql_update_sub h f st) = sq_active st"
  "sq_rows (sql_unsubscribe_role h st) = sq_rows st" "sq_active (sql_unsubscribe_role h st) = sq_active st"
  "sq_rows (sql_unsubscribe_terminal h st) = sq_rows st" "sq_active (sql_unsubscribe_terminal h st) = sq_active st"
  by (simp_all add: sql_update_sub_def sql_unsubscribe_role_def sql_unsubscribe_terminal_def Let_def)

lemma sql_subscribeFrom_sim:
  assumes ok: "sql_ok st" and s: "sql_subscribeFrom r c b cur st = (sn, st')"
  shows "subscribeFrom r c b cur (mem_of st) = (sn, mem_of st') \<and> sql_ok st'"
proof -
  obtain h st1 where a: "sql_add_subscriber Buffering r c b st = (h, st1)" by fastforce
  have m: "add_subscriber Buffering r c b (mem_of st) = (h, mem_of st1)" using mem_subscriptions(1)[of Buffering r c b st] a by simp
  have ok1: "sql_ok st1" using sql_sub_rows(1)[OF a] ok by (simp add: sql_ok_def)
  then show ?thesis using s a m
    by (auto simp: sql_subscribeFrom_def subscribeFrom_def Let_def sql_getEvents_mem mem_subscriptions(2,6) sql_ok_def)
qed


text \<open>The steps of the durable store, and what a step does to the store it abstracts to.\<close>

inductive sql_step :: "sqlite_store \<Rightarrow> store_op \<Rightarrow> sqlite_store \<Rightarrow> bool" where
  append: "sql_append True r e st = Inr st' \<Longrightarrow> sql_step st (OpAppend r e) st'"
| subscribe: "sql_subscribe r c b st = (h, st') \<Longrightarrow> sql_step st (OpSubscribe r c b) st'"
| subscribe_from: "sql_subscribeFrom r c b cur st = (sn, st') \<Longrightarrow> sql_step st (OpSubscribeFrom r c b cur) st'"
| activate: "sql_step st (OpActivate h) (sql_activate h st)"
| unsubscribe: "live h (mem_of st) \<Longrightarrow> sql_step st (OpUnsubscribe h) (sql_unsubscribe h st)"
| subscribe_terminal: "sql_subscribeTerminal r st = (h, st') \<Longrightarrow> sql_step st (OpSubscribeTerminal r) st'"
| unsubscribe_terminal: "sql_step st (OpUnsubscribeTerminal h) (sql_unsubscribe_terminal h st)"

inductive sql_run :: "sqlite_store \<Rightarrow> store_op list \<Rightarrow> sqlite_store \<Rightarrow> bool" where
  refl: "sql_run st [] st"
| step: "sql_run st ops st' \<Longrightarrow> sql_step st' oper st'' \<Longrightarrow> sql_run st (ops @ [oper]) st''"

lemma sql_step_sim:
  assumes "sql_step st oper st'" "sql_ok st"
  shows "store_step (mem_of st) oper (mem_of st') \<and> sql_ok st'"
  using assms(1)
proof (cases rule: sql_step.cases)
  case (append r e)
  then show ?thesis using sql_append_sim[OF assms(2)] store_step.append by blast
next
  case (subscribe r c b h)
  then have "add_subscriber Direct r c b (mem_of st) = (h, mem_of st')" "sql_ok st'"
    using mem_subscriptions(1)[of Direct r c b st] sql_sub_rows(1)[of Direct r c b st h st'] assms(2)
    by (auto simp: sql_subscribe_def sql_ok_def)
  then show ?thesis using subscribe(1) store_step.subscribe[of r c b "mem_of st" h] by (simp add: store_subscribe_def)
next
  case (subscribe_from r c b cur sn)
  then show ?thesis using sql_subscribeFrom_sim[OF assms(2)] store_step.subscribe_from by blast
next
  case (activate h)
  then show ?thesis using store_step.activate[of "mem_of st" h] assms(2)
    by (simp add: sql_activate_def activate_def mem_subscriptions(2) sql_ok_def)
next
  case (unsubscribe h)
  then show ?thesis using store_step.unsubscribe[of h "mem_of st"] assms(2)
    by (simp add: sql_unsubscribe_def unsubscribe_def mem_subscriptions(2,3) sql_ok_def)
next
  case (subscribe_terminal r h)
  then have "subscribeTerminal r (mem_of st) = (h, mem_of st')" "sql_ok st'"
    using mem_subscriptions(4)[of r st] sql_sub_rows(2)[of r st h st'] assms(2) by (auto simp: sql_ok_def)
  then show ?thesis using subscribe_terminal(1) store_step.subscribe_terminal by blast
next
  case (unsubscribe_terminal h)
  then show ?thesis using store_step.unsubscribe_terminal[of "mem_of st" h] assms(2)
    by (simp add: mem_subscriptions(5) sql_ok_def)
qed

lemma sql_run_sim:
  "sql_run st ops st' \<Longrightarrow> sql_ok st \<Longrightarrow> store_run (mem_of st) ops (mem_of st') \<and> sql_ok st'"
proof (induction rule: sql_run.induct)
  case (step st ops st' oper st'')
  then show ?case using sql_step_sim store_run.step by blast
qed (simp add: store_run.refl)

text \<open>A database file as earlier processes left it, opened.\<close>

definition opened :: "event_row list \<Rightarrow> string list \<Rightarrow> bool" where
  "opened rows ids \<longleftrightarrow> table_ok rows \<and> set ids = row_session ` set rows"

lemma sql_open_ok: "opened rows ids \<Longrightarrow> sql_ok (sql_open rows ids)"
  by (simp add: opened_def sql_ok_def sql_open_def)

interpretation sql: event_log
  "\<lambda>r e st. if sql_ok st then sql_append True r e st else Inl TypeError"
  "\<lambda>st r. if sql_ok st then sql_getAllEvents st r else []" "\<lambda>st r. if sql_ok st then sql_size st r else 0"
proof
  fix st st' :: sqlite_store and r r' :: string and e :: negotiation_event
  show "(if sql_ok st then sql_size st r else 0) = length (if sql_ok st then sql_getAllEvents st r else [])"
    by (simp add: sql_size_mem sql_getAllEvents_mem store_size_eq)
  assume a: "(if sql_ok st then sql_append True r e st else Inl TypeError) = Inr st'"
  then have ok: "sql_ok st" "sql_ok st'" and s: "store_append r e (mem_of st) = Inr (mem_of st')"
    using sql_append_sim[of st True r e st'] by (auto split: if_splits)
  show "(if sql_ok st' then sql_getAllEvents st' r else []) = (if sql_ok st then sql_getAllEvents st r else []) @ [e]"
    using ok mem.append_own[OF s] by (simp add: sql_getAllEvents_mem)
  show "(if sql_ok st' then sql_getAllEvents st' r' else []) = (if sql_ok st then sql_getAllEvents st r' else [])" if "r' \<noteq> r"
    using ok mem.append_other[OF s that] by (simp add: sql_getAllEvents_mem)
  show "ev_rfq e = r" using s by (simp add: store_append_Inr)
qed

section \<open>Properties\<close>

text \<open>
  C22. The durable store implements the in-memory one: along every sequence of operations on an
  opened database, the in-memory store started from the same contents can do the same
  operations, and at the end every query of the two gives the same answer: logs, sizes, cursors,
  role-scoped reads and session ids.
\<close>

theorem sqlite_refines_memory:
  assumes "opened rows ids" "sql_run (sql_open rows ids) ops st"
  shows "store_run (mem_of (sql_open rows ids)) ops (mem_of st) \<and>
     sql_getAllEvents st r = getAllEvents (mem_of st) r \<and> sql_size st r = store_size (mem_of st) r \<and>
     sql_hasCursor st r i = hasCursor (mem_of st) r i \<and> sql_getEvents st r c b cur = getEvents (mem_of st) r c b cur \<and>
     sql_listSessionIds st = listSessionIds (mem_of st)"
  using sql_run_sim[OF assms(2) sql_open_ok[OF assms(1)]]
  by (simp add: sql_getAllEvents_mem sql_size_mem sql_hasCursor_mem sql_getEvents_mem sql_listSessionIds_mem)

definition sample_row_event :: negotiation_event where
  "sample_row_event = \<lparr>ev_id = ''e'', ev_rfq = ''r'', ev_type = RFQ_CREATED, ev_time = [], ev_actor = ''b'', ev_payload = []\<rparr>"

lemma sample_sql_run: "\<exists>st. sql_run (sql_open [] []) [OpAppend ''r'' sample_row_event] st \<and> sql_getAllEvents st ''r'' = [sample_row_event]"
proof -
  obtain st where a: "sql_append True ''r'' sample_row_event (sql_open [] []) = Inr st"
    by (simp add: sql_append_def stmtInsert_def sql_open_def sample_row_event_def Let_def)
  have "sql_run (sql_open [] []) ([] @ [OpAppend ''r'' sample_row_event]) st"
    using sql_run.step[OF sql_run.refl sql_step.append[OF a]] .
  moreover have ok: "sql_ok (sql_open [] [])" by (rule sql_open_ok) (simp add: opened_def table_ok_def)
  have "sql_getAllEvents (sql_open [] []) ''r'' = []" by (simp add: sql_getAllEvents_def stmtGetAll_def sql_open_def)
  then have "sql_getAllEvents st ''r'' = [sample_row_event]"
    using sql.append_own[of "sql_open [] []" "''r''" sample_row_event st] a ok sql_append_sim[OF ok a] by simp
  ultimately show ?thesis by auto
qed

theorem sqlite_refines_memory_witness:
  "\<exists>st. sql_run (sql_open [] []) [OpAppend ''r'' sample_row_event] st \<and> getAllEvents (mem_of st) ''r'' = [sample_row_event]"
proof -
  obtain st where st: "sql_run (sql_open [] []) [OpAppend ''r'' sample_row_event] st" "sql_getAllEvents st ''r'' = [sample_row_event]"
    using sample_sql_run by blast
  have "opened [] []" by (simp add: opened_def table_ok_def)
  from sqlite_refines_memory[OF this st(1), of "''r''"] show ?thesis using st by auto
qed

text \<open>
  C23. Logs survive a restart: after any operations on an opened database, closing it and opening
  the file again, with the session ids read in any order, gives every session the log and size
  it had, the same set of sessions, and a store that is again well formed, without subscribers.
\<close>

theorem restart_keeps_logs:
  assumes "opened rows ids" "sql_run (sql_open rows ids) ops st" "set ids' = row_session ` set (sq_rows st)"
  shows "opened (sq_rows st) ids' \<and> sql_getAllEvents (sql_open (sq_rows st) ids') r = sql_getAllEvents st r \<and>
     sql_size (sql_open (sq_rows st) ids') r = sql_size st r \<and>
     set (sql_listSessionIds (sql_open (sq_rows st) ids')) = set (sql_listSessionIds st) \<and> sq_subs (sql_open (sq_rows st) ids') = []"
proof -
  have "sql_ok st" using sql_run_sim[OF assms(2) sql_open_ok[OF assms(1)]] by blast
  then show ?thesis using assms(3)
    by (simp add: opened_def sql_ok_def sql_getAllEvents_def sql_size_def sql_listSessionIds_def sql_open_def)
qed

theorem restart_keeps_logs_witness:
  "\<exists>st. sql_run (sql_open [] []) [OpAppend ''r'' sample_row_event] st \<and>
     sql_getAllEvents (sql_open (sq_rows st) (map row_session (sq_rows st))) ''r'' = [sample_row_event]"
proof -
  obtain st where st: "sql_run (sql_open [] []) [OpAppend ''r'' sample_row_event] st" "sql_getAllEvents st ''r'' = [sample_row_event]"
    using sample_sql_run by blast
  have "opened [] []" by (simp add: opened_def table_ok_def)
  from restart_keeps_logs[OF this st(1), of "map row_session (sq_rows st)" "''r''"] show ?thesis using st by auto
qed

end
