(* ===== verification/SqliteListings.thy ===== *)
theory SqliteListings
  imports Listings
begin

text \<open>
  \<^verbatim>\<open>packages/engine/src/registry/sqlite-listing-store.ts\<close>: the listing store on SQLite. The table is the
  list of its rows in the order of insertion; the JSON text in the column \<open>payload\<close> is represented by
  the listing it denotes; columns are compared byte by byte, as the default collation does. Whether
  the database can write is an argument of \<open>sql_listing_add\<close>. Both stores satisfy one contract, the
  locale \<open>listing_provider\<close>, and the SQLite store implements the one in memory, up to the order in
  which listings are returned.
\<close>

section \<open>Model\<close>

record listing_row =
  lr_listing_id :: string
  lr_seller :: string
  lr_service_type :: string
  lr_payload :: listing

definition rowToListing :: "listing_row \<Rightarrow> listing" where
  "rowToListing row = lr_payload row"

text \<open>The statements.\<close>

definition sql_listing_insert :: "listing_row \<Rightarrow> listing_row list \<Rightarrow> listing_row list option" where
  "sql_listing_insert row rows =
     (if list_ex (\<lambda>x. lr_listing_id x = lr_listing_id row) rows then None else Some (rows @ [row]))"

definition sql_listing_select :: "(listing_row \<Rightarrow> bool) \<Rightarrow> listing_row list \<Rightarrow> listing_row list" where
  "sql_listing_select cond rows = sort_key lr_listing_id (filter cond rows)"

text \<open>The driver refuses to bind a parameter that is no string.\<close>

definition listing_row_of :: "listing \<Rightarrow> listing_row res" where
  "listing_row_of li =
     (case (as_string (map_of li ''listing_id''), as_string (map_of li ''seller''), as_string (map_of li ''service_type'')) of
        (Some i, Some d, Some t) \<Rightarrow> Inr \<lparr>lr_listing_id = i, lr_seller = d, lr_service_type = t, lr_payload = li\<rparr>
      | _ \<Rightarrow> Inl TypeError)"

definition sql_listing_count :: "listing_row list \<Rightarrow> nat" where
  "sql_listing_count rows = length rows"

definition sql_listing_add :: "platform \<Rightarrow> bool \<Rightarrow> listing \<Rightarrow> listing_row list \<Rightarrow> listing_row list res" where
  "sql_listing_add P writable li rows =
     (if sql_listing_count rows \<ge> MAX_LISTINGS then Inl (JsError ''ListingStore: capacity limit reached'')
      else rbind (normalizeListingForStorage P li) (\<lambda>normalized.
        rbind (listing_row_of normalized) (\<lambda>row.
          if \<not> writable then Inl (JsError ''SqliteError'')
          else case sql_listing_insert row rows of
            None \<Rightarrow> Inl (JsError (''ListingStore: duplicate listing_id '' @ quote_str (listing_id_of normalized)))
          | Some rows' \<Rightarrow> Inr rows')))"

definition sql_listing_getById :: "string \<Rightarrow> listing_row list \<Rightarrow> listing option" where
  "sql_listing_getById listingId rows = map_option rowToListing (find (\<lambda>x. lr_listing_id x = listingId) rows)"

definition sql_listing_getAll :: "listing_row list \<Rightarrow> listing list" where
  "sql_listing_getAll rows = map rowToListing (sql_listing_select (\<lambda>_. True) rows)"

definition sql_listing_filterByServiceType :: "string \<Rightarrow> listing_row list \<Rightarrow> listing list" where
  "sql_listing_filterByServiceType serviceType rows = map rowToListing (sql_listing_select (\<lambda>x. lr_service_type x = serviceType) rows)"

definition sql_listing_findAllBySeller :: "did \<Rightarrow> listing_row list \<Rightarrow> listing list" where
  "sql_listing_findAllBySeller sellerDid rows = map rowToListing (sql_listing_select (\<lambda>x. lr_seller x = sellerDid) rows)"

definition sql_listing_findBySellerAndId :: "did \<Rightarrow> string \<Rightarrow> listing_row list \<Rightarrow> listing option" where
  "sql_listing_findBySellerAndId sellerDid listingId rows =
     (case find (\<lambda>x. lr_listing_id x = listingId) rows of
        Some row \<Rightarrow> if lr_seller row \<noteq> sellerDid then None else Some (rowToListing row)
      | None \<Rightarrow> None)"

section \<open>The contract of a listing store\<close>

locale listing_provider =
  fixes P :: platform
    and valid :: "'s \<Rightarrow> bool"
    and add :: "listing \<Rightarrow> 's \<Rightarrow> 's res"
    and by_id :: "string \<Rightarrow> 's \<Rightarrow> listing option"
    and by_seller_and_id :: "did \<Rightarrow> string \<Rightarrow> 's \<Rightarrow> listing option"
  assumes add_valid: "valid s \<Longrightarrow> add li s = Inr s' \<Longrightarrow> valid s'"
    and add_lookup: "valid s \<Longrightarrow> add li s = Inr s' \<Longrightarrow>
      \<exists>n. normalizeListingForStorage P li = Inr n \<and> by_id (listing_id_of n) s = None \<and>
        (\<forall>i. by_id i s' = (if i = listing_id_of n then Some n else by_id i s))"
    and stored_ok: "valid s \<Longrightarrow> by_id i s = Some li \<Longrightarrow> listing_ok P i li"
    and by_seller: "valid s \<Longrightarrow> by_seller_and_id d i s = Some li \<longleftrightarrow> by_id i s = Some li \<and> map_of li ''seller'' = Some (JStr d)"
begin

text \<open>A listing once stored stays as it is, whatever is registered later.\<close>

lemma stored_forever:
  assumes "valid s" "by_id i s = Some li" "add l s = Inr s'"
  shows "by_id i s' = Some li"
  using add_lookup[OF assms(1,3)] assms(2) by auto

lemma adds_keep:
  "valid s \<Longrightarrow> by_id i s = Some li \<Longrightarrow> fold (\<lambda>l s. case add l s of Inr s' \<Rightarrow> s' | Inl _ \<Rightarrow> s) ls s = s' \<Longrightarrow> valid s' \<and> by_id i s' = Some li"
proof (induction ls arbitrary: s)
  case (Cons l ls)
  then show ?case using stored_forever[of s i li l] add_valid[of s l] by (cases "add l s") auto
qed simp

text \<open>The listing an offer names: its payment endpoint is an HTTPS URL of that very seller's listing.\<close>

lemma provenance:
  assumes "valid s" "by_seller_and_id d i s = Some li"
  shows "map_of li ''listing_id'' = Some (JStr i) \<and> map_of li ''seller'' = Some (JStr d) \<and>
    https_url_re (string_of P (map_of li ''payment_endpoint''))"
  using by_seller[OF assms(1)] stored_ok[OF assms(1)] assms(2) by (auto simp: listing_ok_def)

end

interpretation memory_listings: listing_provider P "listings_ok P" "store_add P" getById findBySellerAndId for P
proof
  fix s s' li i d
  assume v: "listings_ok P s"
  show "store_add P li s = Inr s' \<Longrightarrow> listings_ok P s'" using store_add_ok v by blast
  show "store_add P li s = Inr s' \<Longrightarrow> \<exists>n. normalizeListingForStorage P li = Inr n \<and> getById (listing_id_of n) s = None \<and>
      (\<forall>i. getById i s' = (if i = listing_id_of n then Some n else getById i s))"
    by (auto simp: store_add_Inr getById_def update_conv')
  show "getById i s = Some li \<Longrightarrow> listing_ok P i li" using v by (simp add: listings_ok_def getById_def)
  show "findBySellerAndId d i s = Some li \<longleftrightarrow> getById i s = Some li \<and> map_of li ''seller'' = Some (JStr d)"
    by (auto simp: findBySellerAndId_def getById_def split: option.splits if_splits)
qed

section \<open>Refinement\<close>

definition mem_listings :: "listing_row list \<Rightarrow> listing_store" where
  "mem_listings rows = map (\<lambda>x. (lr_listing_id x, lr_payload x)) rows"

definition rows_ok :: "platform \<Rightarrow> listing_row list \<Rightarrow> bool" where
  "rows_ok P rows \<longleftrightarrow> listings_ok P (mem_listings rows) \<and> (\<forall>x \<in> set rows. listing_row_of (lr_payload x) = Inr x)"

lemma row_columns:
  "listing_row_of (lr_payload x) = Inr x \<Longrightarrow>
   map_of (lr_payload x) ''listing_id'' = Some (JStr (lr_listing_id x)) \<and> map_of (lr_payload x) ''seller'' = Some (JStr (lr_seller x)) \<and>
   map_of (lr_payload x) ''service_type'' = Some (JStr (lr_service_type x))"
  by (auto simp: listing_row_of_def split: option.splits) (metis listing_row.simps)+

lemma find_mem:
  "find (\<lambda>x. lr_listing_id x = i) rows = Some x \<Longrightarrow> map_of (mem_listings rows) i = Some (lr_payload x) \<and> x \<in> set rows \<and> lr_listing_id x = i"
  "find (\<lambda>x. lr_listing_id x = i) rows = None \<Longrightarrow> map_of (mem_listings rows) i = None"
  by (induction rows) (auto simp: mem_listings_def split: if_splits)

lemma sql_lookup [simp]: "sql_listing_getById i rows = map_of (mem_listings rows) i"
  using find_mem[of i rows] by (cases "find (\<lambda>x. lr_listing_id x = i) rows") (auto simp: sql_listing_getById_def rowToListing_def)

lemma sql_provenance:
  assumes "rows_ok P rows"
  shows "sql_listing_findBySellerAndId d i rows = findBySellerAndId d i (mem_listings rows)"
proof (cases "find (\<lambda>x. lr_listing_id x = i) rows")
  case None
  then show ?thesis using find_mem(2)[OF None] by (simp add: sql_listing_findBySellerAndId_def findBySellerAndId_def)
next
  case (Some x)
  have "map_of (lr_payload x) ''seller'' = Some (JStr (lr_seller x))"
    using find_mem(1)[OF Some] assms row_columns by (auto simp: rows_ok_def)
  then show ?thesis using Some find_mem(1)[OF Some]
    by (simp add: sql_listing_findBySellerAndId_def findBySellerAndId_def rowToListing_def)
qed

lemma update_fresh: "map_of xs k = None \<Longrightarrow> AList.update k v xs = xs @ [(k, v)]"
  by (induction xs) (auto split: if_splits)

lemma normalized_row:
  assumes "normalizeListingForStorage P li = Inr n"
  shows "\<exists>row. listing_row_of n = Inr row \<and> lr_listing_id row = listing_id_of n \<and> lr_payload row = n"
proof -
  have n: "listing_ok P (listing_id_of n) n" "\<forall>k. k \<noteq> ''registry_agent_id'' \<longrightarrow> map_of n k = map_of li k"
    using normalizeListing_ok[OF assms] by simp_all
  obtain i where "as_string (map_of n ''listing_id'') = Some i" "i = listing_id_of n" using n(1) by (auto simp: listing_ok_def)
  moreover obtain d where "as_string (map_of n ''seller'') = Some d"
    using n(1) by (auto simp: listing_ok_def didFieldToPublicKey_def split: option.splits)
  moreover have "as_string (map_of li ''service_type'') \<noteq> None" using assms by (auto simp: normalizeListingForStorage_def split: if_splits)
  then obtain t where "as_string (map_of n ''service_type'') = Some t" using n(2) by auto
  ultimately show ?thesis by (simp add: listing_row_of_def)
qed

text \<open>Adding a listing does to the table what it does to the map, error for error.\<close>

lemma sql_add_refines:
  assumes "rows_ok P rows"
  shows "map_sum id mem_listings (sql_listing_add P True li rows) = store_add P li (mem_listings rows)"
    "sql_listing_add P w li rows = Inr rows' \<Longrightarrow> rows_ok P rows'"
proof -
  have len: "length (mem_listings rows) = sql_listing_count rows" by (simp add: mem_listings_def sql_listing_count_def)
  have ex: "list_ex (\<lambda>x. lr_listing_id x = i) rows \<longleftrightarrow> map_of (mem_listings rows) i \<noteq> None" for i
    by (auto simp: mem_listings_def list_ex_iff map_of_eq_None_iff image_iff)
  have snoc: "mem_listings (rows @ [row]) = AList.update (lr_listing_id row) (lr_payload row) (mem_listings rows)"
    if "map_of (mem_listings rows) (lr_listing_id row) = None" for row
    using update_fresh[OF that] by (simp add: mem_listings_def)
  show 1: "map_sum id mem_listings (sql_listing_add P True li rows) = store_add P li (mem_listings rows)" for li
  proof (cases "normalizeListingForStorage P li")
    case (Inl e)
    then show ?thesis by (simp add: sql_listing_add_def store_add_def len)
  next
    case (Inr n)
    then obtain row where "listing_row_of n = Inr row" "lr_listing_id row = listing_id_of n" "lr_payload row = n"
      using normalized_row by blast
    then show ?thesis using Inr snoc[of row] by (simp add: sql_listing_add_def store_add_def len sql_listing_insert_def ex)
  qed
  show "rows_ok P rows'" if add: "sql_listing_add P w li rows = Inr rows'"
  proof -
    obtain n row where n: "normalizeListingForStorage P li = Inr n" "listing_row_of n = Inr row" "rows' = rows @ [row]"
      using add by (auto simp: sql_listing_add_def sql_listing_insert_def split: if_splits)
    have "sql_listing_add P True li rows = Inr rows'" using add by (auto simp: sql_listing_add_def split: if_splits)
    then have "store_add P li (mem_listings rows) = Inr (mem_listings rows')" using 1[of li] by simp
    then have "listings_ok P (mem_listings rows')" using assms store_add_ok by (auto simp: rows_ok_def)
    moreover have "lr_payload row = n" using n(1,2) normalized_row by fastforce
    ultimately show ?thesis using n assms by (simp add: rows_ok_def)
  qed
qed

interpretation sqlite_listings: listing_provider P "rows_ok P" "sql_listing_add P w" sql_listing_getById sql_listing_findBySellerAndId for P w
proof
  fix s s' li i d
  assume v: "rows_ok P s"
  have m: "listings_ok P (mem_listings s)" using v by (simp add: rows_ok_def)
  show "sql_listing_add P w li s = Inr s' \<Longrightarrow> rows_ok P s'" using sql_add_refines(2)[OF v] by blast
  show "\<exists>n. normalizeListingForStorage P li = Inr n \<and> sql_listing_getById (listing_id_of n) s = None \<and>
      (\<forall>i. sql_listing_getById i s' = (if i = listing_id_of n then Some n else sql_listing_getById i s))"
    if add: "sql_listing_add P w li s = Inr s'"
  proof -
    have "sql_listing_add P True li s = Inr s'" using add by (auto simp: sql_listing_add_def split: if_splits)
    then have "store_add P li (mem_listings s) = Inr (mem_listings s')" using sql_add_refines(1)[OF v, of li] by simp
    from memory_listings.add_lookup[OF m this] show ?thesis unfolding getById_def sql_lookup .
  qed
  show "sql_listing_getById i s = Some li \<Longrightarrow> listing_ok P i li" using memory_listings.stored_ok[OF m] by (simp add: getById_def)
  show "sql_listing_findBySellerAndId d i s = Some li \<longleftrightarrow> sql_listing_getById i s = Some li \<and> map_of li ''seller'' = Some (JStr d)"
    using memory_listings.by_seller[OF m] sql_provenance[OF v] by (simp add: getById_def)
qed

lemma select_permutes:
  assumes "\<And>x. x \<in> set rows \<Longrightarrow> cond x \<longleftrightarrow> Q (lr_payload x)"
  shows "mset (map rowToListing (sql_listing_select cond rows)) = mset (filter Q (getAll (mem_listings rows)))"
proof -
  have "filter Q (getAll (mem_listings rows)) = map rowToListing (filter cond rows)"
    using assms by (induction rows) (auto simp: getAll_def mem_listings_def rowToListing_def)
  then show ?thesis by (simp add: sql_listing_select_def)
qed

lemma sql_listing_start: "rows_ok P []"
  by (simp add: rows_ok_def listings_ok_def mem_listings_def)

text \<open>
  C28. The SQLite listing store implements the listing store in memory: adding a listing fails with
  the same error or leads to the corresponding table, lookups by id and by seller and id agree, and
  the three listings of everything, of a service type and of a seller return the same listings,
  here in the order of their ids.
\<close>

theorem sqlite_listings_refine:
  assumes "rows_ok P rows"
  shows "map_sum id mem_listings (sql_listing_add P True li rows) = store_add P li (mem_listings rows) \<and>
    (\<forall>rows'. sql_listing_add P True li rows = Inr rows' \<longrightarrow> rows_ok P rows') \<and>
    sql_listing_count rows = length (mem_listings rows) \<and> sql_listing_getById i rows = getById i (mem_listings rows) \<and>
    sql_listing_findBySellerAndId d i rows = findBySellerAndId d i (mem_listings rows) \<and>
    mset (sql_listing_getAll rows) = mset (getAll (mem_listings rows)) \<and>
    mset (sql_listing_filterByServiceType t rows) = mset (filterByServiceType t (mem_listings rows)) \<and>
    mset (sql_listing_findAllBySeller d rows) = mset (findAllBySeller d (mem_listings rows)) \<and>
    sorted (map listing_id_of (sql_listing_getAll rows))"
proof -
  have cols: "map_of (lr_payload x) ''listing_id'' = Some (JStr (lr_listing_id x))" "map_of (lr_payload x) ''seller'' = Some (JStr (lr_seller x))"
    "map_of (lr_payload x) ''service_type'' = Some (JStr (lr_service_type x))" if "x \<in> set rows" for x
    using row_columns assms that by (auto simp: rows_ok_def)
  have "map listing_id_of (sql_listing_getAll rows) = map lr_listing_id (sort_key lr_listing_id rows)"
    using cols(1) by (simp add: sql_listing_getAll_def sql_listing_select_def rowToListing_def listing_id_of_def)
  then have "sorted (map listing_id_of (sql_listing_getAll rows))" by simp
  then show ?thesis
    using sql_add_refines[OF assms] sql_provenance[OF assms]
      select_permutes[of rows "\<lambda>_. True" "\<lambda>_. True"]
      select_permutes[of rows "\<lambda>x. lr_service_type x = t" "\<lambda>l. map_of l ''service_type'' = Some (JStr t)"]
      select_permutes[of rows "\<lambda>x. lr_seller x = d" "\<lambda>l. map_of l ''seller'' = Some (JStr d)"] cols
    by (auto simp: sql_listing_count_def mem_listings_def[of rows, THEN arg_cong[where f = length]] getById_def
        sql_listing_getAll_def sql_listing_filterByServiceType_def filterByServiceType_def sql_listing_findAllBySeller_def findAllBySeller_def)
qed

end
