(* ===== verification/Connections.thy ===== *)
theory Connections
  imports Prelude "HOL-Library.AList"
begin

text \<open>
  \<^verbatim>\<open>packages/engine/src/util/connection-tracker.ts\<close>: the limits on event streams. The two maps are
  association lists, a \<open>Set\<close> of ids a list without repetition. The callback \<open>close\<close> of a stream
  ends it and releases its slot (the function \<open>cleanup\<close> of \<^verbatim>\<open>routes/events.ts\<close>), so calling it
  notes the id in \<open>ct_closed\<close> and removes the record, before the tracker removes it once more.
\<close>

section \<open>Model\<close>

record connection =
  cn_id :: nat
  cn_rfq :: string
  cn_caller :: string
  cn_isBuyer :: bool
  cn_openedAt :: int

definition MAX_PER_DID :: nat where "MAX_PER_DID = 3"
definition MAX_PER_SESSION :: nat where "MAX_PER_SESSION = 10"

record tracker =
  ct_conns :: "(nat \<times> connection) list"
  ct_bySession :: "(string \<times> nat list) list"
  ct_nextId :: nat
  ct_closed :: "nat list"

definition new_tracker :: tracker where
  "new_tracker = \<lparr>ct_conns = [], ct_bySession = [], ct_nextId = 0, ct_closed = []\<rparr>"

definition session_ids :: "string \<Rightarrow> tracker \<Rightarrow> nat list" where
  "session_ids rfqId ct = (case map_of (ct_bySession ct) rfqId of None \<Rightarrow> [] | Some ids \<Rightarrow> ids)"

definition countForDid :: "string \<Rightarrow> string \<Rightarrow> tracker \<Rightarrow> nat" where
  "countForDid rfqId callerDid ct =
     length (filter (\<lambda>i. case map_of (ct_conns ct) i of None \<Rightarrow> False | Some rec \<Rightarrow> cn_caller rec = callerDid)
       (session_ids rfqId ct))"

definition countForSession :: "string \<Rightarrow> tracker \<Rightarrow> nat" where
  "countForSession rfqId ct = length (session_ids rfqId ct)"

text \<open>One pass over the ids, keeping the record opened first.\<close>

fun oldest_of :: "(nat \<times> connection) list \<Rightarrow> nat list \<Rightarrow> connection option \<Rightarrow> connection option" where
  "oldest_of conns [] oldest = oldest"
| "oldest_of conns (i # ids) oldest =
     oldest_of conns ids
       (case map_of conns i of
          None \<Rightarrow> oldest
        | Some rec \<Rightarrow>
            if cn_isBuyer rec then oldest
            else case oldest of
              None \<Rightarrow> Some rec
            | Some o' \<Rightarrow> if cn_openedAt rec < cn_openedAt o' then Some rec else oldest)"

definition findOldestNonBuyer :: "string \<Rightarrow> tracker \<Rightarrow> connection option" where
  "findOldestNonBuyer rfqId ct = oldest_of (ct_conns ct) (session_ids rfqId ct) None"

definition removeRecord :: "nat \<Rightarrow> tracker \<Rightarrow> tracker" where
  "removeRecord connectionId ct =
     (case map_of (ct_conns ct) connectionId of
        None \<Rightarrow> ct
      | Some rec \<Rightarrow>
          let ct1 = ct\<lparr>ct_conns := AList.delete connectionId (ct_conns ct)\<rparr>
          in case map_of (ct_bySession ct) (cn_rfq rec) of
               None \<Rightarrow> ct1
             | Some ids \<Rightarrow>
                 let rest = removeAll connectionId ids
                 in ct1\<lparr>ct_bySession :=
                      (if rest = [] then AList.delete (cn_rfq rec) (ct_bySession ct)
                       else AList.update (cn_rfq rec) rest (ct_bySession ct))\<rparr>)"

definition close_conn :: "nat \<Rightarrow> tracker \<Rightarrow> tracker" where
  "close_conn i ct = removeRecord i (ct\<lparr>ct_closed := ct_closed ct @ [i]\<rparr>)"

definition evict :: "nat \<Rightarrow> tracker \<Rightarrow> tracker" where
  "evict i ct = removeRecord i (close_conn i ct)"

definition add_conn :: "int \<Rightarrow> string \<Rightarrow> string \<Rightarrow> bool \<Rightarrow> tracker \<Rightarrow> nat \<times> tracker" where
  "add_conn now rfqId callerDid isBuyer ct =
     (let i = ct_nextId ct + 1;
          rec = \<lparr>cn_id = i, cn_rfq = rfqId, cn_caller = callerDid, cn_isBuyer = isBuyer, cn_openedAt = now\<rparr>
      in (i, ct\<lparr>ct_conns := AList.update i rec (ct_conns ct),
                ct_bySession := AList.update rfqId (session_ids rfqId ct @ [i]) (ct_bySession ct), ct_nextId := i\<rparr>))"

definition acquire :: "int \<Rightarrow> string \<Rightarrow> string \<Rightarrow> bool \<Rightarrow> tracker \<Rightarrow> nat option \<times> tracker" where
  "acquire now rfqId callerDid isBuyer ct =
     (if countForDid rfqId callerDid ct \<ge> MAX_PER_DID then (None, ct)
      else if countForSession rfqId ct \<ge> MAX_PER_SESSION then
        (if \<not> isBuyer then (None, ct)
         else case findOldestNonBuyer rfqId ct of
           None \<Rightarrow> (None, ct)
         | Some evicted \<Rightarrow>
             (case add_conn now rfqId callerDid isBuyer (evict (cn_id evicted) ct) of (i, ct') \<Rightarrow> (Some i, ct')))
      else (case add_conn now rfqId callerDid isBuyer ct of (i, ct') \<Rightarrow> (Some i, ct')))"

definition release_conn :: "nat \<Rightarrow> tracker \<Rightarrow> tracker" where
  "release_conn connectionId ct = removeRecord connectionId ct"

definition closeAll :: "string \<Rightarrow> tracker \<Rightarrow> tracker" where
  "closeAll rfqId ct =
     fold (\<lambda>i ct. if map_of (ct_conns ct) i = None then ct else evict i ct) (session_ids rfqId ct) ct"

section \<open>Invariant\<close>

text \<open>
  The two maps agree, ids are fresh, no session has an empty set, and the limits hold. A caller
  is a buyer for a session exactly if it is the session's buyer, which never changes: \<open>buyer_of\<close>.
\<close>

definition tracker_ok :: "(string \<Rightarrow> string) \<Rightarrow> tracker \<Rightarrow> bool" where
  "tracker_ok buyer_of ct \<longleftrightarrow>
     distinct (map fst (ct_conns ct)) \<and> distinct (map fst (ct_bySession ct)) \<and>
     (\<forall>i rec. map_of (ct_conns ct) i = Some rec \<longrightarrow>
        cn_id rec = i \<and> i \<le> ct_nextId ct \<and> i \<in> set (session_ids (cn_rfq rec) ct) \<and>
        (cn_isBuyer rec \<longleftrightarrow> cn_caller rec = buyer_of (cn_rfq rec))) \<and>
     (\<forall>r i. i \<in> set (session_ids r ct) \<longrightarrow> (\<exists>rec. map_of (ct_conns ct) i = Some rec \<and> cn_rfq rec = r)) \<and>
     (\<forall>r. distinct (session_ids r ct) \<and> length (session_ids r ct) \<le> MAX_PER_SESSION \<and>
        (\<forall>d. countForDid r d ct \<le> MAX_PER_DID))"


lemma okD:
  assumes "tracker_ok b ct"
  shows "distinct (map fst (ct_conns ct))" "distinct (map fst (ct_bySession ct))"
    "map_of (ct_conns ct) i = Some rec \<Longrightarrow> cn_id rec = i \<and> i \<le> ct_nextId ct \<and> i \<in> set (session_ids (cn_rfq rec) ct) \<and>
       (cn_isBuyer rec \<longleftrightarrow> cn_caller rec = b (cn_rfq rec))"
    "i \<in> set (session_ids r ct) \<Longrightarrow> \<exists>rec. map_of (ct_conns ct) i = Some rec \<and> cn_rfq rec = r"
    "distinct (session_ids r ct)" "length (session_ids r ct) \<le> MAX_PER_SESSION" "countForDid r d ct \<le> MAX_PER_DID"
  using assms unfolding tracker_ok_def by blast+

definition by_caller :: "tracker \<Rightarrow> string \<Rightarrow> nat \<Rightarrow> bool" where
  "by_caller ct d i = (case map_of (ct_conns ct) i of None \<Rightarrow> False | Some rec \<Rightarrow> cn_caller rec = d)"

lemma countForDid_filter: "countForDid r d ct = length (filter (by_caller ct d) (session_ids r ct))"
  by (simp add: countForDid_def by_caller_def [abs_def])

lemma map_of_delete: "map_of (AList.delete k xs) = (map_of xs)(k := None)"
  by (simp add: delete_conv')

lemma removeRecord_effect:
  assumes ok: "tracker_ok b ct"
  shows "map_of (ct_conns (removeRecord i ct)) = (map_of (ct_conns ct))(i := None)"
    "session_ids r (removeRecord i ct) = removeAll i (session_ids r ct)"
    "ct_nextId (removeRecord i ct) = ct_nextId ct"
    "distinct (map fst (ct_conns (removeRecord i ct)))" "distinct (map fst (ct_bySession (removeRecord i ct)))"
proof -
  have notin: "i \<notin> set (session_ids r ct)" if "map_of (ct_conns ct) i = None" for r
    using okD(4)[OF ok] that by fastforce
  have other: "i \<notin> set (session_ids r ct)" if "map_of (ct_conns ct) i = Some rec" "r \<noteq> cn_rfq rec" for r rec
    using okD(4)[OF ok] that by fastforce
  have some: "\<exists>ids. map_of (ct_bySession ct) (cn_rfq rec) = Some ids" if "map_of (ct_conns ct) i = Some rec" for rec
    using okD(3)[OF ok that] by (cases "map_of (ct_bySession ct) (cn_rfq rec)") (auto simp: session_ids_def)
  show "map_of (ct_conns (removeRecord i ct)) = (map_of (ct_conns ct))(i := None)"
    by (auto simp: removeRecord_def map_of_delete Let_def fun_eq_iff split: option.splits)
  show "session_ids r (removeRecord i ct) = removeAll i (session_ids r ct)"
  proof (cases "map_of (ct_conns ct) i")
    case None
    then show ?thesis using notin[OF None] by (simp add: removeRecord_def removeAll_id)
  next
    case (Some rec)
    obtain ids where ids: "map_of (ct_bySession ct) (cn_rfq rec) = Some ids" using some[OF Some] by blast
    show ?thesis
    proof (cases "r = cn_rfq rec")
      case True
      then show ?thesis using Some ids by (simp add: removeRecord_def session_ids_def map_of_delete update_conv' Let_def)
    next
      case False
      then show ?thesis using Some ids other[OF Some False]
        by (auto simp: removeRecord_def session_ids_def map_of_delete update_conv' Let_def removeAll_id split: option.splits)
    qed
  qed
  show "ct_nextId (removeRecord i ct) = ct_nextId ct"
    by (simp add: removeRecord_def Let_def split: option.splits)
  show "distinct (map fst (ct_conns (removeRecord i ct)))" "distinct (map fst (ct_bySession (removeRecord i ct)))"
    using okD(1,2)[OF ok]
    by (auto simp: removeRecord_def Let_def distinct_delete distinct_update split: option.splits)
qed

lemma filter_removeAll_le: "length (filter Q (removeAll i xs)) \<le> length (filter Q xs)"
  by (induction xs) auto

lemma removeRecord_count:
  assumes ok: "tracker_ok b ct"
  shows "countForDid r d (removeRecord i ct) \<le> countForDid r d ct"
proof -
  have "filter (by_caller (removeRecord i ct) d) (session_ids r (removeRecord i ct)) =
      filter (by_caller ct d) (removeAll i (session_ids r ct))"
    unfolding removeRecord_effect(2)[OF ok]
    by (rule filter_cong) (auto simp: by_caller_def removeRecord_effect(1)[OF ok])
  then show ?thesis using filter_removeAll_le[of "by_caller ct d" i] by (simp add: countForDid_filter)
qed

lemma removeRecord_ok:
  assumes ok: "tracker_ok b ct" shows "tracker_ok b (removeRecord i ct)"
proof -
  note E = removeRecord_effect[OF ok, where i = i]
  have "length (removeAll i (session_ids r ct)) \<le> MAX_PER_SESSION" for r
    using okD(6)[OF ok, of r] length_removeAll_less_eq[of i "session_ids r ct"] by (rule order_trans[rotated])
  moreover have "countForDid r d (removeRecord i ct) \<le> MAX_PER_DID" for r d
    using removeRecord_count[OF ok, of r d i] okD(7)[OF ok, of r d] by simp
  ultimately show ?thesis
    using okD(3-5)[OF ok] E(4,5) by (auto simp: tracker_ok_def E(1-3) distinct_removeAll)
qed

lemma closed_ok: "tracker_ok b (ct\<lparr>ct_closed := xs\<rparr>) = tracker_ok b ct"
  by (simp add: tracker_ok_def session_ids_def countForDid_def)

lemma evict_ok: "tracker_ok b ct \<Longrightarrow> tracker_ok b (evict i ct)"
  by (simp add: evict_def close_conn_def removeRecord_ok closed_ok)

lemma removeRecord_gone: "map_of (ct_conns ct) i = None \<Longrightarrow> removeRecord i ct = ct"
  by (simp add: removeRecord_def)

lemma evict_effect:
  assumes ok: "tracker_ok b ct"
  shows "session_ids r (evict i ct) = removeAll i (session_ids r ct)"
    "map_of (ct_conns (evict i ct)) = (map_of (ct_conns ct))(i := None)" "ct_nextId (evict i ct) = ct_nextId ct"
    "countForDid r d (evict i ct) \<le> countForDid r d ct"
proof -
  let ?ct = "ct\<lparr>ct_closed := ct_closed ct @ [i]\<rparr>"
  have ok1: "tracker_ok b ?ct" using ok by (simp add: closed_ok)
  note E = removeRecord_effect[OF ok1, where i = i]
  have eq: "evict i ct = removeRecord i ?ct" using E(1) by (simp add: evict_def close_conn_def removeRecord_gone)
  have same: "session_ids r ?ct = session_ids r ct" "countForDid r d ?ct = countForDid r d ct" for r d
    by (simp_all add: session_ids_def countForDid_def)
  show "session_ids r (evict i ct) = removeAll i (session_ids r ct)" using E(2) by (simp add: eq same)
  show "map_of (ct_conns (evict i ct)) = (map_of (ct_conns ct))(i := None)" using E(1) by (simp add: eq)
  show "ct_nextId (evict i ct) = ct_nextId ct" using E(3) by (simp add: eq)
  show "countForDid r d (evict i ct) \<le> countForDid r d ct" using removeRecord_count[OF ok1, of r d i] by (simp add: eq same)
qed


lemma add_conn_effect:
  assumes "add_conn now r c y ct = (i, ct')"
  shows "i = ct_nextId ct + 1" "ct_nextId ct' = i"
    "map_of (ct_conns ct') = (map_of (ct_conns ct))(i \<mapsto> \<lparr>cn_id = i, cn_rfq = r, cn_caller = c, cn_isBuyer = y, cn_openedAt = now\<rparr>)"
    "session_ids r' ct' = session_ids r' ct @ (if r' = r then [i] else [])"
    "distinct (map fst (ct_conns ct)) \<Longrightarrow> distinct (map fst (ct_conns ct'))"
    "distinct (map fst (ct_bySession ct)) \<Longrightarrow> distinct (map fst (ct_bySession ct'))"
  using assms by (auto simp: add_conn_def Let_def update_conv' session_ids_def distinct_update fun_eq_iff)

lemma fresh_id: "tracker_ok b ct \<Longrightarrow> map_of (ct_conns ct) (ct_nextId ct + 1) = None"
  using okD(3)[of b ct "ct_nextId ct + 1"] by (cases "map_of (ct_conns ct) (ct_nextId ct + 1)") auto

lemma add_conn_count:
  assumes ok: "tracker_ok b ct" and a: "add_conn now r c y ct = (i, ct')"
  shows "countForDid r' d ct' = countForDid r' d ct + (if r' = r \<and> d = c then 1 else 0)"
proof -
  note E = add_conn_effect[OF a]
  have "by_caller ct' d j = by_caller ct d j" if "j \<in> set (session_ids r' ct)" for j
    using okD(4)[OF ok that] fresh_id[OF ok] by (auto simp: by_caller_def E(1,3))
  then have "filter (by_caller ct' d) (session_ids r' ct) = filter (by_caller ct d) (session_ids r' ct)"
    by (intro filter_cong) auto
  moreover have "by_caller ct' d i \<longleftrightarrow> d = c" by (auto simp: by_caller_def E(3))
  ultimately show ?thesis by (auto simp: countForDid_filter E(4))
qed

lemma add_conn_ok:
  assumes ok: "tracker_ok b ct" and a: "add_conn now r c y ct = (i, ct')" and y: "y \<longleftrightarrow> c = b r"
    and room: "length (session_ids r ct) < MAX_PER_SESSION" "countForDid r c ct < MAX_PER_DID"
  shows "tracker_ok b ct'"
proof -
  note E = add_conn_effect[OF a]
  have new: "i \<notin> set (session_ids r' ct)" for r' using okD(4)[OF ok, of i r'] fresh_id[OF ok] E(1) by auto
  have "countForDid r' d ct' \<le> MAX_PER_DID" for r' d
    using add_conn_count[OF ok a, of r' d] okD(7)[OF ok, of r' d] room(2) by (auto split: if_splits)
  moreover have "length (session_ids r' ct') \<le> MAX_PER_SESSION \<and> distinct (session_ids r' ct')" for r'
    using room(1) okD(5,6)[OF ok, of r'] new[of r'] by (auto simp: E(4))
  moreover have "\<exists>rec. map_of (ct_conns ct') j = Some rec \<and> cn_rfq rec = r'" if "j \<in> set (session_ids r' ct')" for j r'
    using that okD(4)[OF ok, of j r'] new[of r'] by (auto simp: E(3,4) split: if_splits)
  moreover have "cn_id rec = j \<and> j \<le> ct_nextId ct' \<and> j \<in> set (session_ids (cn_rfq rec) ct') \<and>
      (cn_isBuyer rec \<longleftrightarrow> cn_caller rec = b (cn_rfq rec))" if "map_of (ct_conns ct') j = Some rec" for j rec
    using that okD(3)[OF ok, of j rec] y E(1,2) by (auto simp: E(3,4) split: if_splits)
  ultimately show ?thesis using E(5,6) okD(1,2)[OF ok] by (simp add: tracker_ok_def)
qed

text \<open>The scan for the oldest stream of a seller.\<close>

lemma oldest_of_spec:
  assumes "oldest_of conns ids acc = Some rec"
  shows "(acc = Some rec \<or> (\<exists>i \<in> set ids. map_of conns i = Some rec \<and> \<not> cn_isBuyer rec)) \<and>
     (\<forall>i \<in> set ids. \<forall>x. map_of conns i = Some x \<longrightarrow> \<not> cn_isBuyer x \<longrightarrow> cn_openedAt rec \<le> cn_openedAt x) \<and>
     (\<forall>x. acc = Some x \<longrightarrow> cn_openedAt rec \<le> cn_openedAt x)"
  using assms
proof (induction conns ids acc rule: oldest_of.induct)
  case (2 conns i ids acc)
  then show ?case by (fastforce split: option.splits if_splits)
qed simp

lemma oldest_of_None:
  "oldest_of conns ids acc = None \<Longrightarrow> acc = None \<and> (\<forall>i \<in> set ids. \<forall>x. map_of conns i = Some x \<longrightarrow> cn_isBuyer x)"
proof (induction conns ids acc rule: oldest_of.induct)
  case (2 conns i ids acc)
  then show ?case by (auto split: option.splits if_splits)
qed simp

lemma oldest_in_session:
  assumes ok: "tracker_ok b ct" and f: "findOldestNonBuyer r ct = Some rec"
  shows "cn_id rec \<in> set (session_ids r ct)" "map_of (ct_conns ct) (cn_id rec) = Some rec" "\<not> cn_isBuyer rec"
    "\<forall>i \<in> set (session_ids r ct). \<forall>x. map_of (ct_conns ct) i = Some x \<longrightarrow> \<not> cn_isBuyer x \<longrightarrow> cn_openedAt rec \<le> cn_openedAt x"
proof -
  obtain i where "i \<in> set (session_ids r ct)" "map_of (ct_conns ct) i = Some rec" "\<not> cn_isBuyer rec"
    using oldest_of_spec[of "ct_conns ct" "session_ids r ct" None rec] f by (auto simp: findOldestNonBuyer_def)
  then show "cn_id rec \<in> set (session_ids r ct)" "map_of (ct_conns ct) (cn_id rec) = Some rec" "\<not> cn_isBuyer rec"
    using okD(3)[OF ok, of i rec] by auto
  show "\<forall>i \<in> set (session_ids r ct). \<forall>x. map_of (ct_conns ct) i = Some x \<longrightarrow> \<not> cn_isBuyer x \<longrightarrow> cn_openedAt rec \<le> cn_openedAt x"
    using oldest_of_spec[of "ct_conns ct" "session_ids r ct" None rec] f by (auto simp: findOldestNonBuyer_def)
qed

lemma evict_makes_room:
  assumes ok: "tracker_ok b ct" and i: "i \<in> set (session_ids r ct)"
  shows "length (session_ids r (evict i ct)) < MAX_PER_SESSION"
proof -
  have "length (removeAll i (session_ids r ct)) < length (session_ids r ct)" using i by (rule length_removeAll_less)
  then show ?thesis using okD(6)[OF ok, of r] by (simp add: evict_effect(1)[OF ok])
qed

lemma acquire_ok:
  assumes ok: "tracker_ok b ct" and a: "acquire now r c (c = b r) ct = (res, ct')"
  shows "tracker_ok b ct'"
proof -
  consider "ct' = ct"
    | i where "add_conn now r c (c = b r) ct = (i, ct')" "length (session_ids r ct) < MAX_PER_SESSION" "countForDid r c ct < MAX_PER_DID"
    | rec i where "findOldestNonBuyer r ct = Some rec" "countForDid r c ct < MAX_PER_DID"
        "add_conn now r c (c = b r) (evict (cn_id rec) ct) = (i, ct')"
    using a by (auto simp: acquire_def countForSession_def split: if_splits option.splits prod.splits)
  then show ?thesis
  proof cases
    case 1
    then show ?thesis using ok by simp
  next
    case 2
    then show ?thesis using add_conn_ok[OF ok] by blast
  next
    case (3 rec i)
    have "countForDid r c (evict (cn_id rec) ct) < MAX_PER_DID" using evict_effect(4)[OF ok, of r c "cn_id rec"] 3(2) by simp
    then show ?thesis
      using add_conn_ok[OF evict_ok[OF ok] 3(3)] evict_makes_room[OF ok oldest_in_session(1)[OF ok 3(1)]] by blast
  qed
qed

lemma closeAll_ok: "tracker_ok b ct \<Longrightarrow> tracker_ok b (closeAll r ct)"
proof -
  have "tracker_ok b ct \<Longrightarrow> tracker_ok b (fold (\<lambda>i ct. if map_of (ct_conns ct) i = None then ct else evict i ct) ids ct)" for ids
    by (induction ids arbitrary: ct) (simp_all add: evict_ok)
  then show "tracker_ok b ct \<Longrightarrow> tracker_ok b (closeAll r ct)" by (simp add: closeAll_def)
qed

inductive tracker_step :: "(string \<Rightarrow> string) \<Rightarrow> tracker \<Rightarrow> tracker \<Rightarrow> bool" for buyer_of where
  open_stream: "acquire now r c (c = buyer_of r) ct = (res, ct') \<Longrightarrow> tracker_step buyer_of ct ct'"
| end_stream: "tracker_step buyer_of ct (release_conn i ct)"
| session_ends: "tracker_step buyer_of ct (closeAll r ct)"

inductive tracker_reach :: "(string \<Rightarrow> string) \<Rightarrow> tracker \<Rightarrow> bool" for buyer_of where
  init: "tracker_reach buyer_of new_tracker"
| step: "tracker_reach buyer_of ct \<Longrightarrow> tracker_step buyer_of ct ct' \<Longrightarrow> tracker_reach buyer_of ct'"

lemma tracker_reach_ok: "tracker_reach b ct \<Longrightarrow> tracker_ok b ct"
proof (induction rule: tracker_reach.induct)
  case init
  show ?case by (simp add: tracker_ok_def new_tracker_def session_ids_def countForDid_def)
next
  case (step ct ct')
  show ?case using step(2)
    by (cases rule: tracker_step.cases) (use step.IH in \<open>auto intro: acquire_ok removeRecord_ok closeAll_ok simp: release_conn_def\<close>)
qed

section \<open>Properties\<close>

text \<open>
  Streams are bounded: however streams are opened, closed, evicted and ended, a session never
  has more than 10 of them and a caller never more than 3 of one session.
\<close>

theorem streams_bounded:
  assumes "tracker_reach buyer_of ct"
  shows "countForSession r ct \<le> 10 \<and> countForDid r d ct \<le> 3"
  using okD(6,7)[OF tracker_reach_ok[OF assms]] by (simp add: countForSession_def MAX_PER_SESSION_def MAX_PER_DID_def)

theorem streams_bounded_witness:
  "\<exists>ct. acquire 0 ''r'' ''b'' True new_tracker = (Some 1, ct) \<and> countForSession ''r'' ct \<le> 10"
proof -
  obtain ct where a: "acquire 0 ''r'' ''b'' True new_tracker = (Some 1, ct)"
    by (simp add: acquire_def countForDid_def countForSession_def session_ids_def new_tracker_def add_conn_def
        MAX_PER_DID_def MAX_PER_SESSION_def Let_def)
  have "tracker_step (\<lambda>_. ''b'') new_tracker ct"
    by (rule tracker_step.open_stream[where r = "''r''" and c = "''b''"]) (use a in simp)
  from streams_bounded[OF tracker_reach.step[OF tracker_reach.init this]] show ?thesis using a by blast
qed

text \<open>
  Sellers cannot lock the buyer out: the buyer of a session with fewer than 3 streams of its
  own gets one more even when the session is full, and the stream closed to make room is the
  oldest of those that are not the buyer's.
\<close>

theorem buyer_gets_stream:
  assumes "tracker_reach buyer_of ct" "countForDid r (buyer_of r) ct < 3"
  shows "\<exists>i ct'. acquire now r (buyer_of r) True ct = (Some i, ct') \<and> i \<in> set (session_ids r ct') \<and>
     (countForSession r ct < 10 \<and> (\<forall>j \<in> set (session_ids r ct). j \<in> set (session_ids r ct')) \<or>
      (\<exists>rec. map_of (ct_conns ct) (cn_id rec) = Some rec \<and> \<not> cn_isBuyer rec \<and> cn_id rec \<in> set (session_ids r ct) \<and>
         (\<forall>j \<in> set (session_ids r ct). \<forall>x. map_of (ct_conns ct) j = Some x \<longrightarrow> \<not> cn_isBuyer x \<longrightarrow>
            cn_openedAt rec \<le> cn_openedAt x) \<and>
         (\<forall>j \<in> set (session_ids r ct). j \<noteq> cn_id rec \<longrightarrow> j \<in> set (session_ids r ct'))))"
proof -
  have ok: "tracker_ok buyer_of ct" using tracker_reach_ok[OF assms(1)] .
  have did: "\<not> countForDid r (buyer_of r) ct \<ge> MAX_PER_DID" using assms(2) by (simp add: MAX_PER_DID_def)
  show ?thesis
  proof (cases "countForSession r ct \<ge> MAX_PER_SESSION")
    case False
    obtain i ct' where a: "add_conn now r (buyer_of r) True ct = (i, ct')" by fastforce
    then have "acquire now r (buyer_of r) True ct = (Some i, ct')" using did False by (simp add: acquire_def)
    then show ?thesis using add_conn_effect(4)[OF a, of r] False by (auto simp: MAX_PER_SESSION_def)
  next
    case True
    have "findOldestNonBuyer r ct \<noteq> None"
    proof
      assume "findOldestNonBuyer r ct = None"
      then have "\<forall>i \<in> set (session_ids r ct). \<forall>x. map_of (ct_conns ct) i = Some x \<longrightarrow> cn_isBuyer x"
        using oldest_of_None unfolding findOldestNonBuyer_def by blast
      then have "by_caller ct (buyer_of r) i" if "i \<in> set (session_ids r ct)" for i
        using okD(4)[OF ok that] okD(3)[OF ok, of i] that by (auto simp: by_caller_def)
      then have "filter (by_caller ct (buyer_of r)) (session_ids r ct) = session_ids r ct" by (simp add: filter_id_conv)
      then show False using True assms(2) by (simp add: countForDid_filter countForSession_def MAX_PER_SESSION_def)
    qed
    then obtain rec where f: "findOldestNonBuyer r ct = Some rec" by blast
    obtain i ct' where a: "add_conn now r (buyer_of r) True (evict (cn_id rec) ct) = (i, ct')" by fastforce
    then have "acquire now r (buyer_of r) True ct = (Some i, ct')" using did True f by (simp add: acquire_def)
    then show ?thesis
      using add_conn_effect(4)[OF a, of r] evict_effect(1)[OF ok, of r "cn_id rec"] oldest_in_session[OF ok f] by auto
  qed
qed

theorem buyer_gets_stream_witness: "\<exists>i ct'. acquire 5 ''r'' ''b'' True new_tracker = (Some i, ct')"
proof -
  have "countForDid ''r'' ''b'' new_tracker < 3" by (simp add: countForDid_def session_ids_def new_tracker_def)
  then show ?thesis using buyer_gets_stream[OF tracker_reach.init[of "\<lambda>_. ''b''"], of "''r''" 5] by blast
qed

end
