(* ===== verification/Decimals.thy ===== *)
theory Decimals
  imports Json
begin

text \<open>
  Numbers of the negotiation strategies. A value of decimal.js and a JavaScript number are both a
  rational or one of the three values that are not finite; zero carries no sign. The operations
  take the rounding of their library as an argument. The theory also models
  \<open>Array.prototype.sort\<close> with a comparator.
\<close>

datatype num_val = Fin rat | PosInf | NegInf | NaN

text \<open>
  What the strategies use of decimal.js and of the arithmetic of doubles. \<open>dec_of A x\<close> is
  \<open>new Decimal(x)\<close>, \<open>None\<close> where it throws; \<open>dec_str A\<close> is \<open>toString\<close>; \<open>dec_round A\<close> rounds the
  exact result of an operation to the precision of the library (20 significant digits, half
  up), \<open>js_double A\<close> to the nearest double; \<open>js_decimal A x\<close> is the decimal that prints the
  double \<open>x\<close>, which is what \<open>new Decimal(x)\<close> reads.
\<close>

record arith =
  dec_of :: "json \<Rightarrow> num_val option"
  dec_str :: "num_val \<Rightarrow> string"
  dec_round :: "rat \<Rightarrow> rat"
  js_double :: "rat \<Rightarrow> rat"
  js_decimal :: "rat \<Rightarrow> rat"

fun n_neg :: "num_val \<Rightarrow> num_val" where
  "n_neg (Fin x) = Fin (- x)"
| "n_neg PosInf = NegInf"
| "n_neg NegInf = PosInf"
| "n_neg NaN = NaN"

fun n_add :: "(rat \<Rightarrow> rat) \<Rightarrow> num_val \<Rightarrow> num_val \<Rightarrow> num_val" where
  "n_add r (Fin x) (Fin y) = Fin (r (x + y))"
| "n_add r NaN b = NaN"
| "n_add r a NaN = NaN"
| "n_add r PosInf NegInf = NaN"
| "n_add r NegInf PosInf = NaN"
| "n_add r PosInf b = PosInf"
| "n_add r NegInf b = NegInf"
| "n_add r a PosInf = PosInf"
| "n_add r a NegInf = NegInf"

definition n_sub :: "(rat \<Rightarrow> rat) \<Rightarrow> num_val \<Rightarrow> num_val \<Rightarrow> num_val" where
  "n_sub r a b = n_add r a (n_neg b)"

text \<open>The sign of a value that is not \<open>NaN\<close>, and an infinity of a given sign.\<close>

fun n_sgn :: "num_val \<Rightarrow> rat" where
  "n_sgn (Fin x) = sgn x"
| "n_sgn PosInf = 1"
| "n_sgn NegInf = -1"
| "n_sgn NaN = 0"

definition inf_of :: "rat \<Rightarrow> num_val" where
  "inf_of s = (if 0 < s then PosInf else if s < 0 then NegInf else NaN)"

fun n_mul :: "(rat \<Rightarrow> rat) \<Rightarrow> num_val \<Rightarrow> num_val \<Rightarrow> num_val" where
  "n_mul r (Fin x) (Fin y) = Fin (r (x * y))"
| "n_mul r a b = (if a = NaN \<or> b = NaN then NaN else inf_of (n_sgn a * n_sgn b))"

text \<open>Division by zero gives an infinity of the sign of the dividend, and \<open>0 / 0\<close> is \<open>NaN\<close>.\<close>

fun n_div :: "(rat \<Rightarrow> rat) \<Rightarrow> num_val \<Rightarrow> num_val \<Rightarrow> num_val" where
  "n_div r (Fin x) (Fin y) = (if y = 0 then inf_of (sgn x) else Fin (r (x / y)))"
| "n_div r (Fin x) b = (if b = NaN then NaN else Fin 0)"
| "n_div r a (Fin y) = (if a = NaN then NaN else inf_of (n_sgn a * (if y < 0 then -1 else 1)))"
| "n_div r a b = NaN"

text \<open>\<open>a.lte(b)\<close>; \<open>False\<close> when one of them is \<open>NaN\<close>.\<close>

fun n_le :: "num_val \<Rightarrow> num_val \<Rightarrow> bool" where
  "n_le (Fin x) (Fin y) = (x \<le> y)"
| "n_le NaN b = False"
| "n_le a NaN = False"
| "n_le NegInf b = True"
| "n_le a PosInf = True"
| "n_le a b = False"

text \<open>
  \<open>Decimal.min\<close>, \<open>Decimal.max\<close>, \<open>Math.min\<close> and \<open>Math.max\<close> of two arguments.
\<close>

definition n_min :: "num_val \<Rightarrow> num_val \<Rightarrow> num_val" where
  "n_min a b = (if a = NaN \<or> b = NaN then NaN else if n_le a b then a else b)"

definition n_max :: "num_val \<Rightarrow> num_val \<Rightarrow> num_val" where
  "n_max a b = (if a = NaN \<or> b = NaN then NaN else if n_le a b then b else a)"

text \<open>\<open>new Decimal(x)\<close> of a number.\<close>

definition n_decimal :: "arith \<Rightarrow> num_val \<Rightarrow> num_val" where
  "n_decimal A a = (case a of Fin x \<Rightarrow> Fin (js_decimal A x) | _ \<Rightarrow> a)"

text \<open>
  \<open>a.minus(b).toNumber()\<close> as the result of a comparator: \<open>sort\<close> reads its sign and takes \<open>NaN\<close>
  for 0.
\<close>

definition n_cmp :: "arith \<Rightarrow> num_val \<Rightarrow> num_val \<Rightarrow> rat" where
  "n_cmp A a b = (case n_sub (dec_round A) a b of Fin x \<Rightarrow> js_double A x | d \<Rightarrow> n_sgn d)"

section \<open>Sorting with a comparator\<close>

text \<open>
  \<open>xs.sort(cmp)\<close> is stable; for a comparator that is a preorder the result is determined by
  that, and is what insertion computes.
\<close>

fun js_insert :: "('a \<Rightarrow> 'a \<Rightarrow> rat) \<Rightarrow> 'a \<Rightarrow> 'a list \<Rightarrow> 'a list" where
  "js_insert cmp x [] = [x]"
| "js_insert cmp x (y # ys) = (if cmp x y \<le> 0 then x # y # ys else y # js_insert cmp x ys)"

definition js_sort :: "('a \<Rightarrow> 'a \<Rightarrow> rat) \<Rightarrow> 'a list \<Rightarrow> 'a list" where
  "js_sort cmp xs = foldr (js_insert cmp) xs []"

lemma js_sort_simps [simp]:
  "js_sort cmp [] = []"
  "js_sort cmp (x # xs) = js_insert cmp x (js_sort cmp xs)"
  by (simp_all add: js_sort_def)

lemma mset_js_insert [simp]: "mset (js_insert cmp x xs) = add_mset x (mset xs)"
  by (induction xs) auto

lemma mset_js_sort [simp]: "mset (js_sort cmp xs) = mset xs"
  by (induction xs) auto

lemma set_js_sort [simp]: "set (js_sort cmp xs) = set xs"
  by (metis mset_js_sort set_mset_mset)

lemma length_js_sort [simp]: "length (js_sort cmp xs) = length xs"
  by (metis mset_js_sort size_mset)

lemma js_sort_eq_Nil [simp]: "js_sort cmp xs = [] \<longleftrightarrow> xs = []"
  using length_js_sort[of cmp xs] by (metis length_0_conv)

text \<open>
  A comparator that decides a total preorder: the locale of what \<open>sort\<close> needs. Its head is
  then least, and its result sorted.
\<close>

locale comparator_on =
  fixes cmp :: "'a \<Rightarrow> 'a \<Rightarrow> rat" and S :: "'a set" and le :: "'a \<Rightarrow> 'a \<Rightarrow> bool"
  assumes cmp_le: "a \<in> S \<Longrightarrow> b \<in> S \<Longrightarrow> cmp a b \<le> 0 \<longleftrightarrow> le a b"
    and total: "a \<in> S \<Longrightarrow> b \<in> S \<Longrightarrow> le a b \<or> le b a"
    and trans: "a \<in> S \<Longrightarrow> b \<in> S \<Longrightarrow> c \<in> S \<Longrightarrow> le a b \<Longrightarrow> le b c \<Longrightarrow> le a c"
begin

lemma insert_sorted:
  assumes "x \<in> S" "set ys \<subseteq> S" "sorted_wrt le ys"
  shows "sorted_wrt le (js_insert cmp x ys)"
  using assms
proof (induction ys)
  case (Cons y ys)
  have in_S: "y \<in> S" "set ys \<subseteq> S" using Cons.prems by auto
  have mem: "z \<in> set (js_insert cmp x ys) \<longleftrightarrow> z = x \<or> z \<in> set ys" for z
    by (metis mset_js_insert set_mset_add_mset_insert set_mset_mset insert_iff)
  show ?case
  proof (cases "le x y")
    case True
    have "le x z" if "z \<in> set ys" for z
      using trans[OF Cons.prems(1) in_S(1), of z] that True in_S(2) Cons.prems(3) by auto
    then show ?thesis using True Cons.prems cmp_le[OF Cons.prems(1) in_S(1)] by simp
  next
    case False
    have "le y x" using total[OF Cons.prems(1) in_S(1)] False by blast
    then show ?thesis
      using False Cons cmp_le[OF Cons.prems(1) in_S(1)] mem by auto
  qed
qed simp

lemma sort_sorted: "set xs \<subseteq> S \<Longrightarrow> sorted_wrt le (js_sort cmp xs)"
  by (induction xs) (simp_all add: insert_sorted)

lemma sort_head:
  assumes "set xs \<subseteq> S" "js_sort cmp xs = y # ys" "x \<in> set xs"
  shows "le y x"
proof -
  have "x = y \<or> x \<in> set ys" "y \<in> S"
    using assms set_js_sort[of cmp xs] by (auto simp del: set_js_sort)
  then show ?thesis using sort_sorted[OF assms(1)] assms(2) total[of y y] by auto
qed

end

section \<open>Bounds\<close>

lemma n_le_Fin: "n_le a (Fin y) \<longleftrightarrow> a = NegInf \<or> (\<exists>x. a = Fin x \<and> x \<le> y)"
  by (cases a) auto

lemma n_min_le: "a \<noteq> NaN \<Longrightarrow> b \<noteq> NaN \<Longrightarrow> n_le (n_min a b) a \<and> n_le (n_min a b) b"
  by (cases a; cases b) (auto simp: n_min_def)

lemma n_max_ge: "a \<noteq> NaN \<Longrightarrow> b \<noteq> NaN \<Longrightarrow> n_le a (n_max a b) \<and> n_le b (n_max a b)"
  by (cases a; cases b) (auto simp: n_max_def)

lemma n_min_Fin [simp]: "n_min (Fin x) (Fin y) = Fin (min x y)"
  by (simp add: n_min_def min_def)

lemma n_max_Fin [simp]: "n_max (Fin x) (Fin y) = Fin (max x y)"
  by (simp add: n_max_def max_def)

lemma n_sub_Fin [simp]: "n_sub r (Fin x) (Fin y) = Fin (r (x - y))"
  by (simp add: n_sub_def)

section \<open>Laws of the arithmetic\<close>

text \<open>
  Rounding is monotone and symmetric, keeps the sign, and a power of ten within the exponent
  range is representable; a difference of at least \<open>1e-300\<close> is not lost in the conversion to a
  double.
\<close>

definition tiny :: rat where
  "tiny = 1 / 10 ^ 300"

definition arith_ok :: "arith \<Rightarrow> bool" where
  "arith_ok A \<longleftrightarrow> mono (dec_round A) \<and> (\<forall>x. dec_round A (- x) = - dec_round A x) \<and> dec_round A tiny = tiny \<and>
     mono (js_double A) \<and> (\<forall>x. js_double A (- x) = - js_double A x) \<and> 0 < js_double A tiny"

lemma arith_okD:
  assumes "arith_ok A"
  shows "x \<le> y \<Longrightarrow> dec_round A x \<le> dec_round A y" "x \<le> y \<Longrightarrow> js_double A x \<le> js_double A y"
    "dec_round A (- x) = - dec_round A x" "js_double A (- x) = - js_double A x" "dec_round A 0 = 0" "js_double A 0 = 0"
proof -
  show "dec_round A 0 = 0" "js_double A 0 = 0"
    using assms unfolding arith_ok_def by (metis add.inverse_neutral equal_neg_zero)+
qed (use assms in \<open>auto simp: arith_ok_def mono_def\<close>)

lemma dec_round_nonneg: "arith_ok A \<Longrightarrow> 0 \<le> x \<Longrightarrow> 0 \<le> dec_round A x"
  using arith_okD(1)[of A 0 x] arith_okD(5)[of A] by simp

text \<open>Two finite prices that differ, differ by enough for the comparator to see it.\<close>

definition apart :: "rat \<Rightarrow> rat \<Rightarrow> bool" where
  "apart x y \<longleftrightarrow> x = y \<or> tiny \<le> \<bar>x - y\<bar>"

lemma n_cmp_Fin:
  assumes "arith_ok A" "apart x y"
  shows "n_cmp A (Fin x) (Fin y) \<le> 0 \<longleftrightarrow> x \<le> y"
proof -
  note ok = arith_okD[OF assms(1)]
  have tiny: "dec_round A tiny = tiny" "0 < js_double A tiny" using assms(1) by (auto simp: arith_ok_def)
  have pos: "0 < js_double A (dec_round A z)" if "tiny \<le> z" for z
    using ok(1)[OF that] ok(2)[of tiny "dec_round A z"] tiny by simp
  show ?thesis
  proof (cases "x = y")
    case True
    then show ?thesis by (simp add: n_cmp_def ok(5,6))
  next
    case False
    then have far: "tiny \<le> x - y \<or> tiny \<le> y - x" using assms(2) by (auto simp: apart_def abs_if split: if_splits)
    have 0: "0 < tiny" by (simp add: tiny_def)
    from far show ?thesis
    proof
      assume "tiny \<le> x - y"
      then show ?thesis using pos[of "x - y"] 0 by (simp add: n_cmp_def)
    next
      assume "tiny \<le> y - x"
      then show ?thesis using pos[of "y - x"] 0 ok(3,4)[of "y - x"] ok(4)[of "dec_round A (y - x)"]
        by (simp add: n_cmp_def)
    qed
  qed
qed

end
