(* ===== verification/Reads.thy ===== *)
theory Reads
  imports Negotiation Connections Decimals
begin

text \<open>
  The routes that read: the header authentication and the registry cache of
  \<^verbatim>\<open>packages/engine/src/server.ts\<close>, \<^verbatim>\<open>routes/quote-read.ts\<close>, \<^verbatim>\<open>routes/events.ts\<close> with its polling and
  its streaming mode, \<open>GET /rfqs\<close> of \<^verbatim>\<open>routes/rfqs.ts\<close> with its rate limiter, and the mapping of
  errors to responses in \<^verbatim>\<open>middleware/error-handler.ts\<close>.
\<close>

section \<open>Authentication\<close>

text \<open>\<open>s.split(sep)\<close> for a separator of one character; empty parts are kept.\<close>

fun split_on :: "char \<Rightarrow> string \<Rightarrow> string list" where
  "split_on sep [] = [[]]"
| "split_on sep (c # cs) =
     (if c = sep then [] # split_on sep cs
      else case split_on sep cs of [] \<Rightarrow> [[c]] | p # ps \<Rightarrow> (c # p) # ps)"

definition MAX_AUTH_DRIFT_MS :: int where "MAX_AUTH_DRIFT_MS = 60000"

definition auth_object :: "did \<Rightarrow> string \<Rightarrow> (string \<times> json) list" where
  "auth_object did timestamp =
     [(''action'', JStr ''authenticate''), (''did'', JStr did), (''timestamp'', JStr timestamp), (''signature'', JStr [])]"

abbreviation unauthorized :: "'a res" where
  "unauthorized \<equiv> Inl (EngineError 401 ''unauthorized'')"

definition AUTH_SCHEME :: string where "AUTH_SCHEME = ''GhostBazaar-Ed25519 ''"

definition authenticateCaller :: "platform \<Rightarrow> millis \<Rightarrow> string option \<Rightarrow> did res" where
  "authenticateCaller P now header =
     (case header of None \<Rightarrow> unauthorized
      | Some h \<Rightarrow>
          if h = [] \<or> \<not> starts_with AUTH_SCHEME h then unauthorized
          else case split_on (CHR '' '') (drop (length AUTH_SCHEME) h) of
            [did, timestamp, signature] \<Rightarrow>
              (case didToPublicKey P did of None \<Rightarrow> unauthorized
               | Some pubkey \<Rightarrow>
                   (case parse_date P timestamp of None \<Rightarrow> unauthorized
                    | Some authTime \<Rightarrow>
                        if \<bar>now - authTime\<bar> > MAX_AUTH_DRIFT_MS then unauthorized
                        else rbind (verifyEd25519 P (objectSigningPayload P (auth_object did timestamp)) (Some (JStr signature)) pubkey)
                               (\<lambda>valid. if valid then Inr did else unauthorized)))
          | _ \<Rightarrow> unauthorized)"

section \<open>Errors as responses\<close>

text \<open>
  \<open>onEngineError\<close>: the status and the field \<open>error\<close> of the response, and whether the message of the
  error is passed on. A \<open>SettlementError\<close> has a \<open>code\<close> but no \<open>status\<close>, the other errors neither.
\<close>

fun onEngineError :: "js_error \<Rightarrow> nat \<times> string \<times> bool" where
  "onEngineError (EngineError status code) = (status, code, True)"
| "onEngineError (SettlementError code httpStatus) = (500, code, False)"
| "onEngineError _ = (500, ''internal_error'', False)"

section \<open>The quote of a session\<close>

definition quote_read_locked ::
  "did \<Rightarrow> derived_session option \<Rightarrow> manager \<Rightarrow> json res \<times> manager" where
  "quote_read_locked callerDid so m =
     (case so of
        None \<Rightarrow> (Inl (EngineError 404 ''session_not_found''), m)
      | Some s \<Rightarrow>
          if state s \<notin> {COMMIT_PENDING, COMMITTED} then (Inl (EngineError 404 ''quote_not_found''), m)
          else if callerDid \<noteq> buyer (rfq s) \<and> selectedSeller s \<noteq> Some callerDid then (unauthorized, m)
          else case unsignedQuote s of
            None \<Rightarrow> (Inl (EngineError 404 ''quote_not_found''), m)
          | Some q \<Rightarrow>
              if falsy (Some q) then (Inl (EngineError 404 ''quote_not_found''), m)
              else (Inr (JObj (spread_set (spread_set (case q of JObj kvs \<Rightarrow> kvs | _ \<Rightarrow> [])
                      ''buyer_signature'' (JStr (case buyerSignature s of None \<Rightarrow> [] | Some x \<Rightarrow> x)))
                      ''seller_signature'' (JStr (case sellerSignature s of None \<Rightarrow> [] | Some x \<Rightarrow> x)))), m))"

definition getQuote ::
  "platform \<Rightarrow> bool \<Rightarrow> millis \<Rightarrow> millis \<Rightarrow> string option \<Rightarrow> string \<Rightarrow> manager \<Rightarrow> json res \<times> manager" where
  "getQuote P granted now now' header rfqId m =
     (case authenticateCaller P now header of
        Inl e \<Rightarrow> (Inl e, m)
      | Inr callerDid \<Rightarrow> withLock granted now' rfqId (quote_read_locked callerDid) m)"

section \<open>The events of a session\<close>

definition isParticipant :: "did \<Rightarrow> did \<Rightarrow> recorded_offer list \<Rightarrow> bool" where
  "isParticipant callerDid buyerDid offs \<longleftrightarrow> callerDid = buyerDid \<or> list_ex (\<lambda>off. o_seller off = callerDid) offs"

record event_page =
  pg_events :: "negotiation_event list"
  pg_cursor :: "event_id option"

text \<open>
  The checks both modes share, for an authenticated caller. \<open>lastId\<close> is the header \<open>Last-Event-ID\<close> a stream
  reconnects with, \<open>afterParam\<close> the query parameter.
\<close>

definition resolve_cursor :: "bool \<Rightarrow> event_id option \<Rightarrow> event_id option \<Rightarrow> event_id option" where
  "resolve_cursor isSSE lastId afterParam =
     (case (if isSSE then lastId else None) of Some i \<Rightarrow> Some i | None \<Rightarrow> afterParam)"

definition events_session :: "millis \<Rightarrow> did \<Rightarrow> string \<Rightarrow> manager \<Rightarrow> derived_session res \<times> manager" where
  "events_session now callerDid rfqId m =
     (case getSession now rfqId m of
        (Inl e, m') \<Rightarrow> (Inl e, m')
      | (Inr None, m') \<Rightarrow> (Inl (EngineError 404 ''session_not_found''), m')
      | (Inr (Some s), m') \<Rightarrow>
          if isParticipant callerDid (buyer (rfq s)) (offers s) then (Inr s, m') else (unauthorized, m'))"

definition getEventsJson ::
  "millis \<Rightarrow> did \<Rightarrow> string \<Rightarrow> event_id option \<Rightarrow> manager \<Rightarrow> event_page res \<times> manager" where
  "getEventsJson now callerDid rfqId afterParam m =
     (case events_session now callerDid rfqId m of
        (Inl e, m') \<Rightarrow> (Inl e, m')
      | (Inr s, m') \<Rightarrow>
          let cursor = resolve_cursor False None afterParam in
          if (case cursor of None \<Rightarrow> False | Some c \<Rightarrow> \<not> hasCursor (sm_store m') rfqId c)
          then (Inl (EngineError 400 ''invalid_cursor''), m')
          else let evs = getEvents (sm_store m') rfqId callerDid (buyer (rfq s)) cursor
               in (Inr \<lparr>pg_events = evs, pg_cursor = (if evs = [] then cursor else Some (ev_id (last evs)))\<rparr>, m'))"

section \<open>Event streams\<close>

text \<open>
  What a stream sends besides the live events, which the store's subscription keeps in
  \<open>sub_delivered\<close>.
\<close>

datatype frame = F_Event negotiation_event | F_Terminal session_state | F_Error string

record open_stream =
  st_sub :: sub_handle
  st_term :: sub_handle

record stream_world =
  sw_mgr :: manager
  sw_ct :: tracker
  sw_open :: "(nat \<times> open_stream) list"

definition on_store :: "(event_store \<Rightarrow> event_store) \<Rightarrow> manager \<Rightarrow> manager" where
  "on_store f m = m\<lparr>sm_store := f (sm_store m)\<rparr>"

text \<open>
  \<open>cleanup\<close> of the stream with a connection id; the guard \<open>cleanedUp\<close> makes every call but the first
  do nothing, which here is the id no longer being among the open streams. The tracker's own
  removal of an evicted connection comes after its \<open>close\<close>.
\<close>

definition drop_stream :: "nat \<Rightarrow> stream_world \<Rightarrow> stream_world" where
  "drop_stream i w =
     (case map_of (sw_open w) i of
        None \<Rightarrow> w
      | Some st \<Rightarrow>
          w\<lparr>sw_mgr := on_store (\<lambda>es. unsubscribe_terminal (st_term st) (unsubscribe (st_sub st) es)) (sw_mgr w),
             sw_open := AList.delete i (sw_open w)\<rparr>)"

definition cleanup :: "nat \<Rightarrow> stream_world \<Rightarrow> stream_world" where
  "cleanup i w =
     (case map_of (sw_open w) i of
        None \<Rightarrow> w
      | Some st \<Rightarrow> (drop_stream i w)\<lparr>sw_ct := release_conn i (sw_ct w)\<rparr>)"

text \<open>\<open>acquire\<close>, with the \<open>close\<close> of an evicted stream run on the store as well.\<close>

definition acquire_slot :: "millis \<Rightarrow> string \<Rightarrow> did \<Rightarrow> bool \<Rightarrow> stream_world \<Rightarrow> nat option \<times> stream_world" where
  "acquire_slot now rfqId callerDid isBuyer w =
     (let (c, ct') = acquire now rfqId callerDid isBuyer (sw_ct w);
          evicted = drop (length (ct_closed (sw_ct w))) (ct_closed ct')
      in (c, (fold drop_stream evicted w)\<lparr>sw_ct := ct'\<rparr>))"

text \<open>
  The streaming mode after the checks. \<open>None\<close> as first component is an error frame and an immediate
  end; the frames are what is sent before live delivery. An exception of \<open>getSession\<close> would leave
  \<open>start\<close> before \<open>cleanup\<close> is installed, and with it the connection slot taken.
\<close>

definition startStream ::
  "millis \<Rightarrow> string \<Rightarrow> did \<Rightarrow> did \<Rightarrow> event_id option \<Rightarrow> stream_world \<Rightarrow> (nat option \<times> frame list) \<times> stream_world" where
  "startStream now rfqId callerDid buyerDid cursor w =
     (case acquire_slot now rfqId callerDid (callerDid = buyerDid) w of
        (None, w1) \<Rightarrow> ((None, [F_Error ''connection_limit'']), w1)
      | (Some i, w1) \<Rightarrow>
          let (sub, st1) = subscribeFrom rfqId callerDid buyerDid cursor (sm_store (sw_mgr w1));
              (t, st2) = subscribeTerminal rfqId st1;
              m1 = (sw_mgr w1)\<lparr>sm_store := st2\<rparr>;
              frames = map F_Event (sn_replay sub) @ map F_Event (sn_buffered sub)
          in case getSession now rfqId m1 of
               (Inr (Some s), m2) \<Rightarrow>
                 if state s \<in> set TERMINAL_STATES then
                   ((None, frames @ [F_Terminal (state s)]),
                    w1\<lparr>sw_mgr := on_store (\<lambda>es. unsubscribe_terminal t (unsubscribe (sn_handle sub) es)) m2,
                       sw_ct := release_conn i (sw_ct w1)\<rparr>)
                 else ((Some i, frames),
                    w1\<lparr>sw_mgr := on_store (activate (sn_handle sub)) m2,
                       sw_open := sw_open w1 @ [(i, \<lparr>st_sub = sn_handle sub, st_term = t\<rparr>)]\<rparr>)
             | (Inl e, m2) \<Rightarrow> ((None, frames), w1\<lparr>sw_mgr := m2\<rparr>)
             | (Inr None, m2) \<Rightarrow>
                 ((Some i, frames),
                  w1\<lparr>sw_mgr := on_store (activate (sn_handle sub)) m2,
                     sw_open := sw_open w1 @ [(i, \<lparr>st_sub = sn_handle sub, st_term = t\<rparr>)]\<rparr>))"

definition getEventsStream ::
  "millis \<Rightarrow> did \<Rightarrow> string \<Rightarrow> event_id option \<Rightarrow> event_id option \<Rightarrow> stream_world \<Rightarrow> (nat option \<times> frame list) res \<times> stream_world" where
  "getEventsStream now callerDid rfqId lastId afterParam w =
     (case events_session now callerDid rfqId (sw_mgr w) of
        (Inl e, m') \<Rightarrow> (Inl e, w\<lparr>sw_mgr := m'\<rparr>)
      | (Inr s, m') \<Rightarrow>
          let w' = w\<lparr>sw_mgr := m'\<rparr>; cursor = resolve_cursor True lastId afterParam in
          if (case cursor of None \<Rightarrow> False | Some c \<Rightarrow> \<not> hasCursor (sm_store m') rfqId c)
          then (Inr (None, [F_Error ''invalid_cursor'']), w')
          else (case startStream now rfqId callerDid (buyer (rfq s)) cursor w' of (r, w'') \<Rightarrow> (Inr r, w'')))"

section \<open>Listing RFQs\<close>

definition DEFAULT_LIMIT :: nat where "DEFAULT_LIMIT = 50"
definition MAX_LIMIT :: nat where "MAX_LIMIT = 200"
definition GET_RFQS_WINDOW_MS :: int where "GET_RFQS_WINDOW_MS = 60000"
definition GET_RFQS_MAX_PER_IP :: nat where "GET_RFQS_MAX_PER_IP = 60"

type_synonym rate_table = "(string \<times> (nat \<times> millis)) list"

definition checkGetRfqsRateLimit :: "millis \<Rightarrow> string \<Rightarrow> rate_table \<Rightarrow> bool \<times> rate_table" where
  "checkGetRfqsRateLimit now ip tbl =
     (case map_of tbl ip of
        None \<Rightarrow> (True, AList.update ip (1, now) tbl)
      | Some (n, windowStart) \<Rightarrow>
          if now - windowStart > GET_RFQS_WINDOW_MS then (True, AList.update ip (1, now) tbl)
          else if n \<ge> GET_RFQS_MAX_PER_IP then (False, tbl)
          else let tbl1 = AList.update ip (n + 1, windowStart) tbl
               in (True, if length tbl1 > 2000
                         then filter (\<lambda>(k, (c, start)). \<not> now - start > GET_RFQS_WINDOW_MS) tbl1 else tbl1))"

definition client_ip :: "string option \<Rightarrow> string option \<Rightarrow> string" where
  "client_ip forwardedFor realIp =
     (case forwardedFor of
        Some h \<Rightarrow> trim (hd (split_on (CHR '','') h))
      | None \<Rightarrow> (case realIp of Some r \<Rightarrow> r | None \<Rightarrow> ''unknown''))"

definition to_upper :: "string \<Rightarrow> string" where
  "to_upper s = map (\<lambda>c. let n = of_char c :: nat in if 97 \<le> n \<and> n \<le> 122 then char_of (n - 32) else c) s"

record rfq_query =
  rq_service_type :: "string option"
  rq_state :: "string option"
  rq_buyer :: "string option"
  rq_include_terminal :: "string option"
  rq_limit :: "string option"
  rq_offset :: "string option"

record rfq_summary =
  rs_rfq_id :: string
  rs_buyer :: did
  rs_service_type :: string
  rs_anchor_price :: string
  rs_currency :: string
  rs_deadline :: string
  rs_state :: session_state
  rs_offer_count :: nat

definition VALID_STATES :: "string list" where
  "VALID_STATES = map state_text (enum_class.enum :: session_state list)"

definition page_limit :: "rfq_query \<Rightarrow> nat res" where
  "page_limit q =
     (case rq_limit q of None \<Rightarrow> Inr DEFAULT_LIMIT
      | Some s \<Rightarrow>
          if s = [] \<or> \<not> list_all is_digit s \<or> hd s = CHR ''0'' then Inl (EngineError 400 ''invalid_param'')
          else Inr (min (nat_of_digits s) MAX_LIMIT))"

definition page_offset :: "rfq_query \<Rightarrow> nat res" where
  "page_offset q =
     (case rq_offset q of None \<Rightarrow> Inr 0
      | Some s \<Rightarrow> if s = [] \<or> \<not> list_all is_digit s then Inl (EngineError 400 ''invalid_param'') else Inr (nat_of_digits s))"

definition summary_of :: "derived_session \<Rightarrow> rfq_summary" where
  "summary_of s = \<lparr>rs_rfq_id = rfq_id (rfq s), rs_buyer = buyer (rfq s), rs_service_type = service_type (rfq s),
     rs_anchor_price = anchor_price (rfq s), rs_currency = currency (rfq s), rs_deadline = deadline (rfq s),
     rs_state = state s, rs_offer_count = totalOfferCount s\<rparr>"

text \<open>An optional filter; the empty string is no filter.\<close>

definition passes :: "string option \<Rightarrow> string \<Rightarrow> bool" where
  "passes f v = (case f of None \<Rightarrow> True | Some x \<Rightarrow> x = [] \<or> v = x)"

definition rfq_matches :: "rfq_query \<Rightarrow> derived_session \<Rightarrow> bool" where
  "rfq_matches q s \<longleftrightarrow>
     \<not> (rq_include_terminal q \<noteq> Some ''true'' \<and> rq_state q = None \<and> state s \<in> set TERMINAL_STATES) \<and>
     passes (rq_service_type q) (service_type (rfq s)) \<and>
     passes (map_option to_upper (rq_state q)) (state_text (state s)) \<and>
     passes (rq_buyer q) (buyer (rfq s))"

fun collect_rfqs :: "millis \<Rightarrow> rfq_query \<Rightarrow> string list \<Rightarrow> manager \<Rightarrow> rfq_summary list res \<times> manager" where
  "collect_rfqs now q [] m = (Inr [], m)"
| "collect_rfqs now q (r # rs) m =
     (case getSession now r m of
        (Inl e, m1) \<Rightarrow> (Inl e, m1)
      | (Inr so, m1) \<Rightarrow>
          (case collect_rfqs now q rs m1 of
             (Inl e, m2) \<Rightarrow> (Inl e, m2)
           | (Inr rest, m2) \<Rightarrow>
               (Inr (case so of Some s \<Rightarrow> if rfq_matches q s then summary_of s # rest else rest | None \<Rightarrow> rest), m2)))"

record rfq_page =
  rp_rfqs :: "rfq_summary list"
  rp_total :: nat
  rp_limit :: nat
  rp_offset :: nat

text \<open>\<open>lc\<close> is \<open>localeCompare\<close>.\<close>

definition summary_cmp :: "(string \<Rightarrow> string \<Rightarrow> rat) \<Rightarrow> rfq_summary \<Rightarrow> rfq_summary \<Rightarrow> rat" where
  "summary_cmp lc a b =
     (let d = lc (rs_deadline a) (rs_deadline b) in if d \<noteq> 0 then d else lc (rs_rfq_id a) (rs_rfq_id b))"

definition getRfqs ::
  "(string \<Rightarrow> string \<Rightarrow> rat) \<Rightarrow> millis \<Rightarrow> string \<Rightarrow> rfq_query \<Rightarrow> rate_table \<Rightarrow> manager \<Rightarrow> rfq_page res \<times> rate_table \<times> manager" where
  "getRfqs lc now ip q tbl m =
     (case checkGetRfqsRateLimit now ip tbl of
        (False, tbl') \<Rightarrow> (Inl (EngineError 429 ''rate_limited''), tbl', m)
      | (True, tbl') \<Rightarrow>
          if (case rq_state q of None \<Rightarrow> False | Some s \<Rightarrow> to_upper s \<notin> set VALID_STATES)
          then (Inl (EngineError 400 ''invalid_state''), tbl', m)
          else case page_limit q of Inl e \<Rightarrow> (Inl e, tbl', m)
          | Inr limit \<Rightarrow> (case page_offset q of Inl e \<Rightarrow> (Inl e, tbl', m)
          | Inr offset \<Rightarrow>
              (case collect_rfqs now q (getActiveSessionIds m) m of
                 (Inl e, m') \<Rightarrow> (Inl e, tbl', m')
               | (Inr matched, m') \<Rightarrow>
                   let sorted = js_sort (summary_cmp lc) matched
                   in (Inr \<lparr>rp_rfqs = take limit (drop offset sorted), rp_total = length matched, rp_limit = limit,
                            rp_offset = offset\<rparr>, tbl', m'))))"

section \<open>The registry cache\<close>

text \<open>
  \<open>discoverRegistryAgent\<close>. \<open>lookup\<close> is the registry's answer; \<open>cached\<close> says whether it was asked. The
  clock is read once, before the lookup.
\<close>

type_synonym 'v registry_cache = "(string \<times> ('v \<times> millis)) list"

definition REGISTRY_CACHE_MAX :: nat where "REGISTRY_CACHE_MAX = 1024"

definition registry_lookup :: "millis \<Rightarrow> string \<Rightarrow> 'v registry_cache \<Rightarrow> 'v option" where
  "registry_lookup now agentId rc =
     (case map_of rc agentId of
        Some (v, expiresAt) \<Rightarrow> if expiresAt > now then Some v else None
      | None \<Rightarrow> None)"

text \<open>The loop that deletes the oldest keys; a \<open>Map\<close> yields them in the order of insertion.\<close>

fun drop_oldest :: "'v registry_cache \<Rightarrow> 'v registry_cache" where
  "drop_oldest [] = []"
| "drop_oldest ((k, e) # rest) =
     (if length ((k, e) # rest) > REGISTRY_CACHE_MAX \<and> k \<noteq> [] then drop_oldest rest else (k, e) # rest)"

definition registry_store :: "millis \<Rightarrow> int \<Rightarrow> string \<Rightarrow> 'v \<Rightarrow> 'v registry_cache \<Rightarrow> 'v registry_cache" where
  "registry_store now ttl agentId v rc =
     (let rc1 = AList.update agentId (v, now + ttl) rc
      in if length rc1 > REGISTRY_CACHE_MAX
         then drop_oldest (filter (\<lambda>(k, (x, expiresAt)). \<not> expiresAt \<le> now) rc1) else rc1)"

text \<open>
  \<open>discoverRegistryAgent\<close> with the registry's answer, \<open>None\<close> where the request fails; other
  requests may have changed the cache to \<open>rc'\<close> before the answer arrives.
\<close>

definition discoverRegistryAgent ::
  "millis \<Rightarrow> int \<Rightarrow> string \<Rightarrow> 'v option \<Rightarrow> 'v registry_cache \<Rightarrow> 'v registry_cache \<Rightarrow> 'v option \<times> 'v registry_cache" where
  "discoverRegistryAgent now ttl agentId answer rc rc' =
     (case registry_lookup now agentId rc of
        Some v \<Rightarrow> (Some v, rc)
      | None \<Rightarrow> (case answer of None \<Rightarrow> (None, rc') | Some v \<Rightarrow> (Some v, registry_store now ttl agentId v rc')))"

section \<open>Authenticated callers\<close>

text \<open>An accepted header: its parts, and the signature over them by the key of the DID.\<close>

lemma authenticateCaller_Inr:
  assumes "authenticateCaller P now (Some h) = Inr d"
  shows "\<exists>ts sig pk t. h = AUTH_SCHEME @ drop (length AUTH_SCHEME) h \<and>
     split_on (CHR '' '') (drop (length AUTH_SCHEME) h) = [d, ts, sig] \<and> didToPublicKey P d = Some pk \<and>
     parse_date P ts = Some t \<and> \<bar>now - t\<bar> \<le> MAX_AUTH_DRIFT_MS \<and>
     verifyEd25519 P (objectSigningPayload P (auth_object d ts)) (Some (JStr sig)) pk = Inr True"
  using assms
  by (auto simp: authenticateCaller_def starts_with_iff not_less split: if_splits list.splits option.splits)

lemma split_on_append: "sep \<notin> set a \<Longrightarrow> split_on sep (a @ sep # b) = a # split_on sep b"
  by (induction a) auto

lemma split_on_none: "sep \<notin> set a \<Longrightarrow> split_on sep a = [a]"
  by (induction a) auto

section \<open>Pages of events\<close>

lemma manager_getSession:
  assumes "manager_ok m" "getSession now r m = (v, m')"
  shows "v = deriveState (events_in m r)" "events_in m' = events_in m" "manager_ok m'" "sm_store m' = sm_store m"
  using sessions.get_value[OF assms(1), of now r] sessions.get_state[OF assms(2)] assms getSession_fields[OF assms(2)] by auto

lemma events_session_Inr:
  assumes "manager_ok m" "events_session now d r m = (Inr s, m')"
  shows "deriveState (events_in m r) = Inr (Some s)" "isParticipant d (buyer (rfq s)) (offers s)" "sm_store m' = sm_store m" "manager_ok m'"
proof -
  obtain v m1 where g: "getSession now r m = (v, m1)" by fastforce
  then show "deriveState (events_in m r) = Inr (Some s)" "isParticipant d (buyer (rfq s)) (offers s)" "sm_store m' = sm_store m" "manager_ok m'"
    using assms(2) manager_getSession[OF assms(1) g]
    by (auto simp: events_session_def split: sum.splits option.splits if_splits)
qed

definition cursor_ok :: "event_id option \<Rightarrow> negotiation_event list \<Rightarrow> bool" where
  "cursor_ok c evs \<longleftrightarrow> (case c of None \<Rightarrow> True | Some i \<Rightarrow> \<exists>e \<in> set evs. ev_id e = i)"

definition next_cursor :: "event_id option \<Rightarrow> negotiation_event list \<Rightarrow> event_id option" where
  "next_cursor c evs = (if evs = [] then c else Some (ev_id (last evs)))"

abbreviation visible :: "did \<Rightarrow> did \<Rightarrow> negotiation_event list \<Rightarrow> negotiation_event list" where
  "visible d b \<equiv> filter (\<lambda>e. isEventVisibleTo e d b)"

lemma getEventsJson_Inr:
  assumes "manager_ok m" "getEventsJson now d r c m = (Inr pg, m')"
  obtains s where "deriveState (events_in m r) = Inr (Some s)" "isParticipant d (buyer (rfq s)) (offers s)"
    "cursor_ok c (events_in m r)" "pg_events pg = visible d (buyer (rfq s)) (after_cursor c (events_in m r))"
    "pg_cursor pg = next_cursor c (pg_events pg)" "sm_store m' = sm_store m"
proof -
  obtain v m1 where e: "events_session now d r m = (v, m1)" by fastforce
  obtain s where v: "v = Inr s" using assms(2) e by (cases v) (auto simp: getEventsJson_def)
  note S = events_session_Inr[OF assms(1) e[unfolded v]]
  show ?thesis
    using assms(2) e v S(3)
    by (intro that[OF S(1,2)])
      (auto simp: getEventsJson_def resolve_cursor_def Let_def getEvents_def events_in_def cursor_ok_def next_cursor_def
        hasCursor_iff split: option.splits if_splits)
qed

lemma getEventsJson_answers:
  assumes "manager_ok m" "deriveState (events_in m r) = Inr (Some s)" "isParticipant d (buyer (rfq s)) (offers s)" "cursor_ok c (events_in m r)"
    "p = visible d (buyer (rfq s)) (after_cursor c (events_in m r))"
  shows "\<exists>m'. getEventsJson now d r c m = (Inr \<lparr>pg_events = p, pg_cursor = next_cursor c p\<rparr>, m')"
proof -
  obtain v m1 where g: "getSession now r m = (v, m1)" by fastforce
  note G = manager_getSession[OF assms(1) g]
  show ?thesis
    using g G(1,2,4) assms(2-5)
    by (auto simp: getEventsJson_def events_session_def resolve_cursor_def Let_def getEvents_def cursor_ok_def next_cursor_def
        hasCursor_iff simp flip: events_in_def split: option.splits)
qed

text \<open>
  A cursor advanced past a page loses nothing and repeats nothing, however the log has grown in
  between.
\<close>

lemma after_last_visible:
  assumes "distinct (map ev_id (pre @ T @ K))" "filter V T \<noteq> []"
  shows "filter V (after_cursor (Some (ev_id (last (filter V T)))) (pre @ T @ K)) = filter V K"
proof -
  obtain T1 e T2 where T: "T = T1 @ e # T2" "V e" "filter V T2 = []"
    using split_list_last_prop[of T V] assms(2) by (auto simp: filter_empty_conv)
  have l: "last (filter V T) = e" using T by simp
  have "ev_id x \<noteq> ev_id e" if "x \<in> set (pre @ T1)" for x
    using assms(1) that unfolding T(1) by (auto simp: image_iff)
  then have "dropWhile (\<lambda>x. ev_id x \<noteq> ev_id e) ((pre @ T1) @ e # T2 @ K) = e # T2 @ K"
    by (subst dropWhile_append2) simp_all
  then show ?thesis using T l by (simp add: after_cursor_def)
qed

lemma after_cursor_suffix: "\<exists>pre. evs = pre @ after_cursor c evs"
proof (cases c)
  case (Some i)
  let ?d = "dropWhile (\<lambda>e. ev_id e \<noteq> i) evs"
  have "evs = takeWhile (\<lambda>e. ev_id e \<noteq> i) evs @ ?d" by simp
  also have "?d = take 1 ?d @ tl ?d" using append_take_drop_id[of 1 ?d] by (simp add: drop_Suc)
  finally show ?thesis using Some by (metis after_cursor_def append.assoc option.simps(5))
qed (simp add: after_cursor_def)

lemma pages_compose:
  assumes "cursor_ok c evs" "distinct (map ev_id (evs @ K))"
    "p = filter V (after_cursor c evs)"
  shows "p @ filter V (after_cursor (next_cursor c p) (evs @ K)) = filter V (after_cursor c (evs @ K))"
    and "cursor_ok (next_cursor c p) (evs @ K)"
proof -
  obtain pre where pre: "evs = pre @ after_cursor c evs" using after_cursor_suffix by blast
  have app: "after_cursor c (evs @ K) = after_cursor c evs @ K"
    using after_cursor_append[where c = c and evs = evs and ext = K] assms(1) by (simp add: cursor_ok_def)
  show "p @ filter V (after_cursor (next_cursor c p) (evs @ K)) = filter V (after_cursor c (evs @ K))"
  proof (cases "p = []")
    case True
    then show ?thesis by (simp add: next_cursor_def)
  next
    case False
    then have "filter V (after_cursor (next_cursor c p) (pre @ after_cursor c evs @ K)) = filter V K"
    proof -
      have "distinct (map ev_id (pre @ after_cursor c evs @ K))" using assms(2) pre by (metis append.assoc)
      from after_last_visible[OF this, of V] show ?thesis using False assms(3) by (simp add: next_cursor_def)
    qed
    then show ?thesis using app assms(3) pre by (metis append.assoc filter_append)
  qed
  show "cursor_ok (next_cursor c p) (evs @ K)"
  proof (cases "p = []")
    case True
    then show ?thesis using assms(1) by (auto simp: next_cursor_def cursor_ok_def split: option.splits)
  next
    case False
    then have "last p \<in> set (after_cursor c evs)" using assms(3) last_in_set[of p] by auto
    then have "last p \<in> set evs" using pre by (metis Un_iff set_append)
    then show ?thesis using False by (auto simp: next_cursor_def cursor_ok_def)
  qed
qed

section \<open>Streams and their slots\<close>

lemma removeRecord_closed [simp]: "ct_closed (removeRecord i ct) = ct_closed ct"
  by (auto simp: removeRecord_def Let_def split: option.splits)

lemma evict_closed [simp]: "ct_closed (evict i ct) = ct_closed ct @ [i]"
  by (simp add: evict_def close_conn_def)

lemma add_conn_closed: "add_conn now r c y ct = (i, ct') \<Longrightarrow> ct_closed ct' = ct_closed ct"
  by (auto simp: add_conn_def Let_def)

lemma acquire_effect:
  assumes ok: "tracker_ok b ct" and a: "acquire now r c y ct = (res, ct')"
  shows "(res = None \<and> ct' = ct) \<or>
     (\<exists>i vs. res = Some i \<and> map_of (ct_conns ct) i = None \<and> ct_closed ct' = ct_closed ct @ vs \<and>
        dom (map_of (ct_conns ct')) = insert i (dom (map_of (ct_conns ct)) - set vs))"
proof -
  consider "res = None" "ct' = ct"
    | i where "res = Some i" "add_conn now r c y ct = (i, ct')"
    | rec :: connection and i where "res = Some i" "add_conn now r c y (evict (cn_id rec) ct) = (i, ct')"
    using a by (auto simp: acquire_def split: if_splits option.splits prod.splits)
  then show ?thesis
  proof cases
    case (2 i)
    then show ?thesis
      using add_conn_effect(1,3)[OF 2(2)] fresh_id[OF ok] add_conn_closed[OF 2(2)]
      by (intro disjI2 exI[of _ i] exI[of _ "[]"]) simp
  next
    case (3 rec i)
    note E = add_conn_effect(1,3)[OF 3(2)] evict_effect(2,3)[OF ok, of "cn_id rec"] add_conn_closed[OF 3(2)]
    show ?thesis
      using 3(1) E fresh_id[OF ok] by (intro disjI2 exI[of _ i] exI[of _ "[cn_id rec]"]) auto
  qed simp
qed

lemma manager_ok_store:
  assumes "manager_ok m" "es_events st = es_events (sm_store m)" "es_seen st = es_seen (sm_store m)"
  shows "manager_ok (m\<lparr>sm_store := st\<rparr>)"
  using assms getAllEvents_cong[OF assms(2)]
  by (auto simp: manager_ok_def cache_ok_def logs_ok_def store_ids_ok_def events_in_def)

lemma unsubscribe_fields:
  "es_events (unsubscribe_terminal t (unsubscribe h st)) = es_events st" "es_seen (unsubscribe_terminal t (unsubscribe h st)) = es_seen st"
  by (simp_all add: unsubscribe_def)

lemma on_store_ok:
  "manager_ok m \<Longrightarrow> manager_ok (on_store (\<lambda>es. unsubscribe_terminal t (unsubscribe h es)) m)"
  "manager_ok m \<Longrightarrow> manager_ok (on_store (activate h) m)"
  unfolding on_store_def by (rule manager_ok_store; simp add: unsubscribe_def activate_def)+

lemma subscriptions_fields:
  assumes "subscribeFrom r d b c st = (sub, st1)" "subscribeTerminal r st1 = (t, st2)"
  shows "es_events st2 = es_events st" "es_seen st2 = es_seen st"
  using assms subscribeTerminal_fields[OF assms(2)] add_subscriber_events
  by (auto simp: subscribeFrom_def Let_def split: prod.splits)

lemma drop_stream_effect:
  "manager_ok (sw_mgr w) \<Longrightarrow> manager_ok (sw_mgr (drop_stream i w))"
  "sw_open (drop_stream i w) = AList.delete i (sw_open w)" "sw_ct (drop_stream i w) = sw_ct w"
  by (auto simp: drop_stream_def on_store_ok dom_map_of_conv_image_fst map_of_eq_None_iff split: option.splits
      intro!: delete_id[symmetric])

lemma drop_streams_effect:
  "manager_ok (sw_mgr w) \<Longrightarrow> manager_ok (sw_mgr (fold drop_stream vs w)) \<and>
   (distinct (map fst (sw_open w)) \<longrightarrow> distinct (map fst (sw_open (fold drop_stream vs w)))) \<and>
   fst ` set (sw_open (fold drop_stream vs w)) = fst ` set (sw_open w) - set vs"
proof (induction vs arbitrary: w)
  case (Cons v vs)
  have "fst ` set (AList.delete v (sw_open w)) = fst ` set (sw_open w) - {v}"
    using delete_keys[of v "sw_open w"] by (metis set_map set_removeAll)
  then show ?case using Cons.IH[of "drop_stream v w"] Cons.prems
    by (auto simp: drop_stream_effect distinct_delete)
qed simp

text \<open>
  Every open stream holds a slot of the tracker and every slot belongs to an open stream.
\<close>

definition world_ok :: "(string \<Rightarrow> did) \<Rightarrow> stream_world \<Rightarrow> bool" where
  "world_ok b w \<longleftrightarrow> manager_ok (sw_mgr w) \<and> tracker_ok b (sw_ct w) \<and> distinct (map fst (sw_open w)) \<and>
     dom (map_of (ct_conns (sw_ct w))) = fst ` set (sw_open w)"

lemma cleanup_ok:
  assumes "world_ok b w" shows "world_ok b (cleanup i w)"
proof (cases "map_of (sw_open w) i")
  case None
  then show ?thesis using assms by (simp add: cleanup_def)
next
  case (Some st)
  have "fst ` set (AList.delete i (sw_open w)) = fst ` set (sw_open w) - {i}"
    using delete_keys[of i "sw_open w"] by (metis set_map set_removeAll)
  then show ?thesis
    using assms Some removeRecord_ok[of b "sw_ct w" i] removeRecord_effect(1)[of b "sw_ct w" i]
    by (auto simp: world_ok_def cleanup_def release_conn_def drop_stream_effect distinct_delete)
qed

lemma startStream_ok:
  assumes w: "world_ok b w" and bd: "buyerDid = b r" and s: "startStream now r d buyerDid c w = (res, w')"
  shows "world_ok b w'"
proof -
  obtain a w1 where acq: "acquire_slot now r d (d = buyerDid) w = (a, w1)" by fastforce
  obtain ct' where ct: "acquire now r d (d = b r) (sw_ct w) = (a, ct')"
      and w1: "w1 = (fold drop_stream (drop (length (ct_closed (sw_ct w))) (ct_closed ct')) w)\<lparr>sw_ct := ct'\<rparr>"
    using acq bd by (auto simp: acquire_slot_def Let_def split: prod.splits)
  have tr: "tracker_ok b (sw_ct w)" "manager_ok (sw_mgr w)" using w by (auto simp: world_ok_def)
  have ct_ok: "tracker_ok b ct'" using acquire_ok[OF tr(1) ct] .
  consider "a = None" "ct' = sw_ct w"
    | i vs where "a = Some i" "map_of (ct_conns (sw_ct w)) i = None" "ct_closed ct' = ct_closed (sw_ct w) @ vs"
        "dom (map_of (ct_conns ct')) = insert i (dom (map_of (ct_conns (sw_ct w))) - set vs)"
    using acquire_effect[OF tr(1) ct] by blast
  then show ?thesis
  proof cases
    case 1
    then show ?thesis using s acq w1 w by (simp add: startStream_def)
  next
    case (2 i vs)
    have w1': "w1 = (fold drop_stream vs w)\<lparr>sw_ct := ct'\<rparr>" using w1 2(3) by simp
    have base: "manager_ok (sw_mgr w1)" "distinct (map fst (sw_open w1))" "fst ` set (sw_open w1) = fst ` set (sw_open w) - set vs"
      using drop_streams_effect[OF tr(2), of vs] w by (auto simp: w1' world_ok_def)
    have slots: "dom (map_of (ct_conns ct')) = insert i (fst ` set (sw_open w1))" "i \<notin> fst ` set (sw_open w1)"
    proof -
      have d: "dom (map_of (ct_conns (sw_ct w))) = fst ` set (sw_open w)" using w by (simp add: world_ok_def)
      then have "i \<notin> fst ` set (sw_open w)" using 2(2) by (metis domIff)
      then show "dom (map_of (ct_conns ct')) = insert i (fst ` set (sw_open w1))" "i \<notin> fst ` set (sw_open w1)"
        using 2(4) base(3) d by auto
    qed
    obtain sub st1 where sf: "subscribeFrom r d buyerDid c (sm_store (sw_mgr w1)) = (sub, st1)" by fastforce
    obtain t st2 where stm: "subscribeTerminal r st1 = (t, st2)" by fastforce
    let ?m1 = "(sw_mgr w1)\<lparr>sm_store := st2\<rparr>"
    have m1: "manager_ok ?m1" using base(1) subscriptions_fields[OF sf stm] by (simp add: manager_ok_store)
    obtain v m2 where g: "getSession now r ?m1 = (v, m2)" by fastforce
    have m2: "manager_ok m2" using manager_getSession(3)[OF m1 g] .
    obtain so where v: "v = Inr so" using sessions.get_total[OF m1, of now r] g by auto
    have rel: "tracker_ok b (release_conn i ct')" "dom (map_of (ct_conns (release_conn i ct'))) = fst ` set (sw_open w1)"
      using removeRecord_ok[OF ct_ok, of i] removeRecord_effect(1)[OF ct_ok, of i] slots by (auto simp: release_conn_def)
    let ?w2 = "w1\<lparr>sw_mgr := on_store (\<lambda>es. unsubscribe_terminal t (unsubscribe (sn_handle sub) es)) m2, sw_ct := release_conn i ct'\<rparr>"
    let ?w3 = "w1\<lparr>sw_mgr := on_store (activate (sn_handle sub)) m2, sw_open := sw_open w1 @ [(i, \<lparr>st_sub = sn_handle sub, st_term = t\<rparr>)]\<rparr>"
    have ct1: "sw_ct w1 = ct'" by (simp add: w1')
    have "w' = ?w2 \<or> w' = ?w3"
      using s unfolding startStream_def acq 2(1) prod.case option.case sf stm Let_def g v sum.case ct1
      by (auto split: option.splits if_splits)
    moreover have "world_ok b ?w2" using base(2) rel on_store_ok(1)[OF m2] by (simp add: world_ok_def)
    moreover have "world_ok b ?w3" using base(2) slots ct_ok ct1 on_store_ok(2)[OF m2] by (simp add: world_ok_def)
    ultimately show ?thesis by blast
  qed
qed

text \<open>A first stream of a session that is not over is opened and stays open.\<close>

lemma startStream_opens:
  assumes m: "manager_ok (sw_mgr w)" and w: "sw_ct w = new_tracker" "sw_open w = []"
    and s: "deriveState (events_in (sw_mgr w) r) = Inr (Some s)" "state s \<notin> set TERMINAL_STATES"
  shows "\<exists>i frames w'. startStream now r d bd c w = ((Some i, frames), w') \<and> length (sw_open w') = 1"
proof -
  obtain i ct' where a: "acquire now r d (d = bd) (sw_ct w) = (Some i, ct')" "ct_closed ct' = ct_closed (sw_ct w)"
  proof -
    have "countForDid r d new_tracker = 0" "countForSession r new_tracker = 0"
      by (simp_all add: countForDid_def countForSession_def session_ids_def new_tracker_def)
    moreover obtain i ct' where "add_conn now r d (d = bd) new_tracker = (i, ct')" by fastforce
    ultimately show ?thesis
      using that[of i ct'] w(1) add_conn_closed[of now r d "d = bd" new_tracker i ct']
      by (simp add: acquire_def MAX_PER_DID_def MAX_PER_SESSION_def)
  qed
  let ?w1 = "w\<lparr>sw_ct := ct'\<rparr>"
  have acq: "acquire_slot now r d (d = bd) w = (Some i, ?w1)" using a by (simp add: acquire_slot_def)
  obtain sub st1 where sf: "subscribeFrom r d bd c (sm_store (sw_mgr w)) = (sub, st1)" by fastforce
  obtain t st2 where stm: "subscribeTerminal r st1 = (t, st2)" by fastforce
  let ?m1 = "(sw_mgr w)\<lparr>sm_store := st2\<rparr>"
  have m1: "manager_ok ?m1" using m subscriptions_fields[OF sf stm] by (simp add: manager_ok_store)
  have "events_in ?m1 r = events_in (sw_mgr w) r"
    using getAllEvents_cong[OF subscriptions_fields(1)[OF sf stm]] by (simp add: events_in_def)
  then obtain m2 where g: "getSession now r ?m1 = (Inr (Some s), m2)"
    using sessions.get_value[OF m1, of now r] s(1) by (metis prod.collapse)
  show ?thesis using s(2) w(2) sf stm g by (simp add: startStream_def acq)
qed

lemma getEventsStream_opens:
  assumes "manager_ok m" "deriveState (events_in m r) = Inr (Some s)" "state s \<notin> set TERMINAL_STATES"
    "isParticipant d (buyer (rfq s)) (offers s)"
  shows "\<exists>i frames w'. getEventsStream now d r None None \<lparr>sw_mgr = m, sw_ct = new_tracker, sw_open = []\<rparr> = (Inr (Some i, frames), w') \<and>
     length (sw_open w') = 1"
proof -
  obtain v m' where g: "getSession now r m = (v, m')" by fastforce
  have v: "v = Inr (Some s)" using sessions.get_value[OF assms(1), of now r] g assms(2) by simp
  have m': "manager_ok m'" "events_in m' r = events_in m r"
    using manager_getSession[OF assms(1) g] by (simp_all add: events_in_def)
  have "events_session now d r m = (Inr s, m')" using g v assms(4) by (simp add: events_session_def)
  then show ?thesis
    using startStream_opens[of "\<lparr>sw_mgr = m', sw_ct = new_tracker, sw_open = []\<rparr>" r s now d "buyer (rfq s)" None] m' assms(2,3)
    by (auto simp: getEventsStream_def resolve_cursor_def)
qed

inductive stream_step :: "(string \<Rightarrow> did) \<Rightarrow> stream_world \<Rightarrow> stream_world \<Rightarrow> bool" for b where
  connect: "deriveState (events_in (sw_mgr w) r) = Inr (Some s) \<Longrightarrow> buyer (rfq s) = b r \<Longrightarrow>
     getEventsStream now d r lastId after w = (res, w') \<Longrightarrow> stream_step b w w'"
| disconnect: "stream_step b w (cleanup i w)"
| other: "manager_ok m \<Longrightarrow> stream_step b w (w\<lparr>sw_mgr := m\<rparr>)"

inductive stream_reach :: "(string \<Rightarrow> did) \<Rightarrow> stream_world \<Rightarrow> bool" for b where
  start: "manager_ok m \<Longrightarrow> stream_reach b \<lparr>sw_mgr = m, sw_ct = new_tracker, sw_open = []\<rparr>"
| step: "stream_reach b w \<Longrightarrow> stream_step b w w' \<Longrightarrow> stream_reach b w'"

lemma world_ok_manager: "world_ok b w \<Longrightarrow> manager_ok m \<Longrightarrow> world_ok b (w\<lparr>sw_mgr := m\<rparr>)"
  by (simp add: world_ok_def)

lemma stream_step_ok: "stream_step b w w' \<Longrightarrow> world_ok b w \<Longrightarrow> world_ok b w'"
proof (induction rule: stream_step.induct)
  case (connect w r s now d lastId after res w')
  obtain v m' where e: "events_session now d r (sw_mgr w) = (v, m')" by fastforce
  have m: "manager_ok (sw_mgr w)" using connect.prems by (simp add: world_ok_def)
  have m': "manager_ok m'"
  proof -
    obtain v1 m1 where "getSession now r (sw_mgr w) = (v1, m1)" by fastforce
    then show ?thesis using e manager_getSession(3)[OF m]
      by (auto simp: events_session_def split: sum.splits option.splits if_splits)
  qed
  note w1 = world_ok_manager[OF connect.prems m']
  show ?case
  proof (cases v)
    case (Inl x)
    then show ?thesis using connect.hyps(3) e w1 by (simp add: getEventsStream_def)
  next
    case (Inr s')
    then have "buyer (rfq s') = b r" using events_session_Inr(1)[OF m e[unfolded Inr]] connect.hyps(1,2) by simp
    then show ?thesis
      using connect.hyps(3) e Inr w1 startStream_ok[OF w1, of "buyer (rfq s')" r]
      by (auto simp: getEventsStream_def Let_def split: if_splits prod.splits)
  qed
qed (auto intro: cleanup_ok world_ok_manager)

lemma stream_reach_ok: "stream_reach b w \<Longrightarrow> world_ok b w"
proof (induction rule: stream_reach.induct)
  case (start m)
  then show ?case
    by (simp add: world_ok_def tracker_ok_def new_tracker_def session_ids_def countForDid_def MAX_PER_DID_def MAX_PER_SESSION_def)
qed (rule stream_step_ok)

section \<open>Listing\<close>

definition matching :: "rfq_query \<Rightarrow> manager \<Rightarrow> string list \<Rightarrow> rfq_summary list" where
  "matching q m rs = concat (map (\<lambda>r. case deriveState (events_in m r) of
     Inr (Some s) \<Rightarrow> if rfq_matches q s then [summary_of s] else [] | _ \<Rightarrow> []) rs)"

lemma collect_rfqs_spec:
  "manager_ok m \<Longrightarrow> \<exists>m'. collect_rfqs now q rs m = (Inr (matching q m rs), m') \<and> events_in m' = events_in m"
proof (induction rs arbitrary: m)
  case Nil
  then show ?case by (simp add: matching_def)
next
  case (Cons r rs)
  obtain v m1 where g: "getSession now r m = (v, m1)" by fastforce
  note G = manager_getSession[OF Cons.prems g]
  obtain so where v: "v = Inr so" using sessions.get_total[OF Cons.prems, of now r] g by auto
  obtain m2 where "collect_rfqs now q rs m1 = (Inr (matching q m1 rs), m2)" "events_in m2 = events_in m1"
    using Cons.IH[OF G(3)] by blast
  moreover have "matching q m1 rs = matching q m rs" using G(2) by (simp add: matching_def)
  ultimately show ?case using g v G(1,2) by (auto simp: matching_def split: option.splits)
qed

text \<open>What \<open>localeCompare\<close> guarantees: a total preorder.\<close>

definition collation :: "(string \<Rightarrow> string \<Rightarrow> rat) \<Rightarrow> bool" where
  "collation lc \<longleftrightarrow> (\<forall>a b. lc a b = - lc b a) \<and> (\<forall>a b c. lc a b \<le> 0 \<longrightarrow> lc b c \<le> 0 \<longrightarrow> lc a c \<le> 0)"

lemma collation_zero:
  assumes "collation lc" "lc a b = 0"
  shows "lc a c = 0 \<longleftrightarrow> lc b c = 0" "lc c a \<le> 0 \<longleftrightarrow> lc c b \<le> 0" "lc a c \<le> 0 \<longleftrightarrow> lc b c \<le> 0"
proof -
  have ba: "lc b a = 0" using assms unfolding collation_def by (metis add.inverse_neutral)
  have tr: "lc x y \<le> 0 \<Longrightarrow> lc y z \<le> 0 \<Longrightarrow> lc x z \<le> 0" for x y z using assms(1) unfolding collation_def by blast
  have anti: "lc x y = 0 \<longleftrightarrow> lc x y \<le> 0 \<and> lc y x \<le> 0" for x y
    using assms(1) unfolding collation_def by (metis neg_0_le_iff_le order_antisym order_refl add.inverse_neutral)
  show 1: "lc c a \<le> 0 \<longleftrightarrow> lc c b \<le> 0" "lc a c \<le> 0 \<longleftrightarrow> lc b c \<le> 0"
    using tr[of c a b] tr[of c b a] tr[of a b c] tr[of b a c] assms(2) ba by auto
  show "lc a c = 0 \<longleftrightarrow> lc b c = 0" using 1 anti by blast
qed

lemma summary_comparator:
  assumes "collation lc"
  shows "comparator_on (summary_cmp lc) UNIV (\<lambda>a b. summary_cmp lc a b \<le> 0)"
proof
  fix a b c :: rfq_summary
  let ?d = "\<lambda>a b. lc (rs_deadline a) (rs_deadline b)"
  have neg: "lc x y = - lc y x" for x y using assms unfolding collation_def by blast
  have tr: "lc x y \<le> 0 \<Longrightarrow> lc y z \<le> 0 \<Longrightarrow> lc x z \<le> 0" for x y z using assms unfolding collation_def by blast
  have "summary_cmp lc a b = - summary_cmp lc b a"
    using neg[of "rs_deadline a" "rs_deadline b"] neg[of "rs_rfq_id a" "rs_rfq_id b"] by (auto simp: summary_cmp_def Let_def)
  then show "summary_cmp lc a b \<le> 0 \<or> summary_cmp lc b a \<le> 0" by linarith
  assume ab: "summary_cmp lc a b \<le> 0" and bc: "summary_cmp lc b c \<le> 0"
  have le: "?d a b \<le> 0" "?d b c \<le> 0" using ab bc by (auto simp: summary_cmp_def Let_def split: if_splits)
  show "summary_cmp lc a c \<le> 0"
  proof (cases "?d a b = 0 \<and> ?d b c = 0")
    case True
    then show ?thesis
      using ab bc collation_zero(1)[OF assms, of "rs_deadline a" "rs_deadline b" "rs_deadline c"] tr[of "rs_rfq_id a" "rs_rfq_id b" "rs_rfq_id c"]
      by (simp add: summary_cmp_def)
  next
    case False
    have "?d a c \<noteq> 0"
    proof
      assume "?d a c = 0"
      then have "?d c b \<le> 0" "?d b a \<le> 0"
        using collation_zero(3)[OF assms, of "rs_deadline a" "rs_deadline c" "rs_deadline b"] le
          collation_zero(2)[OF assms, of "rs_deadline a" "rs_deadline c" "rs_deadline b"] by auto
      then show False using False le neg[of "rs_deadline a" "rs_deadline b"] neg[of "rs_deadline b" "rs_deadline c"] by linarith
    qed
    then show ?thesis using tr[OF le] by (simp add: summary_cmp_def Let_def)
  qed
qed simp

lemma getRfqs_Inr:
  assumes "manager_ok m" "getRfqs lc now ip q tbl m = (Inr pg, tbl', m')"
  shows "rp_rfqs pg = take (rp_limit pg) (drop (rp_offset pg) (js_sort (summary_cmp lc) (matching q m (getActiveSessionIds m))))"
    "rp_total pg = length (matching q m (getActiveSessionIds m))" "rp_limit pg \<le> MAX_LIMIT" "page_limit q = Inr (rp_limit pg)"
    "page_offset q = Inr (rp_offset pg)"
proof -
  obtain m2 where c: "collect_rfqs now q (getActiveSessionIds m) m = (Inr (matching q m (getActiveSessionIds m)), m2)"
    using collect_rfqs_spec[OF assms(1)] by blast
  show "rp_rfqs pg = take (rp_limit pg) (drop (rp_offset pg) (js_sort (summary_cmp lc) (matching q m (getActiveSessionIds m))))"
    "rp_total pg = length (matching q m (getActiveSessionIds m))" "page_limit q = Inr (rp_limit pg)" "page_offset q = Inr (rp_offset pg)"
    using assms(2) c by (auto simp: getRfqs_def Let_def split: prod.splits bool.splits if_splits sum.splits)
  then show "rp_limit pg \<le> MAX_LIMIT"
    by (auto simp: page_limit_def MAX_LIMIT_def DEFAULT_LIMIT_def split: option.splits if_splits)
qed

section \<open>Properties\<close>

text \<open>
  C24. Streams do not leak: at any time the slots taken in the connection tracker are exactly those
  of the streams that are open, so the limits on streams count open streams and nothing else,
  whatever the order of connects, disconnects, evictions and appends.
\<close>

theorem no_slot_leaks:
  assumes "stream_reach b w"
  shows "dom (map_of (ct_conns (sw_ct w))) = fst ` set (sw_open w) \<and>
     length (sw_open w) = length (ct_conns (sw_ct w)) \<and> countForSession r (sw_ct w) \<le> MAX_PER_SESSION"
proof -
  note ok = stream_reach_ok[OF assms, unfolded world_ok_def]
  have "card (fst ` set (sw_open w)) = length (sw_open w)" "card (fst ` set (ct_conns (sw_ct w))) = length (ct_conns (sw_ct w))"
    using ok okD(1)[of b "sw_ct w"] distinct_card by (metis length_map set_map)+
  then show ?thesis using ok okD(6)[of b "sw_ct w" r] by (simp add: countForSession_def dom_map_of_conv_image_fst)
qed

text \<open>
  The public list of RFQs is complete and paged: a page is the stretch the query asks for, at
  most 200 long, of the matching sessions sorted by deadline and then by id; none of them is over
  unless the query asks for it.
\<close>

theorem rfq_pages:
  assumes "manager_ok m" "collation lc" "getRfqs lc now ip q tbl m = (Inr pg, tbl', m')"
  shows "\<exists>all. mset all = mset (matching q m (getActiveSessionIds m)) \<and> sorted_wrt (\<lambda>a b. summary_cmp lc a b \<le> 0) all \<and>
     rp_rfqs pg = take (rp_limit pg) (drop (rp_offset pg) all) \<and> rp_total pg = length all \<and> length (rp_rfqs pg) \<le> 200 \<and>
     (rq_include_terminal q = None \<and> rq_state q = None \<longrightarrow> (\<forall>x \<in> set all. rs_state x \<notin> {COMMITTED, EXPIRED, CANCELLED}))"
proof -
  let ?all = "js_sort (summary_cmp lc) (matching q m (getActiveSessionIds m))"
  note R = getRfqs_Inr[OF assms(1,3)]
  have "rs_state x \<notin> {COMMITTED, EXPIRED, CANCELLED}"
    if "rq_include_terminal q = None \<and> rq_state q = None" "x \<in> set ?all" for x
    using that by (auto simp: matching_def rfq_matches_def TERMINAL_STATES_def summary_of_def split: sum.splits option.splits if_splits)
  then show ?thesis
    using R comparator_on.sort_sorted[OF summary_comparator[OF assms(2)], of "matching q m (getActiveSessionIds m)"]
    by (intro exI[of _ ?all]) (auto simp: MAX_LIMIT_def)
qed

definition sample_query :: rfq_query where
  "sample_query = \<lparr>rq_service_type = None, rq_state = None, rq_buyer = None, rq_include_terminal = None, rq_limit = None, rq_offset = None\<rparr>"

theorem rfq_pages_witness:
  "\<exists>pg tbl' m'. getRfqs (\<lambda>_ _. 0) 0 ''ip'' sample_query [] new_manager = (Inr pg, tbl', m') \<and> length (rp_rfqs pg) \<le> 200"
proof -
  have c: "collation (\<lambda>_ _. 0)" by (simp add: collation_def)
  obtain pg tbl' m' where g: "getRfqs (\<lambda>_ _. 0) 0 ''ip'' sample_query [] new_manager = (Inr pg, tbl', m')"
    by (simp add: getRfqs_def checkGetRfqsRateLimit_def sample_query_def page_limit_def page_offset_def Let_def
        getActiveSessionIds_def listSessionIds_def new_manager_def empty_store_def)
  from rfq_pages[OF manager_ok_start c g] g show ?thesis by blast
qed

end
