(* ===== verification/Client.thy ===== *)
theory Client
  imports Reads Commitment
begin

text \<open>
  \<^verbatim>\<open>packages/agents/src/engine-client.ts\<close>: what an agent sends to the engine and how it reads the
  engine's events. A request is the JSON body the client posts; the answer of the engine is an
  argument of the definitions that wait for one.
\<close>

section \<open>Events as the agents see them\<close>

record client_event =
  ce_id :: event_id
  ce_rfq :: string
  ce_type :: string
  ce_actor :: did
  ce_payload :: json
  ce_timestamp :: string

definition event_text :: "event_type \<Rightarrow> string" where
  "event_text t = (case t of RFQ_CREATED \<Rightarrow> ''RFQ_CREATED'' | OFFER_SUBMITTED \<Rightarrow> ''OFFER_SUBMITTED''
     | COUNTER_SENT \<Rightarrow> ''COUNTER_SENT'' | WINNER_SELECTED \<Rightarrow> ''WINNER_SELECTED'' | COMMIT_PENDING_EVENT \<Rightarrow> ''COMMIT_PENDING''
     | QUOTE_SIGNED \<Rightarrow> ''QUOTE_SIGNED'' | QUOTE_COMMITTED \<Rightarrow> ''QUOTE_COMMITTED'' | COSIGN_DECLINED \<Rightarrow> ''COSIGN_DECLINED''
     | COSIGN_TIMEOUT \<Rightarrow> ''COSIGN_TIMEOUT'' | NEGOTIATION_EXPIRED \<Rightarrow> ''NEGOTIATION_EXPIRED''
     | NEGOTIATION_CANCELLED \<Rightarrow> ''NEGOTIATION_CANCELLED'' | SETTLEMENT_CONFIRMED \<Rightarrow> ''SETTLEMENT_CONFIRMED'')"

definition EVENT_TYPE_MAP :: "(string \<times> string) list" where
  "EVENT_TYPE_MAP =
     [(''RFQ_CREATED'', ''rfq_created''), (''OFFER_SUBMITTED'', ''offer''), (''COUNTER_SENT'', ''counter''),
      (''WINNER_SELECTED'', ''quote_ready''), (''COMMIT_PENDING'', ''commit_pending''), (''QUOTE_SIGNED'', ''buyer_signed''),
      (''QUOTE_COMMITTED'', ''quote_committed''), (''COSIGN_DECLINED'', ''cosign_declined''), (''COSIGN_TIMEOUT'', ''cosign_timeout''),
      (''NEGOTIATION_EXPIRED'', ''expired''), (''NEGOTIATION_CANCELLED'', ''cancelled'')]"

definition to_lower :: "string \<Rightarrow> string" where
  "to_lower s = map (\<lambda>c. let n = of_char c :: nat in if 65 \<le> n \<and> n \<le> 90 then char_of (n + 32) else c) s"

definition normalizeEventType :: "string option \<Rightarrow> string" where
  "normalizeEventType t =
     (case t of None \<Rightarrow> ''unknown''
      | Some s \<Rightarrow> if s = [] then ''unknown'' else case map_of EVENT_TYPE_MAP s of Some n \<Rightarrow> n | None \<Rightarrow> to_lower s)"

text \<open>The engine sends \<open>type\<close> and no \<open>event_type\<close>.\<close>

definition normalizeEvent :: "negotiation_event \<Rightarrow> client_event" where
  "normalizeEvent e = \<lparr>ce_id = ev_id e, ce_rfq = ev_rfq e, ce_type = normalizeEventType (Some (event_text (ev_type e))),
     ce_actor = ev_actor e, ce_payload = JObj (ev_payload e), ce_timestamp = ev_time e\<rparr>"

definition client_getEvents :: "event_page \<Rightarrow> client_event list" where
  "client_getEvents pg = map normalizeEvent (pg_events pg)"

section \<open>Requests\<close>

text \<open>A key pair: the secret key and the public key.\<close>

type_synonym keypair = "bytes \<times> pubkey"

definition signed_object :: "platform \<Rightarrow> keypair \<Rightarrow> (string \<times> json) list \<Rightarrow> (string \<times> json) list" where
  "signed_object P k obj = spread_set obj ''signature'' (JStr (signEd25519 P (objectSigningPayload P obj) (fst k)))"

definition buildAuthHeader :: "platform \<Rightarrow> keypair \<Rightarrow> millis \<Rightarrow> string" where
  "buildAuthHeader P k now =
     (let did = buildDid P (snd k); timestamp = to_iso now;
          signature = signEd25519 P (objectSigningPayload P (auth_object did timestamp)) (fst k)
      in ''GhostBazaar-Ed25519 '' @ did @ '' '' @ timestamp @ '' '' @ signature)"

definition envelope_fields ::
  "string \<Rightarrow> string \<Rightarrow> string \<Rightarrow> string \<Rightarrow> (string \<times> json) list \<Rightarrow> millis \<Rightarrow> (string \<times> json) list" where
  "envelope_fields uuid action rfqId sessionRevision pl now =
     [(''envelope_id'', JStr uuid), (''action'', JStr action), (''rfq_id'', JStr rfqId),
      (''session_revision'', JStr sessionRevision), (''payload'', JObj pl),
      (''issued_at'', JStr (to_iso now)), (''expires_at'', JStr (to_iso (now + 60000))), (''signature'', JStr [])]"

definition client_accept ::
  "platform \<Rightarrow> keypair \<Rightarrow> string \<Rightarrow> millis \<Rightarrow> string \<Rightarrow> did \<Rightarrow> string \<Rightarrow> string \<Rightarrow> (string \<times> json) list" where
  "client_accept P k uuid now rfqId sellerId offerId sessionRevision =
     signed_object P k (envelope_fields uuid ''accept'' rfqId sessionRevision
       [(''seller'', JStr sellerId), (''offer_id'', JStr offerId)] now)"

definition client_decline ::
  "platform \<Rightarrow> keypair \<Rightarrow> string \<Rightarrow> millis \<Rightarrow> string \<Rightarrow> did \<Rightarrow> string \<Rightarrow> (string \<times> json) list" where
  "client_decline P k uuid now rfqId sellerDid sessionRevision =
     signed_object P k (envelope_fields uuid ''decline'' rfqId sessionRevision [(''seller'', JStr sellerDid)] now)"

definition client_createListing :: "platform \<Rightarrow> keypair \<Rightarrow> (string \<times> json) list \<Rightarrow> (string \<times> json) list" where
  "client_createListing P k listing = signed_object P k (spread_set listing ''signature'' (JStr []))"

section \<open>What the engine makes of them\<close>

text \<open>
  The libraries' laws for one key pair: the base58 and base64 codecs invert themselves and use
  their alphabets, and a signature of the secret key has 64 bytes and verifies under the public
  key.
\<close>

definition honest_key :: "platform \<Rightarrow> keypair \<Rightarrow> bool" where
  "honest_key P k \<longleftrightarrow>
     mk_pubkey P (snd k) = Some (snd k) \<and>
     bs58_decode P (bs58_encode P ([0xed, 0x01] @ snd k)) = Some ([0xed, 0x01] @ snd k) \<and>
     CHR '' '' \<notin> set (bs58_encode P ([0xed, 0x01] @ snd k)) \<and>
     (\<forall>msg. length (ed_sign P msg (take 32 (fst k))) = 64 \<and>
        b64_decode P (b64_encode P (ed_sign P msg (take 32 (fst k)))) = ed_sign P msg (take 32 (fst k)) \<and>
        base64_re (b64_encode P (ed_sign P msg (take 32 (fst k)))) \<and>
        ed_verify P (ed_sign P msg (take 32 (fst k))) msg (snd k))"

lemma honest_did: "honest_key P k \<Longrightarrow> didToPublicKey P (buildDid P (snd k)) = Some (snd k)"
  by (simp add: honest_key_def didToPublicKey_def buildDid_def DID_KEY_PREFIX_def starts_with_def)

lemma honest_signature:
  assumes "honest_key P k"
  shows "verifyEd25519 P msg (Some (JStr (signEd25519 P msg (fst k)))) (snd k) = Inr True"
    and "preCheckSignatureFormat P (Some (JStr (signEd25519 P msg (fst k)))) (Some (JStr (buildDid P (snd k)))) = Inr ()"
    and "signed_by P msg (signEd25519 P msg (fst k)) (buildDid P (snd k))"
  using assms honest_did[OF assms]
  by (auto simp: honest_key_def signEd25519_def starts_with_def preCheckSignatureFormat_def engineDidToPublicKey_def signed_by_def)

lemma base64_no_space: "base64_re s \<Longrightarrow> CHR '' '' \<notin> set s"
proof
  assume b: "base64_re s" and sp: "CHR '' '' \<in> set s"
  have "CHR '' '' \<in> set (takeWhile is_base64_char s) \<or> CHR '' '' \<in> set (dropWhile is_base64_char s)"
    using sp by (metis Un_iff set_append takeWhile_dropWhile_id)
  moreover have "set (dropWhile is_base64_char s) \<subseteq> {CHR ''=''}"
  proof -
    have "dropWhile is_base64_char s = [] \<or> dropWhile is_base64_char s = ''='' \<or> dropWhile is_base64_char s = ''==''"
      using b unfolding base64_re_def by blast
    then show ?thesis by (metis empty_subsetI insert_absorb2 list.set(1,2) order_refl)
  qed
  ultimately show False
    by (auto simp: is_base64_char_def is_digit_def dest: set_takeWhileD)
qed

lemma digit_no_space [simp]: "dg i n \<noteq> CHR '' ''"
  using is_digit_dg[of i n] by (auto simp: is_digit_def)

lemma iso_no_space: "0 \<le> year_from_day (t div ms_per_day) \<Longrightarrow> year_from_day (t div ms_per_day) \<le> 9999 \<Longrightarrow> CHR '' '' \<notin> set (to_iso t)"
  by (auto simp: to_iso_def Let_def iso_year_def pad2_def pad3_def pad4_def dest: sym[of "CHR '' ''"])

abbreviation in_years :: "millis \<Rightarrow> bool" where
  "in_years t \<equiv> 0 \<le> year_from_day (t div ms_per_day) \<and> year_from_day (t div ms_per_day) \<le> 9999"

text \<open>
  The client and the engine agree on authentication: the header a client builds is accepted as
  long as the two clocks differ by at most a minute, and identifies the client by its own DID.
\<close>

theorem client_header_accepted:
  assumes "honest_key P k" "in_years now" "\<bar>now' - now\<bar> \<le> 60000"
  shows "authenticateCaller P now' (Some (buildAuthHeader P k now)) = Inr (buildDid P (snd k))"
proof -
  let ?did = "buildDid P (snd k)" and ?ts = "to_iso now"
  let ?sig = "signEd25519 P (objectSigningPayload P (auth_object ?did ?ts)) (fst k)"
  have nosp: "CHR '' '' \<notin> set ?did" "CHR '' '' \<notin> set ?ts" "CHR '' '' \<notin> set ?sig"
    using assms(1,2) iso_no_space[of now] base64_no_space
    by (auto simp: buildDid_def honest_key_def signEd25519_def)
  have "split_on (CHR '' '') (?did @ '' '' @ ?ts @ '' '' @ ?sig) = [?did, ?ts, ?sig]"
    using split_on_append[OF nosp(1), of "?ts @ '' '' @ ?sig"] split_on_append[OF nosp(2), of ?sig] split_on_none[OF nosp(3)] by simp
  then have "split_on (CHR '' '') (drop (length AUTH_SCHEME) (buildAuthHeader P k now)) = [?did, ?ts, ?sig]"
    by (simp add: buildAuthHeader_def Let_def AUTH_SCHEME_def)
  moreover have "starts_with AUTH_SCHEME (buildAuthHeader P k now)" "buildAuthHeader P k now \<noteq> []"
    by (simp_all add: buildAuthHeader_def Let_def AUTH_SCHEME_def starts_with_def)
  ultimately show ?thesis
    using honest_did[OF assms(1)] honest_signature(1)[OF assms(1)] parse_date_to_iso[of now P] assms(2,3)
    by (simp add: authenticateCaller_def MAX_AUTH_DRIFT_MS_def del: verifyEd25519_string_True)
qed

text \<open>A platform on which these laws hold for a key, to evaluate on.\<close>

definition client_platform :: platform where
  "client_platform = demo_platform\<lparr>ed_sign := \<lambda>msg sk. sk @ replicate (64 - length sk) 65\<rparr>"

definition client_key :: keypair where
  "client_key = (latin1 ''6MkB'', latin1 ''6MkB'')"

lemma key_chars: "char_of (54 :: nat) = CHR ''6''" "char_of (77 :: nat) = CHR ''M''" "char_of (107 :: nat) = CHR ''k''"
    "char_of (66 :: nat) = CHR ''B''" "char_of (65 :: nat) = CHR ''A''"
  by (simp_all add: char_of_def bit_0)

lemma epoch_year: "year_from_day 0 = 1970"
  by (simp add: year_from_day_def) (subst year_search.simps, simp add: day_from_year_def)

lemma client_key_honest: "honest_key client_platform client_key"
proof -
  have "base64_re (''6MkB'' @ replicate n (CHR ''A''))" for n
    by (simp add: base64_re_def is_base64_char_def is_digit_def Let_def)
  from this[of 60] show ?thesis
    by (simp add: honest_key_def client_platform_def client_key_def demo_platform_def latin1_def comp_def key_chars)
qed

theorem client_header_accepted_witness:
  "authenticateCaller client_platform 1000 (Some (buildAuthHeader client_platform client_key 0)) = Inr (buildDid client_platform (latin1 ''6MkB''))"
proof -
  have "in_years 0" by (simp add: epoch_year)
  from client_header_accepted[OF client_key_honest this, of 1000] show ?thesis by (simp add: client_key_def)
qed

text \<open>
  The client and the engine agree on control envelopes: the envelope a client signs to accept an
  offer or to decline a quote passes the engine's checks for its DID during the next minute, unless
  the engine has already used its id.
\<close>

theorem client_envelope_accepted:
  assumes "honest_key P k" "in_years now" "in_years (now + 60000)" "now \<le> now'" "now' < now + 60000"
    "uuid \<noteq> []" "rv \<noteq> []" "\<not> isUsed uuid tb"
  shows "\<exists>v w. checkEnvelope P now' (JObj (client_accept P k uuid now rfqId s offerId rv)) ''accept'' rfqId (buildDid P (snd k)) tb code = Inr v \<and>
       env_revision v = rv \<and> env_payload v = [(''seller'', JStr s), (''offer_id'', JStr offerId)] \<and>
     checkEnvelope P now' (JObj (client_decline P k uuid now rfqId s rv)) ''decline'' rfqId (buildDid P (snd k)) tb code = Inr w \<and>
       env_revision w = rv \<and> env_payload w = [(''seller'', JStr s)]"
proof -
  have one: "checkEnvelope P now' (JObj (signed_object P k (envelope_fields uuid a rfqId rv pl now))) a rfqId (buildDid P (snd k)) tb code =
      Inr \<lparr>env_id = uuid, env_action = a, env_rfq = rfqId, env_revision = rv, env_payload = pl, env_issued = to_iso now,
        env_expires = to_iso (now + 60000), env_signature = signEd25519 P (objectSigningPayload P (envelope_fields uuid a rfqId rv pl now)) (fst k)\<rparr>"
    (is "_ = Inr ?v") for a pl
  proof -
    let ?sig = "signEd25519 P (objectSigningPayload P (envelope_fields uuid a rfqId rv pl now)) (fst k)"
    have obj: "signed_object P k (envelope_fields uuid a rfqId rv pl now) = envelope_object ?v"
      by (simp add: signed_object_def envelope_fields_def envelope_object_def spread_set_def)
    have parse: "parse_envelope (JObj (envelope_object ?v)) a rfqId = Inr ?v"
      using assms(6,7) by (simp add: parse_envelope_def envelope_object_def)
    have times: "check_times P now' ?v = Inr ()"
      using parse_date_to_iso[of now P] parse_date_to_iso[of "now + 60000" P] assms(2-5)
      by (simp add: check_times_def MAX_ISSUED_AGE_MS_def)
    have pay: "objectSigningPayload P (envelope_object ?v) = objectSigningPayload P (envelope_fields uuid a rfqId rv pl now)"
      unfolding obj[symmetric] signed_object_def by (simp add: objectSigningPayload_def)
    have "verifySignature P (envelope_object ?v) ?sig (buildDid P (snd k)) code = Inr ()"
      unfolding verifySignature_ok pay by (rule honest_signature(3)[OF assms(1)])
    then show ?thesis
      unfolding obj checkEnvelope_def parse using times assms(8) honest_signature(2)[OF assms(1)] by simp
  qed
  show ?thesis unfolding client_accept_def client_decline_def one by simp
qed

theorem client_envelope_accepted_witness:
  "\<exists>v. checkEnvelope client_platform 5 (JObj (client_accept client_platform client_key ''u'' 0 ''r'' ''s'' ''o'' ''e'')) ''accept'' ''r''
     (buildDid client_platform (snd client_key)) no_tombstones ''c'' = Inr v \<and> env_revision v = ''e''"
proof -
  have y: "in_years 0" "in_years (0 + 60000)" by (simp_all add: epoch_year)
  show ?thesis
    using client_envelope_accepted[OF client_key_honest y, of 5 "''u''" "''e''" no_tombstones "''r''" "''s''" "''o''" "''c''"]
    by (auto simp: isUsed_def no_tombstones_def)
qed

end
