(* ===== verification/Strategy.thy ===== *)
theory Strategy
  imports Decimals
begin

text \<open>
  \<^verbatim>\<open>packages/strategy/src\<close>: the negotiation strategies of buyers and sellers, the ranking of offers
  and the sanitizer that every action passes before it leaves an agent. The reply of the
  language model is an argument of the strategies that ask one; the text of the prompts is not
  modelled.
\<close>

section \<open>Interfaces\<close>

record buyer_private =
  budget_soft :: num_val
  budget_hard :: num_val

record seller_private =
  floor_price :: num_val
  target_price :: num_val

record seller_offer =
  so_offer_id :: string
  so_seller :: did
  so_listing_id :: string
  so_price :: string

record seller_signal =
  ss_agentId :: "string option"
  reputationScore :: "rat option"
  totalFeedbacks :: rat

text \<open>Of the RFQ the strategies read the anchor price, of the history nothing.\<close>

record buyer_ctx =
  bc_anchor_price :: string
  bc_private :: buyer_private
  current_offers :: "seller_offer list"
  seller_registry :: "(did \<times> seller_signal) list"
  bc_round :: nat
  bc_time_remaining_ms :: num_val

record seller_ctx =
  sc_private :: seller_private
  latest_counter :: "json option"
  sc_round :: nat
  competing_sellers :: nat

datatype buyer_action = B_Counter did num_val | B_Accept did | B_Wait | B_Cancel

datatype seller_action = S_Respond num_val | S_Counter num_val | S_Hold | S_Decline

section \<open>Sanitizer\<close>

definition MIN_PRICE :: num_val where
  "MIN_PRICE = Fin (1 / 10 ^ 6)"

fun sanitizeBuyerAction :: "buyer_action \<Rightarrow> buyer_private \<Rightarrow> buyer_action" where
  "sanitizeBuyerAction (B_Counter s p) priv = B_Counter s (n_max (n_min p (budget_hard priv)) MIN_PRICE)"
| "sanitizeBuyerAction a priv = a"

fun sanitizeSellerAction :: "seller_action \<Rightarrow> seller_private \<Rightarrow> seller_action" where
  "sanitizeSellerAction (S_Respond p) priv = S_Respond (n_max p (floor_price priv))"
| "sanitizeSellerAction (S_Counter p) priv = S_Counter (n_max p (floor_price priv))"
| "sanitizeSellerAction a priv = a"

section \<open>Ranking of offers\<close>

definition decimal_error :: js_error where
  "decimal_error = JsError ''[DecimalError] Invalid argument''"

text \<open>\<open>new Decimal(offer.price)\<close>.\<close>

definition price_of :: "arith \<Rightarrow> string \<Rightarrow> num_val res" where
  "price_of A s = (case dec_of A (JStr s) of None \<Rightarrow> Inl decimal_error | Some v \<Rightarrow> Inr v)"

definition offer_price :: "arith \<Rightarrow> seller_offer \<Rightarrow> num_val" where
  "offer_price A off = (case price_of A (so_price off) of Inr v \<Rightarrow> v | Inl _ \<Rightarrow> NaN)"

definition price_cmp :: "arith \<Rightarrow> seller_offer \<Rightarrow> seller_offer \<Rightarrow> rat" where
  "price_cmp A a b = n_cmp A (offer_price A a) (offer_price A b)"

text \<open>
  The comparator throws on a price that is not a number; with two offers or more it meets every
  one of them.
\<close>

definition sort_by_price :: "arith \<Rightarrow> seller_offer list \<Rightarrow> seller_offer list res" where
  "sort_by_price A offs =
     (if length offs \<le> 1 \<or> list_all (\<lambda>off. is_ok (price_of A (so_price off))) offs
      then Inr (js_sort (price_cmp A) offs) else Inl decimal_error)"

definition NEAR_TIE_THRESHOLD :: num_val where
  "NEAR_TIE_THRESHOLD = Fin 1"

definition signal_score :: "(did \<times> seller_signal) list \<Rightarrow> did \<Rightarrow> rat" where
  "signal_score reg s = (case Option.bind (map_of reg s) reputationScore of None \<Rightarrow> -1 | Some x \<Rightarrow> x)"

definition signal_feedbacks :: "(did \<times> seller_signal) list \<Rightarrow> did \<Rightarrow> rat" where
  "signal_feedbacks reg s = (case map_of reg s of None \<Rightarrow> -1 | Some g \<Rightarrow> totalFeedbacks g)"

definition compareSignals :: "did \<Rightarrow> did \<Rightarrow> (did \<times> seller_signal) list \<Rightarrow> rat" where
  "compareSignals a b reg =
     (if signal_score reg a \<noteq> signal_score reg b then signal_score reg b - signal_score reg a
      else signal_feedbacks reg b - signal_feedbacks reg a)"

definition best_cmp :: "arith \<Rightarrow> (did \<times> seller_signal) list \<Rightarrow> seller_offer \<Rightarrow> seller_offer \<Rightarrow> rat" where
  "best_cmp A reg a b =
     (let c = compareSignals (so_seller a) (so_seller b) reg in if c \<noteq> 0 then c else price_cmp A a b)"

definition near_tie :: "arith \<Rightarrow> num_val \<Rightarrow> seller_offer \<Rightarrow> bool" where
  "near_tie A best off \<longleftrightarrow> n_le (n_sub (dec_round A) (offer_price A off) best) NEAR_TIE_THRESHOLD"

definition selectBestBuyerOffer :: "arith \<Rightarrow> seller_offer list \<Rightarrow> (did \<times> seller_signal) list \<Rightarrow> seller_offer res" where
  "selectBestBuyerOffer A offs reg =
     rbind (sort_by_price A offs) (\<lambda>sorted.
       case sorted of
         [] \<Rightarrow> Inl TypeError
       | best # _ \<Rightarrow>
           rbind (price_of A (so_price best)) (\<lambda>bestPrice.
             let nearTies = filter (near_tie A bestPrice) sorted in
             if length nearTies \<le> 1 then Inr best
             else Inr (hd (js_sort (best_cmp A reg) nearTies))))"

text \<open>The value is \<open>undefined\<close> when there is no offer.\<close>

definition selectLowestPricedBuyerOffer :: "arith \<Rightarrow> seller_offer list \<Rightarrow> seller_offer option res" where
  "selectLowestPricedBuyerOffer A offs =
     rbind (sort_by_price A offs) (\<lambda>sorted. Inr (case sorted of [] \<Rightarrow> None | x # _ \<Rightarrow> Some x))"

section \<open>Buyers\<close>

text \<open>
  Configurations. \<open>maxRounds\<close> and \<open>assumedRoundDurationMs\<close> are whole numbers; ratios and factors are
  the decimals that print them.
\<close>

record linear_config =
  lc_anchorRatio :: rat
  lc_maxRounds :: nat

record time_config =
  tc_anchorRatio :: rat
  tc_maxRounds :: nat
  assumedRoundDurationMs :: nat

record competitive_config =
  cc_anchorRatio :: rat
  cc_maxRounds :: nat
  highCompThreshold :: nat
  medCompThreshold :: nat
  highCompFactor :: rat
  medCompFactor :: rat
  noCompFactor :: rat

definition LinearConcessionBuyer :: linear_config where
  "LinearConcessionBuyer = \<lparr>lc_anchorRatio = 8/10, lc_maxRounds = 5\<rparr>"

definition TimeWeightedBuyer :: time_config where
  "TimeWeightedBuyer = \<lparr>tc_anchorRatio = 75/100, tc_maxRounds = 5, assumedRoundDurationMs = 1000\<rparr>"

definition CompetitiveBuyer :: competitive_config where
  "CompetitiveBuyer = \<lparr>cc_anchorRatio = 7/10, cc_maxRounds = 5, highCompThreshold = 3, medCompThreshold = 2,
     highCompFactor = 5/10, medCompFactor = 75/100, noCompFactor = 1\<rparr>"

definition openingAnchor :: "arith \<Rightarrow> rat \<Rightarrow> buyer_private \<Rightarrow> num_val" where
  "openingAnchor A anchorRatio priv = n_mul (dec_round A) (budget_soft priv) (Fin anchorRatio)"

text \<open>
  What the three strategies share: wait without offers, accept the cheapest one within the soft
  budget, otherwise counter the best one at a price of their own.
\<close>

definition accept_or_counter :: "arith \<Rightarrow> (num_val \<Rightarrow> num_val) \<Rightarrow> buyer_ctx \<Rightarrow> buyer_action res" where
  "accept_or_counter A newPrice ctx =
     (if current_offers ctx = [] then Inr B_Wait
      else rbind (selectLowestPricedBuyerOffer A (current_offers ctx)) (\<lambda>low.
        case low of
          None \<Rightarrow> Inl TypeError
        | Some cheapest \<Rightarrow>
            rbind (price_of A (so_price cheapest)) (\<lambda>cheapestPrice.
              if n_le cheapestPrice (budget_soft (bc_private ctx)) then Inr (B_Accept (so_seller cheapest))
              else rbind (selectBestBuyerOffer A (current_offers ctx) (seller_registry ctx)) (\<lambda>best.
                rbind (price_of A (bc_anchor_price ctx)) (\<lambda>anchor.
                  Inr (B_Counter (so_seller best) (n_min (newPrice anchor) (budget_hard (bc_private ctx)))))))))"

definition linear_price :: "arith \<Rightarrow> linear_config \<Rightarrow> buyer_ctx \<Rightarrow> num_val \<Rightarrow> num_val" where
  "linear_price A cf ctx anchor =
     (let r = dec_round A;
          maxConcession = n_sub r (budget_soft (bc_private ctx)) anchor;
          step = n_div r maxConcession (Fin (of_nat (lc_maxRounds cf)))
      in n_add r anchor (n_mul r step (Fin (of_nat (bc_round ctx)))))"

definition linear_onOffersReceived :: "arith \<Rightarrow> linear_config \<Rightarrow> buyer_ctx \<Rightarrow> buyer_action res" where
  "linear_onOffersReceived A cf ctx = accept_or_counter A (linear_price A cf ctx) ctx"

text \<open>The urgency is computed in doubles.\<close>

definition urgency :: "arith \<Rightarrow> time_config \<Rightarrow> buyer_ctx \<Rightarrow> num_val" where
  "urgency A cf ctx =
     (let d = js_double A; left = bc_time_remaining_ms ctx; rounds = Fin (of_nat (bc_round ctx));
          spent = n_mul d rounds (Fin (of_nat (assumedRoundDurationMs cf)))
      in n_min (Fin 1)
           (n_add d (n_div d rounds (Fin (of_nat (tc_maxRounds cf))))
              (n_sub d (Fin 1) (n_div d left (n_max (n_add d left spent) (Fin 1))))))"

definition time_price :: "arith \<Rightarrow> time_config \<Rightarrow> buyer_ctx \<Rightarrow> num_val \<Rightarrow> num_val" where
  "time_price A cf ctx anchor =
     (let r = dec_round A; range = n_sub r (budget_hard (bc_private ctx)) anchor
      in n_add r anchor (n_mul r range (n_decimal A (urgency A cf ctx))))"

definition time_onOffersReceived :: "arith \<Rightarrow> time_config \<Rightarrow> buyer_ctx \<Rightarrow> buyer_action res" where
  "time_onOffersReceived A cf ctx = accept_or_counter A (time_price A cf ctx) ctx"

definition competitionFactor :: "competitive_config \<Rightarrow> nat \<Rightarrow> rat" where
  "competitionFactor cf n =
     (if n \<ge> highCompThreshold cf then highCompFactor cf
      else if n \<ge> medCompThreshold cf then medCompFactor cf else noCompFactor cf)"

definition competitive_price :: "arith \<Rightarrow> competitive_config \<Rightarrow> buyer_ctx \<Rightarrow> num_val \<Rightarrow> num_val" where
  "competitive_price A cf ctx anchor =
     (let r = dec_round A;
          baseStep = n_div r (n_sub r (budget_soft (bc_private ctx)) anchor) (Fin (of_nat (cc_maxRounds cf)));
          step = n_mul r baseStep (Fin (competitionFactor cf (length (current_offers ctx))))
      in n_add r anchor (n_mul r step (Fin (of_nat (bc_round ctx)))))"

definition competitive_onOffersReceived :: "arith \<Rightarrow> competitive_config \<Rightarrow> buyer_ctx \<Rightarrow> buyer_action res" where
  "competitive_onOffersReceived A cf ctx = accept_or_counter A (competitive_price A cf ctx) ctx"

section \<open>Sellers\<close>

record competitive_seller_config =
  cs_maxRounds :: nat
  competitionThreshold :: nat
  lowCompMultiplier :: rat
  highCompMultiplier :: rat

definition CompetitiveSeller :: competitive_seller_config where
  "CompetitiveSeller = \<lparr>cs_maxRounds = 5, competitionThreshold = 2, lowCompMultiplier = 5/10, highCompMultiplier = 15/10\<rparr>"

text \<open>\<open>FirmSeller\<close> and \<open>FlexibleSeller\<close> differ in the default of their concession rate.\<close>

definition FirmSeller :: rat where
  "FirmSeller = 5/100"

definition FlexibleSeller :: rat where
  "FlexibleSeller = 25/100"

definition onRfqReceived :: "seller_ctx \<Rightarrow> seller_action" where
  "onRfqReceived ctx = S_Respond (target_price (sc_private ctx))"

definition concede :: "arith \<Rightarrow> num_val \<Rightarrow> seller_ctx \<Rightarrow> seller_action" where
  "concede A step ctx =
     (let r = dec_round A; priv = sc_private ctx;
          newPrice = n_sub r (target_price priv) (n_mul r step (Fin (of_nat (sc_round ctx))))
      in if n_le newPrice (floor_price priv) then S_Counter (floor_price priv) else S_Counter newPrice)"

definition rate_onCounterReceived :: "arith \<Rightarrow> rat \<Rightarrow> seller_ctx \<Rightarrow> seller_action" where
  "rate_onCounterReceived A concessionRate ctx =
     (if falsy (latest_counter ctx) then S_Hold
      else let r = dec_round A; priv = sc_private ctx; range = n_sub r (target_price priv) (floor_price priv)
           in concede A (n_mul r range (Fin concessionRate)) ctx)"

definition competitive_onCounterReceived :: "arith \<Rightarrow> competitive_seller_config \<Rightarrow> seller_ctx \<Rightarrow> seller_action" where
  "competitive_onCounterReceived A cf ctx =
     (if falsy (latest_counter ctx) then S_Hold
      else let r = dec_round A; priv = sc_private ctx;
               maxConcession = n_sub r (target_price priv) (floor_price priv);
               baseStep = n_div r maxConcession (Fin (of_nat (cs_maxRounds cf)));
               multiplier = (if competing_sellers ctx \<ge> competitionThreshold cf then highCompMultiplier cf else lowCompMultiplier cf)
           in concede A (n_mul r baseStep (Fin multiplier)) ctx)"

section \<open>Language models\<close>

definition MAX_SANITIZED_INPUT_LENGTH :: nat where "MAX_SANITIZED_INPUT_LENGTH = 200"

text \<open>What strangers' text goes through on its way into a prompt: one line of bounded length.\<close>

definition sanitizeInput :: "string \<Rightarrow> string" where
  "sanitizeInput s = take MAX_SANITIZED_INPUT_LENGTH (map (\<lambda>c. if c = CHR 0x0A \<or> c = CHR 0x0D then CHR '' '' else c) s)"

lemma sanitizeInput_safe: "length (sanitizeInput s) \<le> 200" "CHR 0x0A \<notin> set (sanitizeInput s)" "CHR 0x0D \<notin> set (sanitizeInput s)"
  by (auto simp: sanitizeInput_def MAX_SANITIZED_INPUT_LENGTH_def dest!: in_set_takeD)

text \<open>
  \<open>text.match(/\{[^}]+\}/)\<close>: from the leftmost brace that is followed by at least one character
  other than a closing brace and then by a closing one.
\<close>

fun brace_match :: "string \<Rightarrow> string option" where
  "brace_match [] = None"
| "brace_match (c # cs) =
     (let body = takeWhile (\<lambda>d. d \<noteq> CHR 0x7D) cs; rest = dropWhile (\<lambda>d. d \<noteq> CHR 0x7D) cs in
      if c = CHR 0x7B \<and> body \<noteq> [] \<and> rest \<noteq> [] then Some (c # body @ [CHR 0x7D]) else brace_match cs)"

text \<open>
  \<open>parse\<close> stands for \<open>JSON.parse\<close>, \<open>None\<close> where it throws; a reply without an object in it, or whose
  object does not parse either, gives \<open>None\<close>.
\<close>

definition parse_reply :: "(string \<Rightarrow> json option) \<Rightarrow> string \<Rightarrow> json option" where
  "parse_reply parse txt =
     (case parse txt of Some v \<Rightarrow> Some v | None \<Rightarrow> Option.bind (brace_match txt) parse)"

definition llm_buyer_parseResponse :: "arith \<Rightarrow> (string \<Rightarrow> json option) \<Rightarrow> string \<Rightarrow> buyer_ctx \<Rightarrow> buyer_action" where
  "llm_buyer_parseResponse A parse txt ctx =
     (case parse_reply parse txt of
        None \<Rightarrow> B_Wait
      | Some parsed \<Rightarrow>
          let validSellers = map so_seller (current_offers ctx);
              act = as_string (jget parsed ''action'');
              known = (case as_string (jget parsed ''seller'') of
                         Some s \<Rightarrow> if s \<noteq> [] \<and> s \<in> set validSellers then Some s else None
                       | None \<Rightarrow> None)
          in if act = Some ''accept'' then (case known of Some s \<Rightarrow> B_Accept s | None \<Rightarrow> B_Wait)
             else if act = Some ''counter'' then
               (case (known, jget parsed ''price'') of
                  (Some s, Some p) \<Rightarrow>
                    if falsy (Some p) then B_Wait
                    else (case dec_of A p of Some v \<Rightarrow> B_Counter s v | None \<Rightarrow> B_Wait)
                | _ \<Rightarrow> B_Wait)
             else if act = Some ''cancel'' then B_Cancel
             else B_Wait)"

text \<open>
  When the request to the model fails, the buyer falls back to the lowest price, later offers
  winning ties. \<open>NaN\<close> compares as \<open>False\<close>.
\<close>

definition n_lt :: "num_val \<Rightarrow> num_val \<Rightarrow> bool" where
  "n_lt a b \<longleftrightarrow> a \<noteq> NaN \<and> b \<noteq> NaN \<and> \<not> n_le b a"

definition llm_fallback_offer :: "arith \<Rightarrow> seller_offer list \<Rightarrow> seller_offer" where
  "llm_fallback_offer A offs =
     foldl (\<lambda>a b. if n_lt (offer_price A a) (offer_price A b) then a else b) (hd offs) (tl offs)"

definition llm_buyer_onOffersReceived ::
    "arith \<Rightarrow> (string \<Rightarrow> json option) \<Rightarrow> string option \<Rightarrow> buyer_ctx \<Rightarrow> buyer_action res" where
  "llm_buyer_onOffersReceived A parse reply ctx =
     (let offs = current_offers ctx in
      if offs = [] then Inr B_Wait
      else case reply of
        Some txt \<Rightarrow> Inr (llm_buyer_parseResponse A parse txt ctx)
      | None \<Rightarrow>
          if length offs > 1 \<and> \<not> list_all (\<lambda>off. is_ok (price_of A (so_price off))) offs then Inl decimal_error
          else let best = llm_fallback_offer A offs in
            rbind (price_of A (so_price best)) (\<lambda>p.
              Inr (if n_le p (budget_soft (bc_private ctx)) then B_Accept (so_seller best) else B_Wait)))"

definition llm_seller_parseResponse :: "arith \<Rightarrow> (string \<Rightarrow> json option) \<Rightarrow> string \<Rightarrow> seller_action" where
  "llm_seller_parseResponse A parse txt =
     (case parse_reply parse txt of
        None \<Rightarrow> S_Hold
      | Some parsed \<Rightarrow>
          let act = as_string (jget parsed ''action'');
              price = (case jget parsed ''price'' of
                         Some p \<Rightarrow> if falsy (Some p) then None else dec_of A p
                       | None \<Rightarrow> None)
          in if act = Some ''respond'' then (case price of Some v \<Rightarrow> S_Respond v | None \<Rightarrow> S_Hold)
             else if act = Some ''counter'' then (case price of Some v \<Rightarrow> S_Counter v | None \<Rightarrow> S_Hold)
             else if act = Some ''decline'' then S_Decline
             else S_Hold)"

definition llm_seller_askLLM ::
    "arith \<Rightarrow> (string \<Rightarrow> json option) \<Rightarrow> string option \<Rightarrow> seller_ctx \<Rightarrow> bool \<Rightarrow> seller_action" where
  "llm_seller_askLLM A parse reply ctx new_rfq =
     (case reply of
        Some txt \<Rightarrow> llm_seller_parseResponse A parse txt
      | None \<Rightarrow> if new_rfq then S_Respond (target_price (sc_private ctx)) else S_Hold)"

definition llm_seller_onCounterReceived ::
    "arith \<Rightarrow> (string \<Rightarrow> json option) \<Rightarrow> string option \<Rightarrow> seller_ctx \<Rightarrow> seller_action" where
  "llm_seller_onCounterReceived A parse reply ctx =
     (if falsy (latest_counter ctx) then S_Hold else llm_seller_askLLM A parse reply ctx False)"

section \<open>Ranking\<close>

text \<open>
  Offers whose prices are finite and distinguishable; those the engine relays are, since it
  admits only positive decimal amounts.
\<close>

definition comparable :: "arith \<Rightarrow> seller_offer list \<Rightarrow> bool" where
  "comparable A offs \<longleftrightarrow>
     (\<forall>a \<in> set offs. \<exists>x. price_of A (so_price a) = Inr (Fin x)) \<and>
     (\<forall>a \<in> set offs. \<forall>b \<in> set offs. \<forall>x y. offer_price A a = Fin x \<longrightarrow> offer_price A b = Fin y \<longrightarrow> apart x y)"

definition offer_le :: "arith \<Rightarrow> seller_offer \<Rightarrow> seller_offer \<Rightarrow> bool" where
  "offer_le A a b \<longleftrightarrow> n_le (offer_price A a) (offer_price A b)"

lemma comparable_price:
  assumes "comparable A offs" "a \<in> set offs"
  obtains x where "price_of A (so_price a) = Inr (Fin x)" "offer_price A a = Fin x"
  using assms by (fastforce simp: comparable_def offer_price_def)

lemma price_comparator:
  assumes "arith_ok A" "comparable A offs"
  shows "comparator_on (price_cmp A) (set offs) (offer_le A)"
proof
  fix a b c assume ab: "a \<in> set offs" "b \<in> set offs"
  obtain x y where xy: "offer_price A a = Fin x" "offer_price A b = Fin y"
    using comparable_price[OF assms(2)] ab by metis
  then have "apart x y" using assms(2) ab by (simp add: comparable_def)
  then show "price_cmp A a b \<le> 0 \<longleftrightarrow> offer_le A a b"
    using n_cmp_Fin[OF assms(1)] xy by (simp add: price_cmp_def offer_le_def)
  show "offer_le A a b \<or> offer_le A b a" using xy by (auto simp: offer_le_def)
  assume "c \<in> set offs" "offer_le A a b" "offer_le A b c"
  moreover obtain z where "offer_price A c = Fin z" using comparable_price[OF assms(2)] \<open>c \<in> set offs\<close> by metis
  ultimately show "offer_le A a c" using xy by (auto simp: offer_le_def)
qed

text \<open>A seller ranks before another by reputation first and then by the number of feedbacks.\<close>

definition ranks_before :: "(did \<times> seller_signal) list \<Rightarrow> did \<Rightarrow> did \<Rightarrow> bool" where
  "ranks_before reg a b \<longleftrightarrow> signal_score reg b < signal_score reg a \<or>
     (signal_score reg b = signal_score reg a \<and> signal_feedbacks reg b \<le> signal_feedbacks reg a)"

interpretation signals: comparator_on "\<lambda>a b. compareSignals a b reg" UNIV "ranks_before reg" for reg
  by unfold_locales (auto simp: compareSignals_def ranks_before_def)

text \<open>The comparator of near ties: signals first, prices between equals.\<close>

definition better :: "arith \<Rightarrow> (did \<times> seller_signal) list \<Rightarrow> seller_offer \<Rightarrow> seller_offer \<Rightarrow> bool" where
  "better A reg a b \<longleftrightarrow> ranks_before reg (so_seller a) (so_seller b) \<and>
     (ranks_before reg (so_seller b) (so_seller a) \<longrightarrow> offer_le A a b)"

lemma compareSignals_zero:
  "compareSignals a b reg = 0 \<longleftrightarrow> ranks_before reg a b \<and> ranks_before reg b a"
  by (auto simp: compareSignals_def ranks_before_def)

lemma best_comparator:
  assumes "arith_ok A" "comparable A offs"
  shows "comparator_on (best_cmp A reg) (set offs) (better A reg)"
proof
  note p = price_comparator[OF assms]
  let ?r = "\<lambda>a b. ranks_before reg (so_seller a) (so_seller b)"
  fix a b c assume ab: "a \<in> set offs" "b \<in> set offs"
  show "best_cmp A reg a b \<le> 0 \<longleftrightarrow> better A reg a b"
  proof (cases "?r a b \<and> ?r b a")
    case True
    then show ?thesis using comparator_on.cmp_le[OF p ab] by (simp add: best_cmp_def better_def compareSignals_zero)
  next
    case False
    then have "best_cmp A reg a b \<le> 0 \<longleftrightarrow> ?r a b"
      using signals.cmp_le[of "so_seller a" "so_seller b" reg] compareSignals_zero[of "so_seller a" "so_seller b" reg]
      by (simp add: best_cmp_def Let_def)
    then show ?thesis using False by (auto simp: better_def)
  qed
  show "better A reg a b \<or> better A reg b a"
    using signals.total[of "so_seller a" "so_seller b" reg] comparator_on.total[OF p ab] by (auto simp: better_def)
  assume c: "c \<in> set offs" and le: "better A reg a b" "better A reg b c"
  have ac: "?r a c" using signals.trans[of "so_seller a" "so_seller b" "so_seller c" reg] le by (simp add: better_def)
  have "offer_le A a c" if "?r c a"
  proof -
    have "?r b a" "?r c b"
      using signals.trans[of "so_seller b" "so_seller c" "so_seller a" reg]
        signals.trans[of "so_seller c" "so_seller a" "so_seller b" reg] le that by (auto simp: better_def)
    then show ?thesis using comparator_on.trans[OF p ab c] le by (simp add: better_def)
  qed
  then show "better A reg a c" using ac by (simp add: better_def)
qed

lemma sort_by_price_spec:
  assumes "arith_ok A" "comparable A offs" "offs \<noteq> []"
  obtains low rest where "sort_by_price A offs = Inr (low # rest)" "set (low # rest) = set offs"
    "\<And>off. off \<in> set offs \<Longrightarrow> offer_le A low off"
proof -
  obtain low rest where s: "js_sort (price_cmp A) offs = low # rest"
    using assms(3) js_sort_eq_Nil[of "price_cmp A" offs] by (cases "js_sort (price_cmp A) offs") auto
  have "sort_by_price A offs = Inr (low # rest)"
    using assms(2) s by (auto simp: sort_by_price_def comparable_def list_all_iff is_ok_iff)
  moreover have "set (low # rest) = set offs" using s set_js_sort[of "price_cmp A" offs] by simp
  ultimately show ?thesis
    using that comparator_on.sort_head[OF price_comparator[OF assms(1,2)] subset_refl s] by blast
qed

lemma comparable_subset: "comparable A offs \<Longrightarrow> set xs \<subseteq> set offs \<Longrightarrow> comparable A xs"
  by (fastforce simp: comparable_def)

lemma near_tie_self:
  assumes "arith_ok A" "comparable A offs" "low \<in> set offs"
  shows "near_tie A (offer_price A low) low"
  using comparable_price[OF assms(2,3)] arith_okD(5)[OF assms(1)]
  by (metis n_le.simps(1) n_sub_Fin NEAR_TIE_THRESHOLD_def diff_self near_tie_def zero_le_one)

lemma selectBest_spec:
  assumes "arith_ok A" "comparable A offs" "offs \<noteq> []"
  obtains low best where "selectLowestPricedBuyerOffer A offs = Inr (Some low)" "low \<in> set offs"
    "\<And>off. off \<in> set offs \<Longrightarrow> offer_le A low off" "selectBestBuyerOffer A offs reg = Inr best" "best \<in> set offs"
    "near_tie A (offer_price A low) best"
    "\<And>off. off \<in> set offs \<Longrightarrow> near_tie A (offer_price A low) off \<Longrightarrow> better A reg best off"
proof -
  obtain low rest where s: "sort_by_price A offs = Inr (low # rest)" "set (low # rest) = set offs"
      and least: "\<And>off. off \<in> set offs \<Longrightarrow> offer_le A low off"
    using sort_by_price_spec[OF assms] by metis
  have low: "low \<in> set offs" using s(2) by auto
  obtain x where x: "price_of A (so_price low) = Inr (Fin x)" "offer_price A low = Fin x"
    using comparable_price[OF assms(2) low] .
  let ?ties = "filter (near_tie A (Fin x)) (low # rest)"
  have ties: "set ?ties \<subseteq> set offs" using s(2) by auto
  have self: "near_tie A (Fin x) low" using near_tie_self[OF assms(1,2) low] x(2) by simp
  note cmp = best_comparator[OF assms(1) comparable_subset[OF assms(2) ties]]
  have best: "selectBestBuyerOffer A offs reg = Inr (if length ?ties \<le> 1 then low else hd (js_sort (best_cmp A reg) ?ties))"
    using s(1) x(1) by (simp add: selectBestBuyerOffer_def)
  obtain b bs where b: "js_sort (best_cmp A reg) ?ties = b # bs"
    using self js_sort_eq_Nil[of "best_cmp A reg" ?ties] by (cases "js_sort (best_cmp A reg) ?ties") auto
  have in_ties: "b \<in> set ?ties" using b set_js_sort[of "best_cmp A reg" ?ties] by (metis list.set_intros(1))
  have single: "b = low" if "length ?ties \<le> 1"
    using that self in_ties by (cases "filter (near_tie A (Fin x)) rest") auto
  have res: "selectBestBuyerOffer A offs reg = Inr b" using best b single by (auto split: if_splits)
  show ?thesis
  proof (rule that[OF _ low least res])
    show "selectLowestPricedBuyerOffer A offs = Inr (Some low)" using s(1) by (simp add: selectLowestPricedBuyerOffer_def)
    show "b \<in> set offs" "near_tie A (offer_price A low) b" using in_ties ties x(2) by (auto split: if_splits)
    show "better A reg b off" if "off \<in> set offs" "near_tie A (offer_price A low) off" for off
    proof -
      have "off \<in> set ?ties" using that x(2) s(2) by auto
      then show ?thesis using comparator_on.sort_head[OF cmp subset_refl b] by blast
    qed
  qed
qed

text \<open>Whole decimal numerals with exact arithmetic: an instance of the laws, to evaluate on.\<close>

definition exact_arith :: arith where
  "exact_arith =
     \<lparr>dec_of = (\<lambda>j. case j of JStr s \<Rightarrow> if s \<noteq> [] \<and> list_all is_digit s then Some (Fin (of_nat (nat_of_digits s))) else None | _ \<Rightarrow> None),
      dec_str = (\<lambda>v. case v of Fin q \<Rightarrow> show_int \<lfloor>q\<rfloor> | _ \<Rightarrow> ''NaN''), dec_round = id, js_double = id, js_decimal = id\<rparr>"

lemma exact_arith_ok: "arith_ok exact_arith"
  by (simp add: arith_ok_def exact_arith_def mono_def tiny_def)

definition sample_offer :: "string \<Rightarrow> did \<Rightarrow> string \<Rightarrow> seller_offer" where
  "sample_offer i s p = \<lparr>so_offer_id = i, so_seller = s, so_listing_id = ''l'', so_price = p\<rparr>"

lemma sample_price: "price_of exact_arith ''40'' = Inr (Fin 40)" "price_of exact_arith ''41'' = Inr (Fin 41)"
    "price_of exact_arith ''90'' = Inr (Fin 90)" "price_of exact_arith ''30'' = Inr (Fin 30)"
  by (simp_all add: price_of_def exact_arith_def is_digit_def nat_of_digits_def digit_val_def)

definition sample_offers :: "seller_offer list" where
  "sample_offers = [sample_offer ''1'' ''a'' ''90'', sample_offer ''2'' ''b'' ''41'', sample_offer ''3'' ''a'' ''40'']"

lemma sample_comparable: "comparable exact_arith sample_offers"
  by (auto simp: comparable_def sample_offers_def sample_offer_def sample_price offer_price_def apart_def tiny_def)

text \<open>
  The ranking of offers is right: the lowest-priced offer costs no more than any other, and
  the best one is within the tie threshold of it and has, among all offers that are, the best
  reputation, then the most feedback, then the lowest price.
\<close>

theorem ranking_correct:
  assumes "arith_ok A" "comparable A offs" "offs \<noteq> []"
  shows "\<exists>low best. selectLowestPricedBuyerOffer A offs = Inr (Some low) \<and> low \<in> set offs \<and>
     (\<forall>off \<in> set offs. n_le (offer_price A low) (offer_price A off)) \<and>
     selectBestBuyerOffer A offs reg = Inr best \<and> best \<in> set offs \<and> near_tie A (offer_price A low) best \<and>
     (\<forall>off \<in> set offs. near_tie A (offer_price A low) off \<longrightarrow> better A reg best off)"
  by (rule selectBest_spec[OF assms, of reg]) (metis offer_le_def)

theorem ranking_correct_witness:
  "\<exists>low best. selectLowestPricedBuyerOffer exact_arith sample_offers = Inr (Some low) \<and> low \<in> set sample_offers \<and>
     selectBestBuyerOffer exact_arith sample_offers [] = Inr best \<and> near_tie exact_arith (offer_price exact_arith low) best"
  using ranking_correct[OF exact_arith_ok sample_comparable, of "[]"] by (auto simp: sample_offers_def)

section \<open>Budgets\<close>

text \<open>Actions a buyer's strategy may take on its offers and its budget.\<close>

fun within_budget :: "arith \<Rightarrow> buyer_ctx \<Rightarrow> buyer_action \<Rightarrow> bool" where
  "within_budget A ctx (B_Accept s) =
     (\<exists>off \<in> set (current_offers ctx). so_seller off = s \<and> n_le (offer_price A off) (budget_soft (bc_private ctx)) \<and>
        (\<forall>other \<in> set (current_offers ctx). offer_le A off other))"
| "within_budget A ctx (B_Counter s p) =
     (s \<in> so_seller ` set (current_offers ctx) \<and>
      (\<forall>off \<in> set (current_offers ctx). \<not> n_le (offer_price A off) (budget_soft (bc_private ctx))) \<and>
      n_le MIN_PRICE p \<and> n_le p (budget_hard (bc_private ctx)))"
| "within_budget A ctx B_Wait = (current_offers ctx = [])"
| "within_budget A ctx B_Cancel = False"

lemma sanitizeBuyer_bounds:
  assumes "p \<noteq> NaN" "budget_hard priv = Fin h" "1 / 10 ^ 6 \<le> h"
  shows "\<exists>q. sanitizeBuyerAction (B_Counter s p) priv = B_Counter s q \<and> n_le MIN_PRICE q \<and> n_le q (Fin h)"
  using assms by (cases p) (auto simp: MIN_PRICE_def n_min_def n_max_def)

lemma accept_or_counter_spec:
  assumes "arith_ok A" "comparable A (current_offers ctx)" "price_of A (bc_anchor_price ctx) = Inr anchor"
    "newPrice anchor \<noteq> NaN" "budget_soft (bc_private ctx) = Fin b" "budget_hard (bc_private ctx) = Fin h" "1 / 10 ^ 6 \<le> h"
  shows "\<exists>a. accept_or_counter A newPrice ctx = Inr a \<and> within_budget A ctx (sanitizeBuyerAction a (bc_private ctx))"
proof (cases "current_offers ctx = []")
  case True
  then show ?thesis by (simp add: accept_or_counter_def)
next
  case False
  obtain low best where low: "selectLowestPricedBuyerOffer A (current_offers ctx) = Inr (Some low)" "low \<in> set (current_offers ctx)"
      "\<And>off. off \<in> set (current_offers ctx) \<Longrightarrow> offer_le A low off"
    and best: "selectBestBuyerOffer A (current_offers ctx) (seller_registry ctx) = Inr best" "best \<in> set (current_offers ctx)"
    using selectBest_spec[OF assms(1,2) False, of "seller_registry ctx"] by metis
  obtain x where x: "price_of A (so_price low) = Inr (Fin x)" "offer_price A low = Fin x"
    using comparable_price[OF assms(2) low(2)] .
  show ?thesis
  proof (cases "x \<le> b")
    case True
    then show ?thesis using False low x assms(5) by (auto simp: accept_or_counter_def)
  next
    case above: False
    let ?p = "n_min (newPrice anchor) (Fin h)"
    have res: "accept_or_counter A newPrice ctx = Inr (B_Counter (so_seller best) ?p)"
      using False low(1) x(1) best(1) assms(3,5,6) above by (simp add: accept_or_counter_def)
    have dear: "\<not> n_le (offer_price A off) (Fin b)" if "off \<in> set (current_offers ctx)" for off
      using low(3)[OF that] x(2) above comparable_price[OF assms(2) that] by (fastforce simp: offer_le_def)
    have "?p \<noteq> NaN" using assms(4) by (simp add: n_min_def)
    from sanitizeBuyer_bounds[OF this assms(6,7), of "so_seller best"]
    show ?thesis using res dear best(2) assms(5,6) by fastforce
  qed
qed

lemma max_one_nonzero [simp]: "max x 1 \<noteq> (0 :: rat)"
  by (simp add: max_def)

lemma urgency_finite: "0 < tc_maxRounds cf \<Longrightarrow> bc_time_remaining_ms ctx = Fin left \<Longrightarrow> \<exists>u. urgency A cf ctx = Fin u"
  by (simp add: urgency_def Let_def)

lemma prices_finite:
  assumes "budget_soft (bc_private ctx) = Fin b" "budget_hard (bc_private ctx) = Fin h" "bc_time_remaining_ms ctx = Fin left"
  shows "0 < lc_maxRounds lc \<Longrightarrow> linear_price A lc ctx (Fin anchor) \<noteq> NaN"
    and "0 < tc_maxRounds tc \<Longrightarrow> time_price A tc ctx (Fin anchor) \<noteq> NaN"
    and "0 < cc_maxRounds cc \<Longrightarrow> competitive_price A cc ctx (Fin anchor) \<noteq> NaN"
  using assms urgency_finite[of tc ctx left A]
  by (auto simp: linear_price_def time_price_def competitive_price_def n_decimal_def Let_def)

text \<open>
  Buyers stay within their budget: on comparable offers each built-in strategy answers, and
  after the sanitizer the answer accepts the cheapest offer within the soft budget if there is
  one, and otherwise counters one of the sellers at a price between the minimum and the hard
  budget.
\<close>

theorem buyers_within_budget:
  assumes "arith_ok A" "comparable A (current_offers ctx)" "price_of A (bc_anchor_price ctx) = Inr (Fin anchor)"
    "budget_soft (bc_private ctx) = Fin b" "budget_hard (bc_private ctx) = Fin h" "1 / 10 ^ 6 \<le> h"
    "0 < lc_maxRounds lc" "0 < tc_maxRounds tc" "0 < cc_maxRounds cc" "bc_time_remaining_ms ctx = Fin left"
  shows "\<exists>a1 a2 a3. linear_onOffersReceived A lc ctx = Inr a1 \<and> within_budget A ctx (sanitizeBuyerAction a1 (bc_private ctx)) \<and>
     time_onOffersReceived A tc ctx = Inr a2 \<and> within_budget A ctx (sanitizeBuyerAction a2 (bc_private ctx)) \<and>
     competitive_onOffersReceived A cc ctx = Inr a3 \<and> within_budget A ctx (sanitizeBuyerAction a3 (bc_private ctx))"
  using accept_or_counter_spec[where newPrice = "linear_price A lc ctx", OF assms(1-3) prices_finite(1)[OF assms(4,5,10,7)] assms(4-6)]
    accept_or_counter_spec[where newPrice = "time_price A tc ctx", OF assms(1-3) prices_finite(2)[OF assms(4,5,10,8)] assms(4-6)]
    accept_or_counter_spec[where newPrice = "competitive_price A cc ctx", OF assms(1-3) prices_finite(3)[OF assms(4,5,10,9)] assms(4-6)]
  unfolding linear_onOffersReceived_def time_onOffersReceived_def competitive_onOffersReceived_def by blast

definition sample_buyer_ctx :: buyer_ctx where
  "sample_buyer_ctx = \<lparr>bc_anchor_price = ''30'', bc_private = \<lparr>budget_soft = Fin 35, budget_hard = Fin 50\<rparr>,
     current_offers = sample_offers, seller_registry = [], bc_round = 2, bc_time_remaining_ms = Fin 60000\<rparr>"

theorem buyers_within_budget_witness:
  "\<exists>a. linear_onOffersReceived exact_arith LinearConcessionBuyer sample_buyer_ctx = Inr a \<and>
     within_budget exact_arith sample_buyer_ctx (sanitizeBuyerAction a (bc_private sample_buyer_ctx))"
  using buyers_within_budget[OF exact_arith_ok, of sample_buyer_ctx 30 35 50 LinearConcessionBuyer TimeWeightedBuyer CompetitiveBuyer]
    sample_comparable
  by (auto simp: sample_buyer_ctx_def sample_price LinearConcessionBuyer_def TimeWeightedBuyer_def CompetitiveBuyer_def)

section \<open>Concession of sellers\<close>

lemma concede_spec:
  assumes "arith_ok A" "floor_price (sc_private ctx) = Fin f" "target_price (sc_private ctx) = Fin t"
    "f \<le> t" "dec_round A t = t" "0 \<le> d"
  shows "\<exists>p. concede A (Fin d) ctx = S_Counter (Fin p) \<and> f \<le> p \<and> p \<le> t"
    and "sc_round ctx \<le> n \<Longrightarrow> concede A (Fin d) ctx = S_Counter (Fin p) \<Longrightarrow>
         concede A (Fin d) (ctx\<lparr>sc_round := n\<rparr>) = S_Counter (Fin q) \<Longrightarrow> q \<le> p"
proof -
  note ok = arith_okD[OF assms(1)]
  let ?new = "\<lambda>n. dec_round A (t - dec_round A (d * of_nat n))"
  have le_t: "?new n \<le> t" for n
  proof -
    have "0 \<le> dec_round A (d * of_nat n)" using assms(6) by (intro dec_round_nonneg[OF assms(1)]) simp
    then show ?thesis using ok(1)[of "t - dec_round A (d * of_nat n)" t] assms(5) by simp
  qed
  have new: "concede A (Fin d) (ctx\<lparr>sc_round := n\<rparr>) = S_Counter (Fin (max (?new n) f))" for n
    using assms(2,3) by (simp add: concede_def Let_def max_def)
  have mono: "?new n \<le> ?new m" if "m \<le> n" for m n
    using that assms(6) by (intro ok(1) diff_left_mono) (simp add: mult_left_mono)
  have self: "concede A (Fin d) ctx = S_Counter (Fin (max (?new (sc_round ctx)) f))"
    using new[of "sc_round ctx"] by simp
  show "\<exists>p. concede A (Fin d) ctx = S_Counter (Fin p) \<and> f \<le> p \<and> p \<le> t"
    using self le_t[of "sc_round ctx"] assms(4) by simp
  show "sc_round ctx \<le> n \<Longrightarrow> concede A (Fin d) ctx = S_Counter (Fin p) \<Longrightarrow>
         concede A (Fin d) (ctx\<lparr>sc_round := n\<rparr>) = S_Counter (Fin q) \<Longrightarrow> q \<le> p"
    using self new[of n] mono[of "sc_round ctx" n] by auto
qed

text \<open>The step of each seller is finite and not negative.\<close>

lemma seller_steps:
  assumes "arith_ok A" "floor_price (sc_private ctx) = Fin f" "target_price (sc_private ctx) = Fin t" "f \<le> t"
    "\<not> falsy (latest_counter ctx)"
  shows "0 \<le> rate \<Longrightarrow> \<exists>d \<ge> 0. \<forall>n. rate_onCounterReceived A rate (ctx\<lparr>sc_round := n\<rparr>) = concede A (Fin d) (ctx\<lparr>sc_round := n\<rparr>)"
    and "0 < cs_maxRounds cf \<Longrightarrow> 0 \<le> lowCompMultiplier cf \<Longrightarrow> 0 \<le> highCompMultiplier cf \<Longrightarrow>
       \<exists>d \<ge> 0. \<forall>n. competitive_onCounterReceived A cf (ctx\<lparr>sc_round := n\<rparr>) = concede A (Fin d) (ctx\<lparr>sc_round := n\<rparr>)"
proof -
  have range: "0 \<le> dec_round A (t - f)" using assms(4) by (intro dec_round_nonneg[OF assms(1)]) simp
  show "\<exists>d \<ge> 0. \<forall>n. rate_onCounterReceived A rate (ctx\<lparr>sc_round := n\<rparr>) = concede A (Fin d) (ctx\<lparr>sc_round := n\<rparr>)" if "0 \<le> rate"
    using assms(2,3,5) range that
    by (intro exI[of _ "dec_round A (dec_round A (t - f) * rate)"])
      (simp add: rate_onCounterReceived_def Let_def dec_round_nonneg[OF assms(1)])
  let ?m = "if competing_sellers ctx \<ge> competitionThreshold cf then highCompMultiplier cf else lowCompMultiplier cf"
  show "\<exists>d \<ge> 0. \<forall>n. competitive_onCounterReceived A cf (ctx\<lparr>sc_round := n\<rparr>) = concede A (Fin d) (ctx\<lparr>sc_round := n\<rparr>)"
    if "0 < cs_maxRounds cf" "0 \<le> lowCompMultiplier cf" "0 \<le> highCompMultiplier cf"
    using assms(2,3,5) range that
    by (intro exI[of _ "dec_round A (dec_round A (dec_round A (t - f) / of_nat (cs_maxRounds cf)) * ?m)"])
      (simp add: competitive_onCounterReceived_def Let_def dec_round_nonneg[OF assms(1)])
qed

text \<open>
  Sellers concede step by step and never below their floor: in every round the price a firm,
  flexible or competitive seller counters with lies between floor and target, a later round
  never asks for more, and the sanitizer leaves the price as it is.
\<close>

theorem sellers_concede:
  assumes "arith_ok A" "floor_price (sc_private ctx) = Fin f" "target_price (sc_private ctx) = Fin t" "f \<le> t" "dec_round A t = t"
    "\<not> falsy (latest_counter ctx)" "n \<le> n'"
    "strategy = rate_onCounterReceived A rate \<and> 0 \<le> rate \<or>
     strategy = competitive_onCounterReceived A cf \<and> 0 < cs_maxRounds cf \<and> 0 \<le> lowCompMultiplier cf \<and> 0 \<le> highCompMultiplier cf"
  shows "\<exists>p q. strategy (ctx\<lparr>sc_round := n\<rparr>) = S_Counter (Fin p) \<and> strategy (ctx\<lparr>sc_round := n'\<rparr>) = S_Counter (Fin q) \<and>
     f \<le> q \<and> q \<le> p \<and> p \<le> t \<and> sanitizeSellerAction (S_Counter (Fin q)) (sc_private ctx) = S_Counter (Fin q)"
proof -
  obtain d where d: "0 \<le> d" "\<And>n. strategy (ctx\<lparr>sc_round := n\<rparr>) = concede A (Fin d) (ctx\<lparr>sc_round := n\<rparr>)"
    using seller_steps(1)[OF assms(1-4,6), of rate] seller_steps(2)[OF assms(1-4,6), of cf] assms(8) by metis
  obtain p q where pq: "concede A (Fin d) (ctx\<lparr>sc_round := n\<rparr>) = S_Counter (Fin p)" "f \<le> p" "p \<le> t"
      "concede A (Fin d) (ctx\<lparr>sc_round := n'\<rparr>) = S_Counter (Fin q)" "f \<le> q"
    using concede_spec(1)[OF assms(1), of "ctx\<lparr>sc_round := n\<rparr>" f t d] concede_spec(1)[OF assms(1), of "ctx\<lparr>sc_round := n'\<rparr>" f t d]
      assms(2-5) d(1) by auto
  have "q \<le> p"
    using concede_spec(2)[OF assms(1), of "ctx\<lparr>sc_round := n\<rparr>" f t d n' p q] assms(2-5,7) d(1) pq(1,4) by simp
  then show ?thesis using pq d(2) assms(2) by (simp add: max_def)
qed

definition sample_seller_ctx :: seller_ctx where
  "sample_seller_ctx = \<lparr>sc_private = \<lparr>floor_price = Fin 20, target_price = Fin 60\<rparr>, latest_counter = Some (JBool True),
     sc_round = 1, competing_sellers = 0\<rparr>"

theorem sellers_concede_witness:
  "\<exists>p q. rate_onCounterReceived exact_arith FirmSeller (sample_seller_ctx\<lparr>sc_round := 1\<rparr>) = S_Counter (Fin p) \<and>
     rate_onCounterReceived exact_arith FirmSeller (sample_seller_ctx\<lparr>sc_round := 2\<rparr>) = S_Counter (Fin q) \<and> 20 \<le> q \<and> q \<le> p \<and> p \<le> 60"
  using sellers_concede[OF exact_arith_ok, of sample_seller_ctx 20 60 1 2 "rate_onCounterReceived exact_arith FirmSeller" FirmSeller CompetitiveSeller]
  by (auto simp: sample_seller_ctx_def FirmSeller_def exact_arith_def)

end
