(* ===== verification/Agents.thy ===== *)
theory Agents
  imports Client Strategy
begin

text \<open>
  \<^verbatim>\<open>packages/agents/src/buyer-agent.ts\<close> and \<^verbatim>\<open>seller-agent.ts\<close>: what an agent does with the events of
  a poll. The strategy is an argument, as it is in the code; the engine's answers are arguments
  of the parts that wait for them. Registration in the agent registry is left out.

  A poll of the buyer is a chain of synchronous parts (\<open>poll_cursor\<close>, \<open>buyer_answered\<close>, \<open>buyer_decided\<close> and the
  parts after a request), one per await; each works on what the session has become by then.
  \<open>startPolling\<close> starts a poll every half second whether or not the last one is over, so the
  parts of several polls interleave; theory \<open>Polling\<close> is that step relation. Of the seller, \<open>seller_event\<close>
  handles one event from any state of the session, and \<open>seller_poll\<close> is a poll that no other overlaps.
\<close>

definition text_field :: "json \<Rightarrow> string \<Rightarrow> string" where
  "text_field v k = (case as_string (jget v k) of Some s \<Rightarrow> s | None \<Rightarrow> [])"

text \<open>\<open>event.payload as SellerOffer\<close>; the engine relays offers whose fields are strings.\<close>

definition offer_of_payload :: "json \<Rightarrow> seller_offer" where
  "offer_of_payload v = \<lparr>so_offer_id = text_field v ''offer_id'', so_seller = text_field v ''seller'',
     so_listing_id = text_field v ''listing_id'', so_price = text_field v ''price''\<rparr>"

text \<open>\<open>Math.max(0, Date.parse(deadline) - Date.now())\<close>.\<close>

definition time_remaining :: "platform \<Rightarrow> millis \<Rightarrow> (string \<times> json) list \<Rightarrow> num_val" where
  "time_remaining P now rfqObj =
     (case parse_date P (text_field (JObj rfqObj) ''deadline'') of None \<Rightarrow> NaN | Some d \<Rightarrow> Fin (of_int (max 0 (d - now))))"

section \<open>The buyer\<close>

record buyer_agent =
  ba_key :: keypair
  ba_priv :: buyer_private
  ba_prover :: "(string \<Rightarrow> string \<Rightarrow> json) option"

record buyer_session =
  bs_rfqId :: string
  bs_rfq :: "(string \<times> json) list"
  bs_offers :: "seller_offer list"
  bs_countersSent :: "(string \<times> json) list list"
  bs_events :: "client_event list"
  bs_round :: nat
  bs_lastEventId :: "event_id option"
  bs_committedAt :: "millis option"
  bs_quote :: "json option"
  bs_stopped :: bool

text \<open>\<open>postRfq\<close>: the signed RFQ and the session it starts. \<open>commitment\<close> is the prover's answer.\<close>

definition agent_rfq ::
  "platform \<Rightarrow> buyer_agent \<Rightarrow> string \<Rightarrow> millis \<Rightarrow> string \<Rightarrow> json \<Rightarrow> string \<Rightarrow> int \<Rightarrow> json option \<Rightarrow> (string \<times> json) list" where
  "agent_rfq P ag uuid now serviceType specObj anchorPrice deadlineSeconds commitment =
     signed_object P (ba_key ag)
       ([(''rfq_id'', JStr uuid), (''protocol'', JStr ''ghost-bazaar-v4''), (''buyer'', JStr (buildDid P (snd (ba_key ag)))),
         (''service_type'', JStr serviceType), (''spec'', specObj), (''anchor_price'', JStr anchorPrice), (''currency'', JStr ''USDC''),
         (''deadline'', JStr (to_iso (now + deadlineSeconds * 1000))), (''signature'', JStr [])] @
        opt_prop ''budget_commitment'' commitment)"

definition new_buyer_session :: "string \<Rightarrow> (string \<times> json) list \<Rightarrow> buyer_session" where
  "new_buyer_session rfqId rfqObj = \<lparr>bs_rfqId = rfqId, bs_rfq = rfqObj, bs_offers = [], bs_countersSent = [], bs_events = [],
     bs_round = 0, bs_lastEventId = None, bs_committedAt = None, bs_quote = None, bs_stopped = False\<rparr>"

definition note_offer :: "client_event \<Rightarrow> buyer_session \<Rightarrow> buyer_session" where
  "note_offer e s =
     (if ce_type e = ''offer'' \<and> \<not> falsy (Some (ce_payload e)) then
        let off = offer_of_payload (ce_payload e) in
        if list_ex (\<lambda>x. so_offer_id x = so_offer_id off) (bs_offers s) then s else s\<lparr>bs_offers := bs_offers s @ [off]\<rparr>
      else s)"

definition buyer_event :: "millis \<Rightarrow> client_event \<Rightarrow> buyer_session \<Rightarrow> buyer_session" where
  "buyer_event now e s =
     (let s1 = note_offer e (s\<lparr>bs_events := bs_events s @ [e], bs_lastEventId := Some (ce_id e)\<rparr>)
      in if ce_type e = ''quote_committed'' then s1\<lparr>bs_committedAt := Some now, bs_quote := Some (ce_payload e)\<rparr> else s1)"

definition buyer_receive :: "millis \<Rightarrow> client_event list \<Rightarrow> buyer_session \<Rightarrow> buyer_session" where
  "buyer_receive now evs s = fold (buyer_event now) evs s"

definition buyer_context :: "buyer_agent \<Rightarrow> num_val \<Rightarrow> buyer_session \<Rightarrow> buyer_ctx" where
  "buyer_context ag left s = \<lparr>bc_anchor_price = text_field (JObj (bs_rfq s)) ''anchor_price'', bc_private = ba_priv ag,
     current_offers = bs_offers s, seller_registry = [], bc_round = bs_round s, bc_time_remaining_ms = left\<rparr>"

definition counter_offer ::
  "platform \<Rightarrow> arith \<Rightarrow> buyer_agent \<Rightarrow> string \<Rightarrow> did \<Rightarrow> num_val \<Rightarrow> buyer_session \<Rightarrow> (string \<times> json) list" where
  "counter_offer P A ag uuid seller price s =
     signed_object P (ba_key ag)
       ([(''counter_id'', JStr uuid), (''rfq_id'', JStr (bs_rfqId s)), (''round'', JNum (of_nat (bs_round s))),
         (''from'', JStr (buildDid P (snd (ba_key ag)))), (''to'', JStr seller), (''price'', JStr (dec_str A price)),
         (''currency'', JStr ''USDC''), (''valid_until'', JStr (text_field (JObj (bs_rfq s)) ''deadline'')), (''signature'', JStr [])] @
        (if falsy (jget (JObj (bs_rfq s)) ''budget_commitment'') then []
         else case ba_prover ag of None \<Rightarrow> []
           | Some prove \<Rightarrow> [(''budget_proof'', prove (dec_str A price) (dec_str A (budget_hard (ba_priv ag))))]))"

datatype buyer_request = Post_Counter "(string \<times> json) list" | Post_Accept did string string | No_Request

text \<open>The start of \<open>poll\<close>: \<open>None\<close> when the session is stopped, else the cursor the request carries.\<close>

definition poll_cursor :: "buyer_session \<Rightarrow> event_id option option" where
  "poll_cursor s = (if bs_stopped s then None else Some (bs_lastEventId s))"

text \<open>
  From the answer of \<open>getEvents\<close> to the question put to the strategy, if there is one, with the
  remaining time computed for it.
\<close>

definition buyer_answered ::
  "platform \<Rightarrow> buyer_agent \<Rightarrow> millis \<Rightarrow> client_event list \<Rightarrow> buyer_session \<Rightarrow> (buyer_ctx \<times> num_val) option \<times> buyer_session" where
  "buyer_answered P ag now newEvents s =
     (if newEvents = [] then (None, s)
      else let s1 = buyer_receive now newEvents s in
        if bs_offers s1 = [] \<or> \<not> falsy (bs_quote s1) then (None, s1)
        else let left = time_remaining P now (bs_rfq s1) in (Some (buyer_context ag left s1, left), s1))"

text \<open>From the strategy's answer to the request it makes the agent send.\<close>

definition buyer_act ::
  "platform \<Rightarrow> arith \<Rightarrow> buyer_agent \<Rightarrow> string \<Rightarrow> num_val \<Rightarrow> buyer_action \<Rightarrow> buyer_session \<Rightarrow> buyer_request \<times> buyer_session" where
  "buyer_act P A ag uuid left action s =
     (case action of
        B_Counter seller price \<Rightarrow>
          if n_lt left (Fin 500) then (No_Request, s)
          else let s1 = s\<lparr>bs_round := bs_round s + 1\<rparr> in (Post_Counter (counter_offer P A ag uuid seller price s1), s1)
      | B_Accept seller \<Rightarrow>
          (case find (\<lambda>off. so_seller off = seller) (bs_offers s) of
             None \<Rightarrow> (No_Request, s)
           | Some off \<Rightarrow> (Post_Accept seller (so_offer_id off) (case bs_lastEventId s of Some i \<Rightarrow> i | None \<Rightarrow> ''0''), s))
      | B_Cancel \<Rightarrow> (No_Request, s\<lparr>bs_stopped := True\<rparr>)
      | B_Wait \<Rightarrow> (No_Request, s))"

definition buyer_decided ::
  "platform \<Rightarrow> arith \<Rightarrow> buyer_agent \<Rightarrow> string \<Rightarrow> num_val \<Rightarrow> buyer_action res \<Rightarrow> buyer_session \<Rightarrow> buyer_request res \<times> buyer_session" where
  "buyer_decided P A ag uuid left answer s =
     (case answer of
        Inl e \<Rightarrow> (Inl e, s)
      | Inr action \<Rightarrow>
          (case buyer_act P A ag uuid left (sanitizeBuyerAction action (ba_priv ag)) s of (req, s1) \<Rightarrow> (Inr req, s1)))"

text \<open>After a counter was posted, after the engine answered \<open>accept\<close>, and after the signature was sent.\<close>

definition counter_posted :: "(string \<times> json) list \<Rightarrow> buyer_session \<Rightarrow> buyer_session" where
  "counter_posted c s = s\<lparr>bs_countersSent := bs_countersSent s @ [c]\<rparr>"

definition accept_answered ::
  "platform \<Rightarrow> buyer_agent \<Rightarrow> millis \<Rightarrow> (string \<times> json) list \<Rightarrow> buyer_session \<Rightarrow> (string \<times> json) list \<times> buyer_session" where
  "accept_answered P ag now unsignedQ s = (signQuoteAsBuyer P unsignedQ (fst (ba_key ag)), s\<lparr>bs_committedAt := Some now\<rparr>)"

definition quote_sent :: "(string \<times> json) list \<Rightarrow> buyer_session \<Rightarrow> buyer_session" where
  "quote_sent q s = s\<lparr>bs_quote := Some (JObj q)\<rparr>"

section \<open>The seller\<close>

record seller_agent =
  sa_key :: keypair
  sa_priv :: seller_private
  sa_listingId :: string

record seller_session =
  sl_rfqId :: string
  sl_rfq :: "(string \<times> json) list"
  sl_ownOffers :: "(string \<times> json) list list"
  sl_events :: "client_event list"
  sl_round :: nat
  sl_lastEventId :: "event_id option"
  sl_settledAt :: "millis option"
  sl_quote :: "json option"
  sl_stopped :: bool

definition new_seller_session :: "(string \<times> json) list \<Rightarrow> seller_session" where
  "new_seller_session rfqObj = \<lparr>sl_rfqId = text_field (JObj rfqObj) ''rfq_id'', sl_rfq = rfqObj, sl_ownOffers = [], sl_events = [],
     sl_round = 0, sl_lastEventId = None, sl_settledAt = None, sl_quote = None, sl_stopped = False\<rparr>"

definition seller_did :: "platform \<Rightarrow> seller_agent \<Rightarrow> did" where
  "seller_did P ag = buildDid P (snd (sa_key ag))"

definition rival_dids :: "did \<Rightarrow> client_event list \<Rightarrow> did list" where
  "rival_dids me evs = remdups (map ce_actor (filter (\<lambda>e. ce_type e = ''offer'' \<and> ce_actor e \<noteq> me) evs))"

definition buildContext :: "platform \<Rightarrow> seller_agent \<Rightarrow> seller_session \<Rightarrow> client_event option \<Rightarrow> seller_ctx" where
  "buildContext P ag s latest = \<lparr>sc_private = sa_priv ag,
     latest_counter = (case latest of Some e \<Rightarrow> if ce_type e = ''counter'' then Some (ce_payload e) else Some JNull | None \<Rightarrow> Some JNull),
     sc_round = sl_round s, competing_sellers = length (rival_dids (seller_did P ag) (sl_events s))\<rparr>"

definition seller_offer_object ::
  "platform \<Rightarrow> arith \<Rightarrow> seller_agent \<Rightarrow> string \<Rightarrow> num_val \<Rightarrow> seller_session \<Rightarrow> (string \<times> json) list" where
  "seller_offer_object P A ag uuid price s =
     signed_object P (sa_key ag)
       [(''offer_id'', JStr uuid), (''rfq_id'', JStr (sl_rfqId s)), (''seller'', JStr (seller_did P ag)),
        (''listing_id'', JStr (sa_listingId ag)), (''price'', JStr (dec_str A price)), (''currency'', JStr ''USDC''),
        (''valid_until'', JStr (text_field (JObj (sl_rfq s)) ''deadline'')), (''signature'', JStr [])]"

datatype seller_request = Post_Offer "(string \<times> json) list" | Put_Cosign "json option"

text \<open>\<open>sendOffer\<close>; \<open>posted\<close> says whether the engine took the offer. \<open>False\<close> as second component is a throw.\<close>

definition sendOffer ::
  "platform \<Rightarrow> arith \<Rightarrow> seller_agent \<Rightarrow> string \<Rightarrow> bool \<Rightarrow> num_val \<Rightarrow> seller_session \<Rightarrow> seller_request list \<times> bool \<times> seller_session" where
  "sendOffer P A ag uuid posted price s =
     (let off = seller_offer_object P A ag uuid price s
      in ([Post_Offer off], posted, if posted then s\<lparr>sl_ownOffers := sl_ownOffers s @ [off]\<rparr> else s))"

text \<open>\<open>respondToRfq\<close>, once the session is set up.\<close>

definition respondToRfq ::
  "platform \<Rightarrow> arith \<Rightarrow> seller_agent \<Rightarrow> (seller_ctx \<Rightarrow> seller_action) \<Rightarrow> string \<Rightarrow> bool \<Rightarrow> (string \<times> json) list \<Rightarrow>
   seller_request list \<times> bool \<times> seller_session" where
  "respondToRfq P A ag onRfq uuid posted rfqObj =
     (let s = new_seller_session rfqObj in
      case sanitizeSellerAction (onRfq (buildContext P ag s None)) (sa_priv ag) of
        S_Respond p \<Rightarrow> sendOffer P A ag uuid posted p s
      | S_Decline \<Rightarrow> ([], True, s\<lparr>sl_stopped := True\<rparr>)
      | _ \<Rightarrow> ([], True, s))"

text \<open>
  What the engine answers while an event is handled: whether it takes the offer, the quote it
  returns (\<open>None\<close> where the request fails) and whether it takes the co-signature.
\<close>

record engine_answers =
  an_uuid :: string
  an_posted :: bool
  an_quote :: "(string \<times> json) list option"
  an_cosigned :: bool

definition handle_counter ::
  "platform \<Rightarrow> arith \<Rightarrow> seller_agent \<Rightarrow> (seller_ctx \<Rightarrow> seller_action) \<Rightarrow> engine_answers \<Rightarrow> client_event \<Rightarrow> seller_session \<Rightarrow>
   seller_request list \<times> bool \<times> seller_session" where
  "handle_counter P A ag onCounter an e s =
     (if ce_type e = ''counter'' \<and> ce_actor e \<noteq> seller_did P ag then
        let s1 = s\<lparr>sl_round := sl_round s + 1\<rparr> in
        case sanitizeSellerAction (onCounter (buildContext P ag s1 (Some e))) (sa_priv ag) of
          S_Respond p \<Rightarrow> sendOffer P A ag (an_uuid an) (an_posted an) p s1
        | S_Counter p \<Rightarrow> sendOffer P A ag (an_uuid an) (an_posted an) p s1
        | S_Decline \<Rightarrow> ([], True, s1\<lparr>sl_stopped := True\<rparr>)
        | S_Hold \<Rightarrow> ([], True, s1)
      else ([], True, s))"

definition handle_quote ::
  "platform \<Rightarrow> seller_agent \<Rightarrow> engine_answers \<Rightarrow> client_event \<Rightarrow> seller_session \<Rightarrow> seller_request list \<times> seller_session" where
  "handle_quote P ag an e s =
     (if ce_type e = ''quote_ready'' \<or> ce_type e = ''buyer_signed'' then
        (case an_quote an of
           None \<Rightarrow> ([], s)
         | Some q \<Rightarrow>
             if \<not> falsy (map_of q ''buyer_signature'') \<and> falsy (map_of q ''seller_signature'') then
               let cosigned = signQuoteAsSeller P q (fst (sa_key ag))
               in ([Put_Cosign (map_of cosigned ''seller_signature'')],
                   if an_cosigned an then s\<lparr>sl_quote := Some (JObj cosigned)\<rparr> else s)
             else ([], s))
      else ([], s))"

definition seller_event ::
  "platform \<Rightarrow> arith \<Rightarrow> seller_agent \<Rightarrow> (seller_ctx \<Rightarrow> seller_action) \<Rightarrow> engine_answers \<Rightarrow> client_event \<Rightarrow> seller_session \<Rightarrow>
   seller_request list \<times> bool \<times> seller_session" where
  "seller_event P A ag onCounter an e s =
     (case handle_counter P A ag onCounter an e (s\<lparr>sl_events := sl_events s @ [e], sl_lastEventId := Some (ce_id e)\<rparr>) of
        (reqs, False, s1) \<Rightarrow> (reqs, False, s1)
      | (reqs, True, s1) \<Rightarrow> (case handle_quote P ag an e s1 of (reqs', s2) \<Rightarrow> (reqs @ reqs', True, s2)))"

text \<open>The loop of \<open>poll\<close>; a throw ends it, and the next poll continues after the event that threw.\<close>

fun seller_loop ::
  "platform \<Rightarrow> arith \<Rightarrow> seller_agent \<Rightarrow> (seller_ctx \<Rightarrow> seller_action) \<Rightarrow> (client_event \<times> engine_answers) list \<Rightarrow> seller_session \<Rightarrow>
   seller_request list \<times> seller_session" where
  "seller_loop P A ag onCounter [] s = ([], s)"
| "seller_loop P A ag onCounter ((e, an) # rest) s =
     (case seller_event P A ag onCounter an e s of
        (reqs, False, s1) \<Rightarrow> (reqs, s1)
      | (reqs, True, s1) \<Rightarrow> (case seller_loop P A ag onCounter rest s1 of (reqs', s2) \<Rightarrow> (reqs @ reqs', s2)))"

definition seller_poll ::
  "platform \<Rightarrow> arith \<Rightarrow> seller_agent \<Rightarrow> (seller_ctx \<Rightarrow> seller_action) \<Rightarrow> (client_event \<times> engine_answers) list \<Rightarrow> seller_session \<Rightarrow>
   seller_request list \<times> seller_session" where
  "seller_poll P A ag onCounter newEvents s = (if sl_stopped s then ([], s) else seller_loop P A ag onCounter newEvents s)"

definition markSettled :: "millis \<Rightarrow> seller_session \<Rightarrow> seller_session" where
  "markSettled now s = s\<lparr>sl_settledAt := Some now\<rparr>"

section \<open>Reading the log\<close>

lemma note_offer_fields [simp]:
  "bs_events (note_offer e s) = bs_events s" "bs_lastEventId (note_offer e s) = bs_lastEventId s" "bs_round (note_offer e s) = bs_round s"
  "bs_rfq (note_offer e s) = bs_rfq s" "bs_rfqId (note_offer e s) = bs_rfqId s" "bs_stopped (note_offer e s) = bs_stopped s"
  by (simp_all add: note_offer_def Let_def)

lemma buyer_receive_fields:
  "bs_events (buyer_receive now evs s) = bs_events s @ evs"
  "bs_lastEventId (buyer_receive now evs s) = (if evs = [] then bs_lastEventId s else Some (ce_id (last evs)))"
  "bs_round (buyer_receive now evs s) = bs_round s" "bs_stopped (buyer_receive now evs s) = bs_stopped s"
  by (induction evs arbitrary: s) (simp_all add: buyer_receive_def buyer_event_def Let_def)

text \<open>An agent that has read a log up to its end: it holds every event visible to it, in order.\<close>

definition in_sync :: "did \<Rightarrow> did \<Rightarrow> negotiation_event list \<Rightarrow> client_event list \<Rightarrow> event_id option \<Rightarrow> bool" where
  "in_sync d b evs seen cursor \<longleftrightarrow> seen = map normalizeEvent (visible d b evs) \<and> cursor = next_cursor None (visible d b evs)"

lemma in_sync_page:
  assumes "in_sync d b evs seen c" "distinct (map ev_id (evs @ K))"
    "p = visible d b (after_cursor c (evs @ K))"
  shows "in_sync d b (evs @ K) (seen @ map normalizeEvent p) (next_cursor c p)" "cursor_ok c (evs @ K)"
proof -
  let ?v = "visible d b evs"
  have v: "?v = visible d b (after_cursor None evs)" by (simp add: after_cursor_def)
  have c: "c = next_cursor None ?v" using assms(1) by (simp add: in_sync_def)
  note P = pages_compose[where c = None and V = "\<lambda>e. isEventVisibleTo e d b", OF _ assms(2) v]
  have none: "cursor_ok None evs" by (simp add: cursor_ok_def)
  have all: "?v @ p = visible d b (evs @ K)" using P(1)[OF none] assms(3) c by (simp add: after_cursor_def)
  show "cursor_ok c (evs @ K)" using P(2)[OF none] c by simp
  have "next_cursor c p = next_cursor None (visible d b (evs @ K))"
    unfolding all[symmetric] using c by (auto simp: next_cursor_def)
  then show "in_sync d b (evs @ K) (seen @ map normalizeEvent p) (next_cursor c p)"
    using all assms(1) by (simp add: in_sync_def flip: map_append)
qed

lemma last_normalized: "p \<noteq> [] \<Longrightarrow> ce_id (last (map normalizeEvent p)) = ev_id (last p)"
  by (simp add: last_map normalizeEvent_def)

section \<open>What leaves the agents\<close>

lemma signed_object_field: "k' \<noteq> ''signature'' \<Longrightarrow> map_of (signed_object P k obj) k' = map_of obj k'"
  by (simp add: signed_object_def spread_set_def update_conv')

lemma counter_offer_fields:
  "map_of (counter_offer P A ag uuid seller price s) ''price'' = Some (JStr (dec_str A price))"
  "map_of (counter_offer P A ag uuid seller price s) ''round'' = Some (JNum (of_nat (bs_round s)))"
  "map_of (counter_offer P A ag uuid seller price s) ''to'' = Some (JStr seller)"
  by (simp_all add: counter_offer_def signed_object_field)

lemma offer_object_price: "map_of (seller_offer_object P A ag uuid price s) ''price'' = Some (JStr (dec_str A price))"
  by (simp add: seller_offer_object_def signed_object_field)

text \<open>
  C36. Whatever number its strategy answers, and whatever the session has become while it was thinking, a
  buyer with a hard budget of at least \<open>10\<^sup>-\<^sup>6\<close> counters within it: the price it posts is between the minimum price \<open>10\<^sup>-\<^sup>6\<close> and the
  hard budget, and goes to the seller the strategy named; the counter continues the numbering of rounds. A price
  that is not a number is not caught: it is posted as such.
\<close>

theorem buyer_counters_in_budget:
  assumes "buyer_decided P A ag uuid left answer s = (Inr (Post_Counter c), s')"
    "budget_hard (ba_priv ag) = Fin h" "1 / 10 ^ 6 \<le> h"
  shows "\<exists>seller p0 p. answer = Inr (B_Counter seller p0) \<and> map_of c ''to'' = Some (JStr seller) \<and>
     map_of c ''price'' = Some (JStr (dec_str A p)) \<and>
     (p0 \<noteq> NaN \<longrightarrow> n_le MIN_PRICE p \<and> n_le p (Fin h)) \<and> (p0 = NaN \<longrightarrow> p = NaN) \<and>
     bs_round s' = bs_round s + 1 \<and> map_of c ''round'' = Some (JNum (of_nat (bs_round s + 1)))"
proof -
  obtain action where a: "answer = Inr action" "buyer_act P A ag uuid left (sanitizeBuyerAction action (ba_priv ag)) s = (Post_Counter c, s')"
    using assms(1) by (auto simp: buyer_decided_def split: sum.splits prod.splits)
  obtain seller p where p1: "sanitizeBuyerAction action (ba_priv ag) = B_Counter seller p"
    using a(2) by (cases "sanitizeBuyerAction action (ba_priv ag)") (simp_all add: buyer_act_def split: option.splits)
  have p: "c = counter_offer P A ag uuid seller p (s\<lparr>bs_round := bs_round s + 1\<rparr>)" "s' = s\<lparr>bs_round := bs_round s + 1\<rparr>"
    using a(2) unfolding p1 by (auto simp: buyer_act_def Let_def split: if_splits)
  obtain p0 where p0: "action = B_Counter seller p0" "p = n_max (n_min p0 (Fin h)) MIN_PRICE"
    using p1 assms(2) by (cases action) simp_all
  have "p0 \<noteq> NaN \<Longrightarrow> n_le MIN_PRICE p \<and> n_le p (Fin h)"
    using sanitizeBuyer_bounds[OF _ assms(2,3), of p0 seller] assms(2) p0(2) by auto
  moreover have "p0 = NaN \<Longrightarrow> p = NaN" using p0(2) by (simp add: n_min_def n_max_def)
  ultimately show ?thesis using p p0(1) a(1) by (intro exI[of _ seller] exI[of _ p0] exI[of _ p]) (simp add: counter_offer_fields)
qed

definition sample_bidder :: buyer_session where
  "sample_bidder = new_buyer_session ''r'' [(''anchor_price'', JStr ''30''), (''deadline'', JStr (to_iso 1000000))]"

definition sample_bidder_agent :: buyer_agent where
  "sample_bidder_agent = \<lparr>ba_key = client_key, ba_priv = \<lparr>budget_soft = Fin 45, budget_hard = Fin 50\<rparr>, ba_prover = None\<rparr>"

theorem buyer_counters_in_budget_witness:
  "\<exists>c s' p. buyer_decided client_platform exact_arith sample_bidder_agent ''u'' (Fin 1000) (Inr (B_Counter ''a'' (Fin 70))) sample_bidder =
     (Inr (Post_Counter c), s') \<and> bs_round s' = 1 \<and> map_of c ''round'' = Some (JNum 1) \<and>
     map_of c ''price'' = Some (JStr (dec_str exact_arith p)) \<and> n_le p (Fin 50)"
proof -
  obtain c s' where p: "buyer_decided client_platform exact_arith sample_bidder_agent ''u'' (Fin 1000) (Inr (B_Counter ''a'' (Fin 70))) sample_bidder =
      (Inr (Post_Counter c), s')"
    by (simp add: buyer_decided_def buyer_act_def Let_def n_lt_def)
  from buyer_counters_in_budget[OF p, of 50] show ?thesis
    using p by (auto simp: sample_bidder_agent_def sample_bidder_def new_buyer_session_def)
qed

text \<open>
  C37. Whatever numbers its strategy answers, a seller never offers below its floor: every offer it
  posts, in answer to the RFQ, to a counter handled in whatever state of the session, or in a whole
  poll, has a price that is at least the floor price. The strategy is assumed not to answer a price that is not
  a number: the sanitizer does not catch that one, and it is posted as such.
\<close>

definition offer_above :: "arith \<Rightarrow> num_val \<Rightarrow> seller_request \<Rightarrow> bool" where
  "offer_above A f req \<longleftrightarrow>
     (case req of Put_Cosign _ \<Rightarrow> True
      | Post_Offer off \<Rightarrow> \<exists>p. map_of off ''price'' = Some (JStr (dec_str A p)) \<and> n_le f p)"

definition answers_numbers :: "(seller_ctx \<Rightarrow> seller_action) \<Rightarrow> bool" where
  "answers_numbers strat \<longleftrightarrow> (\<forall>c. strat c \<noteq> S_Respond NaN \<and> strat c \<noteq> S_Counter NaN)"

lemma n_max_floor: "q \<noteq> NaN \<Longrightarrow> n_le (Fin f) (n_max q (Fin f))"
  using n_max_ge[of q "Fin f"] by simp

lemma sanitized_above:
  assumes "floor_price priv = Fin f" "answers_numbers strat"
  shows "sanitizeSellerAction (strat c) priv = S_Respond p \<Longrightarrow> n_le (Fin f) p"
    and "sanitizeSellerAction (strat c) priv = S_Counter p \<Longrightarrow> n_le (Fin f) p"
  using assms(1) assms(2)[unfolded answers_numbers_def, rule_format, of c] n_max_floor[of _ f]
  by (cases "strat c"; auto)+

lemma sendOffer_above:
  "sendOffer P A ag uuid posted p s = (reqs, k, s') \<Longrightarrow> n_le f p \<Longrightarrow> list_all (offer_above A f) reqs"
  by (auto simp: sendOffer_def Let_def offer_above_def offer_object_price)

lemma seller_event_above:
  assumes "floor_price (sa_priv ag) = Fin f" "answers_numbers onCounter" "seller_event P A ag onCounter an e s = (reqs, k, s')"
  shows "list_all (offer_above A (Fin f)) reqs"
proof -
  obtain r1 k1 s1 where h: "handle_counter P A ag onCounter an e (s\<lparr>sl_events := sl_events s @ [e], sl_lastEventId := Some (ce_id e)\<rparr>) = (r1, k1, s1)"
    by (metis prod_cases3)
  have "list_all (offer_above A (Fin f)) r1"
    using h sanitized_above[OF assms(1,2)] sendOffer_above
    by (fastforce simp: handle_counter_def Let_def split: if_splits seller_action.splits)
  moreover have "list_all (offer_above A (Fin f)) (fst (handle_quote P ag an e s1))"
    by (simp add: handle_quote_def Let_def offer_above_def split: option.split)
  ultimately show ?thesis
    using assms(3) h by (cases k1) (auto simp: seller_event_def split: prod.splits)
qed

lemma seller_loop_above:
  "floor_price (sa_priv ag) = Fin f \<Longrightarrow> answers_numbers onCounter \<Longrightarrow> seller_loop P A ag onCounter evs s = (reqs, s') \<Longrightarrow>
   list_all (offer_above A (Fin f)) reqs"
proof (induction P A ag onCounter evs s arbitrary: reqs s' rule: seller_loop.induct)
  case (2 P A ag onCounter e an rest s)
  obtain r1 k1 s1 where h: "seller_event P A ag onCounter an e s = (r1, k1, s1)" by (metis prod_cases3)
  note r1 = seller_event_above[OF 2(2,3) h]
  show ?case
  proof (cases k1)
    case True
    obtain r2 s2 where "seller_loop P A ag onCounter rest s1 = (r2, s2)" by fastforce
    then show ?thesis using 2 h True r1 by auto
  qed (use 2 h r1 in auto)
qed simp

theorem seller_offers_above_floor:
  assumes "floor_price (sa_priv ag) = Fin f" "answers_numbers onRfq" "answers_numbers onCounter"
  shows "list_all (offer_above A (Fin f)) (fst (respondToRfq P A ag onRfq uuid posted rfqObj)) \<and>
     list_all (offer_above A (Fin f)) (fst (seller_event P A ag onCounter an e s)) \<and>
     list_all (offer_above A (Fin f)) (fst (seller_poll P A ag onCounter newEvents s))"
proof -
  have "list_all (offer_above A (Fin f)) (fst (respondToRfq P A ag onRfq uuid posted rfqObj))"
    using sanitized_above[OF assms(1,2)] sendOffer_above[of P A ag uuid posted]
    by (auto simp: respondToRfq_def Let_def split: seller_action.split) (metis prod_cases3 fst_conv)
  moreover have "list_all (offer_above A (Fin f)) (fst (seller_event P A ag onCounter an e s))"
    using seller_event_above[OF assms(1,3)] by (metis prod_cases3 fst_conv)
  ultimately show ?thesis using seller_loop_above[OF assms(1,3)] by (simp add: seller_poll_def) (metis prod.collapse)
qed

definition sample_seller :: seller_agent where
  "sample_seller = \<lparr>sa_key = client_key, sa_priv = \<lparr>floor_price = Fin 20, target_price = Fin 60\<rparr>, sa_listingId = ''l''\<rparr>"

theorem seller_offers_above_floor_witness:
  "\<exists>off. fst (respondToRfq client_platform exact_arith sample_seller (\<lambda>_. S_Respond (Fin 10)) ''u'' True [(''rfq_id'', JStr ''r'')]) = [Post_Offer off] \<and>
     offer_above exact_arith (Fin 20) (Post_Offer off)"
proof -
  let ?strat = "\<lambda>_ :: seller_ctx. S_Respond (Fin 10)"
  obtain off where o: "fst (respondToRfq client_platform exact_arith sample_seller ?strat ''u'' True [(''rfq_id'', JStr ''r'')]) = [Post_Offer off]"
    by (simp add: respondToRfq_def Let_def sendOffer_def)
  have "answers_numbers ?strat" by (simp add: answers_numbers_def)
  then show ?thesis
    using seller_offers_above_floor[of sample_seller 20 ?strat ?strat exact_arith client_platform "''u''" True "[(''rfq_id'', JStr ''r'')]"] o
    by (auto simp: sample_seller_def)
qed

section \<open>Rivals and acceptances\<close>

text \<open>
  A seller never learns of its rivals: of the offers of a session the engine shows a seller only
  its own, so the number of competing sellers its strategy is given is always 0.
\<close>

theorem seller_sees_no_rivals:
  assumes "seller_did P ag \<noteq> b" "in_sync (seller_did P ag) b evs (sl_events s) c"
  shows "competing_sellers (buildContext P ag s latest) = 0"
proof -
  have "ce_actor (normalizeEvent e) = seller_did P ag"
    if "isEventVisibleTo e (seller_did P ag) b" "ce_type (normalizeEvent e) = ''offer''" for e
    using that assms(1)
    by (cases "ev_type e") (auto simp: isEventVisibleTo_def normalizeEvent_def normalizeEventType_def event_text_def EVENT_TYPE_MAP_def to_lower_def)
  then have "rival_dids (seller_did P ag) (sl_events s) = []"
    using assms(2) by (auto simp: rival_dids_def in_sync_def filter_empty_conv)
  then show ?thesis by (simp add: buildContext_def)
qed

definition rivals_log :: "negotiation_event list" where
  "rivals_log = [\<lparr>ev_id = ''e1'', ev_rfq = ''r'', ev_type = OFFER_SUBMITTED, ev_time = ''t'', ev_actor = ''rival'', ev_payload = []\<rparr>,
     \<lparr>ev_id = ''e2'', ev_rfq = ''r'', ev_type = OFFER_SUBMITTED, ev_time = ''t'', ev_actor = seller_did client_platform sample_seller, ev_payload = []\<rparr>]"

theorem seller_sees_no_rivals_witness:
  "competing_sellers (buildContext client_platform sample_seller
     ((new_seller_session [])\<lparr>sl_events := map normalizeEvent (visible (seller_did client_platform sample_seller) ''buyer'' rivals_log)\<rparr>) None) = 0"
proof -
  have "seller_did client_platform sample_seller \<noteq> ''buyer''" by (simp add: seller_did_def buildDid_def)
  then show ?thesis by (rule seller_sees_no_rivals) (simp add: in_sync_def)
qed

definition sample_buyer :: buyer_agent where
  "sample_buyer = \<lparr>ba_key = client_key, ba_priv = \<lparr>budget_soft = Fin 45, budget_hard = Fin 50\<rparr>, ba_prover = None\<rparr>"

definition sample_event :: "string \<Rightarrow> string \<Rightarrow> did \<Rightarrow> string \<Rightarrow> client_event" where
  "sample_event i oid s price = \<lparr>ce_id = i, ce_rfq = ''r'', ce_type = ''offer'', ce_actor = s,
     ce_payload = JObj [(''offer_id'', JStr oid), (''seller'', JStr s), (''listing_id'', JStr ''l''), (''price'', JStr price)], ce_timestamp = ''t''\<rparr>"

definition sample_events :: "client_event list" where
  "sample_events = [sample_event ''e1'' ''1'' ''a'' ''90'', sample_event ''e2'' ''2'' ''b'' ''41'', sample_event ''e3'' ''3'' ''a'' ''40'']"

definition sample_session :: buyer_session where
  "sample_session = new_buyer_session ''r'' [(''anchor_price'', JStr ''30''), (''deadline'', JStr ''never'')]"

lemma sample_received:
  "buyer_receive t sample_events sample_session =
     sample_session\<lparr>bs_offers := sample_offers, bs_events := sample_events, bs_lastEventId := Some ''e3''\<rparr>"
  by (simp add: buyer_receive_def sample_events_def sample_event_def buyer_event_def note_offer_def Let_def sample_session_def
      new_buyer_session_def offer_of_payload_def text_field_def sample_offers_def sample_offer_def)

lemma sample_decision:
  assumes "current_offers ctx = sample_offers" "bc_private ctx = ba_priv sample_buyer"
  shows "linear_onOffersReceived exact_arith cf ctx = Inr (B_Accept ''a'')"
proof -
  have "selectLowestPricedBuyerOffer exact_arith sample_offers = Inr (Some (sample_offer ''3'' ''a'' ''40''))"
    by (simp add: selectLowestPricedBuyerOffer_def sort_by_price_def sample_offers_def price_cmp_def n_cmp_def offer_price_def
        sample_offer_def sample_price is_ok_def) (simp add: exact_arith_def)
  then show ?thesis
    using assms by (simp add: linear_onOffersReceived_def accept_or_counter_def sample_offer_def sample_price sample_offers_def sample_buyer_def)
qed

text \<open>
  A buyer may accept an offer above its budget: the strategy decides to accept a seller because of
  its cheapest offer, but the agent then accepts the first offer it has from that seller. Here the
  seller first asked for 90 and later for 40; with a hard budget of 50 the buyer accepts at 90.
\<close>

theorem buyer_accepts_above_budget:
  "\<exists>ctx left s1. buyer_answered client_platform sample_buyer t sample_events sample_session = (Some (ctx, left), s1) \<and>
     buyer_decided client_platform exact_arith sample_buyer uuid left (linear_onOffersReceived exact_arith LinearConcessionBuyer ctx) s1 =
       (Inr (Post_Accept ''a'' ''1'' ''e3''), s1) \<and>
     sample_offer ''1'' ''a'' ''90'' \<in> set (bs_offers s1) \<and>
     \<not> n_le (offer_price exact_arith (sample_offer ''1'' ''a'' ''90'')) (budget_hard (ba_priv sample_buyer))"
proof -
  let ?s1 = "buyer_receive t sample_events sample_session"
  let ?left = "time_remaining client_platform t (bs_rfq ?s1)"
  have d: "linear_onOffersReceived exact_arith LinearConcessionBuyer (buyer_context sample_buyer ?left ?s1) = Inr (B_Accept ''a'')"
    by (rule sample_decision) (simp_all add: sample_received buyer_context_def)
  have fields: "sample_events \<noteq> []" "sample_offers \<noteq> []" "bs_quote sample_session = None"
      "find (\<lambda>off. so_seller off = ''a'') sample_offers = Some (sample_offer ''1'' ''a'' ''90'')"
    by (simp_all add: sample_events_def sample_session_def new_buyer_session_def sample_offers_def sample_offer_def)
  have a: "buyer_answered client_platform sample_buyer t sample_events sample_session = (Some (buyer_context sample_buyer ?left ?s1, ?left), ?s1)"
    using fields by (simp add: buyer_answered_def Let_def) (simp add: sample_received)
  have b: "buyer_decided client_platform exact_arith sample_buyer uuid ?left (Inr (B_Accept ''a'')) ?s1 = (Inr (Post_Accept ''a'' ''1'' ''e3''), ?s1)"
    unfolding sample_received using fields by (simp add: buyer_decided_def buyer_act_def) (simp add: sample_offer_def)
  show ?thesis
    by (intro exI conjI, rule a, unfold d, rule b)
      (simp_all add: sample_received sample_offers_def offer_price_def sample_offer_def sample_price sample_buyer_def)
qed

text \<open>
  The sanitizers let a price through that is not a number (\<open>Decimal.min\<close> and \<open>Decimal.max\<close> of \<open>NaN\<close> are
  \<open>NaN\<close>): a buyer counters and a seller offers at the price \<open>NaN\<close>.
\<close>

theorem nan_price_posted:
  "\<exists>c s' off. buyer_decided client_platform exact_arith sample_bidder_agent ''u'' (Fin 1000) (Inr (B_Counter ''a'' NaN)) sample_bidder =
       (Inr (Post_Counter c), s') \<and> map_of c ''price'' = Some (JStr (dec_str exact_arith NaN)) \<and>
     fst (respondToRfq client_platform exact_arith sample_seller (\<lambda>_. S_Respond NaN) ''u'' True []) = [Post_Offer off] \<and>
     map_of off ''price'' = Some (JStr (dec_str exact_arith NaN))"
  by (simp add: buyer_decided_def buyer_act_def Let_def n_lt_def n_min_def n_max_def counter_offer_fields
      respondToRfq_def sendOffer_def offer_object_price)

end
