(* ===== verification/Polling.thy ===== *)
theory Polling
  imports Agents Liveness
begin

text \<open>
  The buyer agent beside a running engine. \<open>startPolling\<close> of
  \<^verbatim>\<open>packages/agents/src/buyer-agent.ts\<close> calls \<open>poll\<close> on a timer and does not wait for the last call, so several
  polls can be in flight, each between two of its awaits, while the engine takes steps of its own.
  \<open>polling\<close> is reachability of such a world: with \<open>overlap\<close> a poll may start at any time, without it only
  when no other is in flight. A part that waits may also fail, which ends its poll.
\<close>

section \<open>Model\<close>

datatype poll =
    Fetching "event_id option"
  | Fetched "client_event list"
  | Thinking buyer_ctx num_val
  | Posting buyer_request
  | Signing "(string \<times> json) list"

record poll_world =
  pw_engine :: engine
  pw_session :: buyer_session
  pw_polls :: "poll list"

definition buyer_did :: "platform \<Rightarrow> buyer_agent \<Rightarrow> did" where
  "buyer_did P ag = buildDid P (snd (ba_key ag))"

text \<open>A poll gives up its place in the list for the next await of its chain, if there is one.\<close>

definition next_part :: "poll \<Rightarrow> poll list \<Rightarrow> poll_world \<Rightarrow> poll_world" where
  "next_part p ps w = w\<lparr>pw_polls := remove1 p (pw_polls w) @ ps\<rparr>"

definition question :: "(buyer_ctx \<times> num_val) option \<Rightarrow> poll list" where
  "question ask = (case ask of None \<Rightarrow> [] | Some (ctx, left) \<Rightarrow> [Thinking ctx left])"

definition requests :: "buyer_request res \<Rightarrow> poll list" where
  "requests res = (case res of Inr (Post_Counter c) \<Rightarrow> [Posting (Post_Counter c)]
     | Inr (Post_Accept d i rv) \<Rightarrow> [Posting (Post_Accept d i rv)] | _ \<Rightarrow> [])"

text \<open>
  \<open>answer\<close> is what the strategy makes of the context, a throw included; \<open>unsignedQ\<close> is the quote the engine
  answers an accept with.
\<close>

inductive polling :: "engine_config \<Rightarrow> platform \<Rightarrow> arith \<Rightarrow> buyer_agent \<Rightarrow> string \<Rightarrow> bool \<Rightarrow> poll_world \<Rightarrow> bool"
  for cf P A ag r overlap where
  start: "engine_reach cf e \<Longrightarrow> deriveState (events_in (eg_mgr e) r) = Inr (Some s) \<Longrightarrow> buyer (rfq s) = buyer_did P ag \<Longrightarrow>
    polling cf P A ag r overlap \<lparr>pw_engine = e, pw_session = new_buyer_session r rfqObj, pw_polls = []\<rparr>"
| engine_moves: "polling cf P A ag r overlap w \<Longrightarrow> engine_step cf (pw_engine w) e' \<Longrightarrow>
    polling cf P A ag r overlap (w\<lparr>pw_engine := e'\<rparr>)"
| start_poll: "polling cf P A ag r overlap w \<Longrightarrow> overlap \<or> pw_polls w = [] \<Longrightarrow> poll_cursor (pw_session w) = Some c \<Longrightarrow>
    polling cf P A ag r overlap (w\<lparr>pw_polls := pw_polls w @ [Fetching c]\<rparr>)"
| serve: "polling cf P A ag r overlap w \<Longrightarrow> Fetching c \<in> set (pw_polls w) \<Longrightarrow>
    getEventsJson now (buyer_did P ag) r c (eg_mgr (pw_engine w)) = (Inr pg, m) \<Longrightarrow>
    polling cf P A ag r overlap
      (next_part (Fetching c) [Fetched (client_getEvents pg)] (w\<lparr>pw_engine := (pw_engine w)\<lparr>eg_mgr := m\<rparr>\<rparr>))"
| receive: "polling cf P A ag r overlap w \<Longrightarrow> Fetched evs \<in> set (pw_polls w) \<Longrightarrow>
    buyer_answered P ag now evs (pw_session w) = (ask, s) \<Longrightarrow>
    polling cf P A ag r overlap (next_part (Fetched evs) (question ask) (w\<lparr>pw_session := s\<rparr>))"
| decide: "polling cf P A ag r overlap w \<Longrightarrow> Thinking ctx left \<in> set (pw_polls w) \<Longrightarrow>
    buyer_decided P A ag uuid left answer (pw_session w) = (res, s) \<Longrightarrow>
    polling cf P A ag r overlap (next_part (Thinking ctx left) (requests res) (w\<lparr>pw_session := s\<rparr>))"
| countered: "polling cf P A ag r overlap w \<Longrightarrow> Posting (Post_Counter c) \<in> set (pw_polls w) \<Longrightarrow>
    polling cf P A ag r overlap (next_part (Posting (Post_Counter c)) [] (w\<lparr>pw_session := counter_posted c (pw_session w)\<rparr>))"
| accepted: "polling cf P A ag r overlap w \<Longrightarrow> Posting (Post_Accept d i rv) \<in> set (pw_polls w) \<Longrightarrow>
    accept_answered P ag now unsignedQ (pw_session w) = (q, s) \<Longrightarrow>
    polling cf P A ag r overlap (next_part (Posting (Post_Accept d i rv)) [Signing q] (w\<lparr>pw_session := s\<rparr>))"
| sent: "polling cf P A ag r overlap w \<Longrightarrow> Signing q \<in> set (pw_polls w) \<Longrightarrow>
    polling cf P A ag r overlap (next_part (Signing q) [] (w\<lparr>pw_session := quote_sent q (pw_session w)\<rparr>))"
| fails: "polling cf P A ag r overlap w \<Longrightarrow> p \<in> set (pw_polls w) \<Longrightarrow> polling cf P A ag r overlap (next_part p [] w)"
| stop: "polling cf P A ag r overlap w \<Longrightarrow>
    polling cf P A ag r overlap (w\<lparr>pw_session := (pw_session w)\<lparr>bs_stopped := True\<rparr>\<rparr>)"

section \<open>Pages of the visible log\<close>

abbreviation cursor_at :: "nat \<Rightarrow> negotiation_event list \<Rightarrow> event_id option" where
  "cursor_at j V \<equiv> next_cursor None (take j V)"

text \<open>\<open>p\<close> is the page that a reader of the first \<open>j\<close> visible events was served.\<close>

definition page_from :: "nat \<Rightarrow> negotiation_event list \<Rightarrow> client_event list \<Rightarrow> bool" where
  "page_from j V p \<longleftrightarrow> (\<exists>l \<le> length V. p = map normalizeEvent (drop j (take l V)))"

lemma visible_prefix: "\<exists>evs K. lg = evs @ K \<and> filter Q evs = take j (filter Q lg)"
proof (induction lg arbitrary: j)
  case (Cons x lg)
  show ?case
  proof (cases j)
    case 0
    have "x # lg = [] @ (x # lg) \<and> filter Q [] = take 0 (filter Q (x # lg))" by simp
    then show ?thesis unfolding 0 by blast
  next
    case (Suc i)
    obtain evs K where e: "lg = evs @ K" "filter Q evs = take (if Q x then i else j) (filter Q lg)" using Cons by blast
    have "filter Q (x # evs) = take j (filter Q (x # lg))" unfolding filter.simps e(2) Suc by (cases "Q x") simp_all
    then have "x # lg = (x # evs) @ K \<and> filter Q (x # evs) = take j (filter Q (x # lg))" using e(1) by simp
    then show ?thesis by blast
  qed
qed simp

lemma page_at:
  assumes "distinct (map ev_id lg)" "V = visible d b lg"
  shows "visible d b (after_cursor (cursor_at j V) lg) = drop j V" "cursor_ok (cursor_at j V) lg"
proof -
  obtain evs K where lg: "lg = evs @ K" and v: "visible d b evs = take j V"
    using visible_prefix[of lg "\<lambda>e. isEventVisibleTo e d b" j] assms(2) by blast
  have s: "in_sync d b evs (map normalizeEvent (take j V)) (cursor_at j V)" by (simp add: in_sync_def v)
  have pre: "cursor_ok None evs" "distinct (map ev_id (evs @ K))" "take j V = visible d b (after_cursor None evs)"
    using assms(1) lg v by (simp_all add: cursor_ok_def after_cursor_def)
  have "take j V @ visible d b (after_cursor (cursor_at j V) lg) = visible d b (after_cursor None lg)"
    unfolding lg by (rule pages_compose(1)[OF pre])
  also have "\<dots> = V" by (simp add: after_cursor_def assms(2))
  finally have "take j V @ visible d b (after_cursor (cursor_at j V) lg) = take j V @ drop j V" by simp
  then show "visible d b (after_cursor (cursor_at j V) lg) = drop j V" by (simp only: same_append_eq)
  show "cursor_ok (cursor_at j V) lg" using in_sync_page(2)[OF s, of K] assms(1) lg by simp
qed

lemma cursor_at_append: "j \<le> length V \<Longrightarrow> cursor_at j (V @ X) = cursor_at j V"
  by simp

lemma page_from_append: "page_from j V p \<Longrightarrow> page_from j (V @ X) p"
  unfolding page_from_def
proof (elim exE conjE)
  fix l assume "l \<le> length V" "p = map normalizeEvent (drop j (take l V))"
  then show "\<exists>l\<le>length (V @ X). p = map normalizeEvent (drop j (take l (V @ X)))"
    by (intro exI[of _ l]) simp
qed

lemma take_covers:
  assumes "j \<le> k"
  shows "set (take k V) \<union> set (drop j (take l V)) = set (take (max k l) V)"
proof (cases "l \<le> k")
  case True
  then have "set (drop j (take l V)) \<subseteq> set (take k V)"
    using set_drop_subset[of j "take l V"] set_take_subset_set_take[of l k V] by blast
  then show ?thesis using True by (auto simp: max_def)
next
  case False
  then have "take k (take l V) = take k V" "max k l = l" by (simp_all add: min_def)
  then have "set (take l V) = set (take k V) \<union> set (drop k (take l V))" by (metis append_take_drop_id set_append)
  moreover have "set (drop k (take l V)) \<subseteq> set (drop j (take l V))" using assms by (rule set_drop_subset_set_drop)
  moreover have "set (drop j (take l V)) \<subseteq> set (take l V)" by (rule set_drop_subset)
  ultimately have "set (take k V) \<union> set (drop j (take l V)) = set (take l V)" by blast
  then show ?thesis by (simp only: \<open>max k l = l\<close>)
qed

lemma receive_page:
  assumes "page_from j V p" "j \<le> k" "k \<le> length V" "set (bs_events s) = set (map normalizeEvent (take k V))"
    "bs_lastEventId s = cursor_at i V" "i \<le> k"
  shows "\<exists>k' i'. k \<le> k' \<and> k' \<le> length V \<and> i' \<le> k' \<and>
     set (bs_events (buyer_receive t p s)) = set (map normalizeEvent (take k' V)) \<and>
     bs_lastEventId (buyer_receive t p s) = cursor_at i' V"
proof (cases "p = []")
  case True
  then show ?thesis using assms(3-6) by (intro exI[of _ k] exI[of _ i]) (simp add: buyer_receive_fields)
next
  case False
  obtain l where l: "l \<le> length V" "p = map normalizeEvent (drop j (take l V))" using assms(1) by (auto simp: page_from_def)
  then have "j < l" using False by (auto simp: not_le[symmetric])
  then have "last (drop j (take l V)) = last (take l V)" using l(1) by (simp add: last_drop)
  then have c: "Some (ce_id (last p)) = cursor_at l V" using l \<open>j < l\<close> False by (auto simp: next_cursor_def last_normalized)
  have "set (bs_events (buyer_receive t p s)) = normalizeEvent ` (set (take k V) \<union> set (drop j (take l V)))"
    using assms(4) l(2) by (simp add: buyer_receive_fields image_Un)
  then show ?thesis using take_covers[OF assms(2), of V l] l(1) c False assms(3)
    by (intro exI[of _ "max k l"] exI[of _ l]) (simp add: buyer_receive_fields)
qed

section \<open>What every poll keeps\<close>

definition buyer_log :: "platform \<Rightarrow> buyer_agent \<Rightarrow> string \<Rightarrow> engine \<Rightarrow> negotiation_event list" where
  "buyer_log P ag r e = visible (buyer_did P ag) (buyer_did P ag) (events_in (eg_mgr e) r)"

definition polls_behind :: "negotiation_event list \<Rightarrow> nat \<Rightarrow> poll list \<Rightarrow> bool" where
  "polls_behind V k ps \<longleftrightarrow> (\<forall>c. Fetching c \<in> set ps \<longrightarrow> (\<exists>j \<le> k. c = cursor_at j V)) \<and>
     (\<forall>p. Fetched p \<in> set ps \<longrightarrow> (\<exists>j \<le> k. page_from j V p))"

definition read_upto :: "negotiation_event list \<Rightarrow> nat \<Rightarrow> buyer_session \<Rightarrow> poll list \<Rightarrow> bool" where
  "read_upto V k s ps \<longleftrightarrow> k \<le> length V \<and> set (bs_events s) = set (map normalizeEvent (take k V)) \<and>
     (\<exists>i \<le> k. bs_lastEventId s = cursor_at i V) \<and> polls_behind V k ps"

text \<open>The same for polls that do not overlap.\<close>

definition read_exactly :: "negotiation_event list \<Rightarrow> nat \<Rightarrow> buyer_session \<Rightarrow> poll list \<Rightarrow> bool" where
  "read_exactly V k s ps \<longleftrightarrow> k \<le> length V \<and> bs_events s = map normalizeEvent (take k V) \<and>
     bs_lastEventId s = cursor_at k V \<and> length ps \<le> 1 \<and>
     (\<forall>c. Fetching c \<in> set ps \<longrightarrow> c = cursor_at k V) \<and> (\<forall>p. Fetched p \<in> set ps \<longrightarrow> page_from k V p)"

definition poll_inv :: "engine_config \<Rightarrow> platform \<Rightarrow> buyer_agent \<Rightarrow> string \<Rightarrow> bool \<Rightarrow> poll_world \<Rightarrow> bool" where
  "poll_inv cf P ag r overlap w \<longleftrightarrow> engine_reach cf (pw_engine w) \<and>
     (\<exists>s. deriveState (events_in (eg_mgr (pw_engine w)) r) = Inr (Some s) \<and> buyer (rfq s) = buyer_did P ag) \<and>
     distinct (map so_offer_id (bs_offers (pw_session w))) \<and>
     (\<exists>k. read_upto (buyer_log P ag r (pw_engine w)) k (pw_session w) (pw_polls w)) \<and>
     (\<not> overlap \<longrightarrow> (\<exists>k. read_exactly (buyer_log P ag r (pw_engine w)) k (pw_session w) (pw_polls w)))"

lemma in_remove1: "x \<in> set (remove1 p ps) \<Longrightarrow> x \<in> set ps"
  using set_remove1_subset[of p ps] by blast

text \<open>Steps that touch neither the events read nor the pages in flight.\<close>

definition same_reading :: "poll_world \<Rightarrow> poll_world \<Rightarrow> bool" where
  "same_reading w w' \<longleftrightarrow> pw_engine w' = pw_engine w \<and> bs_events (pw_session w') = bs_events (pw_session w) \<and>
     bs_lastEventId (pw_session w') = bs_lastEventId (pw_session w) \<and> bs_offers (pw_session w') = bs_offers (pw_session w) \<and>
     (length (pw_polls w) \<le> 1 \<longrightarrow> length (pw_polls w') \<le> 1) \<and>
     (\<forall>c. Fetching c \<in> set (pw_polls w') \<longrightarrow> Fetching c \<in> set (pw_polls w)) \<and>
     (\<forall>p. Fetched p \<in> set (pw_polls w') \<longrightarrow> Fetched p \<in> set (pw_polls w))"

lemma same_reading_inv: "poll_inv cf P ag r overlap w \<Longrightarrow> same_reading w w' \<Longrightarrow> poll_inv cf P ag r overlap w'"
  unfolding poll_inv_def same_reading_def read_upto_def read_exactly_def polls_behind_def by auto

lemma length_remove1_one: "p \<in> set ps \<Longrightarrow> length ps \<le> 1 \<Longrightarrow> remove1 p ps = []"
  by (cases ps; cases "tl ps") auto

lemma same_reading_next:
  assumes "p \<in> set (pw_polls w)" "length ps \<le> 1" "\<forall>c. Fetching c \<notin> set ps" "\<forall>q. Fetched q \<notin> set ps"
    "bs_events s = bs_events (pw_session w)" "bs_lastEventId s = bs_lastEventId (pw_session w)" "bs_offers s = bs_offers (pw_session w)"
  shows "same_reading w (next_part p ps (w\<lparr>pw_session := s\<rparr>))"
  using assms length_remove1_one[OF assms(1)] by (auto simp: same_reading_def next_part_def dest: in_remove1)

lemma buyer_decided_reading:
  "buyer_decided P A ag uuid left answer s = (res, s') \<Longrightarrow>
     bs_events s' = bs_events s \<and> bs_lastEventId s' = bs_lastEventId s \<and> bs_offers s' = bs_offers s"
  by (auto simp: buyer_decided_def buyer_act_def Let_def split: sum.splits prod.splits buyer_action.splits option.splits if_splits)

lemma parts_not_reading:
  "Fetching c \<notin> set (question ask)" "Fetched q \<notin> set (question ask)" "length (question ask) \<le> 1"
  "Fetching c \<notin> set (requests res)" "Fetched q \<notin> set (requests res)" "length (requests res) \<le> 1"
  by (auto simp: question_def requests_def split: option.splits sum.splits buyer_request.splits prod.splits)

subsection \<open>The log grows\<close>

lemma read_upto_append: "read_upto V k s ps \<Longrightarrow> read_upto (V @ X) k s ps"
  unfolding read_upto_def polls_behind_def
  by (elim conjE exE, intro conjI allI impI) (simp, simp, fastforce, (metis cursor_at_append le_trans), blast intro: page_from_append)

lemma read_exactly_append: "read_exactly V k s ps \<Longrightarrow> read_exactly (V @ X) k s ps"
  unfolding read_exactly_def using page_from_append by auto

lemma engine_log_grows:
  assumes "engine_step cf e e'" "engine_reach cf e"
  shows "\<exists>X. buyer_log P ag r e' = buyer_log P ag r e @ X"
  using mgr_step_log[OF step_mgr[OF assms(1) engine_reach_ok[OF assms(2)]]]
  by (auto simp: buyer_log_def)

lemma inv_engine:
  assumes inv: "poll_inv cf P ag r overlap w" and st: "engine_step cf (pw_engine w) e'"
  shows "poll_inv cf P ag r overlap (w\<lparr>pw_engine := e'\<rparr>)"
proof -
  have e: "engine_reach cf (pw_engine w)" using inv by (simp add: poll_inv_def)
  obtain X where X: "buyer_log P ag r e' = buyer_log P ag r (pw_engine w) @ X" using engine_log_grows[OF st e] by blast
  have "\<exists>s. deriveState (events_in (eg_mgr e') r) = Inr (Some s) \<and> buyer (rfq s) = buyer_did P ag"
    using inv steps_session[OF r_into_rtranclp[of "engine_step cf", OF st] e] unfolding poll_inv_def by metis
  then show ?thesis using inv engine_reach.step[OF e st] read_upto_append[where X = X] read_exactly_append[where X = X]
    by (simp add: poll_inv_def X) blast
qed

subsection \<open>A poll starts, is served and receives\<close>

lemma read_upto_start: "read_upto V k s ps \<Longrightarrow> read_upto V k s (ps @ [Fetching (bs_lastEventId s)])"
  unfolding read_upto_def polls_behind_def by auto

lemma read_exactly_start: "read_exactly V k s [] \<Longrightarrow> read_exactly V k s [Fetching (bs_lastEventId s)]"
  by (simp add: read_exactly_def)

lemma inv_start_poll:
  assumes inv: "poll_inv cf P ag r overlap w" and o: "overlap \<or> pw_polls w = []" and c: "poll_cursor (pw_session w) = Some c"
  shows "poll_inv cf P ag r overlap (w\<lparr>pw_polls := pw_polls w @ [Fetching c]\<rparr>)"
proof -
  have "c = bs_lastEventId (pw_session w)" using c by (auto simp: poll_cursor_def split: if_splits)
  then show ?thesis using inv o read_upto_start read_exactly_start unfolding poll_inv_def by fastforce
qed

lemma getEventsJson_reads: "getEventsJson now d r c m = (v, m') \<Longrightarrow> m' = snd (getSession now r m)"
  by (auto simp: getEventsJson_def events_session_def Let_def split: prod.splits sum.splits option.splits if_splits)

lemma served_page:
  assumes e: "engine_reach cf e" and d: "deriveState (events_in (eg_mgr e) r) = Inr (Some s)" and b: "buyer (rfq s) = buyer_did P ag"
    and g: "getEventsJson now (buyer_did P ag) r (cursor_at j (buyer_log P ag r e)) (eg_mgr e) = (Inr pg, m)"
  shows "client_getEvents pg = map normalizeEvent (drop j (buyer_log P ag r e))"
proof -
  let ?V = "buyer_log P ag r e"
  have ok: "manager_ok (eg_mgr e)" by (rule reach_manager_ok[OF e])
  obtain s' where s': "deriveState (events_in (eg_mgr e) r) = Inr (Some s')"
    "pg_events pg = visible (buyer_did P ag) (buyer (rfq s')) (after_cursor (cursor_at j ?V) (events_in (eg_mgr e) r))"
    using getEventsJson_Inr[OF ok g] by metis
  have "s' = s" using s'(1) d by simp
  have "distinct (map ev_id (events_in (eg_mgr e) r))" using ok by (simp add: manager_ok_def store_ids_ok_def events_in_def)
  from page_at(1)[OF this, where V = ?V and d = "buyer_did P ag" and b = "buyer_did P ag" and j = j] show ?thesis
    using s'(2) b unfolding \<open>s' = s\<close> by (simp add: client_getEvents_def buyer_log_def)
qed

lemma page_from_drop: "p = map normalizeEvent (drop j V) \<Longrightarrow> page_from j V p"
  unfolding page_from_def by (intro exI[of _ "length V"]) simp

lemma inv_serve:
  assumes inv: "poll_inv cf P ag r overlap w" and c: "Fetching c \<in> set (pw_polls w)"
    and g: "getEventsJson now (buyer_did P ag) r c (eg_mgr (pw_engine w)) = (Inr pg, m)"
  shows "poll_inv cf P ag r overlap
      (next_part (Fetching c) [Fetched (client_getEvents pg)] (w\<lparr>pw_engine := (pw_engine w)\<lparr>eg_mgr := m\<rparr>\<rparr>))"
proof -
  let ?e = "pw_engine w" and ?e' = "(pw_engine w)\<lparr>eg_mgr := m\<rparr>" and ?V = "buyer_log P ag r (pw_engine w)"
  let ?ps = "remove1 (Fetching c) (pw_polls w) @ [Fetched (client_getEvents pg)]"
  obtain v where gs: "getSession now r (eg_mgr ?e) = (v, m)" using getEventsJson_reads[OF g] by (cases "getSession now r (eg_mgr ?e)") simp
  have e: "engine_reach cf ?e" using inv by (simp add: poll_inv_def)
  obtain s where s: "deriveState (events_in (eg_mgr ?e) r) = Inr (Some s)" "buyer (rfq s) = buyer_did P ag"
    using inv by (auto simp: poll_inv_def)
  have same: "events_in m = events_in (eg_mgr ?e)" using quiet_getSession[of "eg_mgr ?e" now r] gs by (simp add: quiet_def)
  have V': "buyer_log P ag r ?e' = ?V" by (simp add: buyer_log_def same)
  have e': "engine_reach cf ?e'" by (rule engine_reach.step[OF e engine_step.read_session[OF gs]])
  have page: "page_from j ?V (client_getEvents pg)" if "c = cursor_at j ?V" for j
    using served_page[OF e s g[unfolded that]] by (rule page_from_drop)
  have up: "read_upto ?V k (pw_session w) ?ps" if k: "read_upto ?V k (pw_session w) (pw_polls w)" for k
  proof -
    obtain j where "j \<le> k" "page_from j ?V (client_getEvents pg)"
      using k c page unfolding read_upto_def polls_behind_def by blast
    then show ?thesis using k in_remove1[of _ "Fetching c" "pw_polls w"] unfolding read_upto_def polls_behind_def by auto
  qed
  have ex: "read_exactly ?V k (pw_session w) ?ps" if k: "read_exactly ?V k (pw_session w) (pw_polls w)" for k
    using k page[of k] c length_remove1_one[OF c] unfolding read_exactly_def by auto
  show ?thesis using inv e' same up ex V' unfolding poll_inv_def next_part_def by auto
qed

lemma offer_ids_distinct: "distinct (map so_offer_id (bs_offers s)) \<Longrightarrow> distinct (map so_offer_id (bs_offers (buyer_receive now evs s)))"
proof (induction evs arbitrary: s)
  case (Cons e evs)
  have "distinct (map so_offer_id (bs_offers (buyer_event now e s)))"
    using Cons(2) by (auto simp: buyer_event_def note_offer_def Let_def list_ex_iff)
  then show ?case using Cons(1) by (simp add: buyer_receive_def)
qed (simp add: buyer_receive_def)

lemma buyer_answered_receives:
  "buyer_answered P ag now evs s = (ask, s') \<Longrightarrow> s' = buyer_receive now evs s"
  by (auto simp: buyer_answered_def buyer_receive_def Let_def split: if_splits)

lemma receive_exactly:
  assumes "read_exactly V k s ps" "page_from k V p"
  shows "\<exists>k'. k' \<le> length V \<and> bs_events (buyer_receive t p s) = map normalizeEvent (take k' V) \<and>
     bs_lastEventId (buyer_receive t p s) = cursor_at k' V"
proof (cases "p = []")
  case True
  then show ?thesis using assms(1) by (intro exI[of _ k]) (simp add: read_exactly_def buyer_receive_fields)
next
  case False
  obtain l where l: "l \<le> length V" "p = map normalizeEvent (drop k (take l V))" using assms(2) by (auto simp: page_from_def)
  then have k: "k < l" using False by (auto simp: not_le[symmetric])
  then have "take k (take l V) = take k V" by (simp add: min_def)
  then have "take l V = take k V @ drop k (take l V)" by (metis append_take_drop_id)
  then have "map normalizeEvent (take l V) = map normalizeEvent (take k V) @ p" unfolding l(2) by (metis map_append)
  moreover have "Some (ce_id (last p)) = cursor_at l V"
    using l k False last_drop[of k "take l V"] by (auto simp: next_cursor_def last_normalized)
  ultimately show ?thesis using assms(1) l(1) False by (intro exI[of _ l]) (simp add: read_exactly_def buyer_receive_fields)
qed

lemma inv_receive:
  assumes inv: "poll_inv cf P ag r overlap w" and p: "Fetched evs \<in> set (pw_polls w)"
    and a: "buyer_answered P ag now evs (pw_session w) = (ask, s)"
  shows "poll_inv cf P ag r overlap (next_part (Fetched evs) (question ask) (w\<lparr>pw_session := s\<rparr>))"
proof -
  let ?V = "buyer_log P ag r (pw_engine w)" and ?s = "pw_session w"
  let ?ps = "remove1 (Fetched evs) (pw_polls w) @ question ask"
  have s: "s = buyer_receive now evs ?s" by (rule buyer_answered_receives[OF a])
  have old: "Fetching c \<in> set ?ps \<Longrightarrow> Fetching c \<in> set (pw_polls w)" "Fetched q \<in> set ?ps \<Longrightarrow> Fetched q \<in> set (pw_polls w)" for c q
    using parts_not_reading(1,2)[of _ ask] by (auto dest: in_remove1)
  have up: "\<exists>k'. read_upto ?V k' s ?ps" if k: "read_upto ?V k ?s (pw_polls w)" for k
  proof -
    obtain j where j: "j \<le> k" "page_from j ?V evs" using k p unfolding read_upto_def polls_behind_def by blast
    obtain i where i: "i \<le> k" "bs_lastEventId ?s = cursor_at i ?V" using k by (auto simp: read_upto_def)
    obtain k' i' where k': "k \<le> k'" "k' \<le> length ?V" "i' \<le> k'" "set (bs_events s) = set (map normalizeEvent (take k' ?V))"
      "bs_lastEventId s = cursor_at i' ?V"
      using receive_page[OF j(2,1) _ _ i(2,1), of now] k unfolding s read_upto_def by blast
    have "polls_behind ?V k' ?ps"
      using k old k'(1) unfolding read_upto_def polls_behind_def by (meson le_trans)
    then show ?thesis using k' unfolding read_upto_def by blast
  qed
  have ex: "\<exists>k'. read_exactly ?V k' s ?ps" if k: "read_exactly ?V k ?s (pw_polls w)" for k
  proof -
    have pg: "page_from k ?V evs" using k p by (simp add: read_exactly_def)
    have "pw_polls w = [Fetched evs]" using k p by (cases "pw_polls w") (auto simp: read_exactly_def)
    then have "?ps = question ask" by simp
    then show ?thesis using receive_exactly[OF k pg, of now] parts_not_reading(1,2)[of _ ask] parts_not_reading(3)[of ask] unfolding s read_exactly_def by auto
  qed
  have "distinct (map so_offer_id (bs_offers s))" using inv offer_ids_distinct by (simp add: s poll_inv_def)
  then show ?thesis using inv up ex unfolding poll_inv_def next_part_def by auto
qed

lemma polling_inv: "polling cf P A ag r overlap w \<Longrightarrow> poll_inv cf P ag r overlap w"
proof (induction rule: polling.induct)
  case (start e s rfqObj)
  have "read_upto (buyer_log P ag r e) 0 (new_buyer_session r rfqObj) []"
    "read_exactly (buyer_log P ag r e) 0 (new_buyer_session r rfqObj) []"
    by (simp_all add: read_upto_def read_exactly_def polls_behind_def new_buyer_session_def next_cursor_def)
  then show ?case using start by (auto simp: poll_inv_def) (simp add: new_buyer_session_def)
next
  case (decide w ctx left uuid answer res s)
  then show ?case
    by (intro same_reading_inv[OF decide(4)] same_reading_next)
      (use buyer_decided_reading[OF decide(3)] parts_not_reading in auto)
next
  case (countered w c)
  then show ?case by (intro same_reading_inv[OF countered(3)] same_reading_next) (auto simp: counter_posted_def)
next
  case (accepted w d i rv now unsignedQ q s)
  then show ?case by (intro same_reading_inv[OF accepted(4)] same_reading_next) (auto simp: accept_answered_def)
next
  case (sent w q)
  then show ?case by (intro same_reading_inv[OF sent(3)] same_reading_next) (auto simp: quote_sent_def)
next
  case (fails w p)
  have "same_reading w (next_part p [] (w\<lparr>pw_session := pw_session w\<rparr>))" by (rule same_reading_next) (use fails in auto)
  then show ?case using same_reading_inv[OF fails(3)] by simp
next
  case (stop w)
  then show ?case by (elim same_reading_inv) (simp add: same_reading_def)
qed (auto intro: inv_engine inv_start_poll inv_serve inv_receive)

section \<open>Properties\<close>

text \<open>
  C14. Polling loses nothing: at any moment of a buyer agent polling a running engine, with polls
  overlapping, failing and answered in any order, the events it holds are those of a prefix of the log it may see, its cursor is a
  position in that prefix, and no offer is stored twice. Whatever request of a poll is still
  waiting, and one made now as well, the engine answers it (its cursor is never rejected), and receiving the answer
  leaves the agent with every event it may see. If polls do not overlap, the agent holds the events of the prefix
  exactly once and in order. That overlapping polls may store an event twice is \<open>overlapping_polls_repeat\<close>.
\<close>

theorem polling_in_sync:
  assumes "polling cf P A ag r overlap w"
  shows "\<exists>k \<le> length (buyer_log P ag r (pw_engine w)).
     set (bs_events (pw_session w)) = set (map normalizeEvent (take k (buyer_log P ag r (pw_engine w)))) \<and>
     (\<exists>i \<le> k. bs_lastEventId (pw_session w) = next_cursor None (take i (buyer_log P ag r (pw_engine w)))) \<and>
     distinct (map so_offer_id (bs_offers (pw_session w))) \<and>
     (\<not> overlap \<longrightarrow> (\<exists>k. bs_events (pw_session w) = map normalizeEvent (take k (buyer_log P ag r (pw_engine w))))) \<and>
     (\<forall>c now t. Fetching c \<in> set (pw_polls w) \<or> c = bs_lastEventId (pw_session w) \<longrightarrow>
       (\<exists>pg m. getEventsJson now (buyer_did P ag) r c (eg_mgr (pw_engine w)) = (Inr pg, m) \<and>
          set (bs_events (buyer_receive t (client_getEvents pg) (pw_session w))) =
            set (map normalizeEvent (buyer_log P ag r (pw_engine w)))))"
proof -
  let ?e = "pw_engine w" and ?s = "pw_session w" and ?V = "buyer_log P ag r (pw_engine w)"
  have inv: "poll_inv cf P ag r overlap w" using assms by (rule polling_inv)
  then have e: "engine_reach cf ?e" and di: "distinct (map so_offer_id (bs_offers ?s))" by (simp_all add: poll_inv_def)
  obtain s where s: "deriveState (events_in (eg_mgr ?e) r) = Inr (Some s)" "buyer (rfq s) = buyer_did P ag"
    using inv by (auto simp: poll_inv_def)
  obtain k where k: "read_upto ?V k ?s (pw_polls w)" using inv by (auto simp: poll_inv_def)
  have ok: "manager_ok (eg_mgr ?e)" by (rule reach_manager_ok[OF e])
  have ids: "distinct (map ev_id (events_in (eg_mgr ?e) r))" using ok by (simp add: manager_ok_def store_ids_ok_def events_in_def)
  have answered: "\<exists>pg m. getEventsJson now (buyer_did P ag) r c (eg_mgr ?e) = (Inr pg, m) \<and>
      set (bs_events (buyer_receive t (client_getEvents pg) ?s)) = set (map normalizeEvent ?V)"
    if c: "Fetching c \<in> set (pw_polls w) \<or> c = bs_lastEventId ?s" for c now t
  proof -
    obtain j where j: "j \<le> k" "c = cursor_at j ?V" using c k unfolding read_upto_def polls_behind_def by blast
    have "cursor_ok c (events_in (eg_mgr ?e) r)"
      unfolding j(2) using page_at(2)[OF ids, where d = "buyer_did P ag" and b = "buyer_did P ag" and j = j] by (simp add: buyer_log_def)
    moreover have "isParticipant (buyer_did P ag) (buyer (rfq s)) (offers s)" using s(2) by (simp add: isParticipant_def)
    ultimately obtain pg m where g: "getEventsJson now (buyer_did P ag) r c (eg_mgr ?e) = (Inr pg, m)"
      using getEventsJson_answers[OF ok s(1), where d = "buyer_did P ag" and c = c and now = now] by blast
    have p: "client_getEvents pg = map normalizeEvent (drop j ?V)" by (rule served_page[OF e s g[unfolded j(2)]])
    have "set (take k ?V) \<union> set (drop j ?V) = set ?V"
      using take_covers[OF j(1), of ?V "length ?V"] k by (simp add: read_upto_def max_def split: if_splits)
    then have "set (bs_events (buyer_receive t (client_getEvents pg) ?s)) = set (map normalizeEvent ?V)"
      using k unfolding p buyer_receive_fields read_upto_def by (simp flip: image_Un)
    then show ?thesis using g by blast
  qed
  have "\<not> overlap \<Longrightarrow> \<exists>k. bs_events ?s = map normalizeEvent (take k ?V)"
    using inv by (auto simp: poll_inv_def read_exactly_def)
  then show ?thesis using k di answered unfolding read_upto_def by (intro exI[of _ k]) blast
qed

lemma sample_did: "buyer_did client_platform sample_buyer = demo_B"
  by (simp add: buyer_did_def sample_buyer_def client_key_def client_platform_def buildDid_def demo_platform_def latin1_def
      comp_def demo_did_def key_chars)

text \<open>Two polls are started on the demonstration run before either is answered.\<close>

lemma two_polls:
  "\<exists>w. polling demo_cf client_platform exact_arith sample_buyer demo_rfq True w \<and> pw_polls w = [Fetching None, Fetching None] \<and>
     pw_session w = new_buyer_session demo_rfq [] \<and> events_in (eg_mgr (pw_engine w)) demo_rfq = demo_log"
proof -
  obtain e where e: "engine_reach demo_cf e" "events_in (eg_mgr e) demo_rfq = demo_log" "deriveState demo_log = Inr (Some demo_s5)"
    using demo_engine by blast
  have b: "buyer (rfq demo_s5) = demo_B" by (simp add: demo_sessions demo_session_rfq_def)
  let ?w = "\<lparr>pw_engine = e, pw_session = new_buyer_session demo_rfq [], pw_polls = []\<rparr>"
  have c: "poll_cursor (new_buyer_session demo_rfq []) = Some None" by (simp add: poll_cursor_def new_buyer_session_def)
  have w0: "polling demo_cf client_platform exact_arith sample_buyer demo_rfq True ?w"
    by (rule polling.start[OF e(1)]) (use e b sample_did in simp_all)
  have w1: "polling demo_cf client_platform exact_arith sample_buyer demo_rfq True (?w\<lparr>pw_polls := [Fetching None]\<rparr>)"
    using polling.start_poll[OF w0, of None] c by simp
  have "polling demo_cf client_platform exact_arith sample_buyer demo_rfq True (?w\<lparr>pw_polls := [Fetching None, Fetching None]\<rparr>)"
    using polling.start_poll[OF w1, of None] c by simp
  then show ?thesis using e(2) by (intro exI[of _ "?w\<lparr>pw_polls := [Fetching None, Fetching None]\<rparr>"]) simp
qed

lemma serve_page:
  assumes w: "polling cf P A ag r overlap w" and c: "Fetching None \<in> set (pw_polls w)"
  shows "\<exists>e. polling cf P A ag r overlap (next_part (Fetching None)
       [Fetched (map normalizeEvent (buyer_log P ag r (pw_engine w)))] (w\<lparr>pw_engine := e\<rparr>)) \<and> buyer_log P ag r e = buyer_log P ag r (pw_engine w)"
proof -
  let ?e = "pw_engine w"
  have inv: "poll_inv cf P ag r overlap w" using w by (rule polling_inv)
  then have e: "engine_reach cf ?e" by (simp add: poll_inv_def)
  obtain s where s: "deriveState (events_in (eg_mgr ?e) r) = Inr (Some s)" "buyer (rfq s) = buyer_did P ag"
    using inv by (auto simp: poll_inv_def)
  have "isParticipant (buyer_did P ag) (buyer (rfq s)) (offers s)" "cursor_ok None (events_in (eg_mgr ?e) r)"
    using s(2) by (simp_all add: isParticipant_def cursor_ok_def)
  then obtain pg m where g: "getEventsJson 0 (buyer_did P ag) r None (eg_mgr ?e) = (Inr pg, m)"
    using getEventsJson_answers[OF reach_manager_ok[OF e] s(1), where d = "buyer_did P ag" and c = None and now = 0] by blast
  have z: "next_cursor None [] = None" by (simp add: next_cursor_def)
  have "client_getEvents pg = map normalizeEvent (buyer_log P ag r ?e)"
    using served_page[OF e s, of 0 0 pg m] g by (simp add: z)
  moreover have "buyer_log P ag r (?e\<lparr>eg_mgr := m\<rparr>) = buyer_log P ag r ?e"
    using quiet_getSession[of "eg_mgr ?e" 0 r] getEventsJson_reads[OF g] by (simp add: buyer_log_def quiet_def)
  ultimately show ?thesis using polling.serve[OF w c g] by (intro exI[of _ "?e\<lparr>eg_mgr := m\<rparr>"]) simp
qed

theorem polling_in_sync_witness:
  "\<exists>w pg m. polling demo_cf client_platform exact_arith sample_buyer demo_rfq True w \<and> Fetching None \<in> set (pw_polls w) \<and>
     getEventsJson 0 (buyer_did client_platform sample_buyer) demo_rfq None (eg_mgr (pw_engine w)) = (Inr pg, m) \<and>
     set (bs_events (buyer_receive 0 (client_getEvents pg) (pw_session w))) = set (map normalizeEvent (visible demo_B demo_B demo_log))"
proof -
  obtain w where w: "polling demo_cf client_platform exact_arith sample_buyer demo_rfq True w" "pw_polls w = [Fetching None, Fetching None]"
    "events_in (eg_mgr (pw_engine w)) demo_rfq = demo_log"
    using two_polls by blast
  have "Fetching None \<in> set (pw_polls w)" using w(2) by simp
  moreover have "buyer_log client_platform sample_buyer demo_rfq (pw_engine w) = visible demo_B demo_B demo_log"
    by (simp add: buyer_log_def w(3) sample_did)
  ultimately show ?thesis using polling_in_sync[OF w(1)] w(1) by metis
qed

text \<open>
  Overlapping polls repeat events: both are served the whole log, and the agent, which appends what
  it receives, holds every event twice. A strategy then sees the history doubled, and a seller
  agent, whose polls overlap as well, answers a counter twice.
\<close>

theorem overlapping_polls_repeat:
  "\<exists>w. polling demo_cf client_platform exact_arith sample_buyer demo_rfq True w \<and>
     bs_events (pw_session w) = map normalizeEvent (visible demo_B demo_B demo_log) @ map normalizeEvent (visible demo_B demo_B demo_log) \<and>
     visible demo_B demo_B demo_log \<noteq> []"
proof -
  let ?P = "polling demo_cf client_platform exact_arith sample_buyer demo_rfq True"
  let ?V = "map normalizeEvent (visible demo_B demo_B demo_log)"
  obtain w where w: "?P w" "pw_polls w = [Fetching None, Fetching None]" "pw_session w = new_buyer_session demo_rfq []"
    "events_in (eg_mgr (pw_engine w)) demo_rfq = demo_log" using two_polls by blast
  have V: "buyer_log client_platform sample_buyer demo_rfq (pw_engine w) = visible demo_B demo_B demo_log"
    by (simp add: buyer_log_def w(4) sample_did)
  obtain e1 where e1: "?P (w\<lparr>pw_engine := e1, pw_polls := [Fetching None, Fetched ?V]\<rparr>)"
    "buyer_log client_platform sample_buyer demo_rfq e1 = visible demo_B demo_B demo_log"
    using serve_page[OF w(1)] w(2) V by (auto simp: next_part_def)
  obtain e2 where e2: "?P (w\<lparr>pw_engine := e2, pw_polls := [Fetched ?V, Fetched ?V]\<rparr>)"
    using serve_page[OF e1(1)] e1(2) by (auto simp: next_part_def)
  let ?w2 = "w\<lparr>pw_engine := e2, pw_polls := [Fetched ?V, Fetched ?V]\<rparr>"
  obtain ask s where a: "buyer_answered client_platform sample_buyer 0 ?V (pw_session w) = (ask, s)" by fastforce
  have w3: "?P (next_part (Fetched ?V) (question ask) (?w2\<lparr>pw_session := s\<rparr>))"
    using polling.receive[OF e2, where evs = ?V and now = 0] a by simp
  let ?w3 = "next_part (Fetched ?V) (question ask) (?w2\<lparr>pw_session := s\<rparr>)"
  obtain ask' s' where a': "buyer_answered client_platform sample_buyer 0 ?V s = (ask', s')" by fastforce
  have "Fetched ?V \<in> set (pw_polls ?w3)" "pw_session ?w3 = s" by (simp_all add: next_part_def)
  then have "?P (next_part (Fetched ?V) (question ask') (?w3\<lparr>pw_session := s'\<rparr>))"
    using polling.receive[OF w3, where evs = ?V and now = 0] a' by simp
  moreover have "bs_events s' = ?V @ ?V"
    using buyer_answered_receives[OF a] buyer_answered_receives[OF a'] w(3) by (simp add: buyer_receive_fields new_buyer_session_def)
  moreover have "visible demo_B demo_B demo_log \<noteq> []"
    by (simp add: demo_log_def demo_e0_def isEventVisibleTo_def filter_empty_conv)
  ultimately show ?thesis by (intro exI[of _ "next_part (Fetched ?V) (question ask') (?w3\<lparr>pw_session := s'\<rparr>)"]) (simp add: next_part_def)
qed

end
