(* ===== verification/Stats.thy ===== *)
theory Stats
  imports Engine
begin

text \<open>
  \<^verbatim>\<open>packages/engine/src/stats/stats-collector.ts\<close>: the counters behind the dashboard. They are kept up
  to date while the engine runs (\<open>onEvent\<close>) and recomputed from the raw logs when it starts
  (\<open>processRawEvent\<close>, with a simplified transition function of its own). The theory shows that
  both give the numbers one gets by looking at the logs. The averages computed for display and
  the uptime are left out.
\<close>

section \<open>Model\<close>

record ledger_entry =
  le_state :: session_state
  le_createdAt :: string
  le_offerCount :: nat
  le_counterCount :: nat
  le_sellerDids :: "did set"

text \<open>The counters that survive a restart.\<close>

record core_stats =
  uniqueBuyers :: "did set"
  uniqueSellers :: "did set"
  totalOffers :: nat
  totalCounters :: nat
  completedDeals :: nat
  terminalSessions :: nat
  totalDurationMs :: int
  byState :: "session_state \<Rightarrow> nat"
  sessionLedger :: "string \<rightharpoonup> ledger_entry"

record stats = core_stats +
  minuteBuckets :: "nat list"
  currentBucketIdx :: nat
  lastBucketRotation :: millis
  newSessionsLastHour :: nat
  dealsLastHour :: nat
  lastHourlyReset :: millis
  listingCount :: nat

definition MINUTE_BUCKETS :: nat where "MINUTE_BUCKETS = 5"
definition MINUTE_MS :: int where "MINUTE_MS = 60000"
definition HOUR_MS :: int where "HOUR_MS = 3600000"

definition empty_stats :: "millis \<Rightarrow> nat \<Rightarrow> stats" where
  "empty_stats now listings = \<lparr>uniqueBuyers = {}, uniqueSellers = {}, totalOffers = 0, totalCounters = 0, completedDeals = 0,
     terminalSessions = 0, totalDurationMs = 0, byState = (\<lambda>_. 0), sessionLedger = Map.empty,
     minuteBuckets = replicate MINUTE_BUCKETS 0, currentBucketIdx = 0, lastBucketRotation = now,
     newSessionsLastHour = 0, dealsLastHour = 0, lastHourlyReset = now, listingCount = listings\<rparr>"

text \<open>\<open>byState[old] = Math.max(0, byState[old] - 1)\<close> and \<open>byState[new] += 1\<close>.\<close>

definition move_state :: "session_state \<Rightarrow> session_state \<Rightarrow> (session_state \<Rightarrow> nat) \<Rightarrow> session_state \<Rightarrow> nat" where
  "move_state old new cnt = (let c = cnt(old := cnt old - 1) in c(new := c new + 1))"

definition duration :: "platform \<Rightarrow> string \<Rightarrow> string \<Rightarrow> int" where
  "duration P createdAt timestamp =
     (case (parse_date P timestamp, parse_date P createdAt) of
        (Some a, Some b) \<Rightarrow> if a - b > 0 then a - b else 0
      | _ \<Rightarrow> 0)"

definition processEventType :: "negotiation_event \<Rightarrow> 'x core_stats_scheme \<Rightarrow> 'x core_stats_scheme" where
  "processEventType event st =
     (case ev_type event of
        OFFER_SUBMITTED \<Rightarrow>
          let st1 = st\<lparr>totalOffers := totalOffers st + 1\<rparr> in
          (case sessionLedger st (ev_rfq event) of
             None \<Rightarrow> st1
           | Some entry \<Rightarrow>
               let entry1 = entry\<lparr>le_offerCount := le_offerCount entry + 1\<rparr> in
               (case as_string (map_of (ev_payload event) ''seller'') of
                  Some seller \<Rightarrow>
                    st1\<lparr>sessionLedger := (sessionLedger st)(ev_rfq event \<mapsto> entry1\<lparr>le_sellerDids := insert seller (le_sellerDids entry)\<rparr>),
                        uniqueSellers := insert seller (uniqueSellers st)\<rparr>
                | None \<Rightarrow> st1\<lparr>sessionLedger := (sessionLedger st)(ev_rfq event \<mapsto> entry1)\<rparr>))
      | COUNTER_SENT \<Rightarrow>
          let st1 = st\<lparr>totalCounters := totalCounters st + 1\<rparr> in
          (case sessionLedger st (ev_rfq event) of
             None \<Rightarrow> st1
           | Some entry \<Rightarrow> st1\<lparr>sessionLedger := (sessionLedger st)(ev_rfq event \<mapsto> entry\<lparr>le_counterCount := le_counterCount entry + 1\<rparr>)\<rparr>)
      | _ \<Rightarrow> st)"

definition deriveNextState :: "session_state \<Rightarrow> event_type \<Rightarrow> session_state option" where
  "deriveNextState current eventType =
     (case eventType of
        OFFER_SUBMITTED \<Rightarrow> if current = OPEN then Some NEGOTIATING else None
      | WINNER_SELECTED \<Rightarrow> Some COMMIT_PENDING
      | QUOTE_COMMITTED \<Rightarrow> Some COMMITTED
      | NEGOTIATION_EXPIRED \<Rightarrow> Some EXPIRED
      | NEGOTIATION_CANCELLED \<Rightarrow> Some CANCELLED
      | COSIGN_DECLINED \<Rightarrow> if current = COMMIT_PENDING then Some NEGOTIATING else None
      | COSIGN_TIMEOUT \<Rightarrow> if current = COMMIT_PENDING then Some NEGOTIATING else None
      | _ \<Rightarrow> None)"

text \<open>A transition of a session's entry: the code both paths have for it.\<close>

definition transition_stats ::
  "platform \<Rightarrow> negotiation_event \<Rightarrow> ledger_entry \<Rightarrow> session_state \<Rightarrow> 'x core_stats_scheme \<Rightarrow> 'x core_stats_scheme" where
  "transition_stats P event entry new st =
     (let st1 = st\<lparr>byState := move_state (le_state entry) new (byState st)\<rparr>; entry1 = entry\<lparr>le_state := new\<rparr> in
      if new \<in> set TERMINAL_STATES then
        st1\<lparr>terminalSessions := terminalSessions st + 1,
            totalDurationMs := totalDurationMs st + duration P (le_createdAt entry) (ev_time event),
            completedDeals := completedDeals st + (if new = COMMITTED then 1 else 0),
            sessionLedger := (sessionLedger st)(ev_rfq event \<mapsto> entry1\<lparr>le_sellerDids := {}\<rparr>)\<rparr>
      else st1\<lparr>sessionLedger := (sessionLedger st)(ev_rfq event \<mapsto> entry1)\<rparr>)"

definition new_entry :: "session_state \<Rightarrow> negotiation_event \<Rightarrow> ledger_entry" where
  "new_entry s event = \<lparr>le_state = s, le_createdAt = ev_time event, le_offerCount = 0, le_counterCount = 0, le_sellerDids = {}\<rparr>"

definition add_session :: "did \<Rightarrow> session_state \<Rightarrow> negotiation_event \<Rightarrow> 'x core_stats_scheme \<Rightarrow> 'x core_stats_scheme" where
  "add_session b s event st =
     st\<lparr>sessionLedger := (sessionLedger st)(ev_rfq event \<mapsto> new_entry s event), byState := (byState st)(s := byState st s + 1),
        uniqueBuyers := insert b (uniqueBuyers st)\<rparr>"

definition raw_transition :: "platform \<Rightarrow> negotiation_event \<Rightarrow> 'x core_stats_scheme \<Rightarrow> 'x core_stats_scheme" where
  "raw_transition P event st =
     (case sessionLedger st (ev_rfq event) of
        None \<Rightarrow> st
      | Some entry \<Rightarrow>
          processEventType event
            (case deriveNextState (le_state entry) (ev_type event) of
               Some new \<Rightarrow> if new \<noteq> le_state entry then transition_stats P event entry new st else st
             | None \<Rightarrow> st))"

definition processRawEvent :: "platform \<Rightarrow> negotiation_event \<Rightarrow> 'x core_stats_scheme \<Rightarrow> 'x core_stats_scheme" where
  "processRawEvent P event st =
     raw_transition P event (if ev_type event = RFQ_CREATED then add_session (ev_actor event) OPEN event st else st)"

text \<open>The constructor: every log of the store, session by session.\<close>

definition replay_stats :: "platform \<Rightarrow> millis \<Rightarrow> nat \<Rightarrow> string list \<Rightarrow> (string \<Rightarrow> negotiation_event list) \<Rightarrow> stats" where
  "replay_stats P now listings ids logs =
     fold (\<lambda>r st. fold (processRawEvent P) (logs r) st) ids (empty_stats now listings)"

definition rotate_once :: "stats \<Rightarrow> stats" where
  "rotate_once s = (let i = (currentBucketIdx s + 1) mod MINUTE_BUCKETS in s\<lparr>currentBucketIdx := i, minuteBuckets := (minuteBuckets s)[i := 0]\<rparr>)"

definition rotateMinuteBucket :: "millis \<Rightarrow> stats \<Rightarrow> stats" where
  "rotateMinuteBucket now st =
     (let elapsed = now - lastBucketRotation st in
      if elapsed \<ge> MINUTE_MS then
        let rotations = min (nat (elapsed div MINUTE_MS)) MINUTE_BUCKETS;
            st1 = (rotate_once ^^ rotations) st
        in st1\<lparr>lastBucketRotation := lastBucketRotation st + int rotations * MINUTE_MS\<rparr>
      else st)"

definition rotateHourly :: "millis \<Rightarrow> stats \<Rightarrow> stats" where
  "rotateHourly now st =
     (let elapsed = now - lastHourlyReset st in
      if elapsed \<ge> HOUR_MS then
        st\<lparr>newSessionsLastHour := 0, dealsLastHour := 0, lastHourlyReset := lastHourlyReset st + (elapsed div HOUR_MS) * HOUR_MS\<rparr>
      else st)"

definition onEvent :: "platform \<Rightarrow> millis \<Rightarrow> negotiation_event \<Rightarrow> derived_session \<Rightarrow> stats \<Rightarrow> stats" where
  "onEvent P now event session st =
     (let st1 = rotateHourly now (rotateMinuteBucket now st);
          st2 = st1\<lparr>minuteBuckets := (minuteBuckets st1)[currentBucketIdx st1 := minuteBuckets st1 ! currentBucketIdx st1 + 1]\<rparr>
      in processEventType event
           (case sessionLedger st2 (ev_rfq event) of
              None \<Rightarrow> (add_session (buyer (rfq session)) (state session) event st2)\<lparr>newSessionsLastHour := newSessionsLastHour st2 + 1\<rparr>
            | Some prev \<Rightarrow>
                if le_state prev \<noteq> state session then
                  (let st3 = transition_stats P event prev (state session) st2 in
                   if state session = COMMITTED then st3\<lparr>dealsLastHour := dealsLastHour st2 + 1\<rparr> else st3)
                else st2))"

text \<open>The whole numbers of \<open>DashboardStats\<close>; its averages and its uptime are not part of the record.\<close>

record dashboard_stats =
  active_sessions :: nat
  completed_deals :: nat
  total_sessions :: nat
  unique_buyers :: nat
  unique_sellers :: nat
  by_state :: "session_state \<Rightarrow> nat"
  total_offers :: nat
  total_counters :: nat
  listings_shown :: nat

definition getStats :: "stats \<Rightarrow> dashboard_stats" where
  "getStats st = \<lparr>active_sessions = byState st OPEN + byState st NEGOTIATING + byState st COMMIT_PENDING,
     completed_deals = completedDeals st, total_sessions = card (dom (sessionLedger st)),
     unique_buyers = card (uniqueBuyers st), unique_sellers = card (uniqueSellers st), by_state = byState st,
     total_offers = totalOffers st, total_counters = totalCounters st, listings_shown = listingCount st\<rparr>"

record dashboard_activity =
  events_per_minute :: "nat list"
  new_sessions_last_hour :: nat
  deals_last_hour :: nat
  bucket_anchor_ms :: millis

definition getActivity :: "millis \<Rightarrow> stats \<Rightarrow> dashboard_activity \<times> stats" where
  "getActivity now st =
     (let st1 = rotateHourly now (rotateMinuteBucket now st) in
      (\<lparr>events_per_minute = map (\<lambda>i. minuteBuckets st1 ! ((currentBucketIdx st1 + MINUTE_BUCKETS - i) mod MINUTE_BUCKETS)) [0..<MINUTE_BUCKETS],
        new_sessions_last_hour = newSessionsLastHour st1, deals_last_hour = dealsLastHour st1, bucket_anchor_ms = lastBucketRotation st1\<rparr>,
       st1))"

definition setListingCount :: "nat \<Rightarrow> stats \<Rightarrow> stats" where
  "setListingCount n st = st\<lparr>listingCount := n\<rparr>"

section \<open>The two paths agree\<close>

definition core :: "'x core_stats_scheme \<Rightarrow> core_stats" where
  "core st = \<lparr>uniqueBuyers = uniqueBuyers st, uniqueSellers = uniqueSellers st, totalOffers = totalOffers st, totalCounters = totalCounters st,
     completedDeals = completedDeals st, terminalSessions = terminalSessions st, totalDurationMs = totalDurationMs st,
     byState = byState st, sessionLedger = sessionLedger st\<rparr>"

lemma core_simps [simp]:
  "uniqueBuyers (core st) = uniqueBuyers st" "uniqueSellers (core st) = uniqueSellers st" "totalOffers (core st) = totalOffers st"
  "totalCounters (core st) = totalCounters st" "completedDeals (core st) = completedDeals st" "terminalSessions (core st) = terminalSessions st"
  "totalDurationMs (core st) = totalDurationMs st" "byState (core st) = byState st" "sessionLedger (core st) = sessionLedger st"
  by (simp_all add: core_def)

lemma core_step:
  "core (processEventType e st) = processEventType e (core st)"
  "core (transition_stats P e entry new st) = transition_stats P e entry new (core st)"
  "core (add_session b s e st) = add_session b s e (core st)"
  by (auto simp: core_def processEventType_def transition_stats_def add_session_def Let_def split: event_type.splits option.splits)

lemma core_raw: "core (processRawEvent P e st) = processRawEvent P e (core st)"
proof -
  have "core (raw_transition P e x) = raw_transition P e (core x)" for x :: "'a core_stats_scheme"
    by (cases "sessionLedger x (ev_rfq e)") (simp_all add: raw_transition_def core_step split: option.split)
  then show ?thesis by (simp add: processRawEvent_def core_step)
qed

lemma rotations_core: "core ((rotate_once ^^ n) st) = core st"
  by (induction n) (simp_all add: rotate_once_def Let_def core_def)

lemma clocks_core [simp]:
  "core (lastBucketRotation_update f st) = core st" "core (newSessionsLastHour_update g st) = core st" "core (dealsLastHour_update g st) = core st"
  "core (lastHourlyReset_update f st) = core st" "core (minuteBuckets_update h st) = core st" "core (listingCount_update g st) = core st"
  by (simp_all add: core_def)

lemma rotate_core [simp]: "core (rotateMinuteBucket now st) = core st" "core (rotateHourly now st) = core st"
  by (simp_all add: rotateMinuteBucket_def rotateHourly_def rotations_core Let_def)

text \<open>The simplified transition function agrees with the transition table wherever that allows the event.\<close>

lemma deriveNextState_table:
  "isValidTransition s t = Some s' \<Longrightarrow> (case deriveNextState s t of Some new \<Rightarrow> new | None \<Rightarrow> s) = s'"
  by (cases s; cases t) (simp_all add: deriveNextState_def)

section \<open>What the numbers mean\<close>

definition state_of :: "negotiation_event list \<Rightarrow> session_state option" where
  "state_of L = (case deriveState L of Inr (Some s) \<Rightarrow> Some (state s) | _ \<Rightarrow> None)"

definition over :: "negotiation_event list \<Rightarrow> bool" where
  "over L \<longleftrightarrow> (\<exists>s. state_of L = Some s \<and> s \<in> set TERMINAL_STATES)"

definition occurrences :: "event_type \<Rightarrow> negotiation_event list \<Rightarrow> nat" where
  "occurrences t L = length (filter (\<lambda>e. ev_type e = t) L)"

definition time_to_end :: "platform \<Rightarrow> negotiation_event list \<Rightarrow> int" where
  "time_to_end P L = sum_list (map (\<lambda>e. duration P (ev_time (hd L)) (ev_time e))
     (filter (\<lambda>e. ev_type e \<in> {QUOTE_COMMITTED, NEGOTIATION_EXPIRED, NEGOTIATION_CANCELLED}) L))"

definition sellers_in :: "negotiation_event list \<Rightarrow> did set" where
  "sellers_in L = {d. \<exists>e \<in> set L. ev_type e = OFFER_SUBMITTED \<and> as_string (map_of (ev_payload e) ''seller'') = Some d}"

definition entry_of :: "negotiation_event list \<Rightarrow> ledger_entry" where
  "entry_of L = \<lparr>le_state = the (state_of L), le_createdAt = ev_time (hd L), le_offerCount = occurrences OFFER_SUBMITTED L,
     le_counterCount = occurrences COUNTER_SENT L, le_sellerDids = (if over L then {} else sellers_in L)\<rparr>"

definition buyers_of :: "(string \<Rightarrow> negotiation_event list) \<Rightarrow> did set" where
  "buyers_of logs = {buyer (rfq s) | r s. deriveState (logs r) = Inr (Some s)}"

definition sellers_of :: "(string \<Rightarrow> negotiation_event list) \<Rightarrow> did set" where
  "sellers_of logs = (\<Union>r. sellers_in (logs r))"

definition tally :: "(negotiation_event list \<Rightarrow> 'n :: comm_monoid_add) \<Rightarrow> (string \<Rightarrow> negotiation_event list) \<Rightarrow> 'n" where
  "tally F logs = (\<Sum>r | logs r \<noteq> []. F (logs r))"

text \<open>The counters, read off the logs.\<close>

definition stats_of :: "platform \<Rightarrow> (string \<Rightarrow> negotiation_event list) \<Rightarrow> core_stats" where
  "stats_of P logs = \<lparr>
     uniqueBuyers = buyers_of logs, uniqueSellers = sellers_of logs,
     totalOffers = tally (occurrences OFFER_SUBMITTED) logs,
     totalCounters = tally (occurrences COUNTER_SENT) logs,
     completedDeals = tally (\<lambda>L. of_bool (state_of L = Some COMMITTED)) logs,
     terminalSessions = tally (\<lambda>L. of_bool (over L)) logs,
     totalDurationMs = tally (time_to_end P) logs,
     byState = (\<lambda>x. tally (\<lambda>L. of_bool (state_of L = Some x)) logs),
     sessionLedger = (\<lambda>r. if logs r = [] then None else Some (entry_of (logs r)))\<rparr>"

text \<open>Logs as the engine writes them: each replays, and the buyer created its session.\<close>

definition log_fine :: "string \<Rightarrow> negotiation_event list \<Rightarrow> bool" where
  "log_fine r L \<longleftrightarrow> L = [] \<or> (\<exists>s. deriveState L = Inr (Some s) \<and> ev_actor (hd L) = buyer (rfq s)) \<and> (\<forall>e \<in> set L. ev_rfq e = r)"

definition logs_fine :: "(string \<Rightarrow> negotiation_event list) \<Rightarrow> bool" where
  "logs_fine logs \<longleftrightarrow> finite {r. logs r \<noteq> []} \<and> (\<forall>r. log_fine r (logs r))"

lemma tally_update:
  assumes "finite {r. logs r \<noteq> []}" "F [] = (0 :: 'n :: {comm_monoid_add, cancel_semigroup_add})" "L' \<noteq> []"
  shows "tally F (logs(r := L')) + F (logs r) = tally F logs + F L'"
proof (cases "logs r = []")
  case True
  have "{r'. (logs(r := L')) r' \<noteq> []} = insert r {r'. logs r' \<noteq> []}" using assms(3) by auto
  moreover have "(\<Sum>r' | logs r' \<noteq> []. F ((logs(r := L')) r')) = tally F logs"
    using True by (auto simp: tally_def intro!: sum.cong)
  ultimately show ?thesis using assms True by (simp add: tally_def add.commute)
next
  case False
  let ?D = "{r'. logs r' \<noteq> []} - {r}"
  have d: "{r'. (logs(r := L')) r' \<noteq> []} = insert r ?D" "{r'. logs r' \<noteq> []} = insert r ?D" using assms(3) False by auto
  have same: "(\<Sum>r' \<in> ?D. F ((logs(r := L')) r')) = (\<Sum>r' \<in> ?D. F (logs r'))" by (rule sum.cong) auto
  have "tally F (logs(r := L')) = F L' + (\<Sum>r' \<in> ?D. F ((logs(r := L')) r'))"
    unfolding tally_def d(1) using assms(1) by (subst sum.insert) auto
  moreover have "tally F logs = F (logs r) + (\<Sum>r' \<in> ?D. F (logs r'))"
    unfolding tally_def by (subst d(2)) (use assms(1) in \<open>subst sum.insert; auto\<close>)
  ultimately show ?thesis by (simp add: same ac_simps)
qed

lemma tally_grows:
  assumes "finite {r. logs r \<noteq> []}" "F [] = (0 :: 'n :: {comm_monoid_add, cancel_semigroup_add})" "L' \<noteq> []" "F L' = F (logs r) + d"
  shows "tally F (logs(r := L')) = tally F logs + d"
proof -
  have "tally F (logs(r := L')) + F (logs r) = (tally F logs + d) + F (logs r)"
    using tally_update[where F = F and r = r, OF assms(1,2,3)] assms(4) by (simp add: ac_simps)
  then show ?thesis by simp
qed

lemma tally_first:
  assumes "finite {r. logs r \<noteq> []}" "logs r = []" "F [] = (0 :: 'n :: {comm_monoid_add, cancel_semigroup_add})" "L' \<noteq> []"
  shows "tally F (logs(r := L')) = tally F logs + F L'"
  using tally_grows[where F = F and d = "F L'" and r = r, OF assms(1,3,4)] assms(2,3) by simp

lemma sellers_update:
  assumes "sellers_in (logs r) \<subseteq> sellers_in L"
  shows "sellers_of (logs(r := L)) = sellers_of logs \<union> sellers_in L"
proof (rule set_eqI)
  fix x
  have "(\<exists>r'. x \<in> sellers_in ((logs(r := L)) r')) \<longleftrightarrow> x \<in> sellers_in L \<or> (\<exists>r'. r' \<noteq> r \<and> x \<in> sellers_in (logs r'))"
    by (metis fun_upd_apply)
  moreover have "(\<exists>r'. x \<in> sellers_in (logs r')) \<longleftrightarrow> x \<in> sellers_in (logs r) \<or> (\<exists>r'. r' \<noteq> r \<and> x \<in> sellers_in (logs r'))"
    by metis
  ultimately show "x \<in> sellers_of (logs(r := L)) \<longleftrightarrow> x \<in> sellers_of logs \<union> sellers_in L"
    using subsetD[OF assms, of x] unfolding sellers_of_def by blast
qed

lemma state_of_simps: "deriveState L = Inr (Some s) \<Longrightarrow> state_of L = Some (state s)" "state_of [] = None"
  by (simp_all add: state_of_def deriveState_def)

lemma first_event:
  assumes "deriveState [e] = Inr (Some s)"
  shows "ev_type e = RFQ_CREATED" "state s = OPEN"
  using assms by (auto simp: deriveState_def init_session_def Let_def split: if_splits)

text \<open>A new session.\<close>

lemma raw_first:
  assumes "logs_fine logs" "logs r = []" "log_fine r [e]"
  shows "processRawEvent P e (stats_of P logs) = stats_of P (logs(r := [e]))"
proof -
  obtain s where s: "deriveState [e] = Inr (Some s)" "ev_actor e = buyer (rfq s)" "ev_rfq e = r"
    using assms(3) by (auto simp: log_fine_def)
  note f = first_event[OF s(1)]
  have st: "state_of [e] = Some OPEN" using state_of_simps(1)[OF s(1)] f by simp
  have fin: "finite {r. logs r \<noteq> []}" using assms(1) by (simp add: logs_fine_def)
  have no: "\<not> over [e]" "\<not> over []" using st by (simp_all add: over_def TERMINAL_STATES_def state_of_simps)
  note tally0 = tally_first[OF fin assms(2)]
  have L: "occurrences OFFER_SUBMITTED [e] = 0" "occurrences COUNTER_SENT [e] = 0" "time_to_end P [e] = 0" "sellers_in [e] = {}"
    "occurrences t [] = 0" "time_to_end P [] = 0" "sellers_in [] = {}" for t
    using f by (simp_all add: occurrences_def time_to_end_def sellers_in_def)
  have buyers: "buyers_of (logs(r := [e])) = insert (ev_actor e) (buyers_of logs)"
  proof -
    have "r' \<noteq> r" if "deriveState (logs r') = Inr (Some x)" for r' x using that assms(2) by (auto simp: deriveState_def)
    then show ?thesis using s by (auto simp: buyers_of_def split: if_splits)
  qed
  have sellers: "sellers_of (logs(r := [e])) = sellers_of logs"
    using sellers_update[of logs r "[e]"] L(4,7) assms(2) by simp
  have "processRawEvent P e (stats_of P logs) = add_session (ev_actor e) OPEN e (stats_of P logs)"
    using f by (simp add: processRawEvent_def raw_transition_def add_session_def new_entry_def deriveNextState_def processEventType_def)
  also have "\<dots> = stats_of P (logs(r := [e]))"
    using s(3) st no
    by (auto simp: stats_of_def add_session_def buyers sellers tally0 L state_of_simps new_entry_def entry_of_def fun_eq_iff)
  finally show ?thesis .
qed

text \<open>A further event of a session: what it changes in each of the counters.\<close>

lemma step_facts:
  assumes "logs_fine logs" "logs r \<noteq> []" "log_fine r (logs r @ [e])"
  obtains s0 s where "deriveState (logs r) = Inr (Some s0)" "deriveState (logs r @ [e]) = Inr (Some s)" "rfq s = rfq s0" "ev_rfq e = r"
    "isValidTransition (state s0) (ev_type e) = Some (state s)" "state_of (logs r) = Some (state s0)" "state_of (logs r @ [e]) = Some (state s)"
proof -
  obtain s0 where s0: "deriveState (logs r) = Inr (Some s0)" using assms(1,2) by (auto simp: logs_fine_def log_fine_def)
  obtain s where s: "deriveState (logs r @ [e]) = Inr (Some s)" "ev_rfq e = r" using assms(3) by (auto simp: log_fine_def)
  note a = deriveState_snocD[OF s0 s(1)]
  show ?thesis
    by (rule that[OF s0 s(1) apply_event_rfq[OF a] s(2) apply_event_transition[OF a] state_of_simps(1)[OF s0] state_of_simps(1)[OF s(1)]])
qed

lemma log_snoc:
  assumes "L \<noteq> []"
  shows "occurrences t (L @ [e]) = occurrences t L + of_bool (ev_type e = t)"
    "time_to_end P (L @ [e]) = time_to_end P L +
       (if ev_type e \<in> {QUOTE_COMMITTED, NEGOTIATION_EXPIRED, NEGOTIATION_CANCELLED} then duration P (ev_time (hd L)) (ev_time e) else 0)"
    "sellers_in (L @ [e]) = sellers_in L \<union> (if ev_type e = OFFER_SUBMITTED then {d. as_string (map_of (ev_payload e) ''seller'') = Some d} else {})"
  using assms by (auto simp: occurrences_def time_to_end_def sellers_in_def)

lemma buyers_update:
  assumes "deriveState (logs r) = Inr (Some s0)" "deriveState (logs r @ [e]) = Inr (Some s)" "rfq s = rfq s0"
  shows "buyers_of (logs(r := logs r @ [e])) = buyers_of logs" (is "?A = ?B")
proof
  show "?A \<subseteq> ?B" using assms by (auto simp: buyers_of_def split: if_splits)
  show "?B \<subseteq> ?A"
  proof
    fix b assume "b \<in> ?B"
    then obtain r' x where x: "deriveState (logs r') = Inr (Some x)" "b = buyer (rfq x)" by (auto simp: buyers_of_def)
    show "b \<in> ?A"
    proof (cases "r' = r")
      case True
      then show ?thesis using x assms by (auto simp: buyers_of_def intro!: exI[of _ r] exI[of _ s])
    next
      case False
      then show ?thesis using x by (auto simp: buyers_of_def intro!: exI[of _ r'] exI[of _ x])
    qed
  qed
qed

lemma state_count:
  assumes "finite {r. logs r \<noteq> []}" "logs r \<noteq> []" "state_of (logs r) = Some x" "state_of (logs r @ [e]) = Some y"
  shows "(\<lambda>z. tally (\<lambda>L. of_bool (state_of L = Some z)) (logs(r := logs r @ [e])) :: nat) =
     (if x = y then (\<lambda>z. tally (\<lambda>L. of_bool (state_of L = Some z)) logs)
      else move_state x y (\<lambda>z. tally (\<lambda>L. of_bool (state_of L = Some z)) logs))"
proof
  fix z
  let ?F = "\<lambda>z L. of_bool (state_of L = Some z) :: nat"
  have u: "tally (?F z) (logs(r := logs r @ [e])) + ?F z (logs r) = tally (?F z) logs + ?F z (logs r @ [e])"
    by (rule tally_update[OF assms(1)]) (simp_all add: state_of_simps)
  have "?F x (logs r) \<le> tally (?F x) logs"
    unfolding tally_def by (rule member_le_sum) (use assms(1,2) in auto)
  then show "tally (?F z) (logs(r := logs r @ [e])) =
      (if x = y then (\<lambda>z. tally (?F z) logs) else move_state x y (\<lambda>z. tally (?F z) logs)) z"
    using u assms(3,4) by (cases "z = x"; cases "z = y") (auto simp: move_state_def)
qed

lemma flag_count:
  assumes "finite {r. logs r \<noteq> []}" "\<not> Q []" "Q (logs r @ [e]) \<longleftrightarrow> Q (logs r) \<or> new" "new \<longrightarrow> \<not> Q (logs r)"
  shows "(tally (\<lambda>L. of_bool (Q L)) (logs(r := logs r @ [e])) :: nat) = tally (\<lambda>L. of_bool (Q L)) logs + of_bool new"
  by (rule tally_grows[OF assms(1)]) (use assms(2-4) in auto)

lemma occurrence_count:
  assumes "finite {r. logs r \<noteq> []}" "logs r \<noteq> []"
  shows "tally (occurrences t) (logs(r := logs r @ [e])) = tally (occurrences t) logs + of_bool (ev_type e = t)"
  by (rule tally_grows[OF assms(1)]) (simp_all add: log_snoc(1)[OF assms(2)], simp add: occurrences_def)

lemma duration_count:
  assumes "finite {r. logs r \<noteq> []}" "logs r \<noteq> []"
  shows "tally (time_to_end P) (logs(r := logs r @ [e])) = tally (time_to_end P) logs +
     (if ev_type e \<in> {QUOTE_COMMITTED, NEGOTIATION_EXPIRED, NEGOTIATION_CANCELLED} then duration P (ev_time (hd (logs r))) (ev_time e) else 0)"
  by (rule tally_grows[OF assms(1)]) (simp_all add: log_snoc(2)[OF assms(2)], simp add: time_to_end_def)

lemma over_iff: "state_of L = Some s \<Longrightarrow> over L \<longleftrightarrow> s \<in> {COMMITTED, EXPIRED, CANCELLED}"
  by (auto simp: over_def TERMINAL_STATES_def)

lemma stats_ledger: "logs r \<noteq> [] \<Longrightarrow> sessionLedger (stats_of P logs) r = Some (entry_of (logs r))"
  by (simp add: stats_of_def)

text \<open>The counters after one more event of a session, spelled out.\<close>

lemma stats_step:
  assumes "logs_fine logs" "logs r \<noteq> []" "log_fine r (logs r @ [e])" "state_of (logs r) = Some s0" "state_of (logs r @ [e]) = Some s"
    "isValidTransition s0 (ev_type e) = Some s"
  shows "totalOffers (stats_of P (logs(r := logs r @ [e]))) = totalOffers (stats_of P logs) + of_bool (ev_type e = OFFER_SUBMITTED)"
    "totalCounters (stats_of P (logs(r := logs r @ [e]))) = totalCounters (stats_of P logs) + of_bool (ev_type e = COUNTER_SENT)"
    "completedDeals (stats_of P (logs(r := logs r @ [e]))) = completedDeals (stats_of P logs) + of_bool (s \<noteq> s0 \<and> s = COMMITTED)"
    "terminalSessions (stats_of P (logs(r := logs r @ [e]))) = terminalSessions (stats_of P logs) + of_bool (s \<noteq> s0 \<and> s \<in> set TERMINAL_STATES)"
    "totalDurationMs (stats_of P (logs(r := logs r @ [e]))) = totalDurationMs (stats_of P logs) +
       (if s \<noteq> s0 \<and> s \<in> set TERMINAL_STATES then duration P (ev_time (hd (logs r))) (ev_time e) else 0)"
    "byState (stats_of P (logs(r := logs r @ [e]))) = (if s0 = s then byState (stats_of P logs) else move_state s0 s (byState (stats_of P logs)))"
    "uniqueBuyers (stats_of P (logs(r := logs r @ [e]))) = uniqueBuyers (stats_of P logs)"
    "uniqueSellers (stats_of P (logs(r := logs r @ [e]))) = uniqueSellers (stats_of P logs) \<union>
       (if ev_type e = OFFER_SUBMITTED then {d. as_string (map_of (ev_payload e) ''seller'') = Some d} else {})"
    "sessionLedger (stats_of P (logs(r := logs r @ [e]))) = (sessionLedger (stats_of P logs))(r \<mapsto> entry_of (logs r @ [e]))"
proof -
  have fin: "finite {r. logs r \<noteq> []}" using assms(1) by (simp add: logs_fine_def)
  note tc = transition_cases[OF assms(6)]
  note ov = over_iff[OF assms(4)] over_iff[OF assms(5)]
  show "totalOffers (stats_of P (logs(r := logs r @ [e]))) = totalOffers (stats_of P logs) + of_bool (ev_type e = OFFER_SUBMITTED)"
    "totalCounters (stats_of P (logs(r := logs r @ [e]))) = totalCounters (stats_of P logs) + of_bool (ev_type e = COUNTER_SENT)"
    by (simp_all add: stats_of_def occurrence_count[OF fin assms(2)])
  show "completedDeals (stats_of P (logs(r := logs r @ [e]))) = completedDeals (stats_of P logs) + of_bool (s \<noteq> s0 \<and> s = COMMITTED)"
    using flag_count[OF fin, of "\<lambda>L. state_of L = Some COMMITTED" r e "s \<noteq> s0 \<and> s = COMMITTED"] assms(4,5) tc
    by (auto simp: stats_of_def state_of_simps)
  show "terminalSessions (stats_of P (logs(r := logs r @ [e]))) = terminalSessions (stats_of P logs) + of_bool (s \<noteq> s0 \<and> s \<in> set TERMINAL_STATES)"
    using flag_count[OF fin, of over r e "s \<noteq> s0 \<and> s \<in> set TERMINAL_STATES"] ov tc
    by (auto simp: stats_of_def over_def[of "[]"] state_of_simps TERMINAL_STATES_def)
  show "totalDurationMs (stats_of P (logs(r := logs r @ [e]))) = totalDurationMs (stats_of P logs) +
       (if s \<noteq> s0 \<and> s \<in> set TERMINAL_STATES then duration P (ev_time (hd (logs r))) (ev_time e) else 0)"
    using tc by (auto simp: stats_of_def duration_count[OF fin assms(2)] TERMINAL_STATES_def)
  show "byState (stats_of P (logs(r := logs r @ [e]))) = (if s0 = s then byState (stats_of P logs) else move_state s0 s (byState (stats_of P logs)))"
    using state_count[OF fin assms(2,4,5)] by (simp add: stats_of_def)
  show "uniqueBuyers (stats_of P (logs(r := logs r @ [e]))) = uniqueBuyers (stats_of P logs)"
    using step_facts[OF assms(1-3)] buyers_update[of logs r _ e] by (simp add: stats_of_def) metis
  show "uniqueSellers (stats_of P (logs(r := logs r @ [e]))) = uniqueSellers (stats_of P logs) \<union>
       (if ev_type e = OFFER_SUBMITTED then {d. as_string (map_of (ev_payload e) ''seller'') = Some d} else {})"
    using sellers_update[of logs r "logs r @ [e]"] log_snoc(3)[OF assms(2), of e]
    by (auto simp: stats_of_def sellers_of_def)
  show "sessionLedger (stats_of P (logs(r := logs r @ [e]))) = (sessionLedger (stats_of P logs))(r \<mapsto> entry_of (logs r @ [e]))"
    by (auto simp: stats_of_def)
qed

text \<open>What both paths do with an event of a session they know, once the new state is known.\<close>

definition session_step :: "platform \<Rightarrow> negotiation_event \<Rightarrow> ledger_entry \<Rightarrow> session_state \<Rightarrow> 'x core_stats_scheme \<Rightarrow> 'x core_stats_scheme" where
  "session_step P e entry new st =
     processEventType e (if new \<noteq> le_state entry then transition_stats P e entry new st else st)"

lemma entry_snoc:
  assumes "L \<noteq> []" "state_of L = Some s0" "state_of (L @ [e]) = Some s"
  shows "entry_of (L @ [e]) = \<lparr>le_state = s, le_createdAt = ev_time (hd L),
      le_offerCount = occurrences OFFER_SUBMITTED L + of_bool (ev_type e = OFFER_SUBMITTED),
      le_counterCount = occurrences COUNTER_SENT L + of_bool (ev_type e = COUNTER_SENT),
      le_sellerDids = (if s \<in> {COMMITTED, EXPIRED, CANCELLED} then {} else sellers_in L \<union>
        (if ev_type e = OFFER_SUBMITTED then {d. as_string (map_of (ev_payload e) ''seller'') = Some d} else {}))\<rparr>"
    "entry_of L = \<lparr>le_state = s0, le_createdAt = ev_time (hd L), le_offerCount = occurrences OFFER_SUBMITTED L,
      le_counterCount = occurrences COUNTER_SENT L, le_sellerDids = (if s0 \<in> {COMMITTED, EXPIRED, CANCELLED} then {} else sellers_in L)\<rparr>"
  by (simp_all add: entry_of_def over_iff[OF assms(2)] over_iff[OF assms(3)] assms(2,3) log_snoc[OF assms(1)] hd_append assms(1))

lemma session_step_stats:
  assumes "logs_fine logs" "logs r \<noteq> []" "log_fine r (logs r @ [e])" "state_of (logs r) = Some s0" "state_of (logs r @ [e]) = Some s"
    "isValidTransition s0 (ev_type e) = Some s" "ev_rfq e = r"
  shows "session_step P e (entry_of (logs r)) s (stats_of P logs) = stats_of P (logs(r := logs r @ [e]))"
proof -
  note es = entry_snoc[OF assms(2,4,5)]
  note led = stats_ledger[where logs = logs and P = P, OF assms(2)]
  note ss = stats_step[OF assms(1-6)] session_step_def processEventType_def es assms(7) led
  consider (offer) "ev_type e = OFFER_SUBMITTED" "s = NEGOTIATING" "s0 = OPEN \<or> s0 = NEGOTIATING"
    | (counter) "ev_type e = COUNTER_SENT" "s = NEGOTIATING" "s0 = NEGOTIATING"
    | (stay) "s = s0" "ev_type e \<noteq> OFFER_SUBMITTED" "ev_type e \<noteq> COUNTER_SENT"
    | (move) "s \<noteq> s0" "s0 \<notin> set TERMINAL_STATES" "ev_type e \<noteq> OFFER_SUBMITTED" "ev_type e \<noteq> COUNTER_SENT"
    using transition_cases[OF assms(6)] by (auto simp: TERMINAL_STATES_def)
  then show ?thesis
  proof cases
    case offer
    have none: "{d. map_of (ev_payload e) ''seller'' = Some (JStr d)} = {}" if "as_string (map_of (ev_payload e) ''seller'') = None"
      using that by auto
    show ?thesis using offer none
      by (intro core_stats.equality; cases "as_string (map_of (ev_payload e) ''seller'')")
        (auto simp: ss transition_stats_def TERMINAL_STATES_def Let_def)
  next
    case counter
    then show ?thesis by (intro core_stats.equality) (simp_all add: ss Let_def)
  next
    case stay
    then have "processEventType e x = x" for x :: core_stats by (simp add: processEventType_def split: event_type.split)
    then show ?thesis using stay by (intro core_stats.equality) (simp_all add: ss(1-10) ss(12-) fun_upd_idem)
  next
    case move
    then have "processEventType e x = x" for x :: core_stats by (simp add: processEventType_def split: event_type.split)
    then show ?thesis using move
      by (intro core_stats.equality) (simp_all add: ss(1-10) ss(12-) transition_stats_def TERMINAL_STATES_def Let_def)
  qed
qed

lemma raw_step:
  assumes "logs_fine logs" "log_fine r (logs r @ [e])"
  shows "processRawEvent P e (stats_of P logs) = stats_of P (logs(r := logs r @ [e]))"
proof (cases "logs r = []")
  case True
  then show ?thesis using raw_first[OF assms(1) True] assms(2) by simp
next
  case False
  obtain s0 s :: derived_session where s: "ev_rfq e = r" "isValidTransition (state s0) (ev_type e) = Some (state s)"
    "state_of (logs r) = Some (state s0)" "state_of (logs r @ [e]) = Some (state s)"
    by (rule step_facts[where logs = logs, OF assms(1) False assms(2)]) (blast intro: that)
  have "processRawEvent P e (stats_of P logs) = session_step P e (entry_of (logs r)) (state s) (stats_of P logs)"
    using deriveNextState_table[OF s(2)] transition_cases[OF s(2)] stats_ledger[where logs = logs and P = P, OF False] entry_snoc(2)[OF False s(3,4)]
    by (auto simp: processRawEvent_def raw_transition_def session_step_def s(1) deriveNextState_def)
  then show ?thesis using session_step_stats[OF assms(1) False assms(2) s(3,4,2,1)] by simp
qed

lemma core_onEvent:
  "core (onEvent P now e s st) = processEventType e
     (case sessionLedger st (ev_rfq e) of
        None \<Rightarrow> add_session (buyer (rfq s)) (state s) e (core st)
      | Some prev \<Rightarrow> if le_state prev \<noteq> state s then transition_stats P e prev (state s) (core st) else core st)"
proof -
  let ?st = "rotateHourly now (rotateMinuteBucket now st)"
  have "sessionLedger ?st = sessionLedger st" using core_simps(9)[of ?st] core_simps(9)[of st] by simp
  then show ?thesis by (auto simp: onEvent_def Let_def core_step split: option.split)
qed

lemma core_ledger: "core st = stats_of P logs \<Longrightarrow> sessionLedger st r = (if logs r = [] then None else Some (entry_of (logs r)))"
  by (drule arg_cong[where f = sessionLedger]) (simp add: stats_of_def)

lemma live_step:
  assumes "core st = stats_of P logs" "logs_fine logs" "log_fine r (logs r @ [e])" "deriveState (logs r @ [e]) = Inr (Some s)"
  shows "core (onEvent P now e s st) = stats_of P (logs(r := logs r @ [e]))"
proof (cases "logs r = []")
  case True
  note f = first_event[OF assms(4)[unfolded True append_Nil]]
  have e: "ev_actor e = buyer (rfq s)" "ev_rfq e = r" using assms(3,4) True by (auto simp: log_fine_def)
  have "sessionLedger st r = None" using core_ledger[OF assms(1)] True by simp
  then have "core (onEvent P now e s st) = processRawEvent P e (stats_of P logs)"
    using f e by (simp add: core_onEvent processRawEvent_def raw_transition_def add_session_def new_entry_def deriveNextState_def
        processEventType_def assms(1))
  then show ?thesis using raw_step[OF assms(2,3)] by simp
next
  case False
  obtain s0 s1 :: derived_session where s: "ev_rfq e = r" "isValidTransition (state s0) (ev_type e) = Some (state s1)"
    "state_of (logs r) = Some (state s0)" "state_of (logs r @ [e]) = Some (state s1)"
    by (rule step_facts[where logs = logs, OF assms(2) False assms(3)]) (blast intro: that)
  have s1: "state s1 = state s" using s(4) state_of_simps(1)[OF assms(4)] by simp
  have "sessionLedger st r = Some (entry_of (logs r))" using core_ledger[OF assms(1)] False by simp
  then have "core (onEvent P now e s st) = session_step P e (entry_of (logs r)) (state s1) (stats_of P logs)"
    using s1 by (auto simp: core_onEvent session_step_def s(1) assms(1))
  then show ?thesis using session_step_stats[OF assms(2) False assms(3) s(3,4,2,1)] by simp
qed

section \<open>Restarts\<close>

lemma log_fine_prefix:
  assumes "log_fine r (L @ [e])"
  shows "log_fine r L"
proof (cases "L = []")
  case False
  obtain s where s: "deriveState (L @ [e]) = Inr (Some s)" "ev_actor (hd L) = buyer (rfq s)" "\<forall>x \<in> set L. ev_rfq x = r"
    using assms False by (auto simp: log_fine_def hd_append)
  then obtain s0 where "deriveState L = Inr (Some s0)" "apply_event s0 e = Inr s"
    using deriveState_None[of L] False by (cases "deriveState L") (auto simp: deriveState_snoc[OF False])
  then show ?thesis using s apply_event_rfq by (auto simp: log_fine_def)
qed (simp add: log_fine_def)

lemma logs_fine_update: "logs_fine logs \<Longrightarrow> log_fine r L \<Longrightarrow> logs_fine (logs(r := L))"
  by (auto simp: logs_fine_def elim!: rev_finite_subset[of "insert r {r. logs r \<noteq> []}", OF finite.insertI])

lemma replay_session:
  "logs_fine logs \<Longrightarrow> logs r = [] \<Longrightarrow> log_fine r L \<Longrightarrow> fold (processRawEvent P) L (stats_of P logs) = stats_of P (logs(r := L))"
proof (induction L rule: rev_induct)
  case (snoc e L)
  have L: "log_fine r L" by (rule log_fine_prefix[OF snoc.prems(3)])
  have "processRawEvent P e (stats_of P (logs(r := L))) = stats_of P ((logs(r := L))(r := (logs(r := L)) r @ [e]))"
    by (rule raw_step[OF logs_fine_update[OF snoc.prems(1) L]]) (use snoc.prems(3) in simp)
  then show ?case unfolding fold_append comp_apply snoc.IH[OF snoc.prems(1,2) L] by (simp only: fold_simps fun_upd_same fun_upd_upd)
qed (simp add: fun_upd_idem)

lemma core_fold: "core (fold (processRawEvent P) L st) = fold (processRawEvent P) L (core st)"
  by (induction L arbitrary: st) (simp_all add: core_raw)

lemma core_empty: "core (empty_stats now n) = stats_of P (\<lambda>_. [])"
  by (simp add: core_def empty_stats_def stats_of_def tally_def buyers_of_def sellers_of_def sellers_in_def deriveState_def)

lemma core_replay:
  assumes "logs_fine logs" "distinct ids" "{r. logs r \<noteq> []} \<subseteq> set ids"
  shows "core (replay_stats P now n ids logs) = stats_of P logs"
proof -
  have "core (fold (\<lambda>r. fold (processRawEvent P) (logs r)) ids (empty_stats now n)) = stats_of P (\<lambda>r. if r \<in> set ids then logs r else [])
      \<and> logs_fine (\<lambda>r. if r \<in> set ids then logs r else [])"
    using assms(2)
  proof (induction ids rule: rev_induct)
    case Nil
    show ?case by (simp add: core_empty[of now n P] logs_fine_def log_fine_def)
  next
    case (snoc r ids)
    let ?L = "\<lambda>x. if x \<in> set ids then logs x else []"
    have r: "log_fine r (logs r)" "?L r = []" "(\<lambda>x. if x \<in> set (ids @ [r]) then logs x else []) = ?L(r := logs r)"
      using snoc.prems assms(1) by (auto simp: logs_fine_def)
    show ?case unfolding r(3)
      using snoc replay_session[of ?L r "logs r" P, OF _ r(2,1)] logs_fine_update[of ?L r "logs r", OF _ r(1)]
      by (simp add: core_fold)
  qed
  moreover have "(\<lambda>r. if r \<in> set ids then logs r else []) = logs" using assms(3) by (simp add: fun_eq_iff subset_iff) metis
  ultimately show ?thesis by (simp add: replay_stats_def)
qed

section \<open>The collector beside the engine\<close>

text \<open>
  A collector is created from the logs and then told of every event the engine appends
  (\<open>sessionManager.onAppend\<close>); the dashboard reads it and the listing count is set at any time.
\<close>

inductive watched :: "engine_config \<Rightarrow> engine \<Rightarrow> stats \<Rightarrow> bool" for cf where
  boot: "engine_reach cf e \<Longrightarrow> distinct ids \<Longrightarrow> set ids = {r. events_in (eg_mgr e) r \<noteq> []} \<Longrightarrow>
     watched cf e (replay_stats (cf_platform cf) now n ids (events_in (eg_mgr e)))"
| quiet: "watched cf e st \<Longrightarrow> engine_step cf e e' \<Longrightarrow> events_in (eg_mgr e') = events_in (eg_mgr e) \<Longrightarrow> watched cf e' st"
| append: "watched cf e st \<Longrightarrow> engine_step cf e e' \<Longrightarrow>
     events_in (eg_mgr e') = (events_in (eg_mgr e))(r := events_in (eg_mgr e) r @ [ev]) \<Longrightarrow>
     deriveState (events_in (eg_mgr e') r) = Inr (Some s) \<Longrightarrow> watched cf e' (onEvent (cf_platform cf) now ev s st)"
| activity: "watched cf e st \<Longrightarrow> watched cf e (snd (getActivity now st))"
| listings: "watched cf e st \<Longrightarrow> watched cf e (setListingCount n st)"

lemma engine_logs_fine:
  assumes "engine_reach cf e"
  shows "logs_fine (events_in (eg_mgr e))"
proof -
  let ?m = "eg_mgr e"
  have ok: "engine_ok cf e" by (rule engine_reach_ok[OF assms])
  have "{r. events_in ?m r \<noteq> []} \<subseteq> fst ` set (es_events (sm_store ?m))"
    by (auto simp: events_in_def getAllEvents_def split: option.splits dest!: map_of_SomeD intro!: image_eqI)
  then have "finite {r. events_in ?m r \<noteq> []}" by (rule finite_subset) simp
  moreover have "log_fine r (events_in ?m r)" for r
  proof (cases "events_in ?m r = []")
    case False
    have l: "legal_in cf (eg_listings e) r (events_in ?m r)" using ok by (simp add: engine_ok_def)
    obtain s where s: "deriveState (events_in ?m r) = Inr (Some s)" using legal_log_derives[OF l False] by blast
    have "\<forall>x \<in> set (events_in ?m r). ev_rfq x = r"
      using ok by (simp add: engine_ok_def manager_ok_def store_ids_ok_def events_in_def)
    then show ?thesis using s creator.legal[OF l s] by (auto simp: log_fine_def creator_is_buyer_def)
  qed (simp add: log_fine_def)
  ultimately show ?thesis by (simp add: logs_fine_def)
qed

lemma watched_core: "watched cf e st \<Longrightarrow> engine_reach cf e \<and> core st = stats_of (cf_platform cf) (events_in (eg_mgr e))"
proof (induction rule: watched.induct)
  case (boot e ids now n)
  then show ?case using core_replay[OF engine_logs_fine[OF boot(1)] boot(2)] by simp
next
  case (quiet e st e')
  then show ?case using engine_reach.step by auto
next
  case (append e st e' r ev s now)
  let ?logs = "events_in (eg_mgr e)"
  have e: "engine_reach cf e" "core st = stats_of (cf_platform cf) ?logs" using append.IH by simp_all
  have e': "engine_reach cf e'" by (rule engine_reach.step[OF e(1) append.hyps(2)])
  have new: "events_in (eg_mgr e') r = ?logs r @ [ev]" using append.hyps(3) by simp
  have "log_fine r (?logs r @ [ev])" using engine_logs_fine[OF e'] unfolding logs_fine_def new[symmetric] by blast
  then have "core (onEvent (cf_platform cf) now ev s st) = stats_of (cf_platform cf) (?logs(r := ?logs r @ [ev]))"
    using live_step[where logs = ?logs and r = r, OF e(2) engine_logs_fine[OF e(1)] _ append.hyps(4)[unfolded new]] by blast
  then show ?case using e' unfolding append.hyps(3) by blast
next
  case (activity e st now)
  then show ?case by (simp add: getActivity_def Let_def)
qed (simp add: setListingCount_def)

lemma watched_exists: "engine_reach cf e \<Longrightarrow> \<exists>st. watched cf e st"
proof (induction rule: engine_reach.induct)
  case start
  have "engine_reach cf engine_start" by (rule engine_reach.start)
  moreover have "set [] = {r. events_in (eg_mgr engine_start) r \<noteq> []}"
    by (simp add: engine_start_def events_in_def new_manager_def empty_store_def getAllEvents_def)
  ultimately show ?case using watched.boot[of cf engine_start "[]"] distinct.simps(1) by blast
next
  case (step e e')
  then obtain st where st: "watched cf e st" by blast
  show ?case
    using step_mgr[OF step(2) engine_reach_ok[OF step(1)]] watched.quiet[OF st step(2)] watched.append[OF st step(2)]
    unfolding mgr_step_def evolves_def by (metis fun_upd_same)
qed

lemma tally_flags: "finite {r. logs r \<noteq> []} \<Longrightarrow> \<not> Q [] \<Longrightarrow> (tally (\<lambda>L. of_bool (Q L)) logs :: nat) = card {r. Q (logs r)}"
proof -
  assume *: "finite {r. logs r \<noteq> []}" "\<not> Q []"
  then have "{r. logs r \<noteq> []} \<inter> {r. Q (logs r)} = {r. Q (logs r)}" by auto
  then show ?thesis using *(1) by (simp add: tally_def)
qed

lemma in_state_iff: "state_of L = Some x \<longleftrightarrow> (\<exists>s. deriveState L = Inr (Some s) \<and> state s = x)"
  by (auto simp: state_of_def split: sum.splits option.splits)

text \<open>
  C26. The dashboard shows the truth, before and after a restart: whatever the engine did since
  the collector was created, the dashboard counts the sessions of the logs, those in each state
  and those still active, and the offers and counters of all the logs; and a collector made from the
  logs after a restart has the same counters, the same sets of buyers and sellers and the same
  ledger as the one that was told of every event.
\<close>

theorem dashboard_correct:
  assumes "watched cf e st" "distinct ids" "set ids = {r. events_in (eg_mgr e) r \<noteq> []}"
  shows "total_sessions (getStats st) = length ids \<and>
    by_state (getStats st) x = card {r. \<exists>s. deriveState (events_in (eg_mgr e) r) = Inr (Some s) \<and> state s = x} \<and>
    active_sessions (getStats st) =
      card {r. \<exists>s. deriveState (events_in (eg_mgr e) r) = Inr (Some s) \<and> state s \<notin> set TERMINAL_STATES} \<and>
    completed_deals (getStats st) = card {r. \<exists>s. deriveState (events_in (eg_mgr e) r) = Inr (Some s) \<and> state s = COMMITTED} \<and>
    total_offers (getStats st) = (\<Sum>r \<leftarrow> ids. occurrences OFFER_SUBMITTED (events_in (eg_mgr e) r)) \<and>
    total_counters (getStats st) = (\<Sum>r \<leftarrow> ids. occurrences COUNTER_SENT (events_in (eg_mgr e) r)) \<and>
    core (replay_stats (cf_platform cf) now n ids (events_in (eg_mgr e))) = core st"
proof -
  let ?P = "cf_platform cf" and ?logs = "events_in (eg_mgr e)"
  have w: "engine_reach cf e" "core st = stats_of ?P ?logs" using watched_core[OF assms(1)] by simp_all
  have fine: "logs_fine ?logs" "finite {r. ?logs r \<noteq> []}" using engine_logs_fine[OF w(1)] by (simp_all add: logs_fine_def)
  have b: "byState st x = card {r. state_of (?logs r) = Some x}" for x
    using tally_flags[OF fine(2), of "\<lambda>L. state_of L = Some x"] arg_cong[OF w(2), of byState]
    by (simp add: stats_of_def state_of_simps)
  have fs: "finite {r. state_of (?logs r) = Some x}" for x
    by (rule finite_subset[OF _ fine(2)]) (auto simp: state_of_simps)
  have "{r. \<exists>s. deriveState (?logs r) = Inr (Some s) \<and> state s \<notin> set TERMINAL_STATES} =
      {r. state_of (?logs r) = Some OPEN} \<union> ({r. state_of (?logs r) = Some NEGOTIATING} \<union> {r. state_of (?logs r) = Some COMMIT_PENDING})"
    using in_state_iff session_state.exhaust by (auto simp: TERMINAL_STATES_def) metis
  then have active: "active_sessions (getStats st) =
      card {r. \<exists>s. deriveState (?logs r) = Inr (Some s) \<and> state s \<notin> set TERMINAL_STATES}"
    by (simp add: getStats_def b) (subst card_Un_disjoint; auto simp: fs)+
  have "dom (sessionLedger st) = set ids" using core_ledger[OF w(2)] assms(3) by (auto simp: dom_def)
  then have total: "total_sessions (getStats st) = length ids" using assms(2) by (simp add: getStats_def distinct_card)
  have done_: "completedDeals st = byState st COMMITTED"
    using arg_cong[OF w(2), of completedDeals] arg_cong[OF w(2), of byState] by (simp add: stats_of_def)
  have sums: "tally F ?logs = (\<Sum>r \<leftarrow> ids. F (?logs r))" for F :: "_ \<Rightarrow> nat"
    unfolding tally_def assms(3)[symmetric] by (rule sum.distinct_set_conv_list[OF assms(2)])
  have offers: "totalOffers st = tally (occurrences OFFER_SUBMITTED) ?logs" "totalCounters st = tally (occurrences COUNTER_SENT) ?logs"
    using arg_cong[OF w(2), of totalOffers] arg_cong[OF w(2), of totalCounters] by (simp_all add: stats_of_def)
  show ?thesis using active total core_replay[OF fine(1) assms(2), of ?P now n] w(2) assms(3)
    by (simp add: getStats_def b done_ in_state_iff offers sums)
qed

section \<open>The activity buckets\<close>

definition buckets_ok :: "stats \<Rightarrow> bool" where
  "buckets_ok st \<longleftrightarrow> length (minuteBuckets st) = MINUTE_BUCKETS \<and> currentBucketIdx st < MINUTE_BUCKETS"

lemma buckets_start: "buckets_ok (empty_stats now n)"
  by (simp add: buckets_ok_def empty_stats_def MINUTE_BUCKETS_def)

lemma rotate_once_fields:
  "minuteBuckets (rotate_once st) = (minuteBuckets st)[(currentBucketIdx st + 1) mod 5 := 0]"
  "currentBucketIdx (rotate_once st) = (currentBucketIdx st + 1) mod 5"
  by (simp_all add: rotate_once_def Let_def MINUTE_BUCKETS_def)

lemma full_rotation:
  assumes "buckets_ok st"
  shows "minuteBuckets ((rotate_once ^^ 5) st) = replicate 5 0" "currentBucketIdx ((rotate_once ^^ 5) st) = currentBucketIdx st"
proof -
  have "length (minuteBuckets st) = Suc (Suc (Suc (Suc (Suc 0))))" using assms by (simp add: buckets_ok_def MINUTE_BUCKETS_def)
  then obtain a b c d e where l: "minuteBuckets st = [a, b, c, d, e]" by (auto simp: length_Suc_conv)
  have five: "(rotate_once ^^ 5) st = rotate_once (rotate_once (rotate_once (rotate_once (rotate_once st))))"
    by (simp add: numeral_eq_Suc)
  have zero: "replicate 5 0 = [0, 0, 0, 0, 0 :: nat]" by (simp add: numeral_eq_Suc)
  consider "currentBucketIdx st = 0" | "currentBucketIdx st = 1" | "currentBucketIdx st = 2" | "currentBucketIdx st = 3" | "currentBucketIdx st = 4"
    using assms by (auto simp: buckets_ok_def MINUTE_BUCKETS_def less_Suc_eq numeral_eq_Suc)
  then show "minuteBuckets ((rotate_once ^^ 5) st) = replicate 5 0" "currentBucketIdx ((rotate_once ^^ 5) st) = currentBucketIdx st"
    unfolding five zero by (cases; simp add: rotate_once_fields l)+
qed

lemma idle_rotation:
  assumes "buckets_ok st" "lastBucketRotation st + 5 * MINUTE_MS \<le> now"
  shows "minuteBuckets (rotateMinuteBucket now st) = replicate 5 0" "buckets_ok (rotateMinuteBucket now st)"
    "lastBucketRotation (rotateMinuteBucket now st) = lastBucketRotation st + 5 * MINUTE_MS"
proof -
  have "5 \<le> (now - lastBucketRotation st) div MINUTE_MS"
    using assms(2) zdiv_mono1[of "5 * MINUTE_MS" "now - lastBucketRotation st" MINUTE_MS] by (simp add: MINUTE_MS_def)
  then have "min (nat ((now - lastBucketRotation st) div MINUTE_MS)) MINUTE_BUCKETS = 5" by (simp add: MINUTE_BUCKETS_def)
  then have r: "rotateMinuteBucket now st = ((rotate_once ^^ 5) st)\<lparr>lastBucketRotation := lastBucketRotation st + 5 * MINUTE_MS\<rparr>"
    using assms(2) by (simp add: rotateMinuteBucket_def Let_def MINUTE_MS_def)
  show "minuteBuckets (rotateMinuteBucket now st) = replicate 5 0" "buckets_ok (rotateMinuteBucket now st)"
    "lastBucketRotation (rotateMinuteBucket now st) = lastBucketRotation st + 5 * MINUTE_MS"
    using assms(1) by (simp_all add: r full_rotation[OF assms(1)] buckets_ok_def MINUTE_BUCKETS_def)
qed

lemma counters_keep_buckets [simp]:
  "minuteBuckets (processEventType e st) = minuteBuckets st" "currentBucketIdx (processEventType e st) = currentBucketIdx st"
  "lastBucketRotation (processEventType e st) = lastBucketRotation st"
  "minuteBuckets (transition_stats P e en new st) = minuteBuckets st" "currentBucketIdx (transition_stats P e en new st) = currentBucketIdx st"
  "lastBucketRotation (transition_stats P e en new st) = lastBucketRotation st"
  "minuteBuckets (add_session b x e st) = minuteBuckets st" "currentBucketIdx (add_session b x e st) = currentBucketIdx st"
  "lastBucketRotation (add_session b x e st) = lastBucketRotation st"
  "minuteBuckets (rotateHourly now st) = minuteBuckets st" "currentBucketIdx (rotateHourly now st) = currentBucketIdx st"
  "lastBucketRotation (rotateHourly now st) = lastBucketRotation st"
  by (simp_all add: processEventType_def transition_stats_def add_session_def rotateHourly_def Let_def split: event_type.splits option.splits)

lemma onEvent_buckets:
  fixes now :: millis
  defines "st' \<equiv> \<lambda>st. rotateMinuteBucket now st"
  shows "minuteBuckets (onEvent P now e s st) =
      (minuteBuckets (st' st))[currentBucketIdx (st' st) := minuteBuckets (st' st) ! currentBucketIdx (st' st) + 1]"
    "currentBucketIdx (onEvent P now e s st) = currentBucketIdx (st' st)"
    "lastBucketRotation (onEvent P now e s st) = lastBucketRotation (st' st)"
  unfolding st'_def by (simp_all add: onEvent_def Let_def split: option.split)

text \<open>
  After ten idle minutes the activity of the dashboard forgets: the anchor of the buckets is
  advanced by at most five minutes at a time, so an event that ends the idle time is counted in a
  bucket that the very next reading clears, and all five minutes read zero at the moment of the
  event.
\<close>

theorem event_after_idle_lost:
  assumes "buckets_ok st" "lastBucketRotation st + 10 * MINUTE_MS \<le> now"
  shows "events_per_minute (fst (getActivity now (onEvent P now e s st))) = [0, 0, 0, 0, 0]"
proof -
  let ?st = "onEvent P now e s st"
  have a: "lastBucketRotation st + 5 * MINUTE_MS \<le> now" using assms(2) by (simp add: MINUTE_MS_def)
  note r = idle_rotation[OF assms(1) a]
  have b: "buckets_ok ?st" "lastBucketRotation ?st + 5 * MINUTE_MS \<le> now"
    using r assms(2) by (simp_all add: buckets_ok_def onEvent_buckets MINUTE_BUCKETS_def)
  note r2 = idle_rotation[OF b]
  have "currentBucketIdx (rotateMinuteBucket now ?st) < 5" using r2(2) by (simp add: buckets_ok_def MINUTE_BUCKETS_def)
  then show ?thesis by (simp add: getActivity_def Let_def r2(1) MINUTE_BUCKETS_def upt_rec)
qed

theorem event_after_idle_lost_witness:
  "events_per_minute (fst (getActivity 600000 (onEvent P 600000 e s (empty_stats 0 0)))) = [0, 0, 0, 0, 0]"
  by (rule event_after_idle_lost) (simp_all add: buckets_start, simp add: empty_stats_def MINUTE_MS_def)

end
