(* ===== verification/Admin.thy ===== *)
theory Admin
  imports Reads
begin

text \<open>
  The login of the admin panel, \<^verbatim>\<open>packages/engine/src/middleware/admin-auth.ts\<close> and the login, logout and
  guard of \<^verbatim>\<open>packages/engine/src/routes/admin.ts\<close>. The sessions and the attempt counters are the module's
  state; the HMAC of \<open>safeCompare\<close> is a parameter, as are the environment's \<open>ADMIN_TOKEN\<close> and the
  random bytes of a session token. The theory shows who gets past the guard, that there are never
  more than fifty sessions, how many wrong passwords one address can try in a minute, and that
  rotating addresses escapes that limit.
\<close>

section \<open>Model\<close>

record login_attempts =
  la_count :: nat
  la_windowStart :: millis

record admin_auth =
  activeSessions :: "(string \<times> millis) list"
  loginAttemptsByIp :: "(string \<times> login_attempts) list"
  globalLoginAttempts :: nat
  globalLoginWindowStart :: millis

definition SESSION_COOKIE :: string where "SESSION_COOKIE = ''ghost_bazaar_admin''"
definition SESSION_MAX_AGE :: int where "SESSION_MAX_AGE = 24 * 60 * 60"
definition MAX_ACTIVE_SESSIONS :: nat where "MAX_ACTIVE_SESSIONS = 50"
definition LOGIN_WINDOW_MS :: int where "LOGIN_WINDOW_MS = 60000"
definition MAX_LOGIN_ATTEMPTS_PER_IP :: nat where "MAX_LOGIN_ATTEMPTS_PER_IP = 5"
definition MAX_LOGIN_ATTEMPTS_GLOBAL :: nat where "MAX_LOGIN_ATTEMPTS_GLOBAL = 20"

definition admin_start :: "millis \<Rightarrow> admin_auth" where
  "admin_start now = \<lparr>activeSessions = [], loginAttemptsByIp = [], globalLoginAttempts = 0, globalLoginWindowStart = now\<rparr>"

definition safeCompare :: "(string \<Rightarrow> bytes) \<Rightarrow> string \<Rightarrow> string \<Rightarrow> bool" where
  "safeCompare hmac a b \<longleftrightarrow> hmac a = hmac b"

definition sweepExpiredSessions :: "millis \<Rightarrow> admin_auth \<Rightarrow> admin_auth" where
  "sweepExpiredSessions now st = st\<lparr>activeSessions := filter (\<lambda>(tok, till). \<not> now > till) (activeSessions st)\<rparr>"

text \<open>The entry of an address, while its window lasts.\<close>

definition recent_attempts :: "millis \<Rightarrow> string \<Rightarrow> admin_auth \<Rightarrow> nat" where
  "recent_attempts now ip st =
     (case map_of (loginAttemptsByIp st) ip of
        Some entry \<Rightarrow> if now - la_windowStart entry \<le> LOGIN_WINDOW_MS then la_count entry else 0
      | None \<Rightarrow> 0)"

definition checkLoginRateLimit :: "millis \<Rightarrow> string \<Rightarrow> admin_auth \<Rightarrow> bool \<times> admin_auth" where
  "checkLoginRateLimit now ip st =
     (let st1 = if now - globalLoginWindowStart st > LOGIN_WINDOW_MS
                then st\<lparr>globalLoginAttempts := 0, globalLoginWindowStart := now\<rparr> else st
      in (\<not> recent_attempts now ip st1 \<ge> MAX_LOGIN_ATTEMPTS_PER_IP \<and>
          \<not> (globalLoginAttempts st1 \<ge> MAX_LOGIN_ATTEMPTS_GLOBAL \<and> recent_attempts now ip st1 > 0), st1))"

definition prune_attempts :: "millis \<Rightarrow> (string \<times> login_attempts) list \<Rightarrow> (string \<times> login_attempts) list" where
  "prune_attempts now tbl =
     (if length tbl > 1000 then filter (\<lambda>(k, v). \<not> now - la_windowStart v > LOGIN_WINDOW_MS) tbl else tbl)"

definition count_attempt :: "millis \<Rightarrow> string \<Rightarrow> (string \<times> login_attempts) list \<Rightarrow> (string \<times> login_attempts) list" where
  "count_attempt now ip tbl =
     (case map_of tbl ip of
        None \<Rightarrow> AList.update ip \<lparr>la_count = 1, la_windowStart = now\<rparr> tbl
      | Some entry \<Rightarrow>
          if now - la_windowStart entry > LOGIN_WINDOW_MS then AList.update ip \<lparr>la_count = 1, la_windowStart = now\<rparr> tbl
          else AList.update ip (entry\<lparr>la_count := la_count entry + 1\<rparr>) tbl)"

definition recordFailedLogin :: "millis \<Rightarrow> string \<Rightarrow> admin_auth \<Rightarrow> admin_auth" where
  "recordFailedLogin now ip st =
     (let st1 = if now - globalLoginWindowStart st > LOGIN_WINDOW_MS
                then st\<lparr>globalLoginAttempts := 1, globalLoginWindowStart := now\<rparr>
                else st\<lparr>globalLoginAttempts := globalLoginAttempts st + 1\<rparr>
      in st1\<lparr>loginAttemptsByIp := prune_attempts now (count_attempt now ip (loginAttemptsByIp st1))\<rparr>)"

definition clearLoginAttempts :: "string \<Rightarrow> admin_auth \<Rightarrow> admin_auth" where
  "clearLoginAttempts ip st = st\<lparr>loginAttemptsByIp := AList.delete ip (loginAttemptsByIp st)\<rparr>"

datatype login_result = LoginCookie string | RateLimited | LoginRefused

text \<open>An unset or empty \<open>ADMIN_TOKEN\<close> disables the panel.\<close>

definition configured :: "string option \<Rightarrow> string option" where
  "configured env = (case env of Some (c # cs) \<Rightarrow> Some (c # cs) | _ \<Rightarrow> None)"

definition session_cookie :: "string \<Rightarrow> string" where
  "session_cookie tok = SESSION_COOKIE @ ''='' @ tok @ ''; HttpOnly; Secure; SameSite=None; Path=/admin; Max-Age=86400''"

definition handleLogin ::
  "(string \<Rightarrow> bytes) \<Rightarrow> string option \<Rightarrow> millis \<Rightarrow> bytes \<Rightarrow> string \<Rightarrow> string \<Rightarrow> admin_auth \<Rightarrow> login_result \<times> admin_auth" where
  "handleLogin hmac env now random password ip st =
     (case configured env of
        None \<Rightarrow> (LoginRefused, st)
      | Some token \<Rightarrow>
          (case checkLoginRateLimit now ip st of
             (False, st1) \<Rightarrow> (RateLimited, st1)
           | (True, st1) \<Rightarrow>
               if \<not> safeCompare hmac password token then (LoginRefused, recordFailedLogin now ip st1)
               else
                 let st2 = sweepExpiredSessions now (clearLoginAttempts ip st1) in
                 if length (activeSessions st2) \<ge> MAX_ACTIVE_SESSIONS then (LoginRefused, st2)
                 else let sessionToken = to_hex random in
                   (LoginCookie (session_cookie sessionToken),
                    st2\<lparr>activeSessions := AList.update sessionToken (now + SESSION_MAX_AGE * 1000) (activeSessions st2)\<rparr>)))"

text \<open>\<open>COOKIE_RE\<close>: the first place of the header where the cookie's name and 64 hexadecimal digits stand.\<close>

fun match_cookie :: "string \<Rightarrow> string option" where
  "match_cookie [] = None"
| "match_cookie (c # cs) =
     (let p = SESSION_COOKIE @ ''=''; rest = drop (length p) (c # cs) in
      if take (length p) (c # cs) = p \<and> length rest \<ge> 64 \<and> list_all is_hex_lower (take 64 rest) then Some (take 64 rest)
      else match_cookie cs)"

definition cookie_token :: "string option \<Rightarrow> string option" where
  "cookie_token header = match_cookie (case header of Some h \<Rightarrow> h | None \<Rightarrow> [])"

definition requireAdminAuth :: "string option \<Rightarrow> millis \<Rightarrow> string option \<Rightarrow> admin_auth \<Rightarrow> unit res \<times> admin_auth" where
  "requireAdminAuth env now header st =
     (case configured env of
        None \<Rightarrow> (Inl (EngineError 403 ''forbidden''), st)
      | Some token \<Rightarrow>
          let st1 = sweepExpiredSessions now st in
          (case cookie_token header of
             None \<Rightarrow> (Inl (EngineError 401 ''unauthorized''), st1)
           | Some sessionToken \<Rightarrow>
               (case map_of (activeSessions st1) sessionToken of
                  Some expiry \<Rightarrow>
                    if expiry = 0 \<or> now > expiry
                    then (Inl (EngineError 401 ''unauthorized''), st1\<lparr>activeSessions := AList.delete sessionToken (activeSessions st1)\<rparr>)
                    else (Inr (), st1)
                | None \<Rightarrow> (Inl (EngineError 401 ''unauthorized''), st1\<lparr>activeSessions := AList.delete sessionToken (activeSessions st1)\<rparr>))))"

definition handleLogout :: "string option \<Rightarrow> admin_auth \<Rightarrow> string \<times> admin_auth" where
  "handleLogout header st =
     (SESSION_COOKIE @ ''=; HttpOnly; Secure; SameSite=None; Path=/admin; Max-Age=0'',
      case cookie_token header of
        Some tok \<Rightarrow> st\<lparr>activeSessions := AList.delete tok (activeSessions st)\<rparr>
      | None \<Rightarrow> st)"

text \<open>The routes. The body is what \<open>c.req.json()\<close> gives, \<open>None\<close> where it fails to parse; \<open>null\<close> has no fields.\<close>

definition admin_login ::
  "(string \<Rightarrow> bytes) \<Rightarrow> string option \<Rightarrow> millis \<Rightarrow> bytes \<Rightarrow> json option \<Rightarrow> string option \<Rightarrow> string option \<Rightarrow> admin_auth \<Rightarrow>
   string res \<times> admin_auth" where
  "admin_login hmac env now random body forwardedFor realIp st =
     (case (case body of None \<Rightarrow> Inr None | Some JNull \<Rightarrow> Inl TypeError | Some b \<Rightarrow> Inr (as_string (jget b ''password''))) of
        Inl e \<Rightarrow> (Inl e, st)
      | Inr None \<Rightarrow> (Inl (EngineError 400 ''bad_request''), st)
      | Inr (Some []) \<Rightarrow> (Inl (EngineError 400 ''bad_request''), st)
      | Inr (Some password) \<Rightarrow>
          (case handleLogin hmac env now random password (client_ip forwardedFor realIp) st of
             (RateLimited, st1) \<Rightarrow> (Inl (EngineError 429 ''rate_limited''), st1)
           | (LoginRefused, st1) \<Rightarrow> (Inl (EngineError 401 ''unauthorized''), st1)
           | (LoginCookie cookie, st1) \<Rightarrow> (Inr cookie, st1)))"

definition admin_guard :: "string option \<Rightarrow> millis \<Rightarrow> string \<Rightarrow> string option \<Rightarrow> admin_auth \<Rightarrow> unit res \<times> admin_auth" where
  "admin_guard env now path header st =
     (if path = ''/admin/login'' \<or> path = ''/admin/logout'' then (Inr (), st) else requireAdminAuth env now header st)"

section \<open>Runs\<close>

text \<open>What reaches the module, in the order of arrival; each call is synchronous.\<close>

datatype admin_op =
    Login millis bytes string string
  | Guard millis "string option"
  | Logout "string option"

fun admin_step :: "(string \<Rightarrow> bytes) \<Rightarrow> string option \<Rightarrow> admin_op \<Rightarrow> admin_auth \<Rightarrow> admin_auth" where
  "admin_step hmac env (Login now random password ip) st = snd (handleLogin hmac env now random password ip st)"
| "admin_step hmac env (Guard now header) st = snd (requireAdminAuth env now header st)"
| "admin_step hmac env (Logout header) st = snd (handleLogout header st)"

definition admin_run :: "(string \<Rightarrow> bytes) \<Rightarrow> string option \<Rightarrow> admin_op list \<Rightarrow> admin_auth \<Rightarrow> admin_auth" where
  "admin_run hmac env ops st = fold (admin_step hmac env) ops st"

lemma admin_run_simps [simp]:
  "admin_run hmac env [] st = st"
  "admin_run hmac env (ops @ [op]) st = admin_step hmac env op (admin_run hmac env ops st)"
  "admin_run hmac env (op # ops) st = admin_run hmac env ops (admin_step hmac env op st)"
  by (simp_all add: admin_run_def)

lemma check_keeps_sessions: "activeSessions (snd (checkLoginRateLimit now ip st)) = activeSessions st"
  by (simp add: checkLoginRateLimit_def Let_def)

lemma failed_keeps_sessions: "activeSessions (recordFailedLogin now ip st) = activeSessions st"
  by (simp add: recordFailedLogin_def Let_def)

section \<open>Who gets in\<close>

definition SESSION_MS :: int where "SESSION_MS = SESSION_MAX_AGE * 1000"

text \<open>A login with the right password issued the token, and nobody has logged out with it since.\<close>

definition granted :: "(string \<Rightarrow> bytes) \<Rightarrow> string option \<Rightarrow> admin_op list \<Rightarrow> string \<Rightarrow> millis \<Rightarrow> bool" where
  "granted hmac env ops tok till \<longleftrightarrow>
     (\<exists>pre now random password ip post token. ops = pre @ Login now random password ip # post \<and> to_hex random = tok \<and>
        till = now + SESSION_MS \<and> configured env = Some token \<and> safeCompare hmac password token \<and>
        (\<forall>h. Logout h \<in> set post \<longrightarrow> cookie_token h \<noteq> Some tok))"

lemma granted_snoc: "granted hmac env ops tok till \<Longrightarrow> (\<forall>h. op = Logout h \<longrightarrow> cookie_token h \<noteq> Some tok) \<Longrightarrow> granted hmac env (ops @ [op]) tok till"
proof -
  assume g: "granted hmac env ops tok till" and h: "\<forall>h. op = Logout h \<longrightarrow> cookie_token h \<noteq> Some tok"
  from g obtain pre now random password ip post token where
    ops: "ops = pre @ Login now random password ip # post" and r: "to_hex random = tok" "till = now + SESSION_MS" "configured env = Some token"
      "safeCompare hmac password token" "\<forall>h. Logout h \<in> set post \<longrightarrow> cookie_token h \<noteq> Some tok"
    unfolding granted_def by blast
  have "ops @ [op] = pre @ Login now random password ip # (post @ [op])" by (simp add: ops)
  moreover have "\<forall>h'. Logout h' \<in> set (post @ [op]) \<longrightarrow> cookie_token h' \<noteq> Some tok" using r(5) h by auto
  ultimately show ?thesis using r(1-4) unfolding granted_def by blast
qed

lemma granted_login:
  "configured env = Some token \<Longrightarrow> safeCompare hmac password token \<Longrightarrow>
   granted hmac env (ops @ [Login now random password ip]) (to_hex random) (now + SESSION_MS)"
  unfolding granted_def by (intro exI[of _ ops] exI[of _ now] exI[of _ random] exI[of _ password] exI[of _ ip] exI[of _ "[]"] exI[of _ token]) simp

lemma update_subset: "set (AList.update k v xs) \<subseteq> insert (k, v) (set xs)"
  by (induction xs) auto

lemma login_sessions:
  assumes "(tok, till) \<in> set (activeSessions (snd (handleLogin hmac env now random password ip st)))"
  shows "(tok, till) \<in> set (activeSessions st) \<or>
    (tok = to_hex random \<and> till = now + SESSION_MS \<and> (\<exists>token. configured env = Some token \<and> safeCompare hmac password token))"
proof (cases "configured env")
  case (Some token)
  obtain ok st1 where c: "checkLoginRateLimit now ip st = (ok, st1)" by fastforce
  have s1: "activeSessions st1 = activeSessions st" using check_keeps_sessions[of now ip st] c by simp
  show ?thesis
  proof (cases "ok \<and> safeCompare hmac password token")
    case True
    let ?xs = "filter (\<lambda>(tok, till). \<not> now > till) (activeSessions st)"
    have "(tok, till) \<in> set ?xs \<union> set (AList.update (to_hex random) (now + SESSION_MS) ?xs)"
      using assms Some c True s1
      by (auto simp: handleLogin_def Let_def sweepExpiredSessions_def clearLoginAttempts_def SESSION_MS_def split: if_splits)
    moreover have "set (AList.update (to_hex random) (now + SESSION_MS) ?xs) \<subseteq> insert (to_hex random, now + SESSION_MS) (set ?xs)"
      by (rule update_subset)
    ultimately show ?thesis using Some True by auto
  next
    case False
    then show ?thesis using assms Some c s1 by (cases ok) (auto simp: handleLogin_def failed_keeps_sessions)
  qed
qed (use assms in \<open>simp add: handleLogin_def\<close>)

lemma guard_sessions: "set (activeSessions (snd (requireAdminAuth env now h st))) \<subseteq> set (activeSessions st)"
  by (auto simp: requireAdminAuth_def Let_def sweepExpiredSessions_def AList.delete_eq split: option.splits)

lemma logout_sessions:
  "(tok, till) \<in> set (activeSessions (snd (handleLogout h st))) \<Longrightarrow> (tok, till) \<in> set (activeSessions st) \<and> cookie_token h \<noteq> Some tok"
  by (auto simp: handleLogout_def AList.delete_eq split: option.splits)

lemma sessions_granted:
  "(tok, till) \<in> set (activeSessions (admin_run hmac env ops (admin_start t0))) \<Longrightarrow> granted hmac env ops tok till"
proof (induction ops rule: rev_induct)
  case Nil
  then show ?case by (simp add: admin_start_def)
next
  case (snoc op ops)
  let ?st = "admin_run hmac env ops (admin_start t0)"
  show ?case
  proof (cases op)
    case (Login now random password ip)
    then show ?thesis using snoc login_sessions[of tok till hmac env now random password ip ?st] granted_snoc granted_login by auto
  next
    case (Guard now h)
    then show ?thesis using snoc guard_sessions[of env now h ?st] granted_snoc by auto
  next
    case (Logout h)
    then show ?thesis using snoc logout_sessions[of tok till h ?st] granted_snoc by auto
  qed
qed

text \<open>
  C18. Only who knows the admin password gets past the guard: whatever logins, guarded requests and
  logouts came before, a request is let through only with a session token that a login issued
  against the configured token, at most a day earlier, and that no logout has named since.
\<close>

theorem admin_access_sound:
  assumes "fst (requireAdminAuth env now header (admin_run hmac env ops (admin_start t0))) = Inr ()"
  shows "\<exists>tok pre t random password ip post token.
    cookie_token header = Some tok \<and> ops = pre @ Login t random password ip # post \<and> to_hex random = tok \<and>
    configured env = Some token \<and> hmac password = hmac token \<and> now \<le> t + 24 * 60 * 60 * 1000 \<and>
    (\<forall>h. Logout h \<in> set post \<longrightarrow> cookie_token h \<noteq> Some tok)"
proof -
  let ?st = "admin_run hmac env ops (admin_start t0)"
  obtain tok till where t: "cookie_token header = Some tok" "(tok, till) \<in> set (activeSessions ?st)" "\<not> now > till"
    using assms by (auto simp: requireAdminAuth_def Let_def sweepExpiredSessions_def split: option.splits if_splits dest!: map_of_SomeD)
  obtain pre t' random password ip post token where ops: "ops = pre @ Login t' random password ip # post" "to_hex random = tok"
    "till = t' + SESSION_MS" "configured env = Some token" "safeCompare hmac password token"
    "\<forall>h. Logout h \<in> set post \<longrightarrow> cookie_token h \<noteq> Some tok"
    using sessions_granted[OF t(2)] unfolding granted_def by blast
  have "now \<le> t' + 24 * 60 * 60 * 1000" using t(3) ops(3) by (simp add: SESSION_MS_def SESSION_MAX_AGE_def)
  then show ?thesis using t(1) ops unfolding safeCompare_def by blast
qed

definition demo_hmac :: "string \<Rightarrow> bytes" where
  "demo_hmac s = map (\<lambda>c. word_of_nat (of_char c)) s"

theorem admin_access_sound_witness:
  "\<exists>tok pre t random password ip post token.
    cookie_token (Some (session_cookie (to_hex (replicate 32 0)))) = Some tok \<and>
    [Login 0 (replicate 32 0) ''secret'' ''host''] = pre @ Login t random password ip # post \<and> to_hex random = tok \<and>
    configured (Some ''secret'') = Some token \<and> demo_hmac password = demo_hmac token \<and> 1000 \<le> t + 24 * 60 * 60 * 1000 \<and>
    (\<forall>h. Logout h \<in> set post \<longrightarrow> cookie_token h \<noteq> Some tok)"
proof (rule admin_access_sound)
  show "fst (requireAdminAuth (Some ''secret'') 1000 (Some (session_cookie (to_hex (replicate 32 0))))
      (admin_run demo_hmac (Some ''secret'') [Login 0 (replicate 32 0) ''secret'' ''host''] (admin_start 0))) = Inr ()"
    by code_simp
qed

text \<open>
  At most fifty admin sessions are open, after any run.
\<close>

theorem admin_sessions_bounded: "length (activeSessions (admin_run hmac env ops (admin_start t0))) \<le> 50"
proof (induction ops rule: rev_induct)
  case (snoc op ops)
  let ?st = "admin_run hmac env ops (admin_start t0)"
  show ?case
  proof (cases op)
    case (Login now random password ip)
    obtain ok st1 where c: "checkLoginRateLimit now ip ?st = (ok, st1)" by fastforce
    have "activeSessions st1 = activeSessions ?st" using check_keeps_sessions[of now ip ?st] c by simp
    moreover have "length xs < 50 \<Longrightarrow> length (AList.update k v xs) \<le> 50" for k v and xs :: "(string \<times> millis) list"
      by (rule order_trans[of _ "Suc (length xs)"]) (induction xs, auto)
    moreover have "length (filter Q (activeSessions ?st)) \<le> 50" for Q using snoc length_filter_le order_trans by blast
    ultimately show ?thesis using snoc c Login
      by (cases ok) (auto simp: handleLogin_def Let_def failed_keeps_sessions sweepExpiredSessions_def clearLoginAttempts_def
          MAX_ACTIVE_SESSIONS_def split: option.split)
  next
    case (Guard now h)
    have "length (filter Q (activeSessions ?st)) \<le> 50" for Q using snoc length_filter_le order_trans by blast
    then show ?thesis using Guard
      by (auto simp: requireAdminAuth_def Let_def sweepExpiredSessions_def AList.delete_eq snoc split: option.split
          intro: order_trans[OF length_filter_le])
  next
    case (Logout h)
    then show ?thesis using snoc
      by (auto simp: handleLogout_def AList.delete_eq split: option.split intro: order_trans[OF length_filter_le])
  qed
qed (simp add: admin_start_def)

section \<open>Guessing\<close>

text \<open>Passwords of one address that are compared, in a run.\<close>

fun guesses :: "(string \<Rightarrow> bytes) \<Rightarrow> string option \<Rightarrow> string \<Rightarrow> admin_op list \<Rightarrow> admin_auth \<Rightarrow> nat" where
  "guesses hmac env ip [] st = 0"
| "guesses hmac env ip (op # ops) st =
     (case op of Login now random password ip' \<Rightarrow>
        if configured env \<noteq> None \<and> ip' = ip \<and> fst (handleLogin hmac env now random password ip' st) \<noteq> RateLimited then 1 else 0 | _ \<Rightarrow> 0) +
     guesses hmac env ip ops (admin_step hmac env op st)"

definition attempts_ok :: "admin_auth \<Rightarrow> bool" where
  "attempts_ok st \<longleftrightarrow> distinct (map fst (loginAttemptsByIp st)) \<and> (\<forall>e \<in> snd ` set (loginAttemptsByIp st). la_count e \<le> 5)"

text \<open>How many wrong passwords the address may still try until \<open>a + LOGIN_WINDOW_MS\<close>.\<close>

definition allowance :: "millis \<Rightarrow> string \<Rightarrow> admin_auth \<Rightarrow> nat" where
  "allowance a ip st =
     (case map_of (loginAttemptsByIp st) ip of
        None \<Rightarrow> 5
      | Some e \<Rightarrow> if a \<le> la_windowStart e then 5 - la_count e else 10 - la_count e)"

lemma map_of_filter_value:
  "distinct (map fst xs) \<Longrightarrow> map_of (filter (\<lambda>(k, v). Q v) xs) k = (case map_of xs k of Some v \<Rightarrow> if Q v then Some v else None | None \<Rightarrow> None)"
  by (induction xs) (auto split: option.split simp: map_of_eq_None_iff image_iff)

lemma attempts_ok_entry: "attempts_ok st \<Longrightarrow> map_of (loginAttemptsByIp st) ip = Some e \<Longrightarrow> la_count e \<le> 5"
  by (force simp: attempts_ok_def dest: map_of_SomeD)

lemma attempts_cong: "loginAttemptsByIp st = loginAttemptsByIp st' \<Longrightarrow> attempts_ok st = attempts_ok st' \<and> allowance a ip st = allowance a ip st'"
  by (simp add: attempts_ok_def allowance_def)

lemma check_attempts: "loginAttemptsByIp (snd (checkLoginRateLimit now ip st)) = loginAttemptsByIp st"
  by (simp add: checkLoginRateLimit_def Let_def)

lemma check_passed: "fst (checkLoginRateLimit now ip st) \<Longrightarrow> recent_attempts now ip st < 5"
  by (auto simp: checkLoginRateLimit_def Let_def recent_attempts_def MAX_LOGIN_ATTEMPTS_PER_IP_def split: if_splits)

lemma count_attempt_entry:
  "map_of (count_attempt now ip tbl) = (map_of tbl)(ip \<mapsto>
     (case map_of tbl ip of
        Some e \<Rightarrow> if now - la_windowStart e > LOGIN_WINDOW_MS then \<lparr>la_count = 1, la_windowStart = now\<rparr> else e\<lparr>la_count := la_count e + 1\<rparr>
      | None \<Rightarrow> \<lparr>la_count = 1, la_windowStart = now\<rparr>))"
  by (simp add: count_attempt_def update_conv' split: option.split)

lemma count_attempt_distinct: "distinct (map fst tbl) \<Longrightarrow> distinct (map fst (count_attempt now ip tbl))"
  by (simp add: count_attempt_def distinct_update split: option.split)

lemma prune_entry:
  assumes "distinct (map fst tbl)"
  shows "map_of (prune_attempts now tbl) k = map_of tbl k \<or>
    (\<exists>e. map_of tbl k = Some e \<and> now - la_windowStart e > LOGIN_WINDOW_MS \<and> map_of (prune_attempts now tbl) k = None)"
  using map_of_filter_value[OF assms, of "\<lambda>v. \<not> now - la_windowStart v > LOGIN_WINDOW_MS"]
  by (auto simp: prune_attempts_def split: option.split if_splits)

lemma prune_distinct: "distinct (map fst tbl) \<Longrightarrow> distinct (map fst (prune_attempts now tbl)) \<and> set (prune_attempts now tbl) \<subseteq> set tbl"
  by (auto simp: prune_attempts_def distinct_map_filter)

lemma failed_attempts: "loginAttemptsByIp (recordFailedLogin now ip st) = prune_attempts now (count_attempt now ip (loginAttemptsByIp st))"
  by (simp add: recordFailedLogin_def Let_def)

lemma failed_ok:
  assumes "attempts_ok st" "recent_attempts now ip st < 5"
  shows "attempts_ok (recordFailedLogin now ip st)"
proof -
  let ?t = "loginAttemptsByIp st" and ?t' = "count_attempt now ip (loginAttemptsByIp st)"
  have d: "distinct (map fst ?t')" using assms(1) count_attempt_distinct by (simp add: attempts_ok_def)
  have "la_count e \<le> 5" if "(k, e) \<in> set ?t'" for k e
  proof -
    have "map_of ?t' k = Some e" using that d by simp
    then show ?thesis using attempts_ok_entry[OF assms(1)] assms(2)
      by (auto simp: count_attempt_entry recent_attempts_def split: if_splits option.splits)
  qed
  then show ?thesis using prune_distinct[OF d, of now] by (fastforce simp: attempts_ok_def failed_attempts)
qed

lemma failed_allowance:
  assumes "attempts_ok st" "recent_attempts now ip' st < 5" "a \<le> now" "now \<le> a + LOGIN_WINDOW_MS"
  shows "(if ip' = ip then 1 else 0) + allowance a ip (recordFailedLogin now ip' st) \<le> allowance a ip st"
proof -
  let ?t = "loginAttemptsByIp st" and ?t' = "count_attempt now ip' (loginAttemptsByIp st)"
  have d: "distinct (map fst ?t')" using assms(1) count_attempt_distinct by (simp add: attempts_ok_def)
  note c = attempts_ok_entry[OF assms(1), of ip]
  have *: "(if ip' = ip then 1 else 0) + (case map_of ?t' ip of None \<Rightarrow> 5
      | Some e \<Rightarrow> if a \<le> la_windowStart e then 5 - la_count e else 10 - la_count e) \<le> allowance a ip st"
    using assms(2-4) c by (auto simp: allowance_def count_attempt_entry recent_attempts_def split: option.splits if_splits)
  have le5: "la_count e \<le> 5" if "map_of ?t' ip = Some e" for e
    using that c assms(2) by (auto simp: count_attempt_entry recent_attempts_def split: option.splits if_splits)
  show ?thesis using prune_entry[OF d, of now ip] * le5 assms(3,4)
    by (auto simp: allowance_def failed_attempts split: option.splits if_splits)
qed

lemma handleLogin_cases:
  assumes "handleLogin hmac env now random password ip st = (res, st')"
  obtains (off) "configured env = None" "res = LoginRefused" "st' = st"
  | (limited) "configured env \<noteq> None" "res = RateLimited" "loginAttemptsByIp st' = loginAttemptsByIp st"
  | (wrong) token st1 where "configured env = Some token" "res = LoginRefused" "\<not> safeCompare hmac password token" "recent_attempts now ip st < 5"
      "loginAttemptsByIp st1 = loginAttemptsByIp st" "st' = recordFailedLogin now ip st1"
  | (right) token where "configured env = Some token" "safeCompare hmac password token" "res \<noteq> RateLimited"
      "loginAttemptsByIp st' = AList.delete ip (loginAttemptsByIp st)"
proof -
  obtain ok st1 where c: "checkLoginRateLimit now ip st = (ok, st1)" by fastforce
  have a: "loginAttemptsByIp st1 = loginAttemptsByIp st" using check_attempts[of now ip st] c by simp
  have k: "ok \<Longrightarrow> recent_attempts now ip st < 5" using check_passed[of now ip st] c by simp
  show ?thesis
  proof (cases "configured env")
    case None
    then show ?thesis using assms off by (simp add: handleLogin_def)
  next
    case (Some token)
    consider "\<not> ok" | "ok" "\<not> safeCompare hmac password token" | "ok" "safeCompare hmac password token" by blast
    then show ?thesis
    proof cases
      case 1
      then show ?thesis using assms Some c a limited by (simp add: handleLogin_def)
    next
      case 2
      then show ?thesis using assms Some c a k wrong by (simp add: handleLogin_def)
    next
      case 3
      then show ?thesis using assms Some c a right
        by (auto simp: handleLogin_def Let_def sweepExpiredSessions_def clearLoginAttempts_def split: if_splits)
    qed
  qed
qed

lemma delete_attempts:
  assumes "attempts_ok st" "loginAttemptsByIp st' = AList.delete ip' (loginAttemptsByIp st)"
  shows "attempts_ok st'" "ip' \<noteq> ip \<Longrightarrow> allowance a ip st' = allowance a ip st"
proof -
  show "attempts_ok st'" using assms by (auto simp: attempts_ok_def AList.delete_eq distinct_map_filter)
  show "ip' \<noteq> ip \<Longrightarrow> allowance a ip st' = allowance a ip st" by (simp add: allowance_def assms(2) delete_conv')
qed

definition wrong_login :: "(string \<Rightarrow> bytes) \<Rightarrow> string option \<Rightarrow> millis \<Rightarrow> string \<Rightarrow> admin_op \<Rightarrow> bool" where
  "wrong_login hmac env a ip op \<longleftrightarrow> (case op of
      Login now random password ip' \<Rightarrow> a \<le> now \<and> now \<le> a + LOGIN_WINDOW_MS \<and>
        (ip' = ip \<longrightarrow> configured env \<noteq> None \<longrightarrow> \<not> safeCompare hmac password (the (configured env)))
    | _ \<Rightarrow> True)"

lemma same_attempts: "loginAttemptsByIp (snd (requireAdminAuth env now h st)) = loginAttemptsByIp st"
  "loginAttemptsByIp (snd (handleLogout h st)) = loginAttemptsByIp st"
  by (auto simp: requireAdminAuth_def handleLogout_def Let_def sweepExpiredSessions_def split: option.split)

lemma step_ok:
  assumes ok: "attempts_ok st"
  shows "attempts_ok (admin_step hmac env op st)"
proof (cases op)
  case (Login now random password ip')
  obtain res st' where h: "handleLogin hmac env now random password ip' st = (res, st')" by fastforce
  from h have "attempts_ok st'"
  proof (cases rule: handleLogin_cases)
    case off
    then show ?thesis using ok by simp
  next
    case limited
    then show ?thesis using ok attempts_cong[of st' st] by simp
  next
    case (wrong token st1)
    then show ?thesis using ok failed_ok[of st1 now ip'] attempts_cong[of st1 st] by (simp add: recent_attempts_def)
  next
    case right
    then show ?thesis using delete_attempts(1)[OF ok] by simp
  qed
  then show ?thesis using h Login by simp
next
  case (Guard now h)
  then show ?thesis using ok attempts_cong[OF same_attempts(1)[of env now h st]] by simp
next
  case (Logout h)
  then show ?thesis using ok attempts_cong[OF same_attempts(2)[of h st]] by simp
qed

lemma step_allowance:
  assumes "attempts_ok st" "wrong_login hmac env a ip op"
  shows "guesses hmac env ip [op] st + allowance a ip (admin_step hmac env op st) \<le> allowance a ip st"
proof (cases op)
  case (Login now random password ip')
  obtain res st' where h: "handleLogin hmac env now random password ip' st = (res, st')" by fastforce
  from h have "(if configured env \<noteq> None \<and> ip' = ip \<and> res \<noteq> RateLimited then 1 else 0) + allowance a ip st' \<le> allowance a ip st"
  proof (cases rule: handleLogin_cases)
    case limited
    then show ?thesis using attempts_cong[of st' st a ip] by simp
  next
    case (wrong token st1)
    have "attempts_ok st1" "allowance a ip st1 = allowance a ip st" using attempts_cong[of st1 st] wrong(5) assms(1) by simp_all
    then show ?thesis using failed_allowance[of st1 now ip' a ip] wrong assms(2) Login by (simp add: recent_attempts_def wrong_login_def)
  next
    case (right token)
    then show ?thesis using delete_attempts(2)[OF assms(1) right(4), of ip a] assms(2) Login by (auto simp: wrong_login_def)
  qed simp
  then show ?thesis using h Login by simp
next
  case (Guard now h)
  then show ?thesis using attempts_cong[OF same_attempts(1)[of env now h st], of a ip] by simp
next
  case (Logout h)
  then show ?thesis using attempts_cong[OF same_attempts(2)[of h st], of a ip] by simp
qed

lemma run_allowance:
  "attempts_ok st \<Longrightarrow> list_all (wrong_login hmac env a ip) ops \<Longrightarrow> guesses hmac env ip ops st \<le> allowance a ip st"
proof (induction ops arbitrary: st)
  case (Cons op ops)
  then show ?case using step_allowance[OF Cons.prems(1), of hmac env a ip op] step_ok[OF Cons.prems(1), of hmac env op]
    by (fastforce dest: Cons.IH)
qed simp

lemma run_attempts_ok: "attempts_ok (admin_run hmac env ops (admin_start t0))"
  by (induction ops rule: rev_induct) (auto simp: step_ok, simp add: admin_start_def attempts_ok_def)

text \<open>
  One address cannot guess the admin password: in any minute, whatever was tried before and
  whatever other addresses do, at most ten wrong passwords from it are compared with the token;
  the others are answered with 429.
\<close>

theorem guesses_bounded:
  assumes "list_all (wrong_login hmac env a ip) ops"
  shows "guesses hmac env ip ops (admin_run hmac env before (admin_start t0)) \<le> 10"
  using run_allowance[OF run_attempts_ok assms] by (rule order_trans) (simp add: allowance_def le_diff_conv split: option.split)

theorem guesses_bounded_witness:
  "guesses demo_hmac (Some ''secret'') ''host'' (replicate 12 (Login 7 [] ''guess'' ''host''))
     (admin_run demo_hmac (Some ''secret'') [] (admin_start 0)) \<le> 10"
proof (rule guesses_bounded)
  show "list_all (wrong_login demo_hmac (Some ''secret'') 0 ''host'') (replicate 12 (Login 7 [] ''guess'' ''host''))" by code_simp
qed

text \<open>
  Rotating addresses escapes the limit: wrong passwords sent from addresses without an earlier
  failure are all compared, however many there are and however full the global counter is. A client
  chooses its address: it is the first entry of the header X-Forwarded-For.
\<close>

fun rotate_logins :: "(string \<Rightarrow> bytes) \<Rightarrow> string option \<Rightarrow> millis \<Rightarrow> bytes \<Rightarrow> (string \<times> string) list \<Rightarrow> admin_auth \<Rightarrow> login_result list" where
  "rotate_logins hmac env now random [] st = []"
| "rotate_logins hmac env now random ((ip, password) # tries) st =
     (case handleLogin hmac env now random password ip st of
        (res, st') \<Rightarrow> res # rotate_logins hmac env now random tries st')"

theorem rotation_unlimited:
  assumes "configured env = Some token" "distinct (map fst tries)"
    "list_all (\<lambda>(ip, password). map_of (loginAttemptsByIp st) ip = None \<and> \<not> safeCompare hmac password token) tries"
  shows "rotate_logins hmac env now random tries st = replicate (length tries) LoginRefused"
  using assms(2,3)
proof (induction tries arbitrary: st)
  case (Cons t tries)
  obtain ip password where t: "t = (ip, password)" by fastforce
  let ?st = "recordFailedLogin now ip (snd (checkLoginRateLimit now ip st))"
  have fresh: "recent_attempts now ip st = 0" using Cons.prems(2) t by (simp add: recent_attempts_def)
  have first: "handleLogin hmac env now random password ip st = (LoginRefused, ?st)"
    using Cons.prems(2) t assms(1) fresh
    by (simp add: handleLogin_def checkLoginRateLimit_def Let_def recent_attempts_def MAX_LOGIN_ATTEMPTS_PER_IP_def)
  have other: "map_of (loginAttemptsByIp ?st) k = None" if "k \<noteq> ip" "map_of (loginAttemptsByIp st) k = None" for k
  proof -
    have "set (prune_attempts now tbl) \<subseteq> set tbl" for tbl by (auto simp: prune_attempts_def)
    then have "map_of tbl k = None \<Longrightarrow> map_of (prune_attempts now tbl) k = None" for tbl by (fastforce simp: map_of_eq_None_iff)
    then show ?thesis using that by (simp add: failed_attempts check_attempts count_attempt_entry)
  qed
  have "map_of (loginAttemptsByIp ?st) k = None \<and> \<not> safeCompare hmac pw token" if "(k, pw) \<in> set tries" for k pw
  proof -
    have "k \<noteq> ip" using Cons.prems(1) t that by (auto simp: image_iff)
    moreover have "map_of (loginAttemptsByIp st) k = None" "\<not> safeCompare hmac pw token"
      using Cons.prems(2) that by (auto simp: list_all_iff)
    ultimately show ?thesis using other by blast
  qed
  then have "list_all (\<lambda>(ip, password). map_of (loginAttemptsByIp ?st) ip = None \<and> \<not> safeCompare hmac password token) tries"
    by (auto simp: list_all_iff)
  then show ?case using Cons.IH[of ?st] Cons.prems(1) first t by simp
qed simp

theorem rotation_unlimited_witness:
  "rotate_logins demo_hmac (Some ''secret'') 0 [] [(''10.0.0.1'', ''a''), (''10.0.0.2'', ''b'')] ((admin_start 0)\<lparr>globalLoginAttempts := 20\<rparr>) =
     replicate (length [(''10.0.0.1'', ''a''), (''10.0.0.2'', ''b'')]) LoginRefused"
proof (rule rotation_unlimited)
  show "configured (Some ''secret'') = Some ''secret''" "distinct (map fst [(''10.0.0.1'', ''a''), (''10.0.0.2'', ''b'')])"
    by (simp_all add: configured_def)
  show "list_all (\<lambda>(ip, password). map_of (loginAttemptsByIp ((admin_start 0)\<lparr>globalLoginAttempts := 20\<rparr>)) ip = None \<and>
      \<not> safeCompare demo_hmac password ''secret'') [(''10.0.0.1'', ''a''), (''10.0.0.2'', ''b'')]"
    by code_simp
qed

end
