(* ===== verification/Dashboard.thy ===== *)
theory Dashboard
  imports Stats Admin
begin

text \<open>
  What is shown to observers: \<^verbatim>\<open>packages/engine/src/stats/event-broadcaster.ts\<close>, the public feed of
  \<^verbatim>\<open>routes/dashboard.ts\<close>, and the session list, session detail and event streams of \<^verbatim>\<open>routes/admin.ts\<close>.
  Both routes recompute the state after each event with a state machine of their own, while live
  events carry the derived session's state. The theory shows that a stream of the admin panel holds
  exactly the log of its session, each event with the state the reducer derives for it.
\<close>

section \<open>States recomputed along a log\<close>

text \<open>The \<open>if\<close> chains of the two routes.\<close>

definition admin_next_state :: "session_state \<Rightarrow> event_type \<Rightarrow> session_state" where
  "admin_next_state currentState t =
     (if t = OFFER_SUBMITTED \<and> currentState = OPEN then NEGOTIATING
      else if t = WINNER_SELECTED then COMMIT_PENDING
      else if t = QUOTE_COMMITTED then COMMITTED
      else if t = NEGOTIATION_EXPIRED then EXPIRED
      else if t = NEGOTIATION_CANCELLED then CANCELLED
      else if t = COMMIT_PENDING_EVENT then COMMIT_PENDING
      else if (t = COSIGN_DECLINED \<or> t = COSIGN_TIMEOUT) \<and> currentState = COMMIT_PENDING then NEGOTIATING
      else currentState)"

definition feed_next_state :: "session_state \<Rightarrow> event_type \<Rightarrow> session_state" where
  "feed_next_state currentState t =
     (if t = OFFER_SUBMITTED \<and> currentState = OPEN then NEGOTIATING
      else if t = WINNER_SELECTED then COMMIT_PENDING
      else if t = QUOTE_COMMITTED then COMMITTED
      else if t = NEGOTIATION_EXPIRED then EXPIRED
      else if t = NEGOTIATION_CANCELLED then CANCELLED
      else if (t = COSIGN_DECLINED \<or> t = COSIGN_TIMEOUT) \<and> currentState = COMMIT_PENDING then NEGOTIATING
      else currentState)"

fun walk :: "(session_state \<Rightarrow> event_type \<Rightarrow> session_state) \<Rightarrow> session_state \<Rightarrow> negotiation_event list \<Rightarrow>
  (negotiation_event \<times> session_state) list" where
  "walk nx currentState [] = []"
| "walk nx currentState (event # events) =
     (let state_after = nx currentState (ev_type event) in (event, state_after) # walk nx state_after events)"

definition replayWithState :: "negotiation_event list \<Rightarrow> (negotiation_event \<times> session_state) list" where
  "replayWithState events = walk admin_next_state OPEN events"

section \<open>The broadcaster\<close>

text \<open>
  A subscriber is a number that names its callback. \<open>adminSubs\<close> maps a session to a \<open>Set\<close>, an object
  its subscribers share: \<open>adminSets\<close> is the store of these objects, by address.
\<close>

record broadcaster =
  publicSubs :: "nat list"
  adminSubs :: "(string \<times> nat) list"
  adminSets :: "nat \<Rightarrow> nat list"
  nextSet :: nat

definition no_subscribers :: broadcaster where
  "no_subscribers = \<lparr>publicSubs = [], adminSubs = [], adminSets = (\<lambda>_. []), nextSet = 0\<rparr>"

definition subscribePublic :: "nat \<Rightarrow> broadcaster \<Rightarrow> broadcaster" where
  "subscribePublic fn b = b\<lparr>publicSubs := (if fn \<in> set (publicSubs b) then publicSubs b else publicSubs b @ [fn])\<rparr>"

definition unsubscribePublic :: "nat \<Rightarrow> broadcaster \<Rightarrow> broadcaster" where
  "unsubscribePublic fn b = b\<lparr>publicSubs := filter (\<lambda>x. x \<noteq> fn) (publicSubs b)\<rparr>"

text \<open>\<open>subscribeAdmin\<close>, with the set its closure keeps.\<close>

definition subscribeAdmin :: "string \<Rightarrow> nat \<Rightarrow> broadcaster \<Rightarrow> nat \<times> broadcaster" where
  "subscribeAdmin rfqId fn b =
     (let (subs, b1) =
        (case map_of (adminSubs b) rfqId of
           Some subs \<Rightarrow> (subs, b)
         | None \<Rightarrow> (nextSet b, b\<lparr>adminSubs := AList.update rfqId (nextSet b) (adminSubs b),
                                adminSets := (adminSets b)(nextSet b := []), nextSet := nextSet b + 1\<rparr>))
      in (subs, b1\<lparr>adminSets := (adminSets b1)(subs := (if fn \<in> set (adminSets b1 subs) then adminSets b1 subs
                                                          else adminSets b1 subs @ [fn]))\<rparr>))"

definition unsubscribeAdmin :: "string \<Rightarrow> nat \<Rightarrow> nat \<Rightarrow> broadcaster \<Rightarrow> broadcaster" where
  "unsubscribeAdmin rfqId subs fn b =
     (let b1 = b\<lparr>adminSets := (adminSets b)(subs := filter (\<lambda>x. x \<noteq> fn) (adminSets b subs))\<rparr>
      in if adminSets b1 subs = [] then b1\<lparr>adminSubs := AList.delete rfqId (adminSubs b1)\<rparr> else b1)"

datatype role = Buyer | System | Seller

definition role_of :: "did \<Rightarrow> did \<Rightarrow> role" where
  "role_of buyer_did actor =
     (if actor = buyer_did then Buyer else if take 7 actor = ''engine/'' then System else Seller)"

record public_item =
  pi_type :: event_type
  pi_actor_role :: role
  pi_state_after :: session_state

type_synonym admin_item = "negotiation_event \<times> session_state"

section \<open>The streams\<close>

text \<open>
  How far the handler of a stream has come: subscribed and buffering, the log read, the buffer cleared
  of what the log had already, and live. \<open>st_buffer\<close> is \<open>buffer\<close>, \<open>st_replay\<close> and
  \<open>st_snapshot\<close> are \<open>replayWithState\<close> and \<open>bufferedSnapshot\<close>, \<open>st_sent\<close> is what the client was sent.
\<close>

datatype stream_phase = Subscribed | Replayed | Deduped | Streaming

record admin_stream =
  st_rfq :: string
  st_subs :: nat
  st_phase :: stream_phase
  st_buffer :: "admin_item list"
  st_replay :: "admin_item list"
  st_snapshot :: "admin_item list"
  st_sent :: "admin_item list"

record observers =
  ob_bc :: broadcaster
  adminSseConnections :: nat
  publicFeedConnections :: nat
  ob_streams :: "(nat \<times> admin_stream) list"
  ob_feeds :: "(nat \<times> public_item list) list"

definition MAX_ADMIN_SSE :: nat where "MAX_ADMIN_SSE = 5"
definition MAX_PUBLIC_FEED :: nat where "MAX_PUBLIC_FEED = 100"

definition no_observers :: observers where
  "no_observers = \<lparr>ob_bc = no_subscribers, adminSseConnections = 0, publicFeedConnections = 0, ob_streams = [], ob_feeds = []\<rparr>"

text \<open>
  \<open>GET /admin/sessions/:id/events\<close> as a stream, in the steps its comments name. They run in one
  synchronous stretch, but nothing below relies on that: an append may fall between any two of them.
\<close>

definition openAdminStream :: "nat \<Rightarrow> string \<Rightarrow> manager \<Rightarrow> observers \<Rightarrow> unit res \<times> observers" where
  "openAdminStream fn rfqId m ob =
     (if \<not> hasSession rfqId m then (Inl (EngineError 404 ''not_found''), ob)
      else if adminSseConnections ob \<ge> MAX_ADMIN_SSE then (Inl (EngineError 503 ''too_many_connections''), ob)
      else let (subs, bc) = subscribeAdmin rfqId fn (ob_bc ob) in
        (Inr (), ob\<lparr>adminSseConnections := adminSseConnections ob + 1, ob_bc := bc,
           ob_streams := (fn, \<lparr>st_rfq = rfqId, st_subs = subs, st_phase = Subscribed, st_buffer = [], st_replay = [],
                               st_snapshot = [], st_sent = []\<rparr>) # ob_streams ob\<rparr>))"

definition read_replay :: "negotiation_event list \<Rightarrow> admin_stream \<Rightarrow> admin_stream" where
  "read_replay events strm = strm\<lparr>st_replay := replayWithState events, st_phase := Replayed\<rparr>"

text \<open>An item without an event id is kept.\<close>

definition dedupe_buffer :: "admin_stream \<Rightarrow> admin_stream" where
  "dedupe_buffer strm =
     (let replayIds = map (\<lambda>(e, _). ev_id e) (st_replay strm) in
      strm\<lparr>st_snapshot := filter (\<lambda>(e, _). ev_id e = [] \<or> ev_id e \<notin> set replayIds) (st_buffer strm),
           st_buffer := [], st_phase := Deduped\<rparr>)"

definition activate_stream :: "admin_stream \<Rightarrow> admin_stream" where
  "activate_stream strm =
     strm\<lparr>st_sent := st_replay strm @ st_snapshot strm @ st_buffer strm, st_buffer := [], st_phase := Streaming\<rparr>"

text \<open>The step a stream is about to take; \<open>events\<close> is the log of its session.\<close>

definition advance :: "(string \<Rightarrow> negotiation_event list) \<Rightarrow> admin_stream \<Rightarrow> admin_stream" where
  "advance events strm =
     (case st_phase strm of
        Subscribed \<Rightarrow> read_replay (events (st_rfq strm)) strm
      | Replayed \<Rightarrow> dedupe_buffer strm
      | Deduped \<Rightarrow> activate_stream strm
      | Streaming \<Rightarrow> strm)"

definition advanceStream :: "nat \<Rightarrow> manager \<Rightarrow> observers \<Rightarrow> observers" where
  "advanceStream fn m ob = ob\<lparr>ob_streams := AList.map_entry fn (advance (events_in m)) (ob_streams ob)\<rparr>"

text \<open>The callback of a stream.\<close>

definition receive :: "admin_item \<Rightarrow> admin_stream \<Rightarrow> admin_stream" where
  "receive item strm =
     (if st_phase strm = Streaming then strm\<lparr>st_sent := st_sent strm @ [item]\<rparr> else strm\<lparr>st_buffer := st_buffer strm @ [item]\<rparr>)"

text \<open>\<open>cleanup\<close>: its flag lets it run once per stream.\<close>

definition closeAdminStream :: "nat \<Rightarrow> observers \<Rightarrow> observers" where
  "closeAdminStream fn ob =
     (case map_of (ob_streams ob) fn of
        None \<Rightarrow> ob
      | Some strm \<Rightarrow> ob\<lparr>ob_bc := unsubscribeAdmin (st_rfq strm) (st_subs strm) fn (ob_bc ob),
           adminSseConnections := adminSseConnections ob - 1, ob_streams := AList.delete fn (ob_streams ob)\<rparr>)"

definition openFeed :: "nat \<Rightarrow> observers \<Rightarrow> unit res \<times> observers" where
  "openFeed fn ob =
     (if publicFeedConnections ob \<ge> MAX_PUBLIC_FEED then (Inl (EngineError 503 ''too_many_connections''), ob)
      else (Inr (), ob\<lparr>publicFeedConnections := publicFeedConnections ob + 1, ob_bc := subscribePublic fn (ob_bc ob),
             ob_feeds := (fn, []) # ob_feeds ob\<rparr>))"

definition closeFeed :: "nat \<Rightarrow> observers \<Rightarrow> observers" where
  "closeFeed fn ob =
     (case map_of (ob_feeds ob) fn of
        None \<Rightarrow> ob
      | Some _ \<Rightarrow> ob\<lparr>ob_bc := unsubscribePublic fn (ob_bc ob), publicFeedConnections := publicFeedConnections ob - 1,
           ob_feeds := AList.delete fn (ob_feeds ob)\<rparr>)"

definition send_all :: "('s \<Rightarrow> 's) \<Rightarrow> nat list \<Rightarrow> (nat \<times> 's) list \<Rightarrow> (nat \<times> 's) list" where
  "send_all f subs streams = fold (\<lambda>fn. AList.map_entry fn f) subs streams"

text \<open>\<open>EventBroadcaster.onEvent\<close>, with the callbacks it runs.\<close>

definition broadcast :: "negotiation_event \<Rightarrow> derived_session \<Rightarrow> observers \<Rightarrow> observers" where
  "broadcast event session ob =
     (let b = ob_bc ob;
          data = \<lparr>pi_type = ev_type event, pi_actor_role = role_of (buyer (rfq session)) (ev_actor event), pi_state_after = state session\<rparr>;
          ob1 = ob\<lparr>ob_feeds := send_all (\<lambda>sent. sent @ [data]) (publicSubs b) (ob_feeds ob)\<rparr>
      in case map_of (adminSubs b) (ev_rfq event) of
           None \<Rightarrow> ob1
         | Some subs \<Rightarrow> ob1\<lparr>ob_streams := send_all (receive (event, state session)) (adminSets b subs) (ob_streams ob)\<rparr>)"

section \<open>The lists\<close>

record feed_item = public_item +
  fi_timestamp :: string

definition feed_of :: "derived_session \<Rightarrow> negotiation_event list \<Rightarrow> feed_item list" where
  "feed_of session events =
     map (\<lambda>(event, currentState). \<lparr>pi_type = ev_type event, pi_actor_role = role_of (buyer (rfq session)) (ev_actor event),
        pi_state_after = currentState, fi_timestamp = ev_time event\<rparr>) (walk feed_next_state OPEN events)"

text \<open>
  The loop both lists share: every session of the store, read through the cache, adds the rows
  \<open>rows\<close> computes from it and its log.
\<close>

fun collect_sessions :: "(string \<Rightarrow> derived_session \<Rightarrow> negotiation_event list \<Rightarrow> 'r list) \<Rightarrow> millis \<Rightarrow> string list \<Rightarrow> manager \<Rightarrow>
  'r list res \<times> manager" where
  "collect_sessions rows now [] m = (Inr [], m)"
| "collect_sessions rows now (rfqId # ids) m =
     (case getSession now rfqId m of
        (Inl e, m1) \<Rightarrow> (Inl e, m1)
      | (Inr so, m1) \<Rightarrow>
          (case collect_sessions rows now ids m1 of
             (Inl e, m2) \<Rightarrow> (Inl e, m2)
           | (Inr rest, m2) \<Rightarrow>
               (Inr (case so of Some session \<Rightarrow> rows rfqId session (events_in m1 rfqId) @ rest | None \<Rightarrow> rest), m2)))"

definition RECENT_FEED_DEFAULT :: rat where "RECENT_FEED_DEFAULT = 20"
definition RECENT_FEED_MAX :: rat where "RECENT_FEED_MAX = 100"

text \<open>
  The number of items: \<open>param\<close> is \<open>Number(limitParam)\<close>, \<open>None\<close> where the query has no limit or it is
  \<open>NaN\<close>; \<open>slice\<close> cuts a fraction off.
\<close>

definition feed_limit :: "rat option \<Rightarrow> nat" where
  "feed_limit param =
     nat \<lfloor>case param of
        Some n \<Rightarrow> min (max 1 (if n = 0 then RECENT_FEED_DEFAULT else n)) RECENT_FEED_MAX
      | None \<Rightarrow> RECENT_FEED_DEFAULT\<rfloor>"

definition feedRecent ::
  "(string \<Rightarrow> string \<Rightarrow> rat) \<Rightarrow> millis \<Rightarrow> rat option \<Rightarrow> manager \<Rightarrow> (feed_item list \<times> nat) res \<times> manager" where
  "feedRecent lc now param m =
     (case collect_sessions (\<lambda>_. feed_of) now (getActiveSessionIds m) m of
        (Inl e, m') \<Rightarrow> (Inl e, m')
      | (Inr anonymized, m') \<Rightarrow>
          (Inr (take (feed_limit param) (js_sort (\<lambda>a b. lc (fi_timestamp b) (fi_timestamp a)) anonymized), length anonymized), m'))"

record admin_row =
  ar_rfq_id :: string
  ar_state :: session_state
  ar_buyer :: did
  ar_service_type :: string
  ar_anchor_price :: string
  ar_currency :: string
  ar_offer_count :: nat
  ar_seller_count :: nat
  ar_selected_seller :: "did option"
  ar_created_at :: "string option"
  ar_deadline :: string
  ar_event_count :: nat
  ar_final_price :: "json option"
  ar_listing_id :: "string option"
  ar_duration_ms :: "int option"
  ar_total_accept_attempts :: nat

text \<open>\<open>new Date(...).getTime()\<close> of an invalid date is \<open>NaN\<close>, which JSON writes as \<open>null\<close>.\<close>

definition log_duration :: "platform \<Rightarrow> negotiation_event list \<Rightarrow> int option" where
  "log_duration P events =
     (case events of
        [] \<Rightarrow> None
      | first # _ \<Rightarrow>
          (case (parse_date P (ev_time (last events)), parse_date P (ev_time first)) of
             (Some a, Some b) \<Rightarrow> Some (a - b)
           | _ \<Rightarrow> None))"

definition winning_offer :: "derived_session \<Rightarrow> recorded_offer option" where
  "winning_offer session =
     (case selectedOfferId session of
        Some i \<Rightarrow> if i = [] then None else find (\<lambda>x. o_offer_id x = i) (offers session)
      | None \<Rightarrow> None)"

definition quote_price :: "derived_session \<Rightarrow> json option" where
  "quote_price session = (case unsignedQuote session of Some q \<Rightarrow> jget q ''final_price'' | None \<Rightarrow> None)"

definition admin_row_of :: "platform \<Rightarrow> string \<Rightarrow> derived_session \<Rightarrow> negotiation_event list \<Rightarrow> admin_row" where
  "admin_row_of P rfqId session events = \<lparr>
     ar_rfq_id = rfqId, ar_state = state session, ar_buyer = buyer (rfq session), ar_service_type = service_type (rfq session),
     ar_anchor_price = anchor_price (rfq session), ar_currency = currency (rfq session), ar_offer_count = length (offers session),
     ar_seller_count = card (o_seller ` set (offers session)), ar_selected_seller = selectedSeller session,
     ar_created_at = (case events of [] \<Rightarrow> None | e # _ \<Rightarrow> Some (ev_time e)), ar_deadline = deadline (rfq session),
     ar_event_count = length events, ar_final_price = quote_price session, ar_listing_id = map_option o_listing_id (winning_offer session),
     ar_duration_ms = log_duration P events, ar_total_accept_attempts = totalAcceptAttempts session\<rparr>"

text \<open>\<open>parseInt(s, 10)\<close> and \<open>Array.prototype.slice\<close>.\<close>

definition parse_int :: "string \<Rightarrow> int option" where
  "parse_int s =
     (let t = dropWhile is_white_space s;
          (neg, u) = (if take 1 t = ''-'' then (True, drop 1 t) else if take 1 t = ''+'' then (False, drop 1 t) else (False, t));
          ds = takeWhile is_digit u
      in if ds = [] then None else Some (if neg then - int (nat_of_digits ds) else int (nat_of_digits ds)))"

definition slice_index :: "nat \<Rightarrow> int \<Rightarrow> nat" where
  "slice_index len i = (if i < 0 then nat (int len + i) else min (nat i) len)"

definition slice :: "'a list \<Rightarrow> int \<Rightarrow> int \<Rightarrow> 'a list" where
  "slice xs a b = (let i = slice_index (length xs) a; j = slice_index (length xs) b in take (j - i) (drop i xs))"

definition query_int :: "string option \<Rightarrow> int \<Rightarrow> int" where
  "query_int q dflt = (case q of None \<Rightarrow> dflt | Some s \<Rightarrow> (case parse_int s of Some n \<Rightarrow> if n = 0 then dflt else n | None \<Rightarrow> dflt))"

record admin_page =
  ap_total :: nat
  ap_limit :: int
  ap_offset :: int
  ap_sessions :: "admin_row list"

definition adminSessions ::
  "platform \<Rightarrow> millis \<Rightarrow> string option \<Rightarrow> string option \<Rightarrow> string option \<Rightarrow> manager \<Rightarrow> admin_page res \<times> manager" where
  "adminSessions P now limitQ offsetQ stateQ m =
     (let limit = min (query_int limitQ 50) 200; offset = query_int offsetQ 0;
          rows = (\<lambda>rfqId session events. if passes stateQ (state_text (state session)) then [admin_row_of P rfqId session events] else [])
      in case collect_sessions rows now (getActiveSessionIds m) m of
           (Inl e, m') \<Rightarrow> (Inl e, m')
         | (Inr found, m') \<Rightarrow>
             let sorted = js_sort (\<lambda>a b. of_nat (ar_event_count b) - of_nat (ar_event_count a)) found
             in (Inr \<lparr>ap_total = length found, ap_limit = limit, ap_offset = offset, ap_sessions = slice sorted offset (offset + limit)\<rparr>, m'))"

record admin_detail =
  ad_session :: derived_session
  ad_event_count :: nat
  ad_final_price :: "json option"
  ad_listing_id :: "string option"
  ad_payment_endpoint :: "string option"
  ad_created_at :: "string option"
  ad_duration_ms :: "int option"

definition adminSession :: "platform \<Rightarrow> millis \<Rightarrow> string \<Rightarrow> manager \<Rightarrow> admin_detail res \<times> manager" where
  "adminSession P now rfqId m =
     (case getSession now rfqId m of
        (Inl e, m') \<Rightarrow> (Inl e, m')
      | (Inr None, m') \<Rightarrow> (Inl (EngineError 404 ''not_found''), m')
      | (Inr (Some session), m') \<Rightarrow>
          let events = events_in m' rfqId in
          (Inr \<lparr>ad_session = session, ad_event_count = store_size (sm_store m') rfqId, ad_final_price = quote_price session,
             ad_listing_id = map_option o_listing_id (winning_offer session),
             ad_payment_endpoint = map_option o_payment_endpoint (winning_offer session),
             ad_created_at = (case events of [] \<Rightarrow> None | e # _ \<Rightarrow> Some (ev_time e)), ad_duration_ms = log_duration P events\<rparr>, m'))"

text \<open>\<open>GET /admin/sessions/:id/events\<close> without a stream.\<close>

definition adminEvents :: "millis \<Rightarrow> string \<Rightarrow> manager \<Rightarrow> (session_state option \<times> negotiation_event list) res \<times> manager" where
  "adminEvents now rfqId m =
     (if \<not> hasSession rfqId m then (Inl (EngineError 404 ''not_found''), m)
      else case getSession now rfqId m of
        (Inl e, m') \<Rightarrow> (Inl e, m')
      | (Inr so, m') \<Rightarrow> (Inr (map_option state so, events_in m rfqId), m'))"

section \<open>The recomputed states are the derived ones\<close>

lemma next_state_table:
  assumes "isValidTransition s t = Some s'"
  shows "admin_next_state s t = s'" "feed_next_state s t = s'"
  using transition_cases[OF assms] by (auto simp: admin_next_state_def feed_next_state_def)

lemma walk_snoc:
  "walk nx s (L @ [e]) = walk nx s L @ [(e, nx (foldl (\<lambda>s e. nx s (ev_type e)) s L) (ev_type e))]"
  by (induction L arbitrary: s) (auto simp: Let_def)

lemma walk_state:
  assumes "\<And>s t s'. isValidTransition s t = Some s' \<Longrightarrow> nx s t = s'" "nx OPEN RFQ_CREATED = OPEN"
  shows "deriveState L = Inr (Some s) \<Longrightarrow> foldl (\<lambda>s e. nx s (ev_type e)) OPEN L = state s"
proof (induction L arbitrary: s rule: rev_induct)
  case (snoc e L)
  show ?case
  proof (cases "L = []")
    case True
    then show ?thesis using first_event[of e s] snoc.prems assms(2) by simp
  next
    case False
    then obtain s0 where s0: "deriveState L = Inr (Some s0)"
      using snoc.prems deriveState_None[of L] by (cases "deriveState L") (auto simp: deriveState_snoc)
    then show ?thesis using snoc.IH assms(1) apply_event_transition[OF deriveState_snocD[OF s0 snoc.prems]] by simp
  qed
qed (simp add: deriveState_def)

text \<open>Each event with the state the reducer derives from the log up to it.\<close>

definition with_states :: "negotiation_event list \<Rightarrow> (negotiation_event \<times> session_state) list" where
  "with_states L = map (\<lambda>i. (L ! i, the (state_of (take (Suc i) L)))) [0..<length L]"

lemma with_states_snoc: "with_states (L @ [e]) = with_states L @ [(e, the (state_of (L @ [e])))]"
  by (simp add: with_states_def nth_append)

lemma derives_prefix:
  "deriveState (L @ [e]) = Inr (Some s) \<Longrightarrow> L \<noteq> [] \<Longrightarrow> \<exists>s0. deriveState L = Inr (Some s0)"
  using deriveState_None[of L] by (cases "deriveState L") (auto simp: deriveState_snoc)

lemma walk_states:
  assumes "\<And>s t s'. isValidTransition s t = Some s' \<Longrightarrow> nx s t = s'" "nx OPEN RFQ_CREATED = OPEN"
  shows "deriveState L = Inr (Some s) \<Longrightarrow> walk nx OPEN L = with_states L"
proof (induction L arbitrary: s rule: rev_induct)
  case (snoc e L)
  have "walk nx OPEN L = with_states L"
  proof (cases "L = []")
    case True
    then show ?thesis by (simp add: with_states_def)
  next
    case False
    then show ?thesis using derives_prefix[OF snoc.prems False] snoc.IH by blast
  qed
  moreover have "nx (foldl (\<lambda>s e. nx s (ev_type e)) OPEN L) (ev_type e) = the (state_of (L @ [e]))"
    using walk_state[where nx = nx, OF assms snoc.prems] state_of_simps(1)[OF snoc.prems] by simp
  ultimately show ?case by (simp add: walk_snoc with_states_snoc)
qed (simp add: with_states_def)

lemma replay_states: "deriveState L = Inr (Some s) \<Longrightarrow> replayWithState L = with_states L"
  unfolding replayWithState_def by (rule walk_states) (simp_all add: next_state_table, simp add: admin_next_state_def)

lemma feed_states: "deriveState L = Inr (Some s) \<Longrightarrow> walk feed_next_state OPEN L = with_states L"
  by (rule walk_states) (simp_all add: next_state_table, simp add: feed_next_state_def)

section \<open>Observers beside the logs\<close>

text \<open>
  Streams and feeds open and close at any time, and every append is broadcast. A subscriber's name is
  new when its stream opens, as a closure is.
\<close>

definition named_log :: "negotiation_event list \<Rightarrow> bool" where
  "named_log L \<longleftrightarrow> L \<noteq> [] \<and> (\<forall>e \<in> set L. ev_id e \<noteq> [])"

inductive observing :: "manager \<Rightarrow> observers \<Rightarrow> bool" where
  start: "manager_ok m \<Longrightarrow> observing m no_observers"
| append: "observing m ob \<Longrightarrow> manager_ok m' \<Longrightarrow> deriveState (events_in m' r) = Inr (Some s) \<Longrightarrow>
     events_in m' = (events_in m)(r := events_in m r @ [e]) \<Longrightarrow> ev_rfq e = r \<Longrightarrow> ev_id e \<noteq> [] \<Longrightarrow> observing m' (broadcast e s ob)"
| quiet: "observing m ob \<Longrightarrow> manager_ok m' \<Longrightarrow> events_in m' = events_in m \<Longrightarrow> observing m' ob"
| open_stream: "observing m ob \<Longrightarrow> fn \<notin> fst ` set (ob_streams ob) \<Longrightarrow> openAdminStream fn r m ob = (res, ob') \<Longrightarrow>
     (\<forall>e \<in> set (events_in m r). ev_id e \<noteq> []) \<Longrightarrow> observing m ob'"
| advance: "observing m ob \<Longrightarrow> observing m (advanceStream fn m ob)"
| close_stream: "observing m ob \<Longrightarrow> observing m (closeAdminStream fn ob)"
| open_feed: "observing m ob \<Longrightarrow> fn \<notin> fst ` set (ob_feeds ob) \<Longrightarrow> openFeed fn ob = (res, ob') \<Longrightarrow> observing m ob'"
| close_feed: "observing m ob \<Longrightarrow> observing m (closeFeed fn ob)"

text \<open>What a stream holds at each of its steps, given its session's log with the derived states.\<close>

definition admin_stream_ok :: "admin_item list \<Rightarrow> admin_stream \<Rightarrow> bool" where
  "admin_stream_ok ws strm \<longleftrightarrow>
     (case st_phase strm of
        Subscribed \<Rightarrow> (\<exists>n \<le> length ws. st_buffer strm = drop n ws)
      | Replayed \<Rightarrow> (\<exists>n k. n \<le> k \<and> k \<le> length ws \<and> st_buffer strm = drop n ws \<and> st_replay strm = take k ws)
      | Deduped \<Rightarrow> st_replay strm @ st_snapshot strm @ st_buffer strm = ws
      | Streaming \<Rightarrow> st_sent strm = ws)"

lemma replayed_ok:
  "st_phase strm = Replayed \<Longrightarrow> st_buffer strm = drop n ws \<Longrightarrow> st_replay strm = take k ws \<Longrightarrow> n \<le> k \<Longrightarrow> k \<le> length ws \<Longrightarrow> admin_stream_ok ws strm"
  by (auto simp: admin_stream_ok_def)

lemma receive_ok:
  assumes "admin_stream_ok ws strm"
  shows "admin_stream_ok (ws @ [x]) (receive x strm)"
proof (cases "st_phase strm")
  case Subscribed
  then obtain n where "n \<le> length ws" "st_buffer strm = drop n ws" using assms by (auto simp: admin_stream_ok_def)
  then show ?thesis using Subscribed by (auto simp: admin_stream_ok_def receive_def intro!: exI[of _ n])
next
  case Replayed
  then obtain n k where "n \<le> k" "k \<le> length ws" "st_buffer strm = drop n ws" "st_replay strm = take k ws" using assms by (auto simp: admin_stream_ok_def)
  then show ?thesis using Replayed by (intro replayed_ok[of _ n _ k]) (simp_all add: receive_def)
qed (use assms in \<open>auto simp: admin_stream_ok_def receive_def\<close>)

lemma dedupe_drops:
  assumes "distinct (map (\<lambda>(e, _). ev_id e) ws)" "\<forall>(e, _) \<in> set ws. ev_id e \<noteq> []" "n \<le> k"
  shows "filter (\<lambda>(e, _). ev_id e = [] \<or> ev_id e \<notin> set (map (\<lambda>(e, _). ev_id e) (take k ws))) (drop n ws) = drop k ws"
proof -
  let ?Q = "\<lambda>(e, _). ev_id e = [] \<or> ev_id e \<notin> set (map (\<lambda>(e, _). ev_id e) (take k ws))"
  have split: "drop n ws = take (k - n) (drop n ws) @ drop k ws" using assms(3) by (metis append_take_drop_id drop_drop le_add_diff_inverse2)
  have "set (take (k - n) (drop n ws)) \<subseteq> set (take k ws)" using assms(3) by (simp add: take_drop set_drop_subset)
  then have old: "filter ?Q (take (k - n) (drop n ws)) = []" using assms(2) by (fastforce simp: filter_empty_conv dest: in_set_takeD)
  have "distinct (map (\<lambda>(e, _). ev_id e) (take k ws) @ map (\<lambda>(e, _). ev_id e) (drop k ws))"
    using assms(1) by (metis append_take_drop_id map_append)
  then have dis: "set (map (\<lambda>(e, _). ev_id e) (take k ws)) \<inter> set (map (\<lambda>(e, _). ev_id e) (drop k ws)) = {}" by simp
  have "?Q x" if x: "x \<in> set (drop k ws)" for x
  proof -
    have "(\<lambda>(e, _). ev_id e) x \<in> set (map (\<lambda>(e, _). ev_id e) (drop k ws))" using x by simp
    then have "(\<lambda>(e, _). ev_id e) x \<notin> set (map (\<lambda>(e, _). ev_id e) (take k ws))" using dis by blast
    then show ?thesis by (cases x) simp
  qed
  then have new: "filter ?Q (drop k ws) = drop k ws" by (simp add: filter_id_conv)
  show ?thesis by (subst split) (simp only: filter_append old new append_Nil)
qed

lemma advance_ok:
  assumes "admin_stream_ok ws strm" "ws = replayWithState (events (st_rfq strm))" "distinct (map (\<lambda>(e, _). ev_id e) ws)" "\<forall>(e, _) \<in> set ws. ev_id e \<noteq> []"
  shows "admin_stream_ok ws (advance events strm)"
proof (cases "st_phase strm")
  case Subscribed
  then obtain n where "n \<le> length ws" "st_buffer strm = drop n ws" using assms by (auto simp: admin_stream_ok_def)
  then show ?thesis using Subscribed assms(2) by (intro replayed_ok[of _ n _ "length ws"]) (simp_all add: advance_def read_replay_def)
next
  case Replayed
  then obtain n k where nk: "n \<le> k" "k \<le> length ws" "st_buffer strm = drop n ws" "st_replay strm = take k ws" using assms(1) by (auto simp: admin_stream_ok_def)
  then show ?thesis using Replayed dedupe_drops[OF assms(3,4) nk(1)]
    by (simp add: admin_stream_ok_def advance_def dedupe_buffer_def Let_def del: set_map)
qed (use assms in \<open>auto simp: admin_stream_ok_def advance_def activate_stream_def\<close>)

definition sets_ok :: "broadcaster \<Rightarrow> (nat \<times> admin_stream) list \<Rightarrow> bool" where
  "sets_ok b streams \<longleftrightarrow>
     (\<forall>fn strm. map_of streams fn = Some strm \<longrightarrow> map_of (adminSubs b) (st_rfq strm) = Some (st_subs strm) \<and>
        fn \<in> set (adminSets b (st_subs strm))) \<and>
     (\<forall>r a. map_of (adminSubs b) r = Some a \<longrightarrow> a < nextSet b \<and> distinct (adminSets b a) \<and>
        (\<forall>fn \<in> set (adminSets b a). \<exists>strm. map_of streams fn = Some strm \<and> st_rfq strm = r)) \<and>
     (\<forall>r r' a. map_of (adminSubs b) r = Some a \<longrightarrow> map_of (adminSubs b) r' = Some a \<longrightarrow> r = r')"

definition observers_ok :: "manager \<Rightarrow> observers \<Rightarrow> bool" where
  "observers_ok m ob \<longleftrightarrow>
     manager_ok m \<and> sets_ok (ob_bc ob) (ob_streams ob) \<and> distinct (map fst (ob_streams ob)) \<and>
     adminSseConnections ob = length (ob_streams ob) \<and> length (ob_streams ob) \<le> MAX_ADMIN_SSE \<and>
     (\<forall>fn strm. map_of (ob_streams ob) fn = Some strm \<longrightarrow>
        admin_stream_ok (with_states (events_in m (st_rfq strm))) strm \<and> named_log (events_in m (st_rfq strm)))"

lemma map_of_send_all:
  "distinct subs \<Longrightarrow> map_of (send_all f subs xs) k = (if k \<in> set subs then map_option f (map_of xs k) else map_of xs k)"
proof (induction subs arbitrary: xs)
  case (Cons a subs)
  have "map_of (AList.map_entry a f xs) k = (if k = a then map_option f (map_of xs k) else map_of xs k)" for k
    by (simp add: map_of_map_entry split: option.split)
  then show ?case using Cons by (auto simp: send_all_def)
qed (simp add: send_all_def)

lemma keys_send_all [simp]: "map fst (send_all f subs xs) = map fst xs" "length (send_all f subs xs) = length xs"
proof -
  have "map fst (AList.map_entry a f xs) = map fst xs" for a and xs :: "(nat \<times> 'a) list" by (induction xs) auto
  then show "map fst (send_all f subs xs) = map fst xs" by (induction subs arbitrary: xs) (simp_all add: send_all_def)
  then show "length (send_all f subs xs) = length xs" by (metis length_map)
qed

lemma sets_okD:
  assumes "sets_ok b streams"
  shows "map_of streams fn = Some strm \<Longrightarrow> map_of (adminSubs b) (st_rfq strm) = Some (st_subs strm) \<and> fn \<in> set (adminSets b (st_subs strm))"
    "map_of (adminSubs b) r = Some a \<Longrightarrow> a < nextSet b \<and> distinct (adminSets b a)"
    "map_of (adminSubs b) r = Some a \<Longrightarrow> fn \<in> set (adminSets b a) \<Longrightarrow> \<exists>strm. map_of streams fn = Some strm \<and> st_rfq strm = r"
    "map_of (adminSubs b) r = Some a \<Longrightarrow> map_of (adminSubs b) r' = Some a \<Longrightarrow> r = r'"
  using assms unfolding sets_ok_def by blast+

lemma sets_okI:
  assumes "\<And>fn strm. map_of streams fn = Some strm \<Longrightarrow> map_of (adminSubs b) (st_rfq strm) = Some (st_subs strm) \<and> fn \<in> set (adminSets b (st_subs strm))"
    "\<And>r a. map_of (adminSubs b) r = Some a \<Longrightarrow> a < nextSet b \<and> distinct (adminSets b a)"
    "\<And>r a fn. map_of (adminSubs b) r = Some a \<Longrightarrow> fn \<in> set (adminSets b a) \<Longrightarrow> \<exists>strm. map_of streams fn = Some strm \<and> st_rfq strm = r"
    "\<And>r r' a. map_of (adminSubs b) r = Some a \<Longrightarrow> map_of (adminSubs b) r' = Some a \<Longrightarrow> r = r'"
  shows "sets_ok b streams"
  unfolding sets_ok_def using assms by blast

lemma sets_ok_send:
  assumes S: "sets_ok b streams" and d: "distinct subs" and f: "\<And>x. st_rfq (f x) = st_rfq x \<and> st_subs (f x) = st_subs x"
  shows "sets_ok b (send_all f subs streams)"
proof (rule sets_okI)
  fix fn and strm :: admin_stream assume "map_of (send_all f subs streams) fn = Some strm"
  then obtain y :: admin_stream where "map_of streams fn = Some y" "st_rfq strm = st_rfq y" "st_subs strm = st_subs y"
    using f by (auto simp: map_of_send_all[OF d] split: if_splits)
  then show "map_of (adminSubs b) (st_rfq strm) = Some (st_subs strm) \<and> fn \<in> set (adminSets b (st_subs strm))" using sets_okD(1)[OF S] by simp
next
  fix r a fn assume "map_of (adminSubs b) r = Some a" "fn \<in> set (adminSets b a)"
  then obtain y :: admin_stream where y: "map_of streams fn = Some y" "st_rfq y = r" using sets_okD(3)[OF S] by blast
  show "\<exists>strm. map_of (send_all f subs streams) fn = Some strm \<and> st_rfq strm = r"
    using y f by (auto simp: map_of_send_all[OF d])
qed (use sets_okD(2,4)[OF S] in blast)+

lemma broadcast_ok:
  assumes ok: "observers_ok m ob" and m': "manager_ok m'" "ev_id e \<noteq> []" and d: "deriveState (events_in m' r) = Inr (Some s)"
    and ev: "events_in m' = (events_in m)(r := events_in m r @ [e])" and r: "ev_rfq e = r"
  shows "observers_ok m' (broadcast e s ob)"
proof -
  let ?b = "ob_bc ob" and ?f = "receive (e, state s)"
  have S: "sets_ok ?b (ob_streams ob)" using ok by (simp add: observers_ok_def)
  have f: "st_rfq (?f x) = st_rfq x" "st_subs (?f x) = st_subs x" for x by (simp_all add: receive_def)
  have named: "named_log (events_in m r) \<Longrightarrow> named_log (events_in m' r)" using m'(2) ev by (auto simp: named_log_def)
  have sent: "admin_stream_ok (with_states (events_in m (st_rfq strm))) strm \<and> named_log (events_in m (st_rfq strm))"
    if "map_of (ob_streams ob) fn = Some strm" for fn strm using ok that by (simp add: observers_ok_def)
  have new: "events_in m' r = events_in m r @ [e]" "with_states (events_in m' r) = with_states (events_in m r) @ [(e, state s)]"
    using ev state_of_simps(1)[OF d] by (simp_all add: with_states_snoc)
  have other: "events_in m' r' = events_in m r'" if "r' \<noteq> r" for r' using ev that by simp
  show ?thesis
  proof (cases "map_of (adminSubs ?b) r")
    case None
    have "st_rfq strm \<noteq> r" if "map_of (ob_streams ob) fn = Some strm" for fn strm using sets_okD(1)[OF S that] None by auto
    then show ?thesis using ok m' None r other by (auto simp: observers_ok_def broadcast_def Let_def)
  next
    case (Some a)
    let ?X = "send_all ?f (adminSets ?b a) (ob_streams ob)"
    have dist: "distinct (adminSets ?b a)" using sets_okD(2)[OF S Some] by simp
    have b: "ob_bc (broadcast e s ob) = ?b" "ob_streams (broadcast e s ob) = ?X" "adminSseConnections (broadcast e s ob) = adminSseConnections ob"
      using Some r by (simp_all add: broadcast_def Let_def)
    have "admin_stream_ok (with_states (events_in m' (st_rfq strm))) strm \<and> named_log (events_in m' (st_rfq strm))" if X: "map_of ?X fn = Some strm" for fn strm
    proof -
      obtain x :: admin_stream where x: "map_of (ob_streams ob) fn = Some x" "strm = (if fn \<in> set (adminSets ?b a) then ?f x else x)"
        using X by (auto simp: map_of_send_all[OF dist] split: if_splits)
      have iff: "fn \<in> set (adminSets ?b a) \<longleftrightarrow> st_rfq x = r"
        using sets_okD(1)[OF S x(1)] sets_okD(3)[OF S Some, of fn] x(1) Some by auto
      show ?thesis
      proof (cases "st_rfq x = r")
        case True
        then show ?thesis using x(2) iff sent[OF x(1)] new named receive_ok[of _ x "(e, state s)"] by (simp add: f)
      next
        case False
        then show ?thesis using x(2) iff sent[OF x(1)] other by simp
      qed
    qed
    moreover have "sets_ok ?b ?X" by (rule sets_ok_send[OF S dist]) (simp add: f)
    moreover have "distinct (map fst ?X)" "adminSseConnections ob = length ?X" "length ?X \<le> MAX_ADMIN_SSE"
      using ok by (simp_all add: observers_ok_def)
    ultimately show ?thesis using m'(1) unfolding observers_ok_def b by blast
  qed
qed

lemma subscribe_ok:
  fixes new :: admin_stream
  assumes S: "sets_ok b streams" and fresh: "map_of streams fn = None" and sub: "subscribeAdmin r fn b = (a, b')"
    and strm: "st_rfq new = r" "st_subs new = a"
  shows "sets_ok b' ((fn, new) # streams)"
proof -
  have notin: "fn \<notin> set (adminSets b x)" if "map_of (adminSubs b) k = Some x" for k x
    using sets_okD(3)[OF S that, of fn] fresh by auto
  show ?thesis
  proof (cases "map_of (adminSubs b) r")
    case (Some x)
    then have eq: "a = x" "b' = b\<lparr>adminSets := (adminSets b)(x := adminSets b x @ [fn])\<rparr>"
      using sub notin[OF Some] by (auto simp: subscribeAdmin_def Let_def)
    have own: "k = r" if "map_of (adminSubs b) k = Some x" for k using sets_okD(4)[OF S that Some] .
    show ?thesis unfolding eq
    proof (rule sets_okI, goal_cases)
      case (1 fn' strm)
      then show ?case using sets_okD(1)[OF S, of fn' strm] Some strm eq(1) by (auto split: if_splits)
    next
      case (2 r' a')
      then show ?case using sets_okD(2)[OF S, of r' a'] notin[of r' a'] by auto
    next
      case (3 r' a' fn')
      then show ?case using sets_okD(3)[OF S, of r' a' fn'] own fresh strm by (auto split: if_splits)
    next
      case (4 r1 r2 a')
      then show ?case using sets_okD(4)[OF S, of r1 a' r2] by simp
    qed
  next
    case None
    then have eq: "a = nextSet b" "b' = b\<lparr>adminSubs := AList.update r (nextSet b) (adminSubs b), adminSets := (adminSets b)(nextSet b := [fn]), nextSet := nextSet b + 1\<rparr>"
      using sub by (auto simp: subscribeAdmin_def Let_def)
    have lt: "x < nextSet b" if "map_of (adminSubs b) k = Some x" for k x using sets_okD(2)[OF S that] by simp
    show ?thesis unfolding eq
    proof (rule sets_okI, goal_cases)
      case (1 fn' strm)
      then show ?case using sets_okD(1)[OF S, of fn' strm] None lt strm eq(1) by (fastforce simp: update_conv' split: if_splits)
    next
      case (2 r' a')
      then show ?case using sets_okD(2)[OF S, of r' a'] by (auto simp: update_conv' split: if_splits)
    next
      case (3 r' a' fn')
      then show ?case using sets_okD(3)[OF S, of r' a' fn'] lt[of r' a'] fresh strm by (auto simp: update_conv' split: if_splits)
    next
      case (4 r1 r2 a')
      then show ?case using sets_okD(4)[OF S, of r1 a' r2] lt[of r1 a'] lt[of r2 a'] by (auto simp: update_conv' split: if_splits)
    qed
  qed
qed

lemma unsubscribe_ok:
  fixes new :: admin_stream
  assumes S: "sets_ok b streams" and mem: "map_of streams fn = Some strm"
  shows "sets_ok (unsubscribeAdmin (st_rfq strm) (st_subs strm) fn b) (AList.delete fn streams)"
proof -
  let ?r = "st_rfq strm" and ?a = "st_subs strm"
  let ?rest = "filter (\<lambda>x. x \<noteq> fn) (adminSets b ?a)"
  let ?b = "unsubscribeAdmin ?r ?a fn b"
  have own: "map_of (adminSubs b) ?r = Some ?a" "fn \<in> set (adminSets b ?a)" using sets_okD(1)[OF S mem] by simp_all
  have sets: "adminSets ?b = (adminSets b)(?a := ?rest)" "nextSet ?b = nextSet b" by (simp_all add: unsubscribeAdmin_def Let_def)
  have subs: "map_of (adminSubs ?b) k = (if k = ?r \<and> ?rest = [] then None else map_of (adminSubs b) k)" for k
    by (simp add: unsubscribeAdmin_def Let_def delete_conv')
  show ?thesis
  proof (rule sets_okI, goal_cases)
    case (1 fn' x)
    then have x: "map_of streams fn' = Some x" "fn' \<noteq> fn" by (auto simp: delete_conv' split: if_splits)
    have "?rest \<noteq> []" if "st_rfq x = ?r" using sets_okD(1)[OF S x(1)] own that x(2) by (auto simp: filter_empty_conv)
    then show ?case using sets_okD(1)[OF S x(1)] x(2) by (auto simp: subs sets)
  next
    case (2 k a')
    then show ?case using sets_okD(2)[OF S, of k a'] by (auto simp: subs sets split: if_splits)
  next
    case (3 k a' fn')
    then have k: "map_of (adminSubs b) k = Some a'" "fn' \<in> set (adminSets b a')" "a' = ?a \<Longrightarrow> fn' \<noteq> fn" by (auto simp: subs sets split: if_splits)
    obtain y where y: "map_of streams fn' = Some y" "st_rfq y = k" using sets_okD(3)[OF S k(1,2)] by blast
    have "fn' \<noteq> fn" using k y own mem by auto
    then show ?case using y by (auto simp: delete_conv')
  next
    case (4 r1 r2 a')
    then show ?case using sets_okD(4)[OF S, of r1 a' r2] by (auto simp: subs split: if_splits)
  qed
qed

lemma open_ok:
  assumes ok: "observers_ok m ob" and fresh: "fn \<notin> fst ` set (ob_streams ob)" and op: "openAdminStream fn r m ob = (res, ob')"
    and ids: "\<forall>e \<in> set (events_in m r). ev_id e \<noteq> []"
  shows "observers_ok m ob'"
proof (cases "hasSession r m \<and> adminSseConnections ob < MAX_ADMIN_SSE")
  case False
  then have "ob' = ob" using op by (auto simp: openAdminStream_def split: if_splits)
  then show ?thesis using ok by simp
next
  case True
  obtain a b where sub: "subscribeAdmin r fn (ob_bc ob) = (a, b)" by fastforce
  let ?strm = "\<lparr>st_rfq = r, st_subs = a, st_phase = Subscribed, st_buffer = [], st_replay = [], st_snapshot = [], st_sent = []\<rparr>"
  have ob': "ob' = ob\<lparr>adminSseConnections := adminSseConnections ob + 1, ob_bc := b, ob_streams := (fn, ?strm) # ob_streams ob\<rparr>"
    using op True sub by (auto simp: openAdminStream_def)
  have ne: "named_log (events_in m r)" using True ids by (simp add: named_log_def) (simp add: hasSession_def store_size_eq events_in_def)
  have sent: "admin_stream_ok (with_states (events_in m r)) ?strm" by (auto simp: admin_stream_ok_def)
  have none: "map_of (ob_streams ob) fn = None" using fresh by (simp add: map_of_eq_None_iff)
  have "sets_ok b ((fn, ?strm) # ob_streams ob)" by (rule subscribe_ok[OF _ none sub]) (use ok in \<open>simp_all add: observers_ok_def\<close>)
  then show ?thesis using ok fresh True sent ne by (auto simp: observers_ok_def ob' split: if_splits)
qed

text \<open>The log of a session, as a stream shows it.\<close>

lemma log_items:
  assumes "observers_ok m ob" "named_log (events_in m r)"
  shows "replayWithState (events_in m r) = with_states (events_in m r)" "distinct (map (\<lambda>(e, _). ev_id e) (with_states (events_in m r)))"
    "\<forall>(e, _) \<in> set (with_states (events_in m r)). ev_id e \<noteq> []"
proof -
  have ok: "manager_ok m" using assms(1) by (simp add: observers_ok_def)
  have "map fst (with_states L) = L" for L by (rule nth_equalityI) (simp_all add: with_states_def)
  then have ids: "map (\<lambda>(e, _). ev_id e) (with_states L) = map ev_id L" "fst ` set (with_states L) = set L" for L
    by (metis (no_types, lifting) case_prod_beta' list.map_comp comp_def map_eq_conv, metis list.set_map)
  obtain s where "deriveState (events_in m r) = Inr (Some s)"
    using ok assms(2) deriveState_None[of "events_in m r"] by (fastforce simp: manager_ok_def logs_ok_def named_log_def)
  then show "replayWithState (events_in m r) = with_states (events_in m r)" by (rule replay_states)
  show "distinct (map (\<lambda>(e, _). ev_id e) (with_states (events_in m r)))"
    unfolding ids(1) using ok by (simp add: manager_ok_def store_ids_ok_def events_in_def)
  show "\<forall>(e, _) \<in> set (with_states (events_in m r)). ev_id e \<noteq> []"
  proof clarify
    fix e x assume "(e, x) \<in> set (with_states (events_in m r))" "ev_id e = []"
    then have "e \<in> set (events_in m r)" using ids(2)[of "events_in m r"] image_eqI[of e fst "(e, x)"] by auto
    then show False using assms(2) \<open>ev_id e = []\<close> by (simp add: named_log_def)
  qed
qed

lemma advanceStream_ok:
  assumes ok: "observers_ok m ob"
  shows "observers_ok m (advanceStream fn m ob)"
proof -
  let ?f = "advance (events_in m)" and ?X = "send_all (advance (events_in m)) [fn] (ob_streams ob)"
  have f: "st_rfq (?f x) = st_rfq x" "st_subs (?f x) = st_subs x" for x
    by (simp_all add: advance_def read_replay_def dedupe_buffer_def activate_stream_def Let_def split: stream_phase.split)
  have X: "advanceStream fn m ob = ob\<lparr>ob_streams := ?X\<rparr>" by (simp add: advanceStream_def send_all_def)
  have "sets_ok (ob_bc ob) ?X" by (rule sets_ok_send) (use ok in \<open>simp_all add: observers_ok_def f\<close>)
  moreover have "admin_stream_ok (with_states (events_in m (st_rfq strm))) strm \<and> named_log (events_in m (st_rfq strm))"
    if X: "map_of ?X fn' = Some strm" for fn' strm
  proof -
    obtain x :: admin_stream where x: "map_of (ob_streams ob) fn' = Some x" "strm = (if fn' = fn then ?f x else x)"
      using X by (auto simp: map_of_send_all split: if_splits)
    have ox: "admin_stream_ok (with_states (events_in m (st_rfq x))) x" "named_log (events_in m (st_rfq x))" using ok x(1) by (simp_all add: observers_ok_def)
    note li = log_items[OF ok ox(2)]
    show ?thesis using x(2) ox advance_ok[where events = "events_in m", OF ox(1) li(1)[symmetric] li(2,3)] by (simp add: f)
  qed
  ultimately show ?thesis using ok unfolding observers_ok_def X by simp
qed

lemma close_ok: "observers_ok m ob \<Longrightarrow> observers_ok m (closeAdminStream fn ob)"
proof (cases "map_of (ob_streams ob) fn")
  case (Some strm)
  assume ok: "observers_ok m ob"
  have d: "distinct (map fst (ob_streams ob))" using ok by (simp add: observers_ok_def)
  have "(fn, strm) \<in> set (ob_streams ob)" using Some by (rule map_of_SomeD)
  then have len: "length (AList.delete fn (ob_streams ob)) = length (ob_streams ob) - 1"
    using d length_remove1[of fn "map fst (ob_streams ob)"] distinct_remove1_removeAll[OF d, of fn]
    by (force simp: AList.delete_eq removeAll_filter_not_eq filter_map comp_def case_prod_beta' dest: arg_cong[where f = length])
  show ?thesis using ok Some len unsubscribe_ok[of "ob_bc ob" "ob_streams ob" fn strm]
    by (auto simp: observers_ok_def closeAdminStream_def delete_conv' distinct_delete split: if_splits)
qed (simp add: closeAdminStream_def)

lemma feeds_ok:
  assumes "observers_ok m ob"
  shows "openFeed fn ob = (res, ob') \<Longrightarrow> observers_ok m ob'" "observers_ok m (closeFeed fn ob)"
  using assms
  by (auto simp: observers_ok_def sets_ok_def openFeed_def closeFeed_def subscribePublic_def unsubscribePublic_def split: if_splits option.split)

lemma observing_ok: "observing m ob \<Longrightarrow> observers_ok m ob"
proof (induction rule: observing.induct)
  case (start m)
  then show ?case by (simp add: observers_ok_def sets_ok_def no_observers_def no_subscribers_def)
next
  case (quiet m ob m')
  then show ?case by (simp add: observers_ok_def)
qed (blast intro: broadcast_ok open_ok advanceStream_ok close_ok feeds_ok)+

text \<open>
  C27. A stream of the admin panel holds its session's log, nothing more and nothing less: however
  streams open and close around the appends, what a stream has been sent is every event of the log in
  order, each once, with the state the reducer derives from the log up to that event; the counter of
  connections is the number of open streams, never above five.
\<close>

theorem admin_stream_exact:
  assumes "observing m ob" "map_of (ob_streams ob) fn = Some strm" "st_phase strm = Streaming"
  shows "st_sent strm = with_states (events_in m (st_rfq strm)) \<and> adminSseConnections ob = length (ob_streams ob) \<and>
    length (ob_streams ob) \<le> 5"
proof -
  have ok: "observers_ok m ob" by (rule observing_ok[OF assms(1)])
  then have "admin_stream_ok (with_states (events_in m (st_rfq strm))) strm" using assms(2) by (simp add: observers_ok_def)
  then show ?thesis using ok assms(3) by (simp add: observers_ok_def MAX_ADMIN_SSE_def admin_stream_ok_def)
qed

section \<open>What the lists hold\<close>

definition rows_of :: "(string \<Rightarrow> derived_session \<Rightarrow> negotiation_event list \<Rightarrow> 'r list) \<Rightarrow> manager \<Rightarrow> string \<Rightarrow> 'r list" where
  "rows_of rows m r = (case deriveState (events_in m r) of Inr (Some s) \<Rightarrow> rows r s (events_in m r) | _ \<Rightarrow> [])"

lemma collect_sessions_spec:
  "manager_ok m \<Longrightarrow> \<exists>m'. collect_sessions rows now ids m = (Inr (concat (map (rows_of rows m) ids)), m') \<and> events_in m' = events_in m"
proof (induction ids arbitrary: m)
  case (Cons r ids)
  obtain v m1 where g: "getSession now r m = (v, m1)" by fastforce
  note G = manager_getSession[OF Cons.prems g]
  obtain so where v: "v = Inr so" using sessions.get_total[OF Cons.prems, of now r] g by auto
  obtain m2 where "collect_sessions rows now ids m1 = (Inr (concat (map (rows_of rows m1) ids)), m2)" "events_in m2 = events_in m1"
    using Cons.IH[OF G(3)] by blast
  moreover have "rows_of rows m1 = rows_of rows m" unfolding rows_of_def G(2) ..
  ultimately show ?case using g v G(1,2) by (auto simp: rows_of_def[of rows m r] split: option.splits)
qed simp

text \<open>The public feed shows the newest events of all logs, each with its role and the derived state.\<close>

lemma feed_of_states:
  "deriveState L = Inr (Some s) \<Longrightarrow> feed_of s L = map (\<lambda>(e, x). \<lparr>pi_type = ev_type e, pi_actor_role = role_of (buyer (rfq s)) (ev_actor e),
     pi_state_after = x, fi_timestamp = ev_time e\<rparr>) (with_states L)"
  by (simp add: feed_of_def feed_states)

lemma newest_comparator:
  assumes "collation lc"
  shows "comparator_on (\<lambda>a b. lc (fi_timestamp b) (fi_timestamp a)) UNIV (\<lambda>a b :: feed_item. lc (fi_timestamp b) (fi_timestamp a) \<le> 0)"
proof
  fix a b c :: feed_item
  have neg: "lc x y = - lc y x" for x y using assms unfolding collation_def by blast
  show "lc (fi_timestamp b) (fi_timestamp a) \<le> 0 \<or> lc (fi_timestamp a) (fi_timestamp b) \<le> 0"
    using neg[of "fi_timestamp a" "fi_timestamp b"] by linarith
  show "lc (fi_timestamp b) (fi_timestamp a) \<le> 0 \<Longrightarrow> lc (fi_timestamp c) (fi_timestamp b) \<le> 0 \<Longrightarrow> lc (fi_timestamp c) (fi_timestamp a) \<le> 0"
    using assms unfolding collation_def by blast
qed simp

definition feed_items :: "manager \<Rightarrow> string \<Rightarrow> feed_item list" where
  "feed_items m r = (case deriveState (events_in m r) of
     Inr (Some s) \<Rightarrow> map (\<lambda>(e, x). \<lparr>pi_type = ev_type e, pi_actor_role = role_of (buyer (rfq s)) (ev_actor e),
        pi_state_after = x, fi_timestamp = ev_time e\<rparr>) (with_states (events_in m r))
   | _ \<Rightarrow> [])"

theorem recent_feed_newest:
  assumes "manager_ok m" "collation lc"
  shows "\<exists>items total m'. feedRecent lc now param m = (Inr (items, total), m') \<and> events_in m' = events_in m \<and>
    sorted_wrt (\<lambda>a b. lc (fi_timestamp b) (fi_timestamp a) \<le> 0) items \<and> length items = min (feed_limit param) total \<and>
    (\<exists>rest. mset (items @ rest) = mset (concat (map (feed_items m) (getActiveSessionIds m))) \<and>
       (\<forall>a \<in> set items. \<forall>b \<in> set rest. lc (fi_timestamp b) (fi_timestamp a) \<le> 0))"
proof -
  let ?all = "concat (map (feed_items m) (getActiveSessionIds m))" and ?cmp = "\<lambda>a b :: feed_item. lc (fi_timestamp b) (fi_timestamp a)"
  let ?sorted = "js_sort ?cmp ?all" and ?n = "feed_limit param"
  have "rows_of (\<lambda>_. feed_of) m = feed_items m"
    by (auto simp: rows_of_def feed_items_def fun_eq_iff feed_of_states split: sum.split option.split)
  then obtain m' where m': "collect_sessions (\<lambda>_. feed_of) now (getActiveSessionIds m) m = (Inr ?all, m')" "events_in m' = events_in m"
    using collect_sessions_spec[OF assms(1), of "\<lambda>_. feed_of" now "getActiveSessionIds m"] by auto
  have s: "sorted_wrt (\<lambda>a b. ?cmp a b \<le> 0) (take ?n ?sorted @ drop ?n ?sorted)"
    using comparator_on.sort_sorted[OF newest_comparator[OF assms(2)], of ?all] by simp
  have "mset (take ?n ?sorted @ drop ?n ?sorted) = mset ?all" by simp
  moreover have "feedRecent lc now param m = (Inr (take ?n ?sorted, length ?all), m')" using m' by (simp add: feedRecent_def)
  moreover have "length (take ?n ?sorted) = min ?n (length ?all)" by (simp add: min.commute)
  ultimately show ?thesis using s m'(2) unfolding sorted_wrt_append by blast
qed

end
