(* ===== verification/Mcp.thy ===== *)
theory Mcp
  imports Agents Zk
begin

text \<open>
  \<^verbatim>\<open>packages/mcp/src/tools/buyer.ts\<close> and \<^verbatim>\<open>seller.ts\<close>: the tools a language model negotiates with. A
  tool is a function from its input, the state of the server and the answers of the engine and
  of the agent registry to the requests it sends, its output and the new state. An output is
  the object whose JSON text the tool returns. The engine's answer \<open>False\<close> or \<open>None\<close> is a request
  that throws. The two settlement tools are left out: the second one does not parse.
\<close>

section \<open>The server\<close>

record mcp_config =
  mc_key :: keypair
  mc_engineUrl :: string
  mc_pinataJwt :: "string option"

definition mcp_did :: "platform \<Rightarrow> mcp_config \<Rightarrow> did" where
  "mcp_did P cfg = buildDid P (snd (mc_key cfg))"

definition has_jwt :: "mcp_config \<Rightarrow> bool" where
  "has_jwt cfg \<longleftrightarrow> mc_pinataJwt cfg \<noteq> None \<and> mc_pinataJwt cfg \<noteq> Some []"

datatype mcp_request =
    M_Rfq "(string \<times> json) list"
  | M_Counter string "(string \<times> json) list"
  | M_Accept string "(string \<times> json) list"
  | M_QuoteSign string "json option"
  | M_Listing "(string \<times> json) list"
  | M_Offer string "(string \<times> json) list"
  | M_Cosign string "json option"

definition request_failed :: js_error where
  "request_failed = JsError ''request failed''"

text \<open>The cached registration with the agent registry; \<open>answer\<close> is the id \<open>registerAgent\<close> returns, \<open>None\<close> where it throws.\<close>

record registration =
  registeredAgent :: "string option"
  registrationAttempted :: bool

definition calls_registry :: "mcp_config \<Rightarrow> registration \<Rightarrow> bool" where
  "calls_registry cfg g \<longleftrightarrow> registeredAgent g = None \<and> \<not> registrationAttempted g \<and> has_jwt cfg"

definition ensureRegistered :: "mcp_config \<Rightarrow> string option \<Rightarrow> registration \<Rightarrow> string option \<times> registration" where
  "ensureRegistered cfg answer g =
     (if calls_registry cfg g then (answer, \<lparr>registeredAgent = answer, registrationAttempted = True\<rparr>)
      else (registeredAgent g, g))"

text \<open>\<open>answer\<close>: whether \<open>recordDealFeedback\<close> succeeds.\<close>

definition submitFeedback :: "mcp_config \<Rightarrow> bool \<Rightarrow> bool" where
  "submitFeedback cfg answer \<longleftrightarrow> has_jwt cfg \<and> answer"

definition feedback_tool :: "mcp_config \<Rightarrow> bool \<Rightarrow> string \<Rightarrow> bool \<Rightarrow> string \<Rightarrow> json" where
  "feedback_tool cfg answer counterparty success settled_amount =
     JObj [(''counterparty_agent_id'', JStr counterparty), (''success'', JBool success),
       (''settled_amount'', JStr settled_amount), (''feedback_submitted'', JBool (submitFeedback cfg answer))]"

section \<open>The buyer's tools\<close>

record mcp_buyer_session =
  mb_budgetSoft :: string
  mb_budgetHard :: string
  mb_salt :: nat
  mb_rfq :: "(string \<times> json) list"
  mb_round :: nat
  mb_selectedSellerDid :: "string option"
  mb_selectedOfferId :: "string option"

record mcp_buyer =
  mb_sessions :: "(string \<times> mcp_buyer_session) list"
  mb_registration :: registration

definition createBuyerState :: mcp_buyer where
  "createBuyerState = \<lparr>mb_sessions = [], mb_registration = \<lparr>registeredAgent = None, registrationAttempted = False\<rparr>\<rparr>"

record rfq_input =
  ri_service_type :: string
  ri_spec :: json
  ri_anchor_price :: string
  ri_budget_soft :: string
  ri_budget_hard :: string
  ri_deadline_seconds :: int

text \<open>What the platform and the engine answer while a tool runs.\<close>

record tool_answers =
  ta_uuid :: string
  ta_now :: millis
  ta_registered :: "string option"
  ta_posted :: bool

definition mcp_rfq ::
  "platform \<Rightarrow> mcp_config \<Rightarrow> tool_answers \<Rightarrow> rfq_input \<Rightarrow> string option \<Rightarrow> string option \<Rightarrow> (string \<times> json) list" where
  "mcp_rfq P cfg an i commitment agent =
     signed_object P (mc_key cfg)
       ([(''rfq_id'', JStr (ta_uuid an)), (''protocol'', JStr ''ghost-bazaar-v4''), (''buyer'', JStr (mcp_did P cfg)),
         (''service_type'', JStr (ri_service_type i)), (''spec'', ri_spec i), (''anchor_price'', JStr (ri_anchor_price i)),
         (''currency'', JStr ''USDC''), (''deadline'', JStr (to_iso (ta_now an + ri_deadline_seconds i * 1000))),
         (''signature'', JStr [])] @
        opt_prop ''budget_commitment'' (map_option JStr commitment) @
        opt_prop ''extensions'' (map_option (\<lambda>a. JObj [(''ghost_bazaar_buyer_registry_agent_id'', JStr a)]) agent))"

text \<open>\<open>zk\<close>: the proof library, where it loads and its artefacts are there.\<close>

definition budget_commitment_for :: "zk_library option \<Rightarrow> mint_table \<Rightarrow> string \<Rightarrow> nat \<Rightarrow> string option res" where
  "budget_commitment_for zk mints budget salt =
     (case zk of None \<Rightarrow> Inr None | Some L \<Rightarrow> rbind (generateBudgetCommitment L mints budget salt) (\<lambda>c. Inr (Some c)))"

definition post_rfq ::
  "platform \<Rightarrow> mcp_config \<Rightarrow> mint_table \<Rightarrow> zk_library option \<Rightarrow> nat \<Rightarrow> tool_answers \<Rightarrow> rfq_input \<Rightarrow> mcp_buyer \<Rightarrow>
   mcp_request list \<times> json res \<times> mcp_buyer" where
  "post_rfq P cfg mints zk salt an i st =
     (case budget_commitment_for zk mints (ri_budget_hard i) salt of
        Inl e \<Rightarrow> ([], Inl e, st)
      | Inr commitment \<Rightarrow>
          (case ensureRegistered cfg (ta_registered an) (mb_registration st) of
             (agent, g) \<Rightarrow>
               let obj = mcp_rfq P cfg an i commitment agent; st1 = st\<lparr>mb_registration := g\<rparr> in
               if \<not> ta_posted an then ([M_Rfq obj], Inl request_failed, st1)
               else
                 ([M_Rfq obj],
                  Inr (JObj ([(''rfq_id'', JStr (ta_uuid an)), (''buyer'', JStr (mcp_did P cfg)),
                     (''service_type'', JStr (ri_service_type i)), (''anchor_price'', JStr (ri_anchor_price i)),
                     (''deadline'', JStr (to_iso (ta_now an + ri_deadline_seconds i * 1000))),
                     (''has_budget_commitment'', JBool (commitment \<noteq> None \<and> commitment \<noteq> Some []))] @
                     opt_prop ''registry_agent_id'' (map_option JStr agent))),
                  st1\<lparr>mb_sessions := AList.update (ta_uuid an)
                    \<lparr>mb_budgetSoft = ri_budget_soft i, mb_budgetHard = ri_budget_hard i, mb_salt = salt, mb_rfq = obj,
                      mb_round = 0, mb_selectedSellerDid = None, mb_selectedOfferId = None\<rparr> (mb_sessions st1)\<rparr>)))"

definition get_offers :: "client_event list \<Rightarrow> json" where
  "get_offers events = JArr (map ce_payload (filter (\<lambda>e. ce_type e = ''offer'') events))"

text \<open>The limits the price of a counter is held to: without a session, the price itself.\<close>

definition counter_private :: "arith \<Rightarrow> mcp_buyer_session option \<Rightarrow> string \<Rightarrow> buyer_private res" where
  "counter_private A session price =
     (let limits = (case session of Some s \<Rightarrow> (mb_budgetSoft s, mb_budgetHard s) | None \<Rightarrow> (price, price)) in
      rbind (price_of A (fst limits)) (\<lambda>soft. rbind (price_of A (snd limits)) (\<lambda>hard.
        Inr \<lparr>budget_soft = soft, budget_hard = hard\<rparr>)))"

definition safe_counter_price :: "arith \<Rightarrow> mcp_buyer_session option \<Rightarrow> did \<Rightarrow> string \<Rightarrow> string res" where
  "safe_counter_price A session seller price =
     rbind (counter_private A session price) (\<lambda>priv.
     rbind (price_of A price) (\<lambda>p.
       case sanitizeBuyerAction (B_Counter seller p) priv of
         B_Counter _ q \<Rightarrow> Inr (dec_str A q)
       | _ \<Rightarrow> Inr price))"

definition mcp_counter ::
  "platform \<Rightarrow> mcp_config \<Rightarrow> tool_answers \<Rightarrow> string \<Rightarrow> did \<Rightarrow> string \<Rightarrow> nat \<Rightarrow> mcp_buyer_session option \<Rightarrow> json option \<Rightarrow>
   (string \<times> json) list" where
  "mcp_counter P cfg an r seller price roundNo session pf =
     signed_object P (mc_key cfg)
       ([(''counter_id'', JStr (ta_uuid an)), (''rfq_id'', JStr r), (''round'', JNum (of_nat roundNo)),
         (''from'', JStr (mcp_did P cfg)), (''to'', JStr seller), (''price'', JStr price), (''currency'', JStr ''USDC''),
         (''valid_until'', (case session of Some s \<Rightarrow> JStr (text_field (JObj (mb_rfq s)) ''deadline'')
                            | None \<Rightarrow> JStr (to_iso (ta_now an + 300000)))),
         (''signature'', JStr [])] @ opt_prop ''budget_proof'' pf)"

definition counter_proof :: "mint_table \<Rightarrow> zk_library option \<Rightarrow> string \<Rightarrow> mcp_buyer_session option \<Rightarrow> json option res" where
  "counter_proof mints zk price session =
     (case session of
        None \<Rightarrow> Inr None
      | Some s \<Rightarrow>
          if falsy (map_of (mb_rfq s) ''budget_commitment'') then Inr None
          else (case zk of
             None \<Rightarrow> Inl (JsError ''Budget proof artifacts are unavailable; build packages/zk before countering this RFQ'')
           | Some L \<Rightarrow> rbind (generateBudgetProof L mints price (mb_budgetHard s) (mb_salt s) \<lparr>wasmPath = None, zkeyPath = None\<rparr>)
               (\<lambda>pr. Inr (Some pr))))"

definition next_round :: "string \<Rightarrow> mcp_buyer \<Rightarrow> nat \<times> mcp_buyer" where
  "next_round r st =
     (case map_of (mb_sessions st) r of
        None \<Rightarrow> (1, st)
      | Some s \<Rightarrow> (mb_round s + 1, st\<lparr>mb_sessions := AList.update r (s\<lparr>mb_round := mb_round s + 1\<rparr>) (mb_sessions st)\<rparr>))"

definition counter_tool ::
  "platform \<Rightarrow> arith \<Rightarrow> mcp_config \<Rightarrow> mint_table \<Rightarrow> zk_library option \<Rightarrow> tool_answers \<Rightarrow> string \<Rightarrow> did \<Rightarrow> string \<Rightarrow> mcp_buyer \<Rightarrow>
   mcp_request list \<times> json res \<times> mcp_buyer" where
  "counter_tool P A cfg mints zk an r seller price st =
     (let session = map_of (mb_sessions st) r in
      case safe_counter_price A session seller price of
        Inl e \<Rightarrow> ([], Inl e, st)
      | Inr safePrice \<Rightarrow>
          (case next_round r st of
             (roundNo, st1) \<Rightarrow>
               (case counter_proof mints zk safePrice session of
                  Inl e \<Rightarrow> ([], Inl e, st1)
                | Inr pf \<Rightarrow>
                    let c = mcp_counter P cfg an r seller safePrice roundNo session pf in
                    ([M_Counter r c],
                     if ta_posted an
                     then Inr (JObj [(''counter_id'', JStr (ta_uuid an)), (''price'', JStr safePrice), (''round'', JNum (of_nat roundNo))])
                     else Inl request_failed,
                     st1))))"

text \<open>\<open>events\<close>, \<open>quoteAnswer\<close> and \<open>signOk\<close> are the engine's answers to the three requests of the tool.\<close>

definition accept_tool ::
  "platform \<Rightarrow> mcp_config \<Rightarrow> tool_answers \<Rightarrow> client_event list option \<Rightarrow> (string \<times> json) list option \<Rightarrow> bool \<Rightarrow>
   string \<Rightarrow> did \<Rightarrow> string \<Rightarrow> mcp_buyer \<Rightarrow> mcp_request list \<times> json res \<times> mcp_buyer" where
  "accept_tool P cfg an events quoteAnswer signOk r seller offerId st =
     (case events of
        None \<Rightarrow> ([], Inl request_failed, st)
      | Some evs \<Rightarrow>
          let sessionRevision = (if evs = [] then ''0'' else ce_id (last evs));
              acc = M_Accept r (client_accept P (mc_key cfg) (ta_uuid an) (ta_now an) r seller offerId sessionRevision) in
          case quoteAnswer of
            None \<Rightarrow> ([acc], Inl request_failed, st)
          | Some unsignedQ \<Rightarrow>
              let q = signQuoteAsBuyer P unsignedQ (fst (mc_key cfg));
                  reqs = [acc, M_QuoteSign r (map_of q ''buyer_signature'')] in
              if \<not> signOk then (reqs, Inl request_failed, st)
              else (reqs, Inr (JObj q),
                case map_of (mb_sessions st) r of
                  None \<Rightarrow> st
                | Some s \<Rightarrow> st\<lparr>mb_sessions := AList.update r
                    (s\<lparr>mb_selectedSellerDid := Some seller, mb_selectedOfferId := Some offerId\<rparr>) (mb_sessions st)\<rparr>))"

section \<open>The seller's tools\<close>

record mcp_seller_session =
  ms_floorPrice :: string
  ms_targetPrice :: string
  ms_round :: nat
  ms_strategyStyle :: string

text \<open>The sessions of \<open>SellerState\<close> with the two variables of the tools' closure.\<close>

record mcp_seller =
  ms_sessions :: "(string \<times> mcp_seller_session) list"
  ms_registration :: registration
  ms_listingId :: "string option"
  ms_profile :: "string option"

definition createSellerState :: mcp_seller where
  "createSellerState = \<lparr>ms_sessions = [], ms_registration = \<lparr>registeredAgent = None, registrationAttempted = False\<rparr>,
     ms_listingId = None, ms_profile = None\<rparr>"

text \<open>The concession a strategy answers a counter with; the opening offer is the same for all.\<close>

definition buildStrategy :: "arith \<Rightarrow> string \<Rightarrow> seller_ctx \<Rightarrow> seller_action" where
  "buildStrategy A style =
     (if style = ''firm'' then rate_onCounterReceived A FirmSeller
      else if style = ''flexible'' then rate_onCounterReceived A FlexibleSeller
      else if style = ''competitive'' then competitive_onCounterReceived A CompetitiveSeller
      else rate_onCounterReceived A FlexibleSeller)"

record listing_input =
  li_title :: string
  li_category :: string
  li_service_type :: string
  li_base_terms :: json
  li_floor_price :: string
  li_target_price :: string
  li_registry_agent_id :: "string option"
  li_profile :: "(string \<times> json) option"

definition or_string :: "string option \<Rightarrow> string \<Rightarrow> string" where
  "or_string v d = (case v of Some x \<Rightarrow> x | None \<Rightarrow> d)"

text \<open>\<open>answer\<close>: the listing the engine returns. \<open>li_profile\<close> is the profile with its style.\<close>

definition register_listing ::
  "platform \<Rightarrow> mcp_config \<Rightarrow> tool_answers \<Rightarrow> json option \<Rightarrow> listing_input \<Rightarrow> mcp_seller \<Rightarrow> mcp_request list \<times> json res \<times> mcp_seller" where
  "register_listing P cfg an answer i st =
     (let profileStyle = or_string (map_option fst (li_profile i)) ''flexible'';
          needed = (case li_registry_agent_id i of None \<Rightarrow> True | Some a \<Rightarrow> a = []) in
      case (if needed then ensureRegistered cfg (ta_registered an) (ms_registration st) else (None, ms_registration st)) of
        (agent, g) \<Rightarrow>
          let st1 = st\<lparr>ms_registration := g, ms_profile := Some profileStyle\<rparr>;
              agentId = (case li_registry_agent_id i of Some a \<Rightarrow> Some a | None \<Rightarrow> agent);
              obj = client_createListing P (mc_key cfg)
                ([(''listing_id'', JStr (ta_uuid an)), (''seller'', JStr (mcp_did P cfg)), (''title'', JStr (li_title i)),
                  (''category'', JStr (li_category i)), (''service_type'', JStr (li_service_type i)),
                  (''negotiation_endpoint'', JStr (mc_engineUrl cfg)), (''payment_endpoint'', JStr (mc_engineUrl cfg @ ''/execute'')),
                  (''base_terms'', li_base_terms i)] @
                 opt_prop ''registry_agent_id'' (map_option JStr agentId) @ opt_prop ''negotiation_profile'' (map_option snd (li_profile i))) in
          case answer of
            None \<Rightarrow> ([M_Listing obj], Inl request_failed, st1)
          | Some l \<Rightarrow>
              ([M_Listing obj],
               Inr (JObj (opt_prop ''listing_id'' (jget l ''listing_id'') @
                  [(''seller'', JStr (mcp_did P cfg)), (''strategy'', JStr profileStyle)] @
                  (case jget l ''registry_agent_id'' of
                     Some v \<Rightarrow> if v = JNull then opt_prop ''registry_agent_id'' (map_option JStr agent) else [(''registry_agent_id'', v)]
                   | None \<Rightarrow> opt_prop ''registry_agent_id'' (map_option JStr agent)))),
               st1\<lparr>ms_listingId := Some (or_string (as_string (jget l ''listing_id'')) (ta_uuid an))\<rparr>))"

definition mcp_rfq_query :: "string option \<Rightarrow> string option \<Rightarrow> string option \<Rightarrow> mcp_seller \<Rightarrow> (string option \<times> string option \<times> string option)" where
  "mcp_rfq_query serviceType listingId st_filter st =
     (serviceType, (case listingId of Some l \<Rightarrow> Some l | None \<Rightarrow> ms_listingId st), st_filter)"

record offer_input =
  oi_rfq_id :: string
  oi_price :: "string option"
  oi_floor_price :: "string option"
  oi_target_price :: "string option"
  oi_listing_id :: "string option"

abbreviation given :: "string option \<Rightarrow> bool" where
  "given v \<equiv> v \<noteq> None \<and> v \<noteq> Some []"

abbreviation first_of :: "'a option \<Rightarrow> 'a option \<Rightarrow> 'a option \<Rightarrow> 'a option" where
  "first_of a b c \<equiv> (case a of Some x \<Rightarrow> Some x | None \<Rightarrow> (case b of Some x \<Rightarrow> Some x | None \<Rightarrow> c))"

text \<open>\<open>input.price.includes(".") ? input.price.split(".")[1].length : 0\<close>.\<close>

definition price_decimals :: "string \<Rightarrow> nat" where
  "price_decimals s = length (takeWhile (\<lambda>c. c \<noteq> CHR ''.'') (frac_part s))"

text \<open>\<open>fixed v d\<close> is \<open>v.toFixed(d)\<close>.\<close>

definition offer_price_text :: "arith \<Rightarrow> (num_val \<Rightarrow> nat \<Rightarrow> string) \<Rightarrow> string option \<Rightarrow> seller_private \<Rightarrow> string res" where
  "offer_price_text A fixed price priv =
     (if given price then
        rbind (price_of A (the price)) (\<lambda>p.
          case sanitizeSellerAction (S_Respond p) priv of
            S_Respond q \<Rightarrow> Inr (fixed q (price_decimals (the price)))
          | _ \<Rightarrow> Inr (the price))
      else
        (case sanitizeSellerAction
            (onRfqReceived \<lparr>sc_private = priv, latest_counter = Some JNull, sc_round = 0, competing_sellers = 0\<rparr>) priv of
           S_Respond q \<Rightarrow> Inr (dec_str A q)
         | S_Counter q \<Rightarrow> Inr (dec_str A q)
         | _ \<Rightarrow> Inr (dec_str A (target_price priv))))"

definition private_prices :: "arith \<Rightarrow> string \<Rightarrow> string \<Rightarrow> seller_private res" where
  "private_prices A floorText target =
     rbind (price_of A floorText) (\<lambda>f. rbind (price_of A target) (\<lambda>t. Inr \<lparr>floor_price = f, target_price = t\<rparr>))"

definition mcp_offer ::
  "platform \<Rightarrow> mcp_config \<Rightarrow> tool_answers \<Rightarrow> string \<Rightarrow> string \<Rightarrow> string \<Rightarrow> (string \<times> json) list" where
  "mcp_offer P cfg an r listingId price =
     signed_object P (mc_key cfg)
       [(''offer_id'', JStr (ta_uuid an)), (''rfq_id'', JStr r), (''seller'', JStr (mcp_did P cfg)),
        (''listing_id'', JStr listingId), (''price'', JStr price), (''currency'', JStr ''USDC''),
        (''valid_until'', JStr (to_iso (ta_now an + 300000))), (''signature'', JStr [])]"

definition respond_offer ::
  "platform \<Rightarrow> arith \<Rightarrow> (num_val \<Rightarrow> nat \<Rightarrow> string) \<Rightarrow> mcp_config \<Rightarrow> tool_answers \<Rightarrow> offer_input \<Rightarrow> mcp_seller \<Rightarrow>
   mcp_request list \<times> json res \<times> mcp_seller" where
  "respond_offer P A fixed cfg an i st =
     (let listingId = (case oi_listing_id i of Some l \<Rightarrow> Some l | None \<Rightarrow> ms_listingId st);
          session = map_of (ms_sessions st) (oi_rfq_id i);
          floorPrice = first_of (oi_floor_price i) (map_option ms_floorPrice session) (oi_price i);
          targetPrice = first_of (oi_target_price i) (map_option ms_targetPrice session) (oi_price i);
          strategyStyle = or_string (first_of (map_option ms_strategyStyle session) (ms_profile st) None) ''flexible'' in
      if \<not> given listingId then ([], Inl (JsError ''No listing_id''), st)
      else if \<not> given floorPrice \<or> \<not> given targetPrice then ([], Inl (JsError ''floor_price and target_price are required''), st)
      else (case rbind (private_prices A (the floorPrice) (the targetPrice)) (offer_price_text A fixed (oi_price i)) of
         Inl e \<Rightarrow> ([], Inl e, st)
       | Inr offerPrice \<Rightarrow>
           let st1 = st\<lparr>ms_sessions := AList.update (oi_rfq_id i)
                 \<lparr>ms_floorPrice = the floorPrice, ms_targetPrice = the targetPrice, ms_round = 0, ms_strategyStyle = strategyStyle\<rparr>
                 (ms_sessions st)\<rparr> in
           ([M_Offer (oi_rfq_id i) (mcp_offer P cfg an (oi_rfq_id i) (the listingId) offerPrice)],
            if ta_posted an
            then Inr (JObj [(''offer_id'', JStr (ta_uuid an)), (''price'', JStr offerPrice),
              (''strategy_used'', JStr (if given (oi_price i) then ''manual (sanitized)'' else strategyStyle))])
            else Inl request_failed,
            st1)))"

text \<open>The price of the counter that is answered, and the number of sellers with offers.\<close>

definition counter_price_in :: "string \<Rightarrow> client_event list \<Rightarrow> json option" where
  "counter_price_in counterId events =
     Option.bind (find (\<lambda>e. ce_type e = ''counter'' \<and> jget (ce_payload e) ''counter_id'' = Some (JStr counterId)) events)
       (\<lambda>e. jget (ce_payload e) ''price'')"

definition offering_sellers :: "client_event list \<Rightarrow> json list" where
  "offering_sellers events =
     remdups (map the (filter (\<lambda>v. \<not> falsy v) (map (\<lambda>e. jget (ce_payload e) ''seller'') (filter (\<lambda>e. ce_type e = ''offer'') events))))"

definition mcp_seller_ctx :: "seller_private \<Rightarrow> nat \<Rightarrow> string \<Rightarrow> client_event list option \<Rightarrow> seller_ctx" where
  "mcp_seller_ctx priv roundNo counterId events =
     (let price = Option.bind events (counter_price_in counterId) in
      \<lparr>sc_private = priv,
       latest_counter = Some (if falsy price then JNull else JObj [(''price'', the price), (''counter_id'', JStr counterId)]),
       sc_round = roundNo,
       competing_sellers = (case events of None \<Rightarrow> 0 | Some evs \<Rightarrow> length (offering_sellers evs))\<rparr>)"

text \<open>
  \<open>None\<close> as a price is a strategy that holds or declines; the string says which. Dashes in the
  texts are written as hyphens.
\<close>

definition counter_response ::
  "arith \<Rightarrow> mcp_seller_session \<Rightarrow> client_event list option \<Rightarrow> string \<Rightarrow> string option \<Rightarrow> (string option \<times> string) res" where
  "counter_response A s events counterId price =
     rbind (private_prices A (ms_floorPrice s) (ms_targetPrice s)) (\<lambda>priv.
       if given price then
         rbind (price_of A (the price)) (\<lambda>p.
           case sanitizeSellerAction (S_Counter p) priv of
             S_Counter q \<Rightarrow> Inr (Some (dec_str A q), ''manual (sanitized)'')
           | S_Respond q \<Rightarrow> Inr (Some (dec_str A q), ''manual (sanitized)'')
           | _ \<Rightarrow> Inr (Some (the price), ''manual (sanitized)''))
       else
         (case sanitizeSellerAction (buildStrategy A (ms_strategyStyle s) (mcp_seller_ctx priv (ms_round s) counterId events)) priv of
            S_Decline \<Rightarrow> Inr (None, ''decline'')
          | S_Hold \<Rightarrow> Inr (None, ''hold'')
          | S_Respond q \<Rightarrow> Inr (Some (dec_str A q), ms_strategyStyle s)
          | S_Counter q \<Rightarrow> Inr (Some (dec_str A q), ms_strategyStyle s)))"

definition response_reason :: "string \<Rightarrow> string" where
  "response_reason what =
     (if what = ''decline'' then ''Strategy recommends declining this counter-offer''
      else ''Strategy recommends holding - wait for a better counter'')"

text \<open>
  \<open>new Decimal\<close> of the private prices comes before the round is counted; both were read once when
  the session was made.
\<close>

definition respond_counter ::
  "platform \<Rightarrow> arith \<Rightarrow> mcp_config \<Rightarrow> tool_answers \<Rightarrow> client_event list option \<Rightarrow> string \<Rightarrow> string \<Rightarrow> string option \<Rightarrow> mcp_seller \<Rightarrow>
   mcp_request list \<times> json res \<times> mcp_seller" where
  "respond_counter P A cfg an events r counterId price st =
     (if \<not> given (ms_listingId st) then ([], Inl (JsError ''No listing_id''), st)
      else case map_of (ms_sessions st) r of
        None \<Rightarrow> ([], Inl (JsError ''No session for this RFQ''), st)
      | Some s \<Rightarrow>
          (case private_prices A (ms_floorPrice s) (ms_targetPrice s) of
             Inl e \<Rightarrow> ([], Inl e, st)
           | Inr _ \<Rightarrow>
               let s1 = s\<lparr>ms_round := ms_round s + 1\<rparr>; st1 = st\<lparr>ms_sessions := AList.update r s1 (ms_sessions st)\<rparr>;
                   roundProp = (''round'', JNum (of_nat (ms_round s1))) in
               (case counter_response A s1 events counterId price of
                  Inl e \<Rightarrow> ([], Inl e, st1)
                | Inr (None, what) \<Rightarrow>
                    ([], Inr (JObj [(''action'', JStr what), (''reason'', JStr (response_reason what)), roundProp]), st1)
                | Inr (Some offerPrice, strategyUsed) \<Rightarrow>
                    ([M_Offer r (mcp_offer P cfg an r (the (ms_listingId st)) offerPrice)],
                     if ta_posted an
                     then Inr (JObj [(''offer_id'', JStr (ta_uuid an)), (''in_response_to'', JStr counterId),
                       (''price'', JStr offerPrice), roundProp, (''strategy_used'', JStr strategyUsed)])
                     else Inl request_failed,
                     st1))))"

text \<open>\<open>quoteAnswer\<close>: \<open>None\<close> where \<open>getQuote\<close> throws; \<open>committed\<close>: the engine's answer to the co-signature.\<close>

definition cosign_tool ::
  "platform \<Rightarrow> mcp_config \<Rightarrow> json option \<Rightarrow> json option \<Rightarrow> string \<Rightarrow> mcp_request list \<times> json res" where
  "cosign_tool P cfg quoteAnswer committed r =
     (case quoteAnswer of
        None \<Rightarrow> ([], Inl request_failed)
      | Some q \<Rightarrow>
          if falsy (Some q) \<or> falsy (jget q ''buyer_signature'') then
            ([], Inr (JObj [(''error'', JStr ''Quote not ready - buyer has not signed yet'')]))
          else if \<not> falsy (jget q ''seller_signature'') then
            ([], Inr (JObj [(''status'', JStr ''already_cosigned''), (''quote'', q)]))
          else
            let kvs = (case q of JObj kvs \<Rightarrow> kvs | _ \<Rightarrow> []);
                cosigned = signQuoteAsSeller P kvs (fst (mc_key cfg))
            in ([M_Cosign r (map_of cosigned ''seller_signature'')],
                case committed of Some v \<Rightarrow> Inr v | None \<Rightarrow> Inl request_failed))"

section \<open>Budgets and floors\<close>

text \<open>Registration is tried at most once in the life of the server.\<close>

lemma registers_once: "ensureRegistered cfg answer g = (agent, g') \<Longrightarrow> calls_registry cfg g \<Longrightarrow> \<not> calls_registry cfg' g'"
  by (auto simp: ensureRegistered_def calls_registry_def)

lemma mcp_counter_fields:
  "map_of (mcp_counter P cfg an r seller price n session pf) ''price'' = Some (JStr price)"
  "map_of (mcp_counter P cfg an r seller price n session pf) ''round'' = Some (JNum (of_nat n))"
  "map_of (mcp_counter P cfg an r seller price n session pf) ''budget_proof'' = pf"
  by (cases pf; simp add: mcp_counter_def signed_object_field opt_prop_def)+

lemma safe_price_bounds:
  assumes "safe_counter_price A (Some s) seller price = Inr q" "price_of A (mb_budgetHard s) = Inr (Fin h)" "1 / 10 ^ 6 \<le> h"
  shows "\<exists>p0 p. price_of A price = Inr p0 \<and> q = dec_str A p \<and> (p0 \<noteq> NaN \<longrightarrow> n_le MIN_PRICE p \<and> n_le p (Fin h)) \<and>
     (p0 = NaN \<longrightarrow> p = NaN)"
proof -
  obtain p0 where p0: "price_of A price = Inr p0" "q = dec_str A (n_max (n_min p0 (Fin h)) MIN_PRICE)"
    using assms(1,2) by (auto simp: safe_counter_price_def counter_private_def)
  have "p0 \<noteq> NaN \<Longrightarrow> n_le MIN_PRICE (n_max (n_min p0 (Fin h)) MIN_PRICE) \<and> n_le (n_max (n_min p0 (Fin h)) MIN_PRICE) (Fin h)"
    using sanitizeBuyer_bounds[of p0 "\<lparr>budget_soft = NaN, budget_hard = Fin h\<rparr>" h seller] assms(3) by auto
  then show ?thesis using p0 by (intro exI[of _ p0] exI[of _ "n_max (n_min p0 (Fin h)) MIN_PRICE"]) (simp add: n_min_def n_max_def)
qed

text \<open>
  C39. Whatever number the language model asks for as a price, the counter tool stays within the budget of an
  RFQ it knows, when that budget is at least \<open>10\<^sup>-\<^sup>6\<close>: what it posts is priced between the minimum and the hard
  budget, in the next round, and proves exactly that price where the RFQ commits to a budget; what it reports is
  what it posted. A price that reads as \<open>NaN\<close> is not caught: it is posted as such.
\<close>

theorem counter_tool_in_budget:
  assumes "counter_tool P A cfg mints zk an r seller price st = (reqs, res, st')" "map_of (mb_sessions st) r = Some s"
    "price_of A (mb_budgetHard s) = Inr (Fin h)" "1 / 10 ^ 6 \<le> h" "M_Counter r' c \<in> set reqs"
  shows "\<exists>p0 p. r' = r \<and> price_of A price = Inr p0 \<and> map_of c ''price'' = Some (JStr (dec_str A p)) \<and>
     (p0 \<noteq> NaN \<longrightarrow> n_le MIN_PRICE p \<and> n_le p (Fin h)) \<and> (p0 = NaN \<longrightarrow> p = NaN) \<and>
     map_of c ''round'' = Some (JNum (of_nat (mb_round s + 1))) \<and>
     map_of (mb_sessions st') r = Some (s\<lparr>mb_round := mb_round s + 1\<rparr>) \<and>
     (\<forall>out. res = Inr out \<longrightarrow> jget out ''price'' = map_of c ''price'' \<and> jget out ''round'' = map_of c ''round'') \<and>
     (\<not> falsy (map_of (mb_rfq s) ''budget_commitment'') \<longrightarrow>
        (\<exists>L pr. zk = Some L \<and> map_of c ''budget_proof'' = Some pr \<and>
           generateBudgetProof L mints (dec_str A p) (mb_budgetHard s) (mb_salt s) \<lparr>wasmPath = None, zkeyPath = None\<rparr> = Inr pr))"
proof -
  obtain q where q: "safe_counter_price A (Some s) seller price = Inr q"
    using assms(1,2,5) by (auto simp: counter_tool_def Let_def split: sum.splits)
  obtain p0 p where p: "q = dec_str A p" "price_of A price = Inr p0" "p0 \<noteq> NaN \<longrightarrow> n_le MIN_PRICE p \<and> n_le p (Fin h)"
      "p0 = NaN \<longrightarrow> p = NaN"
    using safe_price_bounds[OF q assms(3,4)] by blast
  obtain pf where pf: "counter_proof mints zk q (Some s) = Inr pf"
    using assms(1,2,5) q by (auto simp: counter_tool_def next_round_def Let_def split: sum.splits)
  let ?c = "mcp_counter P cfg an r seller q (mb_round s + 1) (Some s) pf"
  let ?out = "JObj [(''counter_id'', JStr (ta_uuid an)), (''price'', JStr q), (''round'', JNum (of_nat (mb_round s + 1)))]"
  let ?st = "st\<lparr>mb_sessions := AList.update r (s\<lparr>mb_round := mb_round s + 1\<rparr>) (mb_sessions st)\<rparr>"
  have "counter_tool P A cfg mints zk an r seller price st =
      ([M_Counter r ?c], if ta_posted an then Inr ?out else Inl request_failed, ?st)"
    unfolding counter_tool_def Let_def assms(2) q next_round_def by (simp add: pf)
  then have c: "r' = r" "c = ?c" "st' = ?st" "\<And>out. res = Inr out \<Longrightarrow> out = ?out"
    using assms(1,5) by (auto split: if_splits)
  have proved: "\<exists>L pr. zk = Some L \<and> pf = Some pr \<and>
      generateBudgetProof L mints q (mb_budgetHard s) (mb_salt s) \<lparr>wasmPath = None, zkeyPath = None\<rparr> = Inr pr"
    if "\<not> falsy (map_of (mb_rfq s) ''budget_commitment'')"
    using pf that by (auto simp: counter_proof_def split: option.splits)
  show ?thesis
  proof (rule exI[of _ p0], rule exI[of _ p], intro conjI allI)
    show "map_of (mb_sessions st') r = Some (s\<lparr>mb_round := mb_round s + 1\<rparr>)" by (simp add: c(3) update_conv')
    show "\<not> falsy (map_of (mb_rfq s) ''budget_commitment'') \<longrightarrow>
       (\<exists>L pr. zk = Some L \<and> map_of c ''budget_proof'' = Some pr \<and>
       generateBudgetProof L mints (dec_str A p) (mb_budgetHard s) (mb_salt s) \<lparr>wasmPath = None, zkeyPath = None\<rparr> = Inr pr)"
      using proved unfolding c(2) mcp_counter_fields p(1) by blast
    show "res = Inr out \<longrightarrow> jget out ''price'' = map_of c ''price'' \<and> jget out ''round'' = map_of c ''round''" for out
      using c(4)[of out] unfolding c(2) mcp_counter_fields by auto
  qed (use p in \<open>simp_all add: c(1,2) mcp_counter_fields\<close>)
qed

text \<open>A server that has posted an RFQ with a hard budget of 41 and a commitment.\<close>

definition mcp_demo_config :: mcp_config where
  "mcp_demo_config = \<lparr>mc_key = client_key, mc_engineUrl = ''https://e'', mc_pinataJwt = None\<rparr>"

definition mcp_demo_answers :: tool_answers where
  "mcp_demo_answers = \<lparr>ta_uuid = ''u'', ta_now = 0, ta_registered = None, ta_posted = True\<rparr>"

definition mcp_demo_session :: mcp_buyer_session where
  "mcp_demo_session = \<lparr>mb_budgetSoft = ''40'', mb_budgetHard = ''41'', mb_salt = 7,
     mb_rfq = [(''deadline'', JStr ''never''), (''budget_commitment'', JStr ''c'')], mb_round = 2,
     mb_selectedSellerDid = None, mb_selectedOfferId = None\<rparr>"

definition mcp_demo_buyer :: mcp_buyer where
  "mcp_demo_buyer = createBuyerState\<lparr>mb_sessions := [(''r'', mcp_demo_session)]\<rparr>"

lemma mcp_demo_scaled: "scalePrice MINT_DECIMALS ''41'' None = Inr 41000000"
  by (simp add: scalePrice_def normalizeAmount_def MINT_DECIMALS_def DEFAULT_USDC_MINT_def normalizeWithDecimals_def
      is_decimal_string_def int_part_def frac_part_def is_digit_def pad_end_def nat_of_digits_def digit_val_def replicate_six)

lemma mcp_demo_safe: "safe_counter_price exact_arith (Some mcp_demo_session) ''s'' ''90'' = Inr ''41''"
proof -
  have "dec_str exact_arith (Fin 41) = ''41''" by (simp add: exact_arith_def show_int_def) code_simp
  then show ?thesis
    by (simp add: safe_counter_price_def counter_private_def mcp_demo_session_def sample_price n_min_def n_max_def MIN_PRICE_def)
qed

lemma mcp_demo_proof: "\<exists>pf. counter_proof MINT_DECIMALS (Some demo_zk) ''41'' (Some mcp_demo_session) = Inr pf"
proof -
  have b: "mb_budgetHard mcp_demo_session = ''41''" "mb_salt mcp_demo_session = 7" by (simp_all add: mcp_demo_session_def)
  obtain pr where "generateBudgetProof demo_zk MINT_DECIMALS ''41'' ''41'' 7 \<lparr>wasmPath = None, zkeyPath = None\<rparr> = Inr pr"
    unfolding generateBudgetProof_def mcp_demo_scaled rbind_Inr
    by (simp add: prover_input_def demo_holds_def demo_zk_def FIELD_def)
  then have "counter_proof MINT_DECIMALS (Some demo_zk) ''41'' (Some mcp_demo_session) = Inr (Some pr)"
    by (simp add: counter_proof_def b) (simp add: mcp_demo_session_def)
  then show ?thesis by blast
qed

text \<open>
  The hard budget is in the output of the counter tool once the caller asks for more: asked for 90,
  the tool answers that it offered 41.
\<close>

theorem counter_tool_reveals_budget:
  "\<exists>out. fst (snd (counter_tool client_platform exact_arith mcp_demo_config MINT_DECIMALS (Some demo_zk) mcp_demo_answers ''r'' ''s'' ''90'' mcp_demo_buyer)) =
     Inr out \<and> jget out ''price'' = Some (JStr (mb_budgetHard mcp_demo_session))"
proof -
  have s: "map_of (mb_sessions mcp_demo_buyer) ''r'' = Some mcp_demo_session" by (simp add: mcp_demo_buyer_def)
  obtain pf where pf: "counter_proof MINT_DECIMALS (Some demo_zk) ''41'' (Some mcp_demo_session) = Inr pf" using mcp_demo_proof by blast
  show ?thesis
    unfolding counter_tool_def Let_def s mcp_demo_safe next_round_def by (simp add: pf) (simp add: mcp_demo_answers_def mcp_demo_session_def)
qed

text \<open>Of an RFQ the server does not know it keeps no budget, and the price goes out as asked.\<close>

lemma unknown_rfq_unlimited:
  assumes "price_of A price = Inr (Fin p)" "1 / 10 ^ 6 \<le> p"
  shows "safe_counter_price A None seller price = Inr (dec_str A (Fin p))"
proof -
  have "n_max (n_min (Fin p) (Fin p)) MIN_PRICE = Fin p" using assms(2) by (auto simp: n_min_def n_max_def MIN_PRICE_def)
  then show ?thesis using assms(1) by (simp add: safe_counter_price_def counter_private_def)
qed

theorem counter_tool_in_budget_witness:
  "\<exists>c p. fst (counter_tool client_platform exact_arith mcp_demo_config MINT_DECIMALS (Some demo_zk) mcp_demo_answers ''r'' ''s'' ''90'' mcp_demo_buyer) =
      [M_Counter ''r'' c] \<and> map_of c ''price'' = Some (JStr (dec_str exact_arith p)) \<and> n_le p (Fin 41) \<and>
      map_of c ''round'' = Some (JNum 3)"
proof -
  let ?t = "counter_tool client_platform exact_arith mcp_demo_config MINT_DECIMALS (Some demo_zk) mcp_demo_answers ''r'' ''s'' ''90'' mcp_demo_buyer"
  have s: "map_of (mb_sessions mcp_demo_buyer) ''r'' = Some mcp_demo_session" by (simp add: mcp_demo_buyer_def)
  have h: "price_of exact_arith (mb_budgetHard mcp_demo_session) = Inr (Fin 41)" by (simp add: mcp_demo_session_def sample_price)
  obtain pf where "counter_proof MINT_DECIMALS (Some demo_zk) ''41'' (Some mcp_demo_session) = Inr pf" using mcp_demo_proof by blast
  then obtain c where c: "fst ?t = [M_Counter ''r'' c]"
    unfolding counter_tool_def Let_def s mcp_demo_safe next_round_def by simp
  obtain reqs res st' where t: "?t = (reqs, res, st')" by (metis prod_cases3)
  show ?thesis
    using counter_tool_in_budget[OF t s h, of "''r''" c] c t by (auto simp: mcp_demo_session_def sample_price)
qed

section \<open>Offer prices\<close>

text \<open>
  Laws of decimal.js: decimal numerals are read exactly, and \<open>toFixed(d)\<close> prints the number rounded
  half up to \<open>d\<close> decimals.
\<close>

definition reads_decimals :: "arith \<Rightarrow> bool" where
  "reads_decimals A \<longleftrightarrow> (\<forall>s. is_decimal_string s \<longrightarrow> dec_of A (JStr s) = Some (Fin (decimal_value s)))"

definition prints_fixed :: "(num_val \<Rightarrow> nat \<Rightarrow> string) \<Rightarrow> bool" where
  "prints_fixed fixed \<longleftrightarrow>
     (\<forall>q d. 0 \<le> q \<longrightarrow> is_decimal_string (fixed (Fin q) d) \<and> decimal_value (fixed (Fin q) d) = of_int \<lfloor>q * 10 ^ d + 1 / 2\<rfloor> / 10 ^ d)"

lemma decimal_value_nonneg: "0 \<le> decimal_value s"
  by (simp add: decimal_value_def)

lemma price_decimals_eq: "is_decimal_string s \<Longrightarrow> price_decimals s = length (frac_part s)"
proof -
  assume "is_decimal_string s"
  then have "\<forall>c \<in> set (frac_part s). c \<noteq> CHR ''.''" using digits_no_point[OF frac_digits[of s]] by blast
  then have "takeWhile (\<lambda>c. c \<noteq> CHR ''.'') (frac_part s) = frac_part s" by (simp only: takeWhile_eq_all_conv)
  then show ?thesis by (simp only: price_decimals_def)
qed

text \<open>A numeral with at most \<open>d\<close> decimals is a whole number of units of the last one.\<close>

lemma decimal_value_units:
  assumes "length (frac_part s) \<le> d"
  shows "decimal_value s * 10 ^ d = of_int (int (nat_of_digits (int_part s @ frac_part s) * 10 ^ (d - length (frac_part s))))"
proof -
  have "(10 :: rat) ^ d = 10 ^ length (frac_part s) * 10 ^ (d - length (frac_part s))"
    using assms by (simp flip: power_add)
  then show ?thesis by (simp add: decimal_value_def)
qed

lemma rounded_units:
  fixes q m :: rat
  assumes "0 < m"
  shows "q - 1 / (2 * m) \<le> of_int \<lfloor>q * m + 1 / 2\<rfloor> / m" and "q * m = of_int k \<Longrightarrow> of_int \<lfloor>q * m + 1 / 2\<rfloor> / m = q"
    and "p * m = of_int k \<Longrightarrow> p \<le> q \<Longrightarrow> p \<le> of_int \<lfloor>q * m + 1 / 2\<rfloor> / m"
proof -
  have "q * m + 1 / 2 - 1 \<le> of_int \<lfloor>q * m + 1 / 2\<rfloor>" by linarith
  then have "(q - 1 / (2 * m)) * m \<le> of_int \<lfloor>q * m + 1 / 2\<rfloor>" using assms by (simp add: left_diff_distrib)
  then show "q - 1 / (2 * m) \<le> of_int \<lfloor>q * m + 1 / 2\<rfloor> / m" using assms by (simp add: pos_le_divide_eq)
  show "of_int \<lfloor>q * m + 1 / 2\<rfloor> / m = q" if "q * m = of_int k"
  proof -
    have k: "\<lfloor>q * m + 1 / 2\<rfloor> = k" unfolding that by linarith
    show ?thesis unfolding k that[symmetric] using assms by simp
  qed
  show "p \<le> of_int \<lfloor>q * m + 1 / 2\<rfloor> / m" if "p * m = of_int k" "p \<le> q"
  proof -
    have "of_int k \<le> q * m" using that assms by (metis mult_le_cancel_right_pos)
    then have "k \<le> \<lfloor>q * m + 1 / 2\<rfloor>" by linarith
    then have "p * m \<le> of_int \<lfloor>q * m + 1 / 2\<rfloor>" unfolding that(1) by simp
    then show ?thesis using assms by (simp add: pos_le_divide_eq)
  qed
qed

text \<open>The floor the tool holds a price to: that of the call, else of the RFQ's session, else the price itself.\<close>

definition floor_used :: "offer_input \<Rightarrow> mcp_seller \<Rightarrow> string option" where
  "floor_used i st = first_of (oi_floor_price i) (map_option ms_floorPrice (map_of (ms_sessions st) (oi_rfq_id i))) (oi_price i)"

lemma decimal_nonempty: "is_decimal_string s \<Longrightarrow> s \<noteq> []"
  by (auto simp: is_decimal_string_def int_part_def)

lemma offer_text:
  assumes "reads_decimals A" "prints_fixed fixed" "is_decimal_string price" "is_decimal_string f"
    "rbind (private_prices A f t) (offer_price_text A fixed (Some price)) = Inr s"
  shows "is_decimal_string s"
    and "decimal_value s = of_int \<lfloor>max (decimal_value price) (decimal_value f) * 10 ^ length (frac_part price) + 1 / 2\<rfloor> / 10 ^ length (frac_part price)"
proof -
  have p: "price_of A price = Inr (Fin (decimal_value price))" "price_of A f = Inr (Fin (decimal_value f))"
    using assms(1,3,4) by (simp_all add: reads_decimals_def price_of_def)
  have "n_max (Fin (decimal_value price)) (Fin (decimal_value f)) = Fin (max (decimal_value price) (decimal_value f))"
    by (simp add: n_max_def max_def)
  then have "s = fixed (Fin (max (decimal_value price) (decimal_value f))) (length (frac_part price))"
    using assms(5) p decimal_nonempty[OF assms(3)]
    by (auto simp: private_prices_def offer_price_text_def price_decimals_eq[OF assms(3)])
  then show "is_decimal_string s"
    "decimal_value s = of_int \<lfloor>max (decimal_value price) (decimal_value f) * 10 ^ length (frac_part price) + 1 / 2\<rfloor> / 10 ^ length (frac_part price)"
    using assms(2) decimal_value_nonneg[of price] by (simp_all add: prints_fixed_def le_max_iff_disj)
qed

text \<open>
  C40. The offer tool keeps to the floor it knows, up to rounding: an offer it posts at a price of
  its caller is at least the floor less half a unit of the price's last decimal, and at least the
  floor when the floor has no more decimals than the price.
\<close>

theorem offer_tool_above_floor:
  assumes "reads_decimals A" "prints_fixed fixed" "respond_offer P A fixed cfg an i st = (reqs, res, st')" "M_Offer r off \<in> set reqs"
    "oi_price i = Some price" "is_decimal_string price" "floor_used i st = Some f" "is_decimal_string f"
  shows "\<exists>s. map_of off ''price'' = Some (JStr s) \<and> is_decimal_string s \<and>
     decimal_value f - 1 / (2 * 10 ^ length (frac_part price)) \<le> decimal_value s \<and>
     (length (frac_part f) \<le> length (frac_part price) \<longrightarrow> decimal_value f \<le> decimal_value s)"
proof -
  let ?d = "length (frac_part price)" and ?q = "max (decimal_value price) (decimal_value f)"
  obtain t l s where t: "rbind (private_prices A f t) (offer_price_text A fixed (Some price)) = Inr s"
    and o: "off = mcp_offer P cfg an (oi_rfq_id i) l s"
    using assms(3-5,7) unfolding respond_offer_def Let_def floor_used_def by (auto split: if_splits sum.splits) blast+
  note s = offer_text[OF assms(1,2,6,8) t]
  have m: "0 < (10 :: rat) ^ ?d" by simp
  have "decimal_value f - 1 / (2 * 10 ^ ?d) \<le> ?q - 1 / (2 * 10 ^ ?d)" by simp
  also have "\<dots> \<le> decimal_value s" unfolding s(2) by (rule rounded_units(1)[OF m])
  finally have "decimal_value f - 1 / (2 * 10 ^ ?d) \<le> decimal_value s" .
  moreover have "decimal_value f \<le> decimal_value s" if "length (frac_part f) \<le> ?d"
    unfolding s(2) by (rule rounded_units(3)[OF m decimal_value_units[OF that]]) simp
  moreover have "map_of off ''price'' = Some (JStr s)" by (simp add: o mcp_offer_def signed_object_field)
  ultimately show ?thesis using s(1) by blast
qed

text \<open>
  The floor given when a listing is registered is not kept: whatever it was, the first offer at a
  price below it is posted at that price, since the price then is its own floor.
\<close>

theorem registered_floor_ignored:
  assumes "reads_decimals A" "prints_fixed fixed" "register_listing P cfg an answer i createSellerState = (reqs, Inr out, st)"
    "given (ms_listingId st)" "is_decimal_string price"
  shows "\<exists>off s. fst (respond_offer P A fixed cfg an'
       \<lparr>oi_rfq_id = r, oi_price = Some price, oi_floor_price = None, oi_target_price = None, oi_listing_id = None\<rparr> st) = [M_Offer r off] \<and>
     map_of off ''price'' = Some (JStr s) \<and> decimal_value s = decimal_value price"
proof -
  have st: "ms_sessions st = []"
    using assms(3) by (auto simp: register_listing_def createSellerState_def Let_def split: prod.splits option.splits)
  have p: "price_of A price = Inr (Fin (decimal_value price))" using assms(1,5) by (simp add: reads_decimals_def price_of_def)
  obtain s where s: "rbind (private_prices A price price) (offer_price_text A fixed (Some price)) = Inr s"
    using decimal_nonempty[OF assms(5)] by (simp add: private_prices_def p offer_price_text_def)
  have "decimal_value s = decimal_value price"
    unfolding offer_text(2)[OF assms(1,2,5,5) s] max.idem
    by (rule rounded_units(2)[OF _ decimal_value_units[OF order_refl]]) simp
  moreover have "fst (respond_offer P A fixed cfg an'
       \<lparr>oi_rfq_id = r, oi_price = Some price, oi_floor_price = None, oi_target_price = None, oi_listing_id = None\<rparr> st) =
     [M_Offer r (mcp_offer P cfg an' r (the (ms_listingId st)) s)]"
    using assms(4) st s decimal_nonempty[OF assms(5)] by (auto simp: respond_offer_def Let_def)
  ultimately show ?thesis by (auto simp: mcp_offer_def signed_object_field)
qed

text \<open>Exact decimal arithmetic and printing, to evaluate on.\<close>

definition decimal_arith :: arith where
  "decimal_arith = exact_arith\<lparr>dec_of := (\<lambda>j. case j of JStr s \<Rightarrow> if is_decimal_string s then Some (Fin (decimal_value s)) else None | _ \<Rightarrow> None)\<rparr>"

definition decimal_fixed :: "num_val \<Rightarrow> nat \<Rightarrow> string" where
  "decimal_fixed v d =
     (case v of Fin q \<Rightarrow>
        let tx = pad_start (d + 1) (CHR ''0'') (show_nat (nat \<lfloor>q * 10 ^ d + 1 / 2\<rfloor>))
        in if d = 0 then tx else take (length tx - d) tx @ ''.'' @ drop (length tx - d) tx
      | _ \<Rightarrow> ''NaN'')"

lemma decimal_arith_reads: "reads_decimals decimal_arith"
  by (simp add: reads_decimals_def decimal_arith_def)

lemma plain_parts: "list_all is_digit s \<Longrightarrow> int_part s = s \<and> frac_part s = []"
proof -
  assume "list_all is_digit s"
  then have c: "\<forall>c \<in> set s. c \<noteq> CHR ''.''" using digits_no_point by blast
  have "takeWhile (\<lambda>c. c \<noteq> CHR ''.'') s = s" using c by (simp only: takeWhile_eq_all_conv)
  moreover have "dropWhile (\<lambda>c. c \<noteq> CHR ''.'') s = []" using c by (simp only: dropWhile_eq_Nil_conv)
  ultimately show ?thesis by (simp only: int_part_def frac_part_def list.sel simp_thms)
qed

lemma decimal_fixed_prints: "prints_fixed decimal_fixed"
  unfolding prints_fixed_def
proof (intro allI impI)
  fix q :: rat and d :: nat assume q: "0 \<le> q"
  define n where "n = nat \<lfloor>q * 10 ^ d + 1 / 2\<rfloor>"
  define tx where "tx = pad_start (d + 1) (CHR ''0'') (show_nat n)"
  define i where "i = take (length tx - d) tx"
  define f where "f = drop (length tx - d) tx"
  have digits: "list_all is_digit tx"
    using show_nat_digits[of n] by (auto simp: tx_def pad_start_def list_all_iff is_digit_def)
  have len: "d < length tx" by (simp add: tx_def pad_start_def)
  have val: "nat_of_digits tx = n" by (simp add: tx_def pad_start_def nat_of_digits_append)
  have n: "(of_nat n :: rat) = of_int \<lfloor>q * 10 ^ d + 1 / 2\<rfloor>" using q by (simp add: n_def)
  have out: "decimal_fixed (Fin q) d = (if d = 0 then tx else i @ ''.'' @ f)"
    by (simp add: decimal_fixed_def Let_def tx_def n_def i_def f_def)
  have di: "list_all is_digit i" "list_all is_digit f" "i \<noteq> []" "length f = d" "i @ f = tx"
    using digits len by (auto simp: i_def f_def list_all_iff dest: in_set_takeD in_set_dropD)
  show "is_decimal_string (decimal_fixed (Fin q) d) \<and>
      decimal_value (decimal_fixed (Fin q) d) = of_int \<lfloor>q * 10 ^ d + 1 / 2\<rfloor> / 10 ^ d"
  proof (cases "d = 0")
    case True
    have "tx \<noteq> []" "CHR ''.'' \<notin> set tx" using len digits_no_point[OF digits] by auto
    then show ?thesis unfolding out n[symmetric] val[symmetric] using True digits plain_parts[OF digits]
      by (simp add: is_decimal_string_def decimal_value_def)
  next
    case False
    note parts = parts_of_point[OF di(1), of f]
    have "f \<noteq> []" using di(4) False by auto
    then show ?thesis unfolding out n[symmetric] val[symmetric] di(5)[symmetric] using False di parts
      by (simp add: is_decimal_string_def decimal_value_def)
  qed
qed

text \<open>A floor of 30.4 and an asking price of 30: the offer goes out at 30.\<close>

definition mcp_demo_offer :: offer_input where
  "mcp_demo_offer = \<lparr>oi_rfq_id = ''r'', oi_price = Some ''30'', oi_floor_price = Some ''30.4'', oi_target_price = None,
     oi_listing_id = Some ''l''\<rparr>"

theorem offer_tool_above_floor_witness:
  "\<exists>off s. fst (respond_offer client_platform decimal_arith decimal_fixed mcp_demo_config mcp_demo_answers mcp_demo_offer createSellerState) =
      [M_Offer ''r'' off] \<and> map_of off ''price'' = Some (JStr s) \<and> decimal_value ''30.4'' - 1 / 2 \<le> decimal_value s"
proof -
  let ?t = "respond_offer client_platform decimal_arith decimal_fixed mcp_demo_config mcp_demo_answers mcp_demo_offer createSellerState"
  have d: "is_decimal_string ''30''" "is_decimal_string ''30.4''" "frac_part ''30'' = []" by code_simp+
  have "\<And>s. is_decimal_string s \<Longrightarrow> price_of decimal_arith s = Inr (Fin (decimal_value s))"
    using decimal_arith_reads by (simp add: reads_decimals_def price_of_def)
  then obtain tx where "rbind (private_prices decimal_arith ''30.4'' ''30'') (offer_price_text decimal_arith decimal_fixed (Some ''30'')) = Inr tx"
    using d by (simp add: private_prices_def offer_price_text_def)
  then obtain off where off: "fst ?t = [M_Offer ''r'' off]"
    by (simp add: respond_offer_def mcp_demo_offer_def createSellerState_def Let_def)
  obtain reqs res st' where t: "?t = (reqs, res, st')" by (metis prod_cases3)
  show ?thesis
    using offer_tool_above_floor[OF decimal_arith_reads decimal_fixed_prints t, of "''r''" off "''30''" "''30.4''"] off t d
    by (auto simp: mcp_demo_offer_def floor_used_def)
qed

lemma n_max_floor_or_nan: "n_max p (Fin f) = NaN \<or> n_le (Fin f) (n_max p (Fin f))"
  using n_max_floor[of p f] by (cases "p = NaN") (auto simp: n_max_def)

lemma sanitized_or_nan:
  assumes "floor_price priv = Fin f"
  shows "sanitizeSellerAction a priv = S_Respond p \<Longrightarrow> p = NaN \<or> n_le (Fin f) p"
    and "sanitizeSellerAction a priv = S_Counter p \<Longrightarrow> p = NaN \<or> n_le (Fin f) p"
  using assms n_max_floor_or_nan[of _ f] by (cases a; simp; metis)+

text \<open>Answers to counters keep the floor exactly, or are not a number.\<close>

theorem counter_response_above_floor:
  assumes "counter_response A s events counterId price = Inr (Some tx, used)" "price_of A (ms_floorPrice s) = Inr (Fin f)"
  shows "\<exists>p. tx = dec_str A p \<and> (p = NaN \<or> n_le (Fin f) p)"
proof -
  obtain priv where priv: "private_prices A (ms_floorPrice s) (ms_targetPrice s) = Inr priv"
    using assms(1) by (auto simp: counter_response_def)
  then have f: "floor_price priv = Fin f" using assms(2) by (auto simp: private_prices_def)
  note above = sanitized_or_nan[OF f]
  show ?thesis
  proof (cases "given price")
    case True
    then obtain p where "tx = dec_str A (n_max p (Fin f))" using assms(1) priv f by (auto simp: counter_response_def)
    then show ?thesis using n_max_floor_or_nan[of p f] by blast
  next
    case False
    then have r: "(case sanitizeSellerAction (buildStrategy A (ms_strategyStyle s) (mcp_seller_ctx priv (ms_round s) counterId events)) priv of
        S_Decline \<Rightarrow> Inr (None, ''decline'') | S_Hold \<Rightarrow> Inr (None, ''hold'')
      | S_Respond q \<Rightarrow> Inr (Some (dec_str A q), ms_strategyStyle s)
      | S_Counter q \<Rightarrow> Inr (Some (dec_str A q), ms_strategyStyle s)) = (Inr (Some tx, used) :: (string option \<times> string) res)"
      using assms(1) priv by (auto simp: counter_response_def)
    show ?thesis
    proof (cases "sanitizeSellerAction (buildStrategy A (ms_strategyStyle s) (mcp_seller_ctx priv (ms_round s) counterId events)) priv")
      case (S_Counter p)
      show ?thesis using r above(2)[OF S_Counter] by (intro exI[of _ p]) (simp add: S_Counter)
    next
      case (S_Respond p)
      show ?thesis using r above(1)[OF S_Respond] by (intro exI[of _ p]) (simp add: S_Respond)
    qed (use r in simp_all)
  qed
qed

text \<open>What \<open>ghost_bazaar_post_rfq\<close> answers does not depend on the budgets.\<close>

theorem post_rfq_hides_budgets:
  assumes "post_rfq P cfg mints zk salt an i st = (reqs, Inr out, st1)"
    "post_rfq P cfg mints zk salt' an (i\<lparr>ri_budget_soft := b1, ri_budget_hard := b2\<rparr>) st = (reqs', Inr out', st2)"
  shows "out' = out"
  using assms by (cases zk) (auto simp: post_rfq_def budget_commitment_for_def generateBudgetCommitment_def Let_def
      split: sum.splits prod.splits if_splits)

end
