(* ===== verification/Registry.thy ===== *)
theory Registry
  imports Listings Strategy
begin

text \<open>
  \<^verbatim>\<open>packages/agents/src/registry.ts\<close> and \<^verbatim>\<open>packages/engine/src/strategy/buyer-registry-signals.ts\<close>: what is
  written to and read from the registry of agents, and the reputation signals a buyer ranks
  sellers by. The registry's SDK and IPFS are arguments: their answers, \<open>Inl\<close> where they throw.
\<close>

section \<open>registry.ts\<close>

definition METADATA_KEY_SERVICE_TYPE :: string where "METADATA_KEY_SERVICE_TYPE = ''ghost-bazaar:service_type''"
definition METADATA_KEY_NEGOTIATION_PROFILE :: string where "METADATA_KEY_NEGOTIATION_PROFILE = ''ghost-bazaar:negotiation_profile''"
definition METADATA_KEY_DID :: string where "METADATA_KEY_DID = ''ghost-bazaar:did''"
definition IPFS_URI_PREFIX :: string where "IPFS_URI_PREFIX = ''ipfs://''"
definition FEEDBACK_SCORE_SUCCESS :: rat where "FEEDBACK_SCORE_SUCCESS = 100"
definition FEEDBACK_SCORE_FAILURE :: rat where "FEEDBACK_SCORE_FAILURE = 0"
definition DEFAULT_SKILLS :: "string list" where "DEFAULT_SKILLS = [''agent_orchestration/negotiation_resolution'']"
definition DEFAULT_DOMAINS :: "string list" where "DEFAULT_DOMAINS = [''finance_and_business/finance'']"

record register_opts =
  ro_name :: string
  ro_description :: string
  ro_negotiationEndpoint :: string
  ro_paymentEndpoint :: "string option"
  ro_image :: "string option"
  ro_serviceType :: "string option"
  ro_negotiationProfile :: "string option"
  ro_skills :: "string list option"
  ro_domains :: "string list option"

record registration_file =
  rf_name :: string
  rf_description :: string
  rf_image :: "string option"
  rf_endpoints :: "(string \<times> string) list"
  rf_skills :: "string list"
  rf_domains :: "string list"

text \<open>A property that is set only where the option is truthy.\<close>

definition truthy :: "string option \<Rightarrow> string option" where
  "truthy v = (if v = Some [] then None else v)"

definition file_of_opts :: "register_opts \<Rightarrow> registration_file" where
  "file_of_opts opts =
     \<lparr>rf_name = ro_name opts, rf_description = ro_description opts, rf_image = truthy (ro_image opts),
      rf_endpoints = [(''A2A'', ro_negotiationEndpoint opts)] @
        (case truthy (ro_paymentEndpoint opts) of None \<Rightarrow> [] | Some e \<Rightarrow> [(''MCP'', e)]),
      rf_skills = (case ro_skills opts of None \<Rightarrow> DEFAULT_SKILLS | Some s \<Rightarrow> s),
      rf_domains = (case ro_domains opts of None \<Rightarrow> DEFAULT_DOMAINS | Some s \<Rightarrow> s)\<rparr>"

definition registration_metadata :: "platform \<Rightarrow> pubkey \<Rightarrow> register_opts \<Rightarrow> (string \<times> string) list" where
  "registration_metadata P signer opts =
     (case truthy (ro_serviceType opts) of None \<Rightarrow> [] | Some v \<Rightarrow> [(METADATA_KEY_SERVICE_TYPE, v)]) @
     (case truthy (ro_negotiationProfile opts) of None \<Rightarrow> [] | Some v \<Rightarrow> [(METADATA_KEY_NEGOTIATION_PROFILE, v)]) @
     [(METADATA_KEY_DID, buildDid P signer)]"

record registered_agent =
  ra_agentId :: nat
  ra_did :: did
  ra_registryUri :: string

text \<open>
  \<open>addJson\<close> is the upload of the registration file, \<open>register\<close> the transaction, which may give no id
  or no asset (\<open>None\<close>).
\<close>

definition registerAgent ::
  "platform \<Rightarrow> pubkey \<Rightarrow> (registration_file \<Rightarrow> string res) \<Rightarrow> (string \<Rightarrow> (string \<times> string) list \<Rightarrow> nat option res) \<Rightarrow>
   register_opts \<Rightarrow> registered_agent res" where
  "registerAgent P signer addJson register opts =
     rbind (addJson (file_of_opts opts)) (\<lambda>cid.
     rbind (register (IPFS_URI_PREFIX @ cid) (registration_metadata P signer opts)) (\<lambda>result.
       case result of
         None \<Rightarrow> Inl (JsError ''Agent registration transaction succeeded but did not return agentId/asset.'')
       | Some i \<Rightarrow> Inr \<lparr>ra_agentId = i, ra_did = buildDid P signer, ra_registryUri = IPFS_URI_PREFIX @ cid\<rparr>))"

text \<open>An account of the registry, and the summary of its feedback.\<close>

record agent_account =
  aa_owner :: pubkey
  aa_nft_name :: string

record feedback_summary =
  fs_totalFeedbacks :: "rat option"
  fs_averageScore :: rat

definition discoverAgent ::
  "platform \<Rightarrow> (nat \<Rightarrow> agent_account option res) \<Rightarrow> (nat \<Rightarrow> feedback_summary res) \<Rightarrow> nat \<Rightarrow> discovered_agent option res" where
  "discoverAgent P loadAgent getSummary agentId =
     rbind (loadAgent agentId) (\<lambda>found.
       case found of
         None \<Rightarrow> Inr None
       | Some agent \<Rightarrow>
           (case (case getSummary agentId of
                    Inl _ \<Rightarrow> (0, None)
                  | Inr sm \<Rightarrow>
                      let k = (case fs_totalFeedbacks sm of Some n \<Rightarrow> n | None \<Rightarrow> 0)
                      in (k, if 0 < k then Some (fs_averageScore sm) else None)) of
              (k, score) \<Rightarrow>
                Inr (Some \<lparr>da_agentId = agentId, da_did = Some (buildDid P (aa_owner agent)), da_name = aa_nft_name agent,
                  da_reputationScore = score, da_totalFeedbacks = k\<rparr>)))"

record feedback_entry =
  fe_score :: rat
  fe_revoked :: bool

text \<open>One agent of an owner; \<open>js_double\<close> rounds the average.\<close>

definition owned_agent :: "platform \<Rightarrow> arith \<Rightarrow> nat \<times> agent_account \<times> feedback_entry list option \<Rightarrow> discovered_agent" where
  "owned_agent P A a =
     (case a of (agentId, account, feedbacks) \<Rightarrow>
        let active = filter (\<lambda>f. \<not> fe_revoked f) (case feedbacks of Some fs \<Rightarrow> fs | None \<Rightarrow> []);
            scores = foldl (\<lambda>sm f. js_double A (sm + fe_score f)) 0 active in
        \<lparr>da_agentId = agentId, da_did = Some (buildDid P (aa_owner account)), da_name = aa_nft_name account,
         da_reputationScore = (if active = [] then None else Some (js_double A (scores / of_nat (length active)))),
         da_totalFeedbacks = of_nat (length active)\<rparr>)"

definition discoverAgentsByOwner ::
  "platform \<Rightarrow> arith \<Rightarrow> (pubkey \<Rightarrow> (nat \<times> agent_account \<times> feedback_entry list option) list res) \<Rightarrow> pubkey \<Rightarrow> discovered_agent list res" where
  "discoverAgentsByOwner P A getAgentsByOwner owner = rbind (getAgentsByOwner owner) (\<lambda>agents. Inr (map (owned_agent P A) agents))"

record deal_feedback =
  df_success :: bool
  df_settledAmount :: string
  df_score :: "rat option"
  df_feedbackUri :: "string option"
  df_feedbackContentHash :: "bytes option"

definition feedback_score :: "deal_feedback \<Rightarrow> rat" where
  "feedback_score f =
     (case df_score f of Some x \<Rightarrow> x | None \<Rightarrow> if df_success f then FEEDBACK_SCORE_SUCCESS else FEEDBACK_SCORE_FAILURE)"

definition feedback_content :: "platform \<Rightarrow> pubkey \<Rightarrow> millis \<Rightarrow> deal_feedback \<Rightarrow> (string \<times> json) list" where
  "feedback_content P signer now f =
     [(''protocol'', JStr PROTOCOL_VERSION), (''success'', JBool (df_success f)), (''score'', JNum (feedback_score f)),
      (''settled_amount'', JStr (df_settledAmount f)), (''reviewer'', JStr (buildDid P signer)), (''timestamp'', JStr (to_iso now))]"

text \<open>
  The file a feedback points to and the hash of its bytes; \<open>add\<close> is the upload.
\<close>

definition feedback_file ::
  "platform \<Rightarrow> pubkey \<Rightarrow> millis \<Rightarrow> (bytes \<Rightarrow> string res) \<Rightarrow> deal_feedback \<Rightarrow> (string \<times> bytes) res" where
  "feedback_file P signer now add f =
     (case truthy (df_feedbackUri f) of
        Some uri \<Rightarrow>
          (case df_feedbackContentHash f of
             None \<Rightarrow> Inl (JsError ''feedbackContentHash is required when feedbackUri is provided.'')
           | Some h \<Rightarrow> Inr (uri, h))
      | None \<Rightarrow>
          let content = utf8 (stringify (num_repr P) (JObj (feedback_content P signer now f)))
          in rbind (add content) (\<lambda>cid. Inr (IPFS_URI_PREFIX @ cid, sha256 P content)))"

text \<open>\<open>give\<close> is \<open>giveFeedback\<close> with the score, the two tags, the file and its hash.\<close>

definition recordDealFeedback ::
  "platform \<Rightarrow> pubkey \<Rightarrow> millis \<Rightarrow> (bytes \<Rightarrow> string res) \<Rightarrow>
   (nat \<Rightarrow> rat \<Rightarrow> string \<Rightarrow> string \<Rightarrow> string \<Rightarrow> bytes \<Rightarrow> 'r res) \<Rightarrow> nat \<Rightarrow> deal_feedback \<Rightarrow> 'r res" where
  "recordDealFeedback P signer now add give counterparty f =
     rbind (feedback_file P signer now add f) (\<lambda>(uri, h).
       give counterparty (feedback_score f) ''settlement'' ''ghost-bazaar'' uri h)"

section \<open>buyer-registry-signals.ts\<close>

definition offer_signal :: "listing_store \<Rightarrow> discover_fn \<Rightarrow> did \<Rightarrow> string \<Rightarrow> seller_signal option" where
  "offer_signal store discover seller listing_id =
     (case findBySellerAndId seller listing_id store of
        None \<Rightarrow> None
      | Some l \<Rightarrow>
          if falsy (map_of l ''registry_agent_id'') then None
          else (case normalizeRegistryAgentId (map_of l ''registry_agent_id'') of
             Inl _ \<Rightarrow> None
           | Inr agentId \<Rightarrow>
               (case discover agentId of
                  Inr (Some d) \<Rightarrow>
                    if show_nat (da_agentId d) \<noteq> agentId \<or> da_did d \<noteq> Some seller then None
                    else Some \<lparr>ss_agentId = Some (show_nat (da_agentId d)),
                      reputationScore = map_option (\<lambda>x. clamp x 0 100) (da_reputationScore d),
                      totalFeedbacks = max 0 (da_totalFeedbacks d)\<rparr>
                | _ \<Rightarrow> None)))"

definition add_signal ::
  "listing_store \<Rightarrow> discover_fn \<Rightarrow> (did \<times> seller_signal) list \<Rightarrow> did \<times> string \<Rightarrow> (did \<times> seller_signal) list" where
  "add_signal store discover signals offer =
     (case offer of (seller, listing_id) \<Rightarrow>
        if map_of signals seller \<noteq> None then signals
        else (case offer_signal store discover seller listing_id of None \<Rightarrow> signals | Some g \<Rightarrow> signals @ [(seller, g)]))"

definition buildBuyerRegistrySignals :: "(did \<times> string) list \<Rightarrow> listing_store \<Rightarrow> discover_fn \<Rightarrow> (did \<times> seller_signal) list" where
  "buildBuyerRegistrySignals offs store discover = foldl (add_signal store discover) [] offs"

section \<open>Signals are earned\<close>

text \<open>The lookup of an id as the engine's start-up code builds it on \<open>discoverAgent\<close>.\<close>

definition discover_by_id :: "(nat \<Rightarrow> discovered_agent option res) \<Rightarrow> discover_fn" where
  "discover_by_id lookup agentId = lookup (nat_of_digits agentId)"

definition signal_earned ::
  "platform \<Rightarrow> listing_store \<Rightarrow> (nat \<Rightarrow> agent_account option res) \<Rightarrow> (did \<times> string) list \<Rightarrow> did \<times> seller_signal \<Rightarrow> bool" where
  "signal_earned P store loadAgent offs p \<longleftrightarrow>
     (case p of (seller, g) \<Rightarrow>
        (\<exists>listing_id l n account. (seller, listing_id) \<in> set offs \<and> findBySellerAndId seller listing_id store = Some l \<and>
           normalizeRegistryAgentId (map_of l ''registry_agent_id'') = Inr (show_nat n) \<and> ss_agentId g = Some (show_nat n) \<and>
           loadAgent n = Inr (Some account) \<and> buildDid P (aa_owner account) = seller) \<and>
        (\<forall>x. reputationScore g = Some x \<longrightarrow> 0 \<le> x \<and> x \<le> 100) \<and> 0 \<le> totalFeedbacks g)"

lemma discoverAgent_Some:
  "discoverAgent P loadAgent getSummary n = Inr (Some d) \<Longrightarrow>
   \<exists>account. loadAgent n = Inr (Some account) \<and> da_agentId d = n \<and> da_did d = Some (buildDid P (aa_owner account))"
  by (auto simp: discoverAgent_def case_prod_beta split: option.splits)

lemma offer_signal_earned:
  assumes "offer_signal store (discover_by_id (discoverAgent P loadAgent getSummary)) seller listing_id = Some g"
    "(seller, listing_id) \<in> set offs"
  shows "signal_earned P store loadAgent offs (seller, g)"
proof -
  obtain l aid where l: "findBySellerAndId seller listing_id store = Some l"
    "normalizeRegistryAgentId (map_of l ''registry_agent_id'') = Inr aid"
    using assms(1) by (auto simp: offer_signal_def split: option.splits if_splits sum.splits)
  obtain d where d: "discoverAgent P loadAgent getSummary (nat_of_digits aid) = Inr (Some d)"
    "show_nat (da_agentId d) = aid" "da_did d = Some seller"
    and g: "g = \<lparr>ss_agentId = Some (show_nat (da_agentId d)),
      reputationScore = map_option (\<lambda>x. clamp x 0 100) (da_reputationScore d), totalFeedbacks = max 0 (da_totalFeedbacks d)\<rparr>"
    using assms(1) l by (auto simp: offer_signal_def discover_by_id_def split: option.splits if_splits sum.splits)
  obtain account where a: "loadAgent (nat_of_digits aid) = Inr (Some account)" "da_agentId d = nat_of_digits aid"
    "da_did d = Some (buildDid P (aa_owner account))"
    using discoverAgent_Some[OF d(1)] by blast
  have n: "show_nat (nat_of_digits aid) = aid" using a(2) d(2) by simp
  have "\<exists>listing_id l n account. (seller, listing_id) \<in> set offs \<and> findBySellerAndId seller listing_id store = Some l \<and>
      normalizeRegistryAgentId (map_of l ''registry_agent_id'') = Inr (show_nat n) \<and> ss_agentId g = Some (show_nat n) \<and>
      loadAgent n = Inr (Some account) \<and> buildDid P (aa_owner account) = seller"
    using assms(2) l a d(2,3) n g
    by (intro exI[of _ listing_id] exI[of _ l] exI[of _ "nat_of_digits aid"] exI[of _ account]) simp
  then show ?thesis using g by (auto simp: signal_earned_def clamp_def)
qed

text \<open>
  A reputation is never borrowed: with the engine's lookup, every signal a buyer is given belongs to
  a seller who has an offer on a listing of its own, whose registry id names an on-chain agent that
  the seller's key owns; scores lie between 0 and 100, and no seller has two signals.
\<close>

theorem signals_earned:
  "(\<forall>p \<in> set (buildBuyerRegistrySignals offs store (discover_by_id (discoverAgent P loadAgent getSummary))).
      signal_earned P store loadAgent offs p) \<and>
   distinct (map fst (buildBuyerRegistrySignals offs store (discover_by_id (discoverAgent P loadAgent getSummary))))"
proof -
  let ?D = "discover_by_id (discoverAgent P loadAgent getSummary)"
  have "set os \<subseteq> set offs \<Longrightarrow> \<forall>p \<in> set sigs. signal_earned P store loadAgent offs p \<Longrightarrow> distinct (map fst sigs) \<Longrightarrow>
      (\<forall>p \<in> set (foldl (add_signal store ?D) sigs os). signal_earned P store loadAgent offs p) \<and>
      distinct (map fst (foldl (add_signal store ?D) sigs os))" for os sigs
  proof (induction os arbitrary: sigs)
    case (Cons x os)
    obtain seller lid where x: "x = (seller, lid)" by fastforce
    have "(\<forall>p \<in> set (add_signal store ?D sigs x). signal_earned P store loadAgent offs p) \<and>
        distinct (map fst (add_signal store ?D sigs x))"
      using Cons.prems offer_signal_earned[of store P loadAgent getSummary seller lid _ offs]
      by (auto simp: add_signal_def x map_of_eq_None_iff split: option.split)
    then show ?case using Cons.IH[of "add_signal store ?D sigs x"] Cons.prems(1) by auto
  qed simp
  from this[of offs "[]"] show ?thesis by (simp add: buildBuyerRegistrySignals_def)
qed

text \<open>The hash recorded with a feedback is the hash of the file it points to, unless the caller supplied both.\<close>

lemma feedback_hash_matches:
  assumes "feedback_file P signer now add f = Inr (uri, h)" "truthy (df_feedbackUri f) = None"
  shows "\<exists>content cid. add content = Inr cid \<and> uri = IPFS_URI_PREFIX @ cid \<and> h = sha256 P content"
  using assms by (auto simp: feedback_file_def Let_def)

end
