(* ===== verification/SettlementServer.thy ===== *)
theory SettlementServer
  imports Settlement
begin

text \<open>
  \<^verbatim>\<open>packages/settlement/src/http.ts\<close>: the seller's own settlement server. A request is its method, path
  and two headers; the quote header is given twice, as text and as the JSON value it decodes to
  (\<open>None\<close> where decoding throws). The answer is a status and a body.
\<close>

record settlement_http =
  sh_method :: string
  sh_pathname :: string
  sh_quoteHeader :: "string option"
  sh_quoteJson :: "json option"
  sh_paymentSig :: "string option"

record settlement_server_config =
  ss_usdcMint :: string
  ss_cluster :: "string option"
  ss_hasHook :: bool

text \<open>What the clock, the chain's answer and the executor are while the request runs.\<close>

record settlement_run =
  rn_start :: millis
  rn_checked :: millis
  rn_finished :: millis
  rn_succeeded :: bool

definition http_error :: "string \<Rightarrow> string option \<Rightarrow> json" where
  "http_error code message = JObj ((''error'', JStr code) # opt_prop ''message'' (map_option JStr message))"

definition error_response :: "js_error \<Rightarrow> nat \<times> json" where
  "error_response e =
     (case e of
        SettlementError code st \<Rightarrow> (st, http_error code None)
      | _ \<Rightarrow> (500, http_error ''internal_error'' (Some ''Unexpected server error'')))"

definition verifyAndExecute ::
  "platform \<Rightarrow> mint_table \<Rightarrow> chain \<Rightarrow> settlement_run \<Rightarrow> settlement_request \<Rightarrow> nonces \<Rightarrow> (json \<times> json) res \<times> nonces" where
  "verifyAndExecute P mints ch rn request ns =
     (case execute_check P mints ch (rn_start rn) (rn_checked rn) request ns of
        Inl e \<Rightarrow> (Inl e, ns)
      | Inr quote \<Rightarrow>
          (case execute_finish P ch (rn_start rn) (rn_finished rn) request quote (rn_succeeded rn) ns of
             (Inl e, ns') \<Rightarrow> (Inl e, ns')
           | (Inr receipt, ns') \<Rightarrow> (Inr (quote, receipt), ns')))"

text \<open>
  The third component are the calls of \<open>onSettled\<close>. The texts of the messages of a
  \<open>SettlementError\<close> are left out.
\<close>

definition handleSettlementRequest ::
  "platform \<Rightarrow> mint_table \<Rightarrow> chain \<Rightarrow> settlement_server_config \<Rightarrow> settlement_run \<Rightarrow> settlement_http \<Rightarrow> nonces \<Rightarrow>
   (nat \<times> json) \<times> (json \<times> json) list \<times> nonces" where
  "handleSettlementRequest P mints ch cf rn h ns =
     (if sh_method h \<noteq> ''POST'' then ((405, http_error ''method_not_allowed'' None), [], ns)
      else if sh_quoteHeader h = None \<or> sh_quoteHeader h = Some [] then
        ((400, http_error ''malformed_quote_header'' (Some ''X-Ghost-Bazaar-Quote header required'')), [], ns)
      else if sh_paymentSig h = None \<or> sh_paymentSig h = Some [] then
        ((400, http_error ''invalid_payment_signature'' (Some ''Payment-Signature header required'')), [], ns)
      else
        (case verifyAndExecute P mints ch rn \<lparr>sr_quote = sh_quoteJson h, sr_payment = the (sh_paymentSig h),
             sr_usdcMint = ss_usdcMint cf, sr_cluster = ss_cluster cf\<rparr> ns of
           (Inl e, ns') \<Rightarrow> (error_response e, [], ns')
         | (Inr (quote, receipt), ns') \<Rightarrow> ((200, receipt), if ss_hasHook cf then [(quote, receipt)] else [], ns')))"

definition createSettlementServer ::
  "platform \<Rightarrow> mint_table \<Rightarrow> chain \<Rightarrow> settlement_server_config \<Rightarrow> settlement_run \<Rightarrow> settlement_http \<Rightarrow> nonces \<Rightarrow>
   (nat \<times> json) \<times> (json \<times> json) list \<times> nonces" where
  "createSettlementServer P mints ch cf rn h ns =
     (if sh_pathname h = ''/execute'' \<and> sh_method h = ''POST'' then handleSettlementRequest P mints ch cf rn h ns
      else ((404, http_error ''not_found'' None), [], ns))"

section \<open>Settled quotes\<close>

text \<open>
  The hook runs only for deals that were paid and served: the quote it is given is signed by both
  parties and not used before, the payment named in the request pays its price to the seller, the
  executor succeeded, the quote is used up, and the answer is the receipt. Without such a deal no
  quote is used up.
\<close>

theorem settled_calls_sound:
  assumes "createSettlementServer P mints ch cf rn h ns = (resp, calls, ns')"
  shows "((quote, receipt) \<in> set calls \<longrightarrow>
       resp = (200, receipt) \<and> rn_succeeded rn \<and> ns' = consumeNonce (jget quote ''quote_id'') ns \<and>
       quote_signed P quote \<and> \<not> isNonceConsumed (jget quote ''quote_id'') ns \<and>
       (\<exists>tx. ch_tx ch (the (sh_paymentSig h)) = Inr (Some tx) \<and> pays P mints ch (ss_usdcMint cf) quote tx)) \<and>
     (ss_hasHook cf \<longrightarrow> calls = [] \<longrightarrow> ns' = ns)"
proof -
  let ?r = "\<lparr>sr_quote = sh_quoteJson h, sr_payment = the (sh_paymentSig h), sr_usdcMint = ss_usdcMint cf, sr_cluster = ss_cluster cf\<rparr>"
  have "resp = (200, receipt) \<and> rn_succeeded rn \<and> ns' = consumeNonce (jget quote ''quote_id'') ns \<and>
      execute_check P mints ch (rn_start rn) (rn_checked rn) ?r ns = Inr quote" if "(quote, receipt) \<in> set calls"
    using assms that
    by (auto simp: createSettlementServer_def handleSettlementRequest_def verifyAndExecute_def execute_finish_def
        split: if_splits sum.splits prod.splits)
  moreover have "ns' = ns" if "ss_hasHook cf" "calls = []"
    using assms that
    by (auto simp: createSettlementServer_def handleSettlementRequest_def verifyAndExecute_def execute_finish_def
        split: if_splits sum.splits prod.splits)
  moreover have "fetch_tx ch sig = Inr tx \<Longrightarrow> ch_tx ch sig = Inr (Some tx)" for sig tx
    by (auto simp: fetch_tx_def split: option.splits if_splits)
  ultimately show ?thesis
    using execute_check_ok[of P mints ch "rn_start rn" "rn_checked rn" ?r ns quote] by auto
qed

end
