(* ===== verification/Spec2Isabelle.thy ===== *)
theory Spec2Isabelle
  imports DemoSettlement Liveness Atomicity SqliteStore SqliteListings Polling Dashboard Zk Mcp Registry SettlementServer
begin

text \<open>
  Ghost Bazaar is a negotiation service for software agents: a buyer publishes a request for
  quotes (RFQ), sellers answer with signed offers, the buyer counters, accepts one offer, both
  parties sign the quote, and the seller's payment on Solana is checked and recorded. This
  development models the TypeScript packages that carry that logic, \<^verbatim>\<open>packages/engine\<close>,
  \<^verbatim>\<open>packages/core\<close>, \<^verbatim>\<open>packages/settlement\<close>, \<^verbatim>\<open>packages/strategy\<close>, \<^verbatim>\<open>packages/agents\<close>, \<^verbatim>\<open>packages/zk\<close>
  and the tools of \<^verbatim>\<open>packages/mcp\<close>, and proves what makes them correct.

  \<^bold>\<open>Parts and how they interact.\<close> Each negotiation is an append-only log of events
  (\<^verbatim>\<open>state/event-store.ts\<close>, \<^verbatim>\<open>state/sqlite-event-store.ts\<close>); its session is derived from the log by
  a reducer (\<^verbatim>\<open>state/session.ts\<close>) over a transition table (\<^verbatim>\<open>state/state-machine.ts\<close>). The session
  manager (\<^verbatim>\<open>state/session-manager.ts\<close>) caches sessions, serialises writers with a FIFO lock per
  session and tries every event on the reducer before it appends it. The routes
  (\<^verbatim>\<open>routes/*.ts\<close>) check a request, with signatures (\<^verbatim>\<open>core/signing.ts\<close>,
  \<^verbatim>\<open>middleware/validate-signature.ts\<close>), schemas (\<^verbatim>\<open>core/schemas.ts\<close>) and control envelopes
  (\<^verbatim>\<open>security/control-envelope.ts\<close>), take the lock, check the session again and append one event.
  The deadline enforcer (\<^verbatim>\<open>deadline-enforcer.ts\<close>) scans the sessions and appends expiries and
  co-signing timeouts through the same lock. Settlement (\<^verbatim>\<open>packages/settlement\<close>) reads a
  transaction from the chain and compares it with the quote. Buyer and seller agents
  (\<^verbatim>\<open>packages/agents\<close>) poll the events they may see and act through their strategies
  (\<^verbatim>\<open>packages/strategy\<close>); language models do the same through the tools of \<^verbatim>\<open>packages/mcp\<close>. A buyer
  may commit to its budget in the RFQ and then proves of every counter, in zero knowledge, that it
  is within that budget (\<^verbatim>\<open>packages/zk\<close>); the counter route verifies the proof. Every append is also told to a statistics collector and a broadcaster
  (\<^verbatim>\<open>stats/*.ts\<close>), which the public dashboard and the admin panel read.

  \<^bold>\<open>Theories, from the bottom up.\<close>
  \<^item> \<open>Prelude\<close>, \<open>Json\<close>, \<open>JsDate\<close>, \<open>Platform\<close>: error values, JavaScript maps as association lists
    in insertion order, JSON values with JavaScript's coercions, \<open>Date\<close> parsing and printing, and
    the record \<open>platform\<close> of the third-party functions (decimal.js, bs58, ed25519, sha-256,
    base64, \<open>PublicKey\<close>, \<open>localeCompare\<close>). Their documented laws are hypotheses where a theorem
    needs them, and \<open>demo_platform\<close> satisfies them.
  \<^item> \<open>Canonical\<close>, \<open>Amounts\<close>, \<open>Signing\<close>, \<open>Schemas\<close>: \<^verbatim>\<open>packages/core\<close>, the engine's currency table and
    signature middleware, and \<^verbatim>\<open>zk/src/scale.ts\<close>. The lemmas show that signed bytes do not depend
    on key order, that amounts are rounded down to base units and never wrap, and that price
    scaling and printing are inverse.
  \<^item> \<open>StateMachine\<close>, \<open>Session\<close>: the transition table and the reducer \<open>deriveState\<close> with every event
    case and every throw. The locale \<open>replay_invariant\<close> carries invariants along a replay and
    is interpreted for the bookkeeping, the selection, the counters and the table.
  \<^item> \<open>EventStore\<close>, \<open>SqliteStore\<close>: the two event stores with visibility, cursors, subscriptions and
    terminal listeners. Both interpret the locale \<open>event_log\<close>; the durable store refines the
    in-memory one operation by operation and keeps its logs over a restart; a subscription
    misses nothing and repeats nothing.
  \<^item> \<open>SessionLock\<close>, \<open>SessionManager\<close>: the lock with its queue bound and timers as a step relation
    (mutual exclusion, order, draining), and the manager, which interprets \<open>session_service\<close>:
    reading through the cache is replaying the log. \<open>withLock\<close> of the manager is told whether the lock was granted
    (\<open>granted\<close>); when the queue is full or the wait times out it answers \<open>SessionBusyError\<close> and nothing runs.
  \<^item> \<open>ControlEnvelope\<close>, \<open>Listings\<close>, \<open>Connections\<close>: replay protection of envelopes, the listing table
    with registration and enrichment, and the limits on event streams.
  \<^item> \<open>Negotiation\<close>, \<open>Commitment\<close>, \<open>Enforcer\<close>, \<open>Settlement\<close>, \<open>SettlementRoutes\<close>: every route that
    writes, the enforcer's scan, payment verification and execution. A route is two
    definitions, the part before the lock and the callback under it, since other requests run
    between them. The two signature callbacks read the clock twice: they check the deadline, wait for the
    signature check, and stamp the event afterwards. The enforcer's \<open>scan_session\<close> only starts an attempt; the attempt waits
    for the lock, may be refused, and runs as a step of its own (\<open>run_attempt\<close>).
  \<^item> \<open>SettlementServer\<close>: the seller's own server around the execution check.
  \<^item> \<open>Protocol\<close>: the abstract specification. \<open>legal_log\<close> says which event may extend which session
    and what evidence it carries, of a counter to a committed budget the verified proof; the locale \<open>legal_invariant\<close> proves facts of legal logs once.
  \<^item> \<open>Handlers\<close>, \<open>Engine\<close>: every callback meets the contract \<open>locked_callback\<close> (it appends one
    legal event or nothing), and \<open>engine_step\<close> interleaves requests in flight, each granted or refused the lock, scans
    and the attempts they start, reads, evictions and restarts of the cache. \<open>engine_reach\<close> is reachability; by rule induction all
    logs of a reachable engine are legal. \<open>Atomicity\<close> relates responses to what was written.
  \<^item> \<open>Run\<close>, \<open>Demo\<close>, \<open>DemoSettlement\<close>, \<open>Liveness\<close>: progress of the callbacks, a complete negotiation
    and two settlements on the demonstration platform, used as witnesses, and what an attempt of
    the enforcer achieves, whatever the engine did while it waited.
  \<^item> \<open>Reads\<close>: header authentication, quote reads, polling and streaming of events with the slots a
    stream takes and gives back, \<open>GET /rfqs\<close> with its rate limit and pages, the registry cache.
  \<^item> \<open>SqliteListings\<close>: the listing store on SQLite. Both listing stores interpret the locale
    \<open>listing_provider\<close>, and the durable one refines the one in memory.
  \<^item> \<open>Decimals\<close>, \<open>Strategy\<close>: decimal arithmetic and sorting as the strategies use them, all built-in
    strategies, the sanitizers, the ranking of offers and the parsing of a language model's reply.
  \<^item> \<open>Zk\<close>: the budget commitment, the prover, the verifier and the circuit, over the record
    \<open>zk_library\<close> of snarkjs and circomlibjs. Completeness and soundness of Groth16 are hypotheses
    (\<open>groth16_complete\<close>, \<open>groth16_sound\<close>) that \<open>demo_zk\<close> satisfies: a proof that verifies comes from private inputs
    its maker knew (\<open>known\<close>), which are field elements. The demonstration run commits to a budget and proves its counter.
  \<^item> \<open>Mcp\<close>: the negotiation tools of the MCP server for buyers and sellers, with their private
    sessions. Counters stay within the budget and offers above the floor the tool knows.
  \<^item> \<open>Registry\<close>: what agents write to and read from the agent registry, and the reputation signals
    buyers rank by, which belong to sellers that own the agent they name.
  \<^item> \<open>Client\<close>, \<open>Agents\<close>: the client's signed headers and envelopes, which the engine accepts, and the
    polling agents, which stay within budget and floor where their strategies answer numbers.
  \<^item> \<open>Polling\<close>: the buyer agent's polls beside a running engine, each a chain of parts between awaits. Without
    overlap of polls the agent stays in sync with the log; polls that overlap repeat events.
  \<^item> \<open>Stats\<close>: the statistics collector, live and replayed at start-up, beside a running engine; both
    give the numbers read off the logs (\<open>stats_of\<close>).
  \<^item> \<open>Admin\<close>, \<open>Dashboard\<close>: the admin login with its sessions and rate limits, the broadcaster with its
    subscriber sets, the streams of the admin panel as a step relation with appends in between, the
    public feed and the session lists.
  \<^item> This theory: the properties of the engine as a whole, and the witnesses that need a complete run.

  \<^bold>\<open>Modelling decisions.\<close> Code between two awaits is one step, and reads the clock once, as
  an argument \<open>now\<close>; a callback under a lock that awaits a signature check has a clock for either side of the
  wait, since nothing else can change its session meanwhile. Likewise the checks of a route before the lock, and
  the call of the chain in a settlement, are one step where what they wait for does not depend on the engine. Random identifiers are arguments. Exceptions are values of a sum type with
  the status and code of the response. JavaScript numbers that are counters or times are
  integers, base units are unbounded integers as \<open>BigInt\<close> is, and the eight bytes of a token
  amount are a 64-bit word. No definition needs fuel: every loop of the modelled code runs over
  a finite structure and is a structural recursion.

  \<^bold>\<open>Not modelled.\<close> HTTP parsing, routing and the start of the process (\<^verbatim>\<open>server.ts\<close>, \<^verbatim>\<open>app.ts\<close>),
  delivery of bytes on an event stream, and the timers themselves; Groth16, Poseidon and the
  circuit templates of circomlib, SQLite, and the agent registry's SDK, whose answers or documented
  behaviour are parameters; the averages and the uptime of the dashboard; the prompts of the
  language-model strategies; the two settlement tools of the MCP server, of which the second does
  not parse, its start-up and its transport; the
  frontend and the end-to-end script.
\<close>

section \<open>The logs of the engine\<close>

text \<open>
  C1. The engine refines its protocol: in every reachable state, whatever the interleaving of
  requests, scans and reads, the log of every session is one the specification \<open>legal_log\<close>
  allows. Each event then carries the evidence the protocol asks for (a signature of its actor,
  a control envelope of the buyer on the session's last event, a listing of the seller, for an
  offer, counter, accept or decline a time before the deadline) and replays without an error.
\<close>

theorem engine_logs_legal:
  assumes "engine_reach cf e"
  shows "legal_log (cf_platform cf) (cf_mints cf) (cf_zk cf) (cf_window cf) (cosign_timeout (cf_cosignTimeout cf)) (eg_listings e) r
     (events_in (eg_mgr e) r)"
  using engine_reach_ok[OF assms] by (simp add: engine_ok_def)

theorem engine_logs_legal_witness:
  "legal_log demo_platform MINT_DECIMALS (zk_verify demo_zk) None 60000 demo_listings demo_rfq demo_log"
proof -
  obtain e where e: "engine_reach demo_cf e" "events_in (eg_mgr e) demo_rfq = demo_log" "eg_listings e = demo_listings"
    using demo_engine by blast
  have "cosign_timeout None = 60000"
    by (simp add: cosign_timeout_def clamp_def DEFAULT_COSIGN_TIMEOUT_MS_def MIN_COSIGN_TIMEOUT_MS_def MAX_COSIGN_TIMEOUT_MS_def)
  then show ?thesis using engine_logs_legal[OF e(1), of demo_rfq] e by (simp add: demo_cf_def)
qed

lemma reach_legal: "engine_reach cf e \<Longrightarrow> legal_in cf (eg_listings e) r (events_in (eg_mgr e) r)"
  using engine_reach_ok by (simp add: engine_ok_def)

lemmas reach_quotes = quotes.legal[OF reach_legal]
lemmas reach_limits = limits.legal[OF reach_legal]
lemmas reach_log_facts = log_facts.legal[OF reach_legal]
lemmas reach_timely = timely.legal[OF reach_legal]
lemmas reach_uncancelled = uncancelled.legal[OF reach_legal]

lemma offer_has_listing:
  assumes e: "engine_reach cf e" and d: "deriveState (events_in (eg_mgr e) r) = Inr (Some s)" and o: "o' \<in> set (offers s)"
  shows "\<exists>l. map_of (eg_listings e) (o_listing_id o') = Some l \<and> map_of l ''seller'' = Some (JStr (o_seller o')) \<and>
     map_of l ''payment_endpoint'' = Some (JStr (o_payment_endpoint o'))"
proof -
  have "list_all2 offer_event (offers s) (events_of OFFER_SUBMITTED (events_in (eg_mgr e) r))"
    using logged.derived[OF d] by (simp add: offers_logged_def)
  then obtain ev where ev: "ev \<in> set (events_in (eg_mgr e) r)" "offer_event o' ev"
    using list_all2_partner[OF _ o] by (fastforce simp: events_of_def)
  then have "offer_listed (eg_listings e) ev"
    using reach_log_facts[OF e d] by (auto simp: offers_listed_def offer_event_def)
  then show ?thesis using ev(2) by (auto simp: offer_listed_def offer_event_def)
qed

text \<open>
  C2. What a commitment is worth: a session of the engine is \<open>COMMITTED\<close> only with a quote that
  restates an offer its seller made (same seller, price, currency and payment endpoint, for the
  session's buyer, not outliving the deadline), with a payment endpoint taken from a listing of
  that seller, and with signatures of that buyer and that seller that both verify over that
  quote's canonical form.
\<close>

theorem committed_sound:
  assumes "engine_reach cf e" "deriveState (events_in (eg_mgr e) r) = Inr (Some s)" "state s = COMMITTED"
  shows "\<exists>o' q bs ss. o' \<in> set (offers s) \<and> selectedOfferId s = Some (o_offer_id o') \<and>
     unsignedQuote s = Some (JObj q) \<and> quote_for (cf_platform cf) s o' q \<and>
     (\<exists>l. map_of (eg_listings e) (o_listing_id o') = Some l \<and> map_of l ''seller'' = Some (JStr (o_seller o')) \<and>
        map_of l ''payment_endpoint'' = Some (JStr (o_payment_endpoint o'))) \<and>
     buyerSignature s = Some bs \<and>
     signed_by (cf_platform cf) (quoteSigningPayload (cf_platform cf) (quote_fields_of (JObj q))) bs (buyer (rfq s)) \<and>
     sellerSignature s = Some ss \<and>
     signed_by (cf_platform cf) (quoteSigningPayload (cf_platform cf) (quote_fields_of (JObj q))) ss (o_seller o')"
proof -
  have inv: "quote_inv (cf_platform cf) s" using reach_quotes[OF assms(1,2)] .
  obtain o' q where o: "o' \<in> set (offers s)" "selectedOfferId s = Some (o_offer_id o')" "selectedSeller s = Some (o_seller o')"
    "unsignedQuote s = Some (JObj q)" "quote_for (cf_platform cf) s o' q"
    using inv assms(3) unfolding quote_inv_def by blast
  obtain bs ss where "buyerSignature s = Some bs" "sellerSignature s = Some ss"
    using inv assms(3) unfolding quote_inv_def by blast
  then show ?thesis using inv o offer_has_listing[OF assms(1,2) o(1)] unfolding quote_inv_def quote_signed_by_def
    by (intro exI[of _ o'] exI[of _ q] exI[of _ bs] exI[of _ ss]) auto
qed

theorem committed_sound_witness:
  "\<exists>o' q bs ss. o' \<in> set (offers demo_s5) \<and> quote_for demo_platform demo_s5 o' q \<and>
     buyerSignature demo_s5 = Some bs \<and> sellerSignature demo_s5 = Some ss \<and>
     signed_by demo_platform (quoteSigningPayload demo_platform (quote_fields_of (JObj q))) ss (o_seller o')"
proof -
  obtain e where e: "engine_reach demo_cf e" "events_in (eg_mgr e) demo_rfq = demo_log" "deriveState demo_log = Inr (Some demo_s5)"
    using demo_engine by blast
  have "state demo_s5 = COMMITTED" by (simp add: demo_s5_def)
  then show ?thesis using committed_sound[of demo_cf e demo_rfq demo_s5] e by (auto simp: demo_cf_def)
qed

text \<open>
  C3. The anti-spam limits hold for every session of a reachable engine: at most 50 offers, 5 of
  one seller, 6 accept attempts, 2 for one seller.
\<close>

theorem session_limits:
  assumes "engine_reach cf e" "deriveState (events_in (eg_mgr e) r) = Inr (Some s)"
  shows "length (offers s) \<le> 50 \<and> length (filter (\<lambda>o'. o_seller o' = d) (offers s)) \<le> 5 \<and>
     totalAcceptAttempts s \<le> 6 \<and> count_get (acceptAttemptsBySeller s) d \<le> 2"
  using reach_limits[OF assms]
  by (simp add: within_limits_def MAX_OFFERS_PER_SESSION_def MAX_OFFERS_PER_SELLER_def
      MAX_ACCEPTS_PER_SESSION_def MAX_ACCEPTS_PER_SELLER_def)

theorem session_limits_witness: "length (offers demo_s5) \<le> 50 \<and> totalAcceptAttempts demo_s5 \<le> 6"
  using session_limits[of demo_cf _ demo_rfq demo_s5] demo_engine by fastforce

text \<open>
  C11. Identifiers are never reused within a session and counter rounds strictly increase, even
  when two requests with the same identifier were both admitted before either took the lock.
\<close>

theorem session_ids_fresh:
  assumes "engine_reach cf e" "deriveState (events_in (eg_mgr e) r) = Inr (Some s)"
  shows "distinct (map o_offer_id (offers s)) \<and> distinct (map c_counter_id (counters s)) \<and>
     sorted_wrt (<) (map c_round (counters s)) \<and> (\<forall>c \<in> set (counters s). 0 < c_round c)"
  using reach_limits[OF assms] by (simp add: fresh_ids_def)

theorem session_ids_fresh_witness:
  "map c_round (counters demo_s5) = [1] \<and> distinct (map o_offer_id (offers demo_s5)) \<and> distinct (map c_counter_id (counters demo_s5))"
proof -
  obtain e where "engine_reach demo_cf e" "deriveState (events_in (eg_mgr e) demo_rfq) = Inr (Some demo_s5)"
    using demo_engine by auto
  from session_ids_fresh[OF this] show ?thesis by (simp add: demo_sessions)
qed

text \<open>
  C12. Messages are authentic: every RFQ, offer and counter in a log of the engine carries a
  signature that verifies, under the DID recorded as the event's actor, over the canonical form
  of the fields recorded.
\<close>

theorem messages_authentic:
  assumes "engine_reach cf e" "ev \<in> set (events_in (eg_mgr e) r)" "signed_fields (ev_type ev) = Some ks"
  shows "self_signed (cf_platform cf) ks ev"
proof -
  have "events_in (eg_mgr e) r \<noteq> []" using assms(2) by auto
  then obtain s where "deriveState (events_in (eg_mgr e) r) = Inr (Some s)"
    using legal_log_derives[OF reach_legal[OF assms(1)]] by blast
  then show ?thesis using reach_log_facts[OF assms(1)] assms(2,3) by (auto simp: messages_signed_def)
qed

theorem messages_authentic_witness: "self_signed demo_platform offer_fields demo_e1"
proof -
  obtain e where "engine_reach demo_cf e" "events_in (eg_mgr e) demo_rfq = demo_log" using demo_engine by blast
  then show ?thesis using messages_authentic[of demo_cf e demo_e1 demo_rfq offer_fields]
    by (simp add: demo_log_def signed_fields_def demo_e1_def demo_cf_def)
qed

text \<open>
  C6. Nobody counters above the committed budget: where the RFQ carries a commitment, every
  counter in the log comes with the proof the engine verified, and if its price is below \<open>2 ^ 64\<close> base
  units, the width of the circuit's comparison, then it is at most the budget of any opening of the
  commitment (a budget and a salt in the field), unless the maker of the proof knew a second opening,
  which would be a collision of the Poseidon hash. The engine's verifier runs on a sound proof system
  (\<open>known\<close> names what the maker of a proof knew). Of a price of \<open>2 ^ 64\<close> base units or more, which the engine does
  not refuse, nothing is claimed.
\<close>

theorem counters_within_commitment:
  assumes "engine_reach cf e" "cf_zk cf = zk_verify L" "circuit_ok L" "groth16_sound L known"
    "deriveState (events_in (eg_mgr e) r) = Inr (Some s)" "budget_commitment (rfq s) = Some c" "c \<noteq> []"
    "ev \<in> set (events_in (eg_mgr e) r)" "ev_type ev = COUNTER_SENT"
  shows "\<exists>price mint scaled pr. map_of (ev_payload ev) ''price'' = Some (JStr price) \<and> mintFor (currency (rfq s)) = Inr mint \<and>
     normalizeAmount (cf_mints cf) price mint = Inr scaled \<and> map_of (ev_payload ev) ''budget_proof'' = Some pr \<and>
     zk_verify L pr scaled c \<and>
     (scaled < 2 ^ 64 \<longrightarrow> (\<forall>b salt. commits_to L c b salt \<longrightarrow>
        scaled \<le> b \<or> collides L (counter_inputs known c scaled pr) (b, salt)))"
proof -
  have "counter_proved (cf_mints cf) (cf_zk cf) (rfq s) ev"
    using proofs.legal[OF reach_legal[OF assms(1)] assms(5)] assms(8,9) by (simp add: counters_proved_def)
  then obtain price mint scaled pr where p: "map_of (ev_payload ev) ''price'' = Some (JStr price)"
      "mintFor (currency (rfq s)) = Inr mint" "normalizeAmount (cf_mints cf) price mint = Inr scaled"
      "map_of (ev_payload ev) ''budget_proof'' = Some pr" "zk_verify L pr scaled c"
    using assms(2,6,7) by (auto simp: counter_proved_def has_commitment_def)
  then show ?thesis using verified_within[OF assms(3,4) p(5)] by blast
qed

text \<open>In the demonstration run the counter of 9 is within the budget of 12 that was committed to.\<close>

theorem counters_within_commitment_witness:
  "commits_to demo_zk demo_commitment 12000000 7 \<and>
   (\<exists>scaled. normalizeAmount MINT_DECIMALS ''9'' DEFAULT_USDC_MINT = Inr scaled \<and> scaled \<le> 12000000 \<and>
      zk_verify demo_zk demo_proof scaled demo_commitment)"
proof -
  obtain e where e: "engine_reach demo_cf e" "events_in (eg_mgr e) demo_rfq = demo_log"
      "deriveState (events_in (eg_mgr e) demo_rfq) = Inr (Some demo_s5)"
    using demo_engine by auto
  have r: "budget_commitment (rfq demo_s5) = Some demo_commitment" "currency (rfq demo_s5) = ''USDC''"
    by (simp_all add: demo_sessions demo_session_rfq_def)
  have ev: "demo_e2 \<in> set (events_in (eg_mgr e) demo_rfq)" "ev_type demo_e2 = COUNTER_SENT"
    using e(2) by (simp_all add: demo_log_def demo_e2_def)
  have p: "map_of (ev_payload demo_e2) ''price'' = Some (JStr ''9'')" "map_of (ev_payload demo_e2) ''budget_proof'' = Some demo_proof"
    by (simp_all add: demo_e2_def counter_payload_def demo_counter_body_def pick_def opt_prop_def)
  have n: "normalizeAmount MINT_DECIMALS ''9'' DEFAULT_USDC_MINT = Inr 9000000"
    using demo_scaled(2) by (simp add: scalePrice_def)
  have op: "commits_to demo_zk demo_commitment 12000000 7"
    by (simp add: commits_to_def demo_commitment_value) (simp add: demo_zk_def FIELD_def)
  have k: "counter_inputs demo_known demo_commitment 9000000 demo_proof = (12000000, 7)"
    by (simp add: counter_inputs_def demo_commitment_value demo_known_def proofForSnarkjs_def demo_proof_def)
  show ?thesis
    using counters_within_commitment[OF e(1) _ demo_zk_ok(1,3) e(3) r(1) demo_commitment_nonempty ev] n op k
    by (fastforce simp: p r mintFor_def CURRENCY_TO_MINT_def DEFAULT_USDC_MINT_def collides_def)
qed

text \<open>
  Offers come from listings: every offer of an engine's log names a listing of the seller who
  made it, and the payment endpoint recorded with the offer is that listing's, not one the
  request chose.
\<close>

theorem offers_from_listings:
  assumes "engine_reach cf e" "ev \<in> set (events_in (eg_mgr e) r)" "ev_type ev = OFFER_SUBMITTED"
  shows "\<exists>i l. map_of (ev_payload ev) ''listing_id'' = Some (JStr i) \<and> map_of (eg_listings e) i = Some l \<and>
     map_of l ''seller'' = Some (JStr (ev_actor ev)) \<and> map_of (ev_payload ev) ''payment_endpoint'' \<noteq> None \<and>
     map_of (ev_payload ev) ''payment_endpoint'' = map_of l ''payment_endpoint''"
proof -
  have "events_in (eg_mgr e) r \<noteq> []" using assms(2) by auto
  then obtain s where "deriveState (events_in (eg_mgr e) r) = Inr (Some s)"
    using legal_log_derives[OF reach_legal[OF assms(1)]] by blast
  then have "offer_listed (eg_listings e) ev"
    using reach_log_facts[OF assms(1)] assms(2,3) by (auto simp: offers_listed_def)
  then show ?thesis by (simp add: offer_listed_def)
qed

theorem offers_from_listings_witness:
  "\<exists>i l. map_of (ev_payload demo_e1) ''listing_id'' = Some (JStr i) \<and> map_of demo_listings i = Some l \<and>
     map_of l ''seller'' = Some (JStr (ev_actor demo_e1))"
proof -
  obtain e where "engine_reach demo_cf e" "events_in (eg_mgr e) demo_rfq = demo_log" "eg_listings e = demo_listings"
    using demo_engine by blast
  then show ?thesis using offers_from_listings[of demo_cf e demo_e1 demo_rfq]
    by (auto simp: demo_log_def demo_e1_def)
qed

text \<open>
  C4. A session is settled at most once, however many execute and settle-report requests were
  verified concurrently.
\<close>

theorem settled_at_most_once:
  assumes "engine_reach cf e"
  shows "length (filter (\<lambda>ev. ev_type ev = SETTLEMENT_CONFIRMED) (events_in (eg_mgr e) r)) \<le> 1"
proof (cases "events_in (eg_mgr e) r = []")
  case False
  then obtain s where "deriveState (events_in (eg_mgr e) r) = Inr (Some s)"
    using legal_log_derives[OF reach_legal[OF assms]] by blast
  then show ?thesis using reach_log_facts[OF assms] by (simp add: settled_once_def events_of_def)
qed simp

theorem settled_at_most_once_witness:
  "length (filter (\<lambda>ev. ev_type ev = SETTLEMENT_CONFIRMED) demo_log) \<le> 1"
  using settled_at_most_once[of demo_cf _ demo_rfq] demo_engine by metis

text \<open>
  C13. The deadline binds the parties. Every offer, counter, accept and decline in a log was recorded
  at a time at which the session's deadline had not passed, even if the request was received
  earlier and waited for the lock. And when a request of a party (an offer, counter, accept,
  signature, co-signature or decline) gets its turn in the lock at a clock reading past the
  deadline, it is answered with an error and no log changes. For signatures and co-signatures the
  second half is all there is: the callback awaits the check of the signature between checking the deadline
  at \<open>now\<close> and stamping the event at \<open>now'\<close>, so one that was in time can carry a stamp past the deadline.
\<close>

theorem parties_in_time:
  assumes "engine_reach cf e" "deriveState (events_in (eg_mgr e) r) = Inr (Some s)"
  shows "(\<forall>ev \<in> set (events_in (eg_mgr e) r). ev_type ev \<in> {OFFER_SUBMITTED, COUNTER_SENT, WINNER_SELECTED, COSIGN_DECLINED} \<longrightarrow>
      (\<exists>now. ev_time ev = to_iso now \<and> \<not> time_passed (cf_platform cf) now (deadline (rfq s)))) \<and>
    (\<forall>gr now now' u qid rnd q rep e'. party_turn q = Some r \<longrightarrow> time_passed (cf_platform cf) now (deadline (rfq s)) \<longrightarrow>
      proceed cf gr now now' u qid rnd q e = (rep, e') \<longrightarrow>
      (\<exists>x. rep = Some (Inl x)) \<and> events_in (eg_mgr e') = events_in (eg_mgr e))"
  using reach_timely[OF assms] late_turn[OF reach_manager_ok[OF assms(1)] assms(2)]
  by (fastforce simp: in_time_def)

theorem parties_in_time_witness:
  "(\<exists>now. ev_time demo_e3 = to_iso now \<and> \<not> time_passed demo_platform now (deadline (rfq demo_s5))) \<and>
   (\<exists>e rep e' x. engine_reach demo_cf e \<and>
      proceed demo_cf True 1893456000000 1893456000000 ''u'' [] [] (AwaitCosign demo_rfq (demo_sig (CHR ''S''))) e = (rep, e') \<and>
      rep = Some (Inl x) \<and> events_in (eg_mgr e') demo_rfq = demo_log)"
proof -
  obtain e where e: "engine_reach demo_cf e" "events_in (eg_mgr e) demo_rfq = demo_log" "deriveState demo_log = Inr (Some demo_s5)"
    using demo_engine by blast
  have d: "deriveState (events_in (eg_mgr e) demo_rfq) = Inr (Some demo_s5)" using e by simp
  have late: "time_passed (cf_platform demo_cf) 1893456000000 (deadline (rfq demo_s5))"
    using demo_future(2) by (simp add: demo_sessions demo_session_rfq_def demo_cf_def time_passed_def)
  obtain rep e' where p: "proceed demo_cf True 1893456000000 1893456000000 ''u'' [] [] (AwaitCosign demo_rfq (demo_sig (CHR ''S''))) e = (rep, e')"
    by fastforce
  have "(\<exists>x. rep = Some (Inl x)) \<and> events_in (eg_mgr e') = events_in (eg_mgr e)"
    using parties_in_time[OF e(1) d] late p by (meson party_turn.simps(5))
  moreover have "\<exists>now. ev_time demo_e3 = to_iso now \<and> \<not> time_passed demo_platform now (deadline (rfq demo_s5))"
    using parties_in_time[OF e(1) d] e(2) by (simp add: demo_log_def demo_e3_def demo_cf_def)
  ultimately show ?thesis using e p by metis
qed

section \<open>One step of the engine\<close>

text \<open>
  Logs are append-only and the engine writes one event at a time: a step leaves every log
  alone, or extends the log of exactly one session by one event, an event of that session that
  the reducer accepts.
\<close>

theorem step_appends_one:
  assumes "engine_reach cf e" "engine_step cf e e'"
  shows "events_in (eg_mgr e') = events_in (eg_mgr e) \<or>
     (\<exists>r ev s. events_in (eg_mgr e') = (events_in (eg_mgr e))(r := events_in (eg_mgr e) r @ [ev]) \<and> ev_rfq ev = r \<and>
        deriveState (events_in (eg_mgr e) r @ [ev]) = Inr (Some s))"
  using step_mgr[OF assms(2) engine_reach_ok[OF assms(1)]] unfolding mgr_step_def evolves_def by blast

theorem step_appends_one_witness:
  "\<exists>e e'. engine_reach demo_cf e \<and> engine_step demo_cf e e' \<and> events_in (eg_mgr e) demo_rfq = demo_log \<and>
     (\<exists>es. events_in (eg_mgr e') demo_rfq = demo_log @ es)"
proof -
  obtain e where e: "engine_reach demo_cf e" "events_in (eg_mgr e) demo_rfq = demo_log" using demo_engine by blast
  obtain v m where "getSession 0 demo_rfq (eg_mgr e) = (v, m)" by fastforce
  then have s: "engine_step demo_cf e (e\<lparr>eg_mgr := m\<rparr>)" by (rule engine_step.read_session)
  have "\<exists>es. events_in (eg_mgr (e\<lparr>eg_mgr := m\<rparr>)) demo_rfq = demo_log @ es"
    using step_appends_one[OF e(1) s] e(2) by auto
  then show ?thesis using e s by blast
qed

text \<open>
  C10. Outcomes are final: once a session has expired no step changes its log again, and once it is
  committed the only event a step may still add is the confirmation of its settlement.
\<close>

theorem outcomes_final:
  assumes "engine_reach cf e" "engine_step cf e e'" "deriveState (events_in (eg_mgr e) r) = Inr (Some s)"
    "state s \<in> {EXPIRED, CANCELLED, COMMITTED}"
  shows "events_in (eg_mgr e') r = events_in (eg_mgr e) r \<or>
     (state s = COMMITTED \<and> (\<exists>ev. ev_type ev = SETTLEMENT_CONFIRMED \<and> events_in (eg_mgr e') r = events_in (eg_mgr e) r @ [ev]))"
proof (cases "events_in (eg_mgr e') r = events_in (eg_mgr e) r")
  case False
  then obtain ev s' where ev: "events_in (eg_mgr e') r = events_in (eg_mgr e) r @ [ev]"
    "deriveState (events_in (eg_mgr e) r @ [ev]) = Inr (Some s')"
    using mgr_step_log[OF step_mgr[OF assms(2) engine_reach_ok[OF assms(1)]]] by (auto split: if_splits)
  have "isValidTransition (state s) (ev_type ev) = Some (state s')"
    using apply_event_transition deriveState_snocD[OF assms(3) ev(2)] by blast
  then have "state s = COMMITTED \<and> ev_type ev = SETTLEMENT_CONFIRMED" using transition_cases assms(4) by fastforce
  then show ?thesis using ev by blast
qed simp

theorem outcomes_final_witness:
  "\<exists>e e'. engine_step demo_cf e e' \<and> deriveState (events_in (eg_mgr e) demo_rfq) = Inr (Some demo_s5) \<and> state demo_s5 = COMMITTED \<and>
     (events_in (eg_mgr e') demo_rfq = demo_log \<or>
      (\<exists>ev. ev_type ev = SETTLEMENT_CONFIRMED \<and> events_in (eg_mgr e') demo_rfq = demo_log @ [ev]))"
proof -
  obtain e where e: "engine_reach demo_cf e" "events_in (eg_mgr e) demo_rfq = demo_log" "deriveState demo_log = Inr (Some demo_s5)"
    using demo_engine by blast
  obtain v m where "getSession 0 demo_rfq (eg_mgr e) = (v, m)" by fastforce
  then have s: "engine_step demo_cf e (e\<lparr>eg_mgr := m\<rparr>)" by (rule engine_step.read_session)
  have c: "state demo_s5 = COMMITTED" by (simp add: demo_s5_def)
  have d: "deriveState (events_in (eg_mgr e) demo_rfq) = Inr (Some demo_s5)" using e by simp
  from outcomes_final[OF e(1) s d] c show ?thesis using e s by (intro exI conjI) auto
qed

text \<open>
  C25. The session cache is transparent: reading a session of a reachable engine gives exactly what
  replaying its log gives, hit or miss, stale or not, and reading changes no log.
\<close>

theorem cache_transparent:
  assumes "engine_reach cf e" "getSession now r (eg_mgr e) = (v, m)"
  shows "v = deriveState (events_in (eg_mgr e) r) \<and> events_in m = events_in (eg_mgr e)"
  using sessions.get_value[of "eg_mgr e" now r] quiet_getSession[of "eg_mgr e" now r] engine_reach_ok[OF assms(1)] assms(2)
  by (simp add: engine_ok_def quiet_def)

theorem cache_transparent_witness:
  "\<exists>e m. engine_reach demo_cf e \<and> getSession 0 demo_rfq (eg_mgr e) = (Inr (Some demo_s5), m)"
proof -
  obtain e where e: "engine_reach demo_cf e" "events_in (eg_mgr e) demo_rfq = demo_log" "deriveState demo_log = Inr (Some demo_s5)"
    using demo_engine by blast
  obtain v m where g: "getSession 0 demo_rfq (eg_mgr e) = (v, m)" by fastforce
  from cache_transparent[OF e(1) g] show ?thesis using e g by (intro exI conjI) auto
qed

text \<open>
  \<open>CANCELLED\<close> is never reached: no route and no scan of the engine cancels a negotiation,
  although the state, its event and the control action \<open>cancel\<close> exist.
\<close>

theorem never_cancelled:
  assumes "engine_reach cf e" "deriveState (events_in (eg_mgr e) r) = Inr (Some s)"
  shows "state s \<noteq> CANCELLED"
  using reach_uncancelled[OF assms] .

theorem never_cancelled_witness: "state demo_s5 \<noteq> CANCELLED"
  using never_cancelled[of demo_cf _ demo_rfq demo_s5] demo_engine by metis

section \<open>Reading a session\<close>

lemma reach_ok: "engine_reach cf e \<Longrightarrow> manager_ok (eg_mgr e)"
  using engine_reach_ok by (simp add: engine_ok_def)

text \<open>
  C7. Sellers are isolated from each other: who reads the events of a session of the engine without
  being its buyer has made an offer in it, and sees of the log only its own offers, the counters
  addressed to it, and the steps of a quote only if it is the selected seller.
\<close>

theorem events_private:
  assumes "engine_reach cf e" "getEventsJson now d r c (eg_mgr e) = (Inr pg, m')"
    "deriveState (events_in (eg_mgr e) r) = Inr (Some s)" "d \<noteq> buyer (rfq s)" "ev \<in> set (pg_events pg)"
  shows "(\<exists>off \<in> set (offers s). o_seller off = d) \<and> ev \<in> set (events_in (eg_mgr e) r) \<and>
     (ev_type ev = OFFER_SUBMITTED \<longrightarrow> ev_actor ev = d) \<and>
     (ev_type ev = COUNTER_SENT \<longrightarrow> as_string (map_of (ev_payload ev) ''to'') = Some d) \<and>
     (ev_type ev \<notin> {RFQ_CREATED, NEGOTIATION_EXPIRED, NEGOTIATION_CANCELLED, OFFER_SUBMITTED, COUNTER_SENT} \<longrightarrow>
        as_string (map_of (ev_payload ev) ''seller'') = Some d)"
proof -
  obtain s' where s': "deriveState (events_in (eg_mgr e) r) = Inr (Some s')" "isParticipant d (buyer (rfq s')) (offers s')"
      "pg_events pg = visible d (buyer (rfq s')) (after_cursor c (events_in (eg_mgr e) r))"
    using getEventsJson_Inr[OF reach_ok[OF assms(1)] assms(2)] by metis
  have s: "s' = s" using s'(1) assms(3) by simp
  have vis: "isEventVisibleTo ev d (buyer (rfq s))" "ev \<in> set (events_in (eg_mgr e) r)"
    using assms(5) s'(3) after_cursor_suffix[of "events_in (eg_mgr e) r" c] unfolding s by auto (metis Un_iff set_append)
  then show ?thesis
    using s'(2) assms(4) unfolding s
    by (cases "ev_type ev") (auto simp: isParticipant_def list_ex_iff isEventVisibleTo_def)
qed

lemma demo_parties: "buyer (rfq demo_s5) = demo_B" "offers demo_s5 = [demo_offer]" "o_seller demo_offer = demo_S"
  by (simp_all add: demo_sessions demo_session_rfq_def demo_offer_def)

theorem events_private_witness:
  "\<exists>e pg m'. engine_reach demo_cf e \<and> getEventsJson 0 demo_S demo_rfq None (eg_mgr e) = (Inr pg, m') \<and> demo_e1 \<in> set (pg_events pg) \<and>
     ev_actor demo_e1 = demo_S"
proof -
  obtain e where e: "engine_reach demo_cf e" "events_in (eg_mgr e) demo_rfq = demo_log" "deriveState demo_log = Inr (Some demo_s5)"
    using demo_engine by blast
  let ?p = "visible demo_S (buyer (rfq demo_s5)) (after_cursor None (events_in (eg_mgr e) demo_rfq))"
  obtain m' where g: "getEventsJson 0 demo_S demo_rfq None (eg_mgr e) = (Inr \<lparr>pg_events = ?p, pg_cursor = next_cursor None ?p\<rparr>, m')"
    using getEventsJson_answers[OF reach_ok[OF e(1)], of demo_rfq demo_s5 demo_S None ?p 0] e
    by (auto simp: isParticipant_def cursor_ok_def demo_parties)
  have "ev_actor demo_e1 = demo_S" "isEventVisibleTo demo_e1 demo_S b" for b
    by (simp_all add: isEventVisibleTo_def demo_e1_def mk_event_def string_of_def demo_offer_body_def)
  note e1 = this
  have in_p: "demo_e1 \<in> set ?p" using e(2) e1(2) by (simp add: after_cursor_def demo_log_def)
  have "demo_S \<noteq> buyer (rfq demo_s5)" by (simp add: demo_parties demo_did_def)
  then have "ev_type demo_e1 = OFFER_SUBMITTED \<longrightarrow> ev_actor demo_e1 = demo_S"
    using events_private[OF e(1) g, of demo_s5 demo_e1] e(2,3) in_p by simp
  moreover have "ev_type demo_e1 = OFFER_SUBMITTED" by (simp add: demo_e1_def mk_event_def)
  ultimately have "ev_actor demo_e1 = demo_S" by blast
  then show ?thesis using e(1) g in_p by (intro exI conjI) (assumption | simp)+
qed

text \<open>
  Witness for C24: the buyer of the demonstration run connects to the stream of its session, which is
  open then and holds the one slot; after it has disconnected there is neither.
\<close>

theorem no_slot_leaks_witness:
  "\<exists>w i. stream_reach (\<lambda>_. demo_B) w \<and> length (sw_open w) = 1 \<and> length (ct_conns (sw_ct w)) = 1 \<and>
     length (ct_conns (sw_ct (cleanup i w))) = 0"
proof -
  obtain e where e: "at_log demo_cf demo_rfq [demo_e0, demo_e1, demo_e2] demo_listings no_tombstones e" using demo_countered by blast
  let ?w0 = "\<lparr>sw_mgr = eg_mgr e, sw_ct = new_tracker, sw_open = []\<rparr>"
  have ok: "manager_ok (eg_mgr e)" using e reach_ok[of demo_cf e] by (simp add: at_log_def)
  have d: "deriveState (events_in (eg_mgr e) demo_rfq) = Inr (Some demo_s2)" "state demo_s2 \<notin> set TERMINAL_STATES"
    using e demo_derive2 by (simp_all add: at_log_def demo_sessions TERMINAL_STATES_def)
  have b: "buyer (rfq demo_s2) = demo_B" by (simp add: demo_sessions demo_session_rfq_def)
  obtain i frames w where w: "getEventsStream 0 demo_B demo_rfq None None ?w0 = (Inr (Some i, frames), w)" "length (sw_open w) = 1"
    using getEventsStream_opens[OF ok d, of demo_B 0] b by (auto simp: isParticipant_def)
  have r: "stream_reach (\<lambda>_. demo_B) w"
    using stream_reach.step[OF stream_reach.start[OF ok]] stream_step.connect[OF _ b w(1)] d(1) by simp
  then have one: "length (ct_conns (sw_ct w)) = 1" using no_slot_leaks[OF r] w(2) by simp
  obtain j st where j: "sw_open w = [(j, st)]" using w(2) by (cases "sw_open w") auto
  have "length (sw_open (cleanup j w)) = 0" by (simp add: j cleanup_def drop_stream_effect)
  moreover have "stream_reach (\<lambda>_. demo_B) (cleanup j w)" using stream_reach.step[OF r stream_step.disconnect] .
  ultimately have "length (ct_conns (sw_ct (cleanup j w))) = 0" using no_slot_leaks[of "\<lambda>_. demo_B" "cleanup j w"] by simp
  then show ?thesis using r w(2) one by blast
qed

theorem dashboard_correct_witness:
  "\<exists>e st ids. watched demo_cf e st \<and> demo_rfq \<in> set ids \<and> total_sessions (getStats st) = length ids \<and>
     core (replay_stats demo_platform 0 0 ids (events_in (eg_mgr e))) = core st"
proof -
  obtain e where e: "engine_reach demo_cf e" "events_in (eg_mgr e) demo_rfq = demo_log" using demo_engine by blast
  obtain st where st: "watched demo_cf e st" using watched_exists[OF e(1)] by blast
  have "finite {r. events_in (eg_mgr e) r \<noteq> []}" using engine_logs_fine[OF e(1)] by (simp add: logs_fine_def)
  then obtain ids where ids: "set ids = {r. events_in (eg_mgr e) r \<noteq> []}" "distinct ids" using finite_distinct_list by metis
  have "demo_rfq \<in> set ids" using ids(1) e(2) by (simp add: demo_log_def)
  then show ?thesis using dashboard_correct[OF st ids(2,1), of OPEN 0 0] st by (auto simp: demo_cf_def)
qed

theorem admin_stream_exact_witness:
  "\<exists>e ob strm. engine_reach demo_cf e \<and> observing (eg_mgr e) ob \<and> map_of (ob_streams ob) 0 = Some strm \<and> st_phase strm = Streaming \<and>
     st_sent strm = with_states demo_log \<and> adminSseConnections ob = length (ob_streams ob)"
proof -
  obtain e where e: "engine_reach demo_cf e" "events_in (eg_mgr e) demo_rfq = demo_log" using demo_engine by blast
  let ?m = "eg_mgr e"
  obtain a b where sub: "subscribeAdmin demo_rfq 0 (ob_bc no_observers) = (a, b)" by fastforce
  define strm where "strm = \<lparr>st_rfq = demo_rfq, st_subs = a, st_phase = Subscribed, st_buffer = [], st_replay = [], st_snapshot = [], st_sent = []\<rparr>"
  define ob where "ob = no_observers\<lparr>adminSseConnections := 1, ob_bc := b, ob_streams := [(0, strm)]\<rparr>"
  have "hasSession demo_rfq ?m" using e(2) by (simp add: hasSession_def store_size_eq events_in_def demo_log_def)
  then have op: "openAdminStream 0 demo_rfq ?m no_observers = (Inr (), ob)"
    using sub by (simp add: openAdminStream_def ob_def strm_def) (simp add: no_observers_def MAX_ADMIN_SSE_def)
  have "\<forall>x \<in> set (events_in ?m demo_rfq). ev_id x \<noteq> []"
    using e(2) by (simp add: demo_log_def demo_e0_def demo_e1_def demo_e2_def demo_e3_def demo_e4_def demo_e5_def mk_event_def)
  then have "observing ?m ob"
    using observing.open_stream[OF observing.start[OF reach_ok[OF e(1)]] _ op] by (simp add: no_observers_def)
  then have o: "observing ?m (advanceStream 0 ?m (advanceStream 0 ?m (advanceStream 0 ?m ob)))" by (intro observing.advance)
  let ?ob = "advanceStream 0 ?m (advanceStream 0 ?m (advanceStream 0 ?m ob))"
  let ?strm = "advance (events_in ?m) (advance (events_in ?m) (advance (events_in ?m) strm))"
  have m: "map_of (ob_streams ?ob) 0 = Some ?strm" by (simp add: advanceStream_def ob_def)
  have p: "st_phase ?strm = Streaming" "st_rfq ?strm = demo_rfq"
    by (simp_all add: advance_def strm_def read_replay_def dedupe_buffer_def activate_stream_def Let_def)
  have "st_sent ?strm = with_states demo_log \<and> adminSseConnections ?ob = length (ob_streams ?ob)"
    using admin_stream_exact[OF o m p(1)] e(2) p(2) by simp
  then show ?thesis using e(1) o m p(1) by blast
qed

theorem sqlite_listings_refine_witness:
  "sql_listing_findBySellerAndId demo_S ''l1''
       [\<lparr>lr_listing_id = ''l1'', lr_seller = demo_S, lr_service_type = ''audit'', lr_payload = demo_listing\<rparr>] = Some demo_listing \<and>
   sql_listing_add demo_platform True demo_listing
       [\<lparr>lr_listing_id = ''l1'', lr_seller = demo_S, lr_service_type = ''audit'', lr_payload = demo_listing\<rparr>] =
     Inl (JsError (''ListingStore: duplicate listing_id '' @ quote_str ''l1''))"
proof -
  let ?rows = "[\<lparr>lr_listing_id = ''l1'', lr_seller = demo_S, lr_service_type = ''audit'', lr_payload = demo_listing\<rparr>]"
  have n: "normalizeListingForStorage demo_platform demo_listing = Inr demo_listing" by (rule demo_normalized)
  have m: "mem_listings ?rows = demo_listings" by (simp add: mem_listings_def demo_listings_def)
  have l: "listings_ok demo_platform demo_listings"
    using store_add_ok[of demo_platform "[]" demo_listing] demo_stored by (simp add: listings_ok_def)
  then have ok: "rows_ok demo_platform ?rows" by (simp add: rows_ok_def m) (simp add: listing_row_of_def demo_listing_def)
  have "map_sum id mem_listings (sql_listing_add demo_platform True demo_listing ?rows) = Inl (JsError (''ListingStore: duplicate listing_id '' @ quote_str ''l1''))"
    using sqlite_listings_refine[OF ok, of demo_listing "[]" demo_S "[]"] n
    by (simp add: m store_add_def demo_listings_def MAX_LISTINGS_def) (simp add: listing_id_of_def demo_listing_def)
  moreover have "sql_listing_findBySellerAndId demo_S ''l1'' ?rows = Some demo_listing"
    using sqlite_listings_refine[OF ok, of demo_listing "''l1''" demo_S "[]"]
    by (simp add: m findBySellerAndId_def demo_listings_def) (simp add: demo_listing_def)
  ultimately show ?thesis by (cases "sql_listing_add demo_platform True demo_listing ?rows") auto
qed

section \<open>Time\<close>

lemma demo_timeout: "cosign_timeout (cf_cosignTimeout demo_cf) = 60000"
  by (simp add: cosign_timeout_def clamp_def demo_cf_def DEFAULT_COSIGN_TIMEOUT_MS_def MIN_COSIGN_TIMEOUT_MS_def MAX_COSIGN_TIMEOUT_MS_def)

lemma demo_platform_cf: "cf_platform demo_cf = demo_platform"
  by (simp add: demo_cf_def)

text \<open>
  C8. Open sessions end: once the deadline of a session has passed, a scan of the enforcer that
  reaches it starts an attempt to expire it and awaits its lock. Whatever steps the engine takes
  meanwhile, when the lock is granted to the attempt the session is over afterwards: expired, with
  everything else of it as it was, unless it had come to an end by then, which is kept. When
  the lock is refused (the session is busy) the session is as it was, and the next scan starts
  another attempt. The event id must be new, as a random UUID is, and the clock must not run backwards.
\<close>

theorem scan_expires_session:
  assumes "engine_reach cf e" "deriveState (events_in (eg_mgr e) r) = Inr (Some s)" "state s \<notin> {COMMITTED, EXPIRED, CANCELLED}"
    "parse_date (cf_platform cf) (deadline (rfq s)) = Some t" "t \<le> now" "en_attempt (eg_enf e) = None"
    "scan_session (cf_platform cf) (cosign_timeout (cf_cosignTimeout cf)) now removal r (eg_enf e) (eg_mgr e) = (en, m)"
  shows "en_attempt en = Some (ExpireSession r) \<and>
     (\<forall>e1 granted now' u en2 m2.
        (engine_step cf)\<^sup>*\<^sup>* (e\<lparr>eg_mgr := m, eg_enf := en\<rparr>) e1 \<longrightarrow> en_attempt (eg_enf e1) = Some (ExpireSession r) \<longrightarrow>
        now \<le> now' \<longrightarrow> u \<notin> set (es_seen (sm_store (eg_mgr e1))) \<longrightarrow>
        run_attempt (cf_platform cf) (cosign_timeout (cf_cosignTimeout cf)) granted now' u (eg_enf e1) (eg_mgr e1) = (en2, m2) \<longrightarrow>
        (\<exists>s1. deriveState (events_in (eg_mgr e1) r) = Inr (Some s1) \<and> rfq s1 = rfq s \<and> en_attempt en2 = None \<and>
           deriveState (events_in m2 r) = Inr (Some
             (if granted \<and> state s1 \<notin> {COMMITTED, EXPIRED, CANCELLED} then s1\<lparr>lastEventId := u, state := EXPIRED\<rparr> else s1))))"
proof -
  let ?e = "e\<lparr>eg_mgr := m, eg_enf := en\<rparr>"
  have st: "state s \<notin> set TERMINAL_STATES" using assms(3) by (simp add: TERMINAL_STATES_def)
  then have "scan_action_of (cf_platform cf) (cosign_timeout (cf_cosignTimeout cf)) now s = Expire"
    using assms(4,5) by (cases "state s") (simp_all add: scan_action_of_def time_passed_def TERMINAL_STATES_def EXPIRABLE_STATES_def)
  then have at: "en_attempt en = Some (ExpireSession r)" by (rule scan_starts(2)[OF assms(1,2) st assms(7)])
  have e': "engine_reach cf ?e" using engine_step.scan[OF assms(6,7)] assms(1) engine_reach.step by blast
  have d': "deriveState (events_in (eg_mgr ?e) r) = Inr (Some s)" using scan_starts(1)[OF assms(1,2) st assms(7)] assms(2) by simp
  show ?thesis
  proof (intro conjI allI impI at)
    fix e1 granted now' u en2 m2
    assume steps: "(engine_step cf)\<^sup>*\<^sup>* ?e e1" and a: "en_attempt (eg_enf e1) = Some (ExpireSession r)" and "now \<le> now'"
      and u: "u \<notin> set (es_seen (sm_store (eg_mgr e1)))"
      and run: "run_attempt (cf_platform cf) (cosign_timeout (cf_cosignTimeout cf)) granted now' u (eg_enf e1) (eg_mgr e1) = (en2, m2)"
    obtain s1 where s1: "deriveState (events_in (eg_mgr e1) r) = Inr (Some s1)" "rfq s1 = rfq s"
      using steps_session[OF steps e' d'] by blast
    have "parse_date (cf_platform cf) (deadline (rfq s1)) = Some t" "t \<le> now'" using s1 assms(4,5) \<open>now \<le> now'\<close> by auto
    then show "\<exists>s1. deriveState (events_in (eg_mgr e1) r) = Inr (Some s1) \<and> rfq s1 = rfq s \<and> en_attempt en2 = None \<and>
           deriveState (events_in m2 r) = Inr (Some
             (if granted \<and> state s1 \<notin> {COMMITTED, EXPIRED, CANCELLED} then s1\<lparr>lastEventId := u, state := EXPIRED\<rparr> else s1))"
      using expiry_turn[OF reach_manager_ok[OF steps_reach[OF steps e']] s1(1) _ _ u a run] s1
      by (auto simp: TERMINAL_STATES_def)
  qed
qed

theorem scan_expires_session_witness:
  "\<exists>e en m en2 m2. engine_reach demo_cf e \<and>
     scan_session demo_platform 60000 1893456000000 LockKept demo_rfq (eg_enf e) (eg_mgr e) = (en, m) \<and>
     run_attempt demo_platform 60000 True 1893456000000 ''u'' en m = (en2, m2) \<and>
     deriveState (events_in m2 demo_rfq) = Inr (Some (demo_s2\<lparr>lastEventId := ''u'', state := EXPIRED\<rparr>))"
proof -
  obtain e where e: "at_log demo_cf demo_rfq [demo_e0, demo_e1, demo_e2] demo_listings no_tombstones e" using demo_countered by blast
  obtain en m where sc: "scan_session demo_platform 60000 1893456000000 LockKept demo_rfq (eg_enf e) (eg_mgr e) = (en, m)"
    by fastforce
  obtain en2 m2 where ru: "run_attempt demo_platform 60000 True 1893456000000 ''u'' en m = (en2, m2)" by fastforce
  have t: "cosign_timeout (cf_cosignTimeout demo_cf) = 60000" by (rule demo_timeout)
  have d: "deriveState (events_in (eg_mgr e) demo_rfq) = Inr (Some demo_s2)" "state demo_s2 \<notin> {COMMITTED, EXPIRED, CANCELLED}"
    using e demo_derive2 by (simp_all add: at_log_def demo_sessions)
  have dl: "parse_date (cf_platform demo_cf) (deadline (rfq demo_s2)) = Some 1893456000000"
    using demo_future(2) by (simp add: demo_sessions demo_session_rfq_def demo_cf_def)
  have ev: "events_in m = events_in (eg_mgr e)" using scan_quiet[OF sc] by (simp add: quiet_def)
  have u: "''u'' \<notin> set (es_seen (sm_store m))"
    using e scan_seen[OF sc] by (simp add: at_log_def demo_e0_def demo_e1_def demo_e2_def)
  have r: "engine_reach demo_cf e" "en_attempt (eg_enf e) = None" using e by (simp_all add: at_log_def)
  note turn = scan_expires_session[OF r(1) d dl order_refl r(2) sc[folded t, folded demo_platform_cf]]
  obtain s1 where s1: "deriveState (events_in m demo_rfq) = Inr (Some s1)" "deriveState (events_in m2 demo_rfq) = Inr (Some
      (if state s1 \<notin> {COMMITTED, EXPIRED, CANCELLED} then s1\<lparr>lastEventId := ''u'', state := EXPIRED\<rparr> else s1))"
    using conjunct2[OF turn, rule_format, of "e\<lparr>eg_mgr := m, eg_enf := en\<rparr>" 1893456000000 "''u''" True en2 m2]
      conjunct1[OF turn] u ru by (auto simp: t demo_platform_cf)
  then have "s1 = demo_s2" using d(1) ev by simp
  then show ?thesis using s1(2) d(2) r(1) sc ru by (simp only: if_True simp_thms) blast
qed

text \<open>
  C9. A silent seller does not block the buyer: once a selection has waited for its co-signature as
  long as the timeout, and the deadline has not passed, a scan that reaches the session starts an attempt to take the
  selection back. Whatever steps the engine takes meanwhile, when the lock is granted to the attempt and
  the session still has a selection that has waited that long, it is back in \<open>NEGOTIATING\<close> afterwards with the selection, its
  quote and any signature withdrawn, and with offers, counters and accept counts as they were; a
  session that has moved on is left alone, and so is any session when the lock is refused. If no event was
  written meanwhile, the selection has still waited that long (\<open>now \<le> now'\<close>).
\<close>

theorem scan_times_out_cosign:
  assumes "engine_reach cf e" "deriveState (events_in (eg_mgr e) r) = Inr (Some s)" "state s = COMMIT_PENDING"
    "\<not> time_passed (cf_platform cf) now (deadline (rfq s))" "timeout = cosign_timeout (cf_cosignTimeout cf)"
    "commitPendingAt s = Some since" "parse_date (cf_platform cf) since = Some t" "t + timeout \<le> now" "en_attempt (eg_enf e) = None"
    "scan_session (cf_platform cf) timeout now removal r (eg_enf e) (eg_mgr e) = (en, m)"
  shows "en_attempt en = Some (TimeOutSession r) \<and>
     (\<forall>e1 granted now' u en2 m2.
        (engine_step cf)\<^sup>*\<^sup>* (e\<lparr>eg_mgr := m, eg_enf := en\<rparr>) e1 \<longrightarrow> en_attempt (eg_enf e1) = Some (TimeOutSession r) \<longrightarrow>
        now \<le> now' \<longrightarrow> u \<notin> set (es_seen (sm_store (eg_mgr e1))) \<longrightarrow>
        run_attempt (cf_platform cf) timeout granted now' u (eg_enf e1) (eg_mgr e1) = (en2, m2) \<longrightarrow>
        (\<exists>s1. deriveState (events_in (eg_mgr e1) r) = Inr (Some s1) \<and> rfq s1 = rfq s \<and> en_attempt en2 = None \<and>
           (commitPendingAt s1 = commitPendingAt s \<and> state s1 = COMMIT_PENDING \<longrightarrow> overdue (cf_platform cf) timeout now' s1) \<and>
           deriveState (events_in m2 r) = Inr (Some
             (if granted \<and> overdue (cf_platform cf) timeout now' s1
              then s1\<lparr>lastEventId := u, state := NEGOTIATING, selectedSeller := None, selectedOfferId := None,
                unsignedQuote := None, buyerSignature := None, sellerSignature := None, commitPendingAt := None\<rparr>
              else s1))))"
proof -
  let ?e = "e\<lparr>eg_mgr := m, eg_enf := en\<rparr>"
  have st: "state s \<notin> set TERMINAL_STATES" using assms(3) by (simp add: TERMINAL_STATES_def)
  then have "scan_action_of (cf_platform cf) timeout now s = TimeOutCosign"
    using assms(3,4,6,7,8) by (simp add: scan_action_of_def waited_def)
  then have at: "en_attempt en = Some (TimeOutSession r)" by (rule scan_starts(3)[OF assms(1,2) st assms(10)])
  have e': "engine_reach cf ?e"
    using engine_step.scan[OF assms(9) assms(10)[unfolded assms(5)]] assms(1) engine_reach.step by blast
  have d': "deriveState (events_in (eg_mgr ?e) r) = Inr (Some s)" using scan_starts(1)[OF assms(1,2) st assms(10)] assms(2) by simp
  show ?thesis
  proof (intro conjI allI impI at)
    fix e1 granted now' u en2 m2
    assume steps: "(engine_step cf)\<^sup>*\<^sup>* ?e e1" and a: "en_attempt (eg_enf e1) = Some (TimeOutSession r)" and "now \<le> now'"
      and u: "u \<notin> set (es_seen (sm_store (eg_mgr e1)))"
      and run: "run_attempt (cf_platform cf) timeout granted now' u (eg_enf e1) (eg_mgr e1) = (en2, m2)"
    obtain s1 where s1: "deriveState (events_in (eg_mgr e1) r) = Inr (Some s1)" "rfq s1 = rfq s"
      using steps_session[OF steps e' d'] by blast
    have "commitPendingAt s1 = commitPendingAt s \<and> state s1 = COMMIT_PENDING \<longrightarrow> overdue (cf_platform cf) timeout now' s1"
      using assms(6,7,8) \<open>now \<le> now'\<close> by (simp add: overdue_def)
    then show "\<exists>s1. deriveState (events_in (eg_mgr e1) r) = Inr (Some s1) \<and> rfq s1 = rfq s \<and> en_attempt en2 = None \<and>
           (commitPendingAt s1 = commitPendingAt s \<and> state s1 = COMMIT_PENDING \<longrightarrow> overdue (cf_platform cf) timeout now' s1) \<and>
           deriveState (events_in m2 r) = Inr (Some
             (if granted \<and> overdue (cf_platform cf) timeout now' s1 then rolled_back u s1 else s1))"
      using timeout_turn[OF steps_reach[OF steps e'] s1(1) u a run] s1 by blast
  qed
qed

theorem scan_times_out_cosign_witness:
  "\<exists>e en m en2 m2 s2. engine_reach demo_cf e \<and>
     scan_session demo_platform 60000 60000 LockKept demo_rfq (eg_enf e) (eg_mgr e) = (en, m) \<and>
     run_attempt demo_platform 60000 True 60000 ''u'' en m = (en2, m2) \<and>
     deriveState (events_in m2 demo_rfq) = Inr (Some s2) \<and> state s2 = NEGOTIATING \<and> offers s2 = [demo_offer]"
proof -
  obtain e where e: "at_log demo_cf demo_rfq [demo_e0, demo_e1, demo_e2, demo_e3] demo_listings (tomb_use 0 ''v1'' no_tombstones) e"
    using demo_accepted by blast
  obtain en m where sc: "scan_session demo_platform 60000 60000 LockKept demo_rfq (eg_enf e) (eg_mgr e) = (en, m)" by fastforce
  obtain en2 m2 where ru: "run_attempt demo_platform 60000 True 60000 ''u'' en m = (en2, m2)" by fastforce
  have t: "60000 = cosign_timeout (cf_cosignTimeout demo_cf)" using demo_timeout by simp
  have s3: "state demo_s3 = COMMIT_PENDING" "deadline (rfq demo_s3) = demo_deadline" "commitPendingAt demo_s3 = Some (to_iso 0)"
    "offers demo_s3 = [demo_offer]"
    by (simp_all add: demo_sessions demo_session_rfq_def)
  have d: "deriveState (events_in (eg_mgr e) demo_rfq) = Inr (Some demo_s3)" using e demo_derive3 by (simp add: at_log_def)
  have np: "\<not> time_passed (cf_platform demo_cf) 60000 (deadline (rfq demo_s3))"
    using demo_future(2) by (simp add: s3 time_passed_def demo_cf_def)
  have z: "parse_date (cf_platform demo_cf) (to_iso 0) = Some 0" by (rule parse_date_to_iso) (simp_all add: demo_year)
  have ev: "events_in m = events_in (eg_mgr e)" using scan_quiet[OF sc] by (simp add: quiet_def)
  have u: "''u'' \<notin> set (es_seen (sm_store m))"
    using e scan_seen[OF sc] by (simp add: at_log_def demo_e0_def demo_e1_def demo_e2_def demo_e3_def)
  have r: "engine_reach demo_cf e" "en_attempt (eg_enf e) = None" using e by (simp_all add: at_log_def)
  note turn = scan_times_out_cosign[OF r(1) d s3(1) np t s3(3) z _ r(2) sc[folded demo_platform_cf], simplified]
  obtain s1 where s1: "deriveState (events_in m demo_rfq) = Inr (Some s1)"
    "commitPendingAt s1 = commitPendingAt demo_s3 \<and> state s1 = COMMIT_PENDING \<longrightarrow> overdue demo_platform 60000 60000 s1"
    "deriveState (events_in m2 demo_rfq) = Inr (Some (if overdue demo_platform 60000 60000 s1 then rolled_back ''u'' s1 else s1))"
    using conjunct2[OF turn, rule_format, of "e\<lparr>eg_mgr := m, eg_enf := en\<rparr>" 60000 "''u''" True en2 m2]
      conjunct1[OF turn] u ru by (auto simp: demo_platform_cf)
  then have "s1 = demo_s3" using d ev by simp
  then have "deriveState (events_in m2 demo_rfq) = Inr (Some (rolled_back ''u'' demo_s3))" using s1(2,3) s3(1) by simp
  then show ?thesis using r(1) sc ru s3(4)
    by (intro exI[of _ e] exI[of _ en] exI[of _ m] exI[of _ en2] exI[of _ m2] exI[of _ "rolled_back ''u'' demo_s3"]) simp
qed


section \<open>Responses\<close>

text \<open>
  C29. Errors write nothing: if a request that waited for its session is answered with an error,
  whatever the error (a failed guard, an event the reducer refuses, a duplicate event id), every
  log is as it was.
\<close>

theorem error_writes_nothing:
  assumes "proceed cf gr now now' u qid rnd q e = (Some (Inl x), e')"
  shows "events_in (eg_mgr e') = events_in (eg_mgr e)"
  using assms by (rule proceed_error)

theorem error_writes_nothing_witness:
  "\<exists>e e' x. engine_reach demo_cf e \<and> proceed demo_cf True 0 0 ''e6'' [] [] (AwaitCosign demo_rfq []) e = (Some (Inl x), e') \<and>
     events_in (eg_mgr e') demo_rfq = demo_log"
proof -
  obtain e where e: "engine_reach demo_cf e" "events_in (eg_mgr e) demo_rfq = demo_log" "deriveState demo_log = Inr (Some demo_s5)"
    using demo_engine by blast
  let ?m = "(eg_mgr e)\<lparr>sm_active := List.insert demo_rfq (sm_active (eg_mgr e))\<rparr>"
  have "manager_ok ?m" using reach_manager_ok[OF e(1)] by (simp add: manager_ok_def cache_ok_def logs_ok_def)
  then obtain m1 where "getSession 0 demo_rfq ?m = (Inr (Some demo_s5), m1)"
    using sessions.get_value[of ?m 0 demo_rfq] e(2,3) by (cases "getSession 0 demo_rfq ?m") auto
  moreover have "\<exists>x. cosign_guard demo_platform 0 [] demo_s5 = Inl x"
    by (simp add: cosign_guard_def assertState_def demo_s5_facts)
  ultimately obtain x e' where p: "proceed demo_cf True 0 0 ''e6'' [] [] (AwaitCosign demo_rfq []) e = (Some (Inl x), e')"
    by (auto simp: putCosign_def withLock_def cosign_locked_def Let_def demo_cf_def)
  have "events_in (eg_mgr e') demo_rfq = demo_log" using error_writes_nothing[OF p] e(2) by simp
  then show ?thesis using e p by blast
qed

text \<open>
  Success means written: a request other than a settlement that is answered with success has
  extended the log of one session by exactly one event, before the response is sent.
\<close>

theorem success_writes_one:
  assumes "proceed cf gr now now' u qid rnd q e = (Some (Inr y), e')" "\<forall>r v. q \<noteq> AwaitExecute r v" "\<forall>r t v i. q \<noteq> AwaitReport r t v i"
  shows "\<exists>ev. events_in (eg_mgr e') = (events_in (eg_mgr e))(ev_rfq ev := events_in (eg_mgr e) (ev_rfq ev) @ [ev])"
  using proceed_success[OF assms] by blast

theorem success_writes_one_witness:
  "\<exists>y e' ev. proceed demo_cf True 0 0 ''e0'' [] [] (AwaitRfq demo_rfq_body) engine_start = (Some (Inr y), e') \<and>
     events_in (eg_mgr e') (ev_rfq ev) = [ev]"
proof -
  have es: "events_in new_manager r = []" for r
    by (simp add: events_in_def getAllEvents_def empty_store_def new_manager_def)
  have "\<exists>m'. withLock True 0 demo_rfq (rfq_locked demo_platform 0 ''e0'' demo_rfq_body demo_rfq) new_manager = (Inr (id demo_s0), m') \<and>
      events_in m' = (events_in new_manager)(demo_rfq := events_in new_manager demo_rfq @ [demo_e0]) \<and>
      es_seen (sm_store m') = es_seen (sm_store new_manager) @ [ev_id demo_e0]"
  proof (rule withLock_progress[where so = None and h = id])
    show "rfq_locked demo_platform 0 ''e0'' demo_rfq_body demo_rfq None m1 =
        (case appendEvent 0 demo_rfq demo_e0 m1 of (Inl x, m2) \<Rightarrow> (Inl x, m2) | (Inr s, m2) \<Rightarrow> (Inr (id s), m2))"
      if "events_in m1 = events_in new_manager" for m1
      using that es by (auto simp: rfq_locked_def demo_e0_def hasSession_def store_size_eq events_in_def[symmetric]
          split: prod.splits sum.splits)
    show "ev_id demo_e0 \<notin> set (es_seen (sm_store new_manager))" by (simp add: new_manager_def empty_store_def)
    show "ev_rfq demo_e0 = demo_rfq" by (simp add: demo_e0_def)
  qed (use es demo_derive0 manager_ok_start in simp_all)
  moreover have "jget demo_rfq_body ''rfq_id'' = Some (JStr demo_rfq)" by (simp add: demo_rfq_body_def)
  ultimately obtain y e' where p: "proceed demo_cf True 0 0 ''e0'' [] [] (AwaitRfq demo_rfq_body) engine_start = (Some (Inr y), e')"
    by (auto simp: postRfqs_def engine_start_def demo_cf_def)
  have "eg_mgr engine_start = new_manager" by (simp add: engine_start_def)
  then show ?thesis using success_writes_one[OF p] es p by auto
qed

text \<open>
  C15. Replay protection: a control envelope that was accepted is never accepted again. If the
  body passed all checks at time \<open>t\<close> and was tombstoned at \<open>t0\<close> within the hour that follows,
  then after any sequence of uses and sweeps by other requests, at clock readings between \<open>t0\<close>
  and \<open>t'\<close>, presenting the same body at time \<open>t'\<close> is refused, for any signer and session.
\<close>

theorem envelope_once:
  assumes "tombs_ok tb" "checkEnvelope P t body a r d tb code = Inr v"
    "t \<le> t0" "t0 \<le> t'" "\<forall>p \<in> set ops. t0 \<le> tomb_time p \<and> tomb_time p \<le> t'"
  shows "\<exists>e. checkEnvelope P t' body a' r' d' (tomb_run ops (tomb_use t0 (env_id v) tb)) code' = Inl e"
  using assms by (rule used_envelope_refused)

theorem envelope_once_witness:
  "\<exists>e. checkEnvelope demo_platform 5 (JObj (envelope_object demo_envelope)) ''accept'' demo_rfq demo_B
     (tomb_use 0 ''v1'' no_tombstones) ''invalid_buyer_signature'' = Inl e"
proof -
  have "tombs_ok no_tombstones" by (simp add: tombs_ok_def no_tombstones_def)
  then have "\<exists>e. checkEnvelope demo_platform 5 (JObj (envelope_object demo_envelope)) ''accept'' demo_rfq demo_B
      (tomb_run [] (tomb_use 0 (env_id demo_envelope) no_tombstones)) ''invalid_buyer_signature'' = Inl e"
    by (rule envelope_once[where t = 0 and code = "[]"]) (use demo_envelope_checked in simp_all)
  moreover have "env_id demo_envelope = ''v1''" by (simp add: demo_envelope_def)
  ultimately show ?thesis by (simp add: tomb_run_def)
qed

section \<open>Settlement\<close>

lemma mapped_error_Inr: "(case v of Inl x \<Rightarrow> Inl (f x) | Inr y \<Rightarrow> Inr y) = Inr z \<longleftrightarrow> v = Inr z"
  by (cases v) auto

text \<open>
  C5. A settle report is accepted only from the seller of a committed session, and only for a
  transaction on the chain that transfers exactly the price both parties committed to, in the
  configured mint, to that seller's token account.
\<close>

theorem settle_report_sound:
  assumes "engine_reach cf e" "admit cf now (PostSettleReport r caller body) e = (Inr q, m)"
  shows "\<exists>s o' tx sig. deriveState (events_in (eg_mgr e) r) = Inr (Some s) \<and> state s = COMMITTED \<and>
     o' \<in> set (offers s) \<and> selectedOfferId s = Some (o_offer_id o') \<and> o_seller o' = caller \<and>
     jget body ''tx_sig'' = Some (JStr sig) \<and> fetch_tx (sc_chain (cf_settle cf)) sig = Inr tx \<and>
     pays (cf_platform cf) (sc_mints (cf_settle cf)) (sc_chain (cf_settle cf)) (sc_usdcMint (cf_settle cf))
       (JObj [(''seller'', JStr caller), (''final_price'', JStr (o_price o'))]) tx"
proof -
  obtain s sig result where g: "getSession now r (eg_mgr e) = (Inr (Some s), m)" and c: "state s = COMMITTED"
    and sel: "selectedSeller s = Some caller" and sig: "jget body ''tx_sig'' = Some (JStr sig)"
    and v: "verifySettlement (cf_platform cf) (sc_mints (cf_settle cf)) (sc_chain (cf_settle cf)) now
        \<lparr>sr_quote = Some (signed_quote s (sellerSignature s)), sr_payment = sig,
         sr_usdcMint = sc_usdcMint (cf_settle cf), sr_cluster = sc_cluster (cf_settle cf)\<rparr> = Inr result"
    using assms(2) by (cases "getSession now r (eg_mgr e)")
      (auto simp: settle_report_pre_def mapped_error_Inr split: sum.splits option.splits if_splits)
  have d: "deriveState (events_in (eg_mgr e) r) = Inr (Some s)"
    using getSession_Some[OF reach_manager_ok[OF assms(1)] g] .
  obtain o' qt where o: "o' \<in> set (offers s)" "selectedOfferId s = Some (o_offer_id o')" "selectedSeller s = Some (o_seller o')"
    "unsignedQuote s = Some (JObj qt)" "quote_for (cf_platform cf) s o' qt"
    using reach_quotes[OF assms(1) d] c unfolding quote_inv_def by blast
  obtain tx where tx: "fetch_tx (sc_chain (cf_settle cf)) sig = Inr tx"
    "pays (cf_platform cf) (sc_mints (cf_settle cf)) (sc_chain (cf_settle cf)) (sc_usdcMint (cf_settle cf))
       (signed_quote s (sellerSignature s)) tx"
    using verifySettlement_facts[OF v] by auto
  have "jget (signed_quote s (sellerSignature s)) ''seller'' = Some (JStr caller)"
    "jget (signed_quote s (sellerSignature s)) ''final_price'' = Some (JStr (o_price o'))"
    using o sel by (simp_all add: signed_quote_def quote_for_def quote_fields_of_def)
  then have "pays (cf_platform cf) (sc_mints (cf_settle cf)) (sc_chain (cf_settle cf)) (sc_usdcMint (cf_settle cf))
       (JObj [(''seller'', JStr caller), (''final_price'', JStr (o_price o'))]) tx"
    using tx(2) by (simp add: pays_def)
  then show ?thesis using d c o sel sig tx(1) by (intro exI[of _ s] exI[of _ o'] exI[of _ tx] exI[of _ sig]) auto
qed

theorem settle_report_sound_witness:
  "\<exists>tx. pays demo_platform MINT_DECIMALS demo_chain sample_mint (JObj [(''seller'', JStr demo_S), (''final_price'', JStr ''9'')]) tx"
proof -
  obtain e where e: "engine_reach demo_cf e" "events_in (eg_mgr e) demo_rfq = demo_log" "deriveState demo_log = Inr (Some demo_s5)"
    using demo_engine by blast
  obtain m1 where g: "getSession 0 demo_rfq (eg_mgr e) = (Inr (Some demo_s5), m1)"
    using sessions.get_value[OF reach_manager_ok[OF e(1)], of 0 demo_rfq] e(2,3) by (cases "getSession 0 demo_rfq (eg_mgr e)") auto
  then obtain q where a: "admit demo_cf 0 (PostSettleReport demo_rfq demo_S demo_report) e = (Inr q, m1)"
    using demo_report_admitted by blast
  have o: "offers demo_s5 = [demo_offer]" "o_price demo_offer = ''9''" by (simp_all add: demo_sessions demo_offer_def)
  from settle_report_sound[OF e(1) a] show ?thesis using e o by (auto simp: demo_cf_def)
qed

text \<open>
  C32. The route \<open>/execute\<close> has no such guarantee: a session committed at a price of 9 can be
  recorded as settled at a price of 0.000001, on the strength of a quote neither party signed,
  because an expired quote is accepted without its signatures and only its id is compared with
  the committed one.
\<close>

theorem forged_settlement_recorded:
  "\<exists>e ev. engine_reach demo_cf e \<and> events_in (eg_mgr e) demo_rfq = demo_log @ [ev] \<and> ev_type ev = SETTLEMENT_CONFIRMED \<and>
     map_of (ev_payload ev) ''final_price'' = Some (JStr ''0.000001'') \<and> \<not> quote_signed demo_platform demo_forged \<and>
     deriveState demo_log = Inr (Some demo_s5) \<and> map o_price (offers demo_s5) = [''9'']"
  using forged_run demo_forged_unsigned demo_derive5
  by (auto simp: demo_log_def demo_sessions demo_offer_def)

end
